(* ===== verification/Prelude.thy ===== *)
theory Prelude
  imports Main "HOL-Library.Word"
begin

text \<open>
  Shared vocabulary of the development: results with errors as values, the functions of Go's
  \<^verbatim>\<open>strings\<close>, \<^verbatim>\<open>strconv\<close>, \<^verbatim>\<open>math/big\<close> and \<^verbatim>\<open>encoding/hex\<close> packages that the faucet uses, and
  the generic lemmas on digit strings, options and folds that the component theories share.

  A Go string is a byte string. It is a \<^typ>\<open>string\<close> here, one \<^typ>\<open>char\<close> per byte. UTF-8 decoding is modelled in full;
  \<^verbatim>\<open>strings.EqualFold\<close> identifies the runes that fold to an ASCII letter, which is all that matters when
  one of the two strings is ASCII. \<^verbatim>\<open>strings.ToLower\<close>, \<^verbatim>\<open>strings.TrimSpace\<close> and the digit classes
  are those of Go on ASCII text only: they leave bytes outside ASCII alone, where Go's functions would
  lower-case or trim further Unicode characters (U+212A and U+0130 lower-case to the letters k and i).
\<close>

named_theorems go_text \<open>unfolding of the modelled Go text functions\<close>
named_theorems digit_simps \<open>facts about decimal digit strings\<close>

type_synonym ('e, 'a) result = "'e + 'a"
type_synonym byte = "8 word"

abbreviation Err :: "'e \<Rightarrow> ('e, 'a) result" where "Err \<equiv> Inl"
abbreviation Ok :: "'a \<Rightarrow> ('e, 'a) result" where "Ok \<equiv> Inr"

definition rbind :: "('e, 'a) result \<Rightarrow> ('a \<Rightarrow> ('e, 'b) result) \<Rightarrow> ('e, 'b) result" where
  "rbind r f = (case r of Inl e \<Rightarrow> Inl e | Inr a \<Rightarrow> f a)"

lemma rbind_simps [simp]: "rbind (Inl e) f = Inl e" "rbind (Inr a) f = f a"
  by (simp_all add: rbind_def)

lemma rbind_Ok_iff: "rbind r f = Inr b \<longleftrightarrow> (\<exists>a. r = Inr a \<and> f a = Inr b)"
  by (cases r) simp_all

definition is_ok :: "('e, 'a) result \<Rightarrow> bool" where
  "is_ok r = (case r of Inl _ \<Rightarrow> False | Inr _ \<Rightarrow> True)"

lemma is_ok_simps [simp]: "\<not> is_ok (Inl e)" "is_ok (Inr a)"
  by (simp_all add: is_ok_def)

lemma is_ok_iff: "is_ok r \<longleftrightarrow> (\<exists>a. r = Inr a)"
  by (cases r) simp_all

subsection \<open>Machine integer bounds\<close>

abbreviation max_int64 :: int where "max_int64 \<equiv> 9223372036854775807"
abbreviation min_int64 :: int where "min_int64 \<equiv> - 9223372036854775808"
abbreviation max_uint64 :: int where "max_uint64 \<equiv> 18446744073709551615"

definition in_int64 :: "int \<Rightarrow> bool" where
  "in_int64 n \<longleftrightarrow> min_int64 \<le> n \<and> n \<le> max_int64"

text \<open>The conversions \<^verbatim>\<open>uint64(n)\<close> and \<^verbatim>\<open>int64(n)\<close>, which keep the low 64 bits.\<close>

definition to_uint64 :: "int \<Rightarrow> int" where "to_uint64 n = n mod 18446744073709551616"

definition to_int64 :: "int \<Rightarrow> int" where
  "to_int64 n = (let m = n mod 18446744073709551616 in if m < 9223372036854775808 then m else m - 18446744073709551616)"

subsection \<open>Characters and strings\<close>

definition code_of :: "char \<Rightarrow> nat" where "code_of c = of_char c"

definition is_digit :: "char \<Rightarrow> bool" where
  "is_digit c \<longleftrightarrow> 48 \<le> code_of c \<and> code_of c \<le> 57"

definition digit_val :: "char \<Rightarrow> nat" where "digit_val c = code_of c - 48"

definition digit_char :: "nat \<Rightarrow> char" where "digit_char d = char_of (48 + d)"

definition is_space :: "char \<Rightarrow> bool" where
  "is_space c \<longleftrightarrow> code_of c \<in> {9, 10, 11, 12, 13, 32}"

definition is_upper :: "char \<Rightarrow> bool" where
  "is_upper c \<longleftrightarrow> 65 \<le> code_of c \<and> code_of c \<le> 90"

definition lower_char :: "char \<Rightarrow> char" where
  "lower_char c = (if is_upper c then char_of (code_of c + 32) else c)"

text \<open>\<^verbatim>\<open>strings.ToLower\<close> and \<^verbatim>\<open>strings.TrimSpace\<close> on ASCII text.\<close>

definition to_lower :: "string \<Rightarrow> string" where "to_lower s = map lower_char s"

definition trim_space :: "string \<Rightarrow> string" where
  "trim_space s = rev (dropWhile is_space (rev (dropWhile is_space s)))"

text \<open>The first rune of a byte string and its length in bytes, as \<^verbatim>\<open>utf8.DecodeRuneInString\<close> gives it (a bad byte is the rune U+FFFD), and the
  runes of a string, as \<^verbatim>\<open>range\<close> visits them.\<close>

definition is_ascii :: "char \<Rightarrow> bool" where "is_ascii c \<longleftrightarrow> code_of c < 128"

definition decode_rune :: "string \<Rightarrow> nat \<times> nat" where
  "decode_rune s =
     (let b = (\<lambda>i. if i < length s then code_of (s ! i) else 0); follows = (\<lambda>i. 0x80 \<le> b i \<and> b i \<le> 0xBF);
          lo = (if b 0 = 0xE0 then 0xA0 else if b 0 = 0xF0 then 0x90 else 0x80);
          hi = (if b 0 = 0xED then 0x9F else if b 0 = 0xF4 then 0x8F else 0xBF)
      in if b 0 < 0x80 then (b 0, 1)
         else if 0xC2 \<le> b 0 \<and> b 0 \<le> 0xDF \<and> follows 1 then (64 * (b 0 - 0xC0) + (b 1 - 0x80), 2)
         else if 0xE0 \<le> b 0 \<and> b 0 \<le> 0xEF \<and> lo \<le> b 1 \<and> b 1 \<le> hi \<and> follows 2
         then (4096 * (b 0 - 0xE0) + 64 * (b 1 - 0x80) + (b 2 - 0x80), 3)
         else if 0xF0 \<le> b 0 \<and> b 0 \<le> 0xF4 \<and> lo \<le> b 1 \<and> b 1 \<le> hi \<and> follows 2 \<and> follows 3
         then (262144 * (b 0 - 0xF0) + 4096 * (b 1 - 0x80) + 64 * (b 2 - 0x80) + (b 3 - 0x80), 4)
         else (0xFFFD, 1))"

fun rune_list :: "string \<Rightarrow> (nat \<times> nat) list" where
  "rune_list [] = []"
| "rune_list (c # cs) =
     (if is_ascii c then (code_of c, 1) # rune_list cs
      else case decode_rune (c # cs) of (r, n) \<Rightarrow> (r, n) # rune_list (drop (n - 1) cs))"

text \<open>\<^verbatim>\<open>strings.EqualFold\<close>: under simple case folding the letter s is also U+017F and the letter k also U+212A. Runes that fold to no ASCII
  letter are compared as they are, where Go would also fold two of them.\<close>

definition fold_rune :: "nat \<Rightarrow> nat" where
  "fold_rune r = (if 65 \<le> r \<and> r \<le> 90 then r + 32 else if r = 0x17F then 115 else if r = 0x212A then 107 else r)"

definition equal_fold :: "string \<Rightarrow> string \<Rightarrow> bool" where
  "equal_fold s t \<longleftrightarrow> map (fold_rune \<circ> fst) (rune_list s) = map (fold_rune \<circ> fst) (rune_list t)"

text \<open>\<^verbatim>\<open>strings.HasPrefix\<close>, \<^verbatim>\<open>strings.TrimPrefix\<close>, \<^verbatim>\<open>strings.HasSuffix\<close>, \<^verbatim>\<open>strings.TrimRight(s, "/")\<close>.\<close>

definition has_prefix :: "string \<Rightarrow> string \<Rightarrow> bool" where
  "has_prefix s p \<longleftrightarrow> take (length p) s = p"

definition trim_prefix :: "string \<Rightarrow> string \<Rightarrow> string" where
  "trim_prefix s p = (if has_prefix s p then drop (length p) s else s)"

definition has_suffix :: "string \<Rightarrow> string \<Rightarrow> bool" where
  "has_suffix s p \<longleftrightarrow> length p \<le> length s \<and> drop (length s - length p) s = p"

text \<open>\<^verbatim>\<open>strings.Index\<close> and \<^verbatim>\<open>strings.LastIndex\<close> for a one-byte needle; \<^verbatim>\<open>-1\<close> is \<^const>\<open>None\<close>.\<close>

fun index_of :: "char \<Rightarrow> string \<Rightarrow> nat option" where
  "index_of c [] = None"
| "index_of c (x # xs) = (if x = c then Some 0 else map_option Suc (index_of c xs))"

fun last_index_of :: "char \<Rightarrow> string \<Rightarrow> nat option" where
  "last_index_of c [] = None"
| "last_index_of c (x # xs) =
     (case last_index_of c xs of Some i \<Rightarrow> Some (Suc i) | None \<Rightarrow> if x = c then Some 0 else None)"

text \<open>\<^verbatim>\<open>strings.Contains\<close>.\<close>

fun contains :: "string \<Rightarrow> string \<Rightarrow> bool" where
  "contains [] p = (p = [])"
| "contains (x # xs) p = (has_prefix (x # xs) p \<or> contains xs p)"

lemma has_prefix_append [simp]: "has_prefix (p @ s) p"
  by (simp add: has_prefix_def)

lemma has_prefix_iff: "has_prefix s p \<longleftrightarrow> (\<exists>t. s = p @ t)"
  by (auto simp: has_prefix_def) (metis append_take_drop_id)

lemma trim_prefix_append [simp]: "trim_prefix (p @ s) p = s"
  by (simp add: trim_prefix_def)

lemma index_of_None [simp]: "index_of c s = None \<longleftrightarrow> c \<notin> set s"
  by (induction s) auto

lemma last_index_of_None [simp]: "last_index_of c s = None \<longleftrightarrow> c \<notin> set s"
  by (induction s) (auto split: option.splits)

lemma last_index_of_append_notin:
  "c \<notin> set t \<Longrightarrow> last_index_of c (s @ c # t) = Some (length s)"
  by (induction s) (auto split: option.splits)

lemma index_of_append_notin:
  "c \<notin> set s \<Longrightarrow> index_of c (s @ c # t) = Some (length s)"
  by (induction s) auto

lemma lower_char_id: "\<not> is_upper c \<Longrightarrow> lower_char c = c"
  by (simp add: lower_char_def)

lemma to_lower_id: "\<forall>c \<in> set s. \<not> is_upper c \<Longrightarrow> to_lower s = s"
  by (induction s) (auto simp: to_lower_def lower_char_id)

lemma to_lower_append [simp]: "to_lower (s @ t) = to_lower s @ to_lower t"
  by (simp add: to_lower_def)

lemma trim_space_id:
  assumes "s \<noteq> []" "\<not> is_space (hd s)" "\<not> is_space (last s)"
  shows "trim_space s = s"
proof -
  have 1: "dropWhile is_space s = s" using assms by (cases s) auto
  have "rev s \<noteq> []" "\<not> is_space (hd (rev s))" using assms by (auto simp: hd_rev)
  then have "dropWhile is_space (rev s) = rev s" by (cases "rev s") auto
  with 1 show ?thesis by (simp add: trim_space_def)
qed

lemma lower_char_not_upper [simp]: "\<not> is_upper (lower_char c)"
  by (auto simp: lower_char_def is_upper_def code_of_def)

lemma to_lower_not_upper: "c \<in> set (to_lower s) \<Longrightarrow> \<not> is_upper c"
  by (auto simp: to_lower_def)

lemma to_lower_idem [simp]: "to_lower (to_lower s) = to_lower s"
  by (rule to_lower_id) (simp add: to_lower_not_upper)

lemma rune_list_ascii: "list_all is_ascii s \<Longrightarrow> rune_list s = map (\<lambda>c. (code_of c, 1)) s"
  by (induction s) simp_all

lemma code_of_inject [simp]: "code_of a = code_of b \<longleftrightarrow> a = b"
  by (simp add: code_of_def)

lemma fold_rune_ascii: "is_ascii c \<Longrightarrow> fold_rune (code_of c) = code_of (lower_char c)"
  by (simp add: is_ascii_def fold_rune_def lower_char_def is_upper_def code_of_def)

lemma equal_fold_ascii: "list_all is_ascii s \<Longrightarrow> list_all is_ascii t \<Longrightarrow> equal_fold s t \<longleftrightarrow> to_lower s = to_lower t"
proof -
  assume "list_all is_ascii s" "list_all is_ascii t"
  then have "map (fold_rune \<circ> fst) (rune_list s) = map code_of (to_lower s)" "map (fold_rune \<circ> fst) (rune_list t) = map code_of (to_lower t)"
    by (simp_all add: rune_list_ascii to_lower_def fold_rune_ascii list_all_iff)
  moreover have "inj code_of" by (simp add: inj_def)
  ultimately show ?thesis by (simp add: equal_fold_def inj_map_eq_map)
qed

lemma trim_space_subset: "set (trim_space s) \<subseteq> set s"
  unfolding trim_space_def by (auto dest!: set_dropWhileD)

lemma lower_char_ascii: "is_ascii c \<Longrightarrow> is_ascii (lower_char c)"
  by (simp add: is_ascii_def lower_char_def is_upper_def code_of_def)


lemma is_space_lower_char [simp]: "is_space (lower_char c) = is_space c"
  by (auto simp: lower_char_def is_upper_def is_space_def code_of_def)

lemma trim_space_hd:
  assumes "trim_space s \<noteq> []"
  shows "\<not> is_space (hd (trim_space s))"
proof -
  let ?u = "dropWhile is_space s"
  have app: "trim_space s @ rev (takeWhile is_space (rev ?u)) = ?u"
    by (metis trim_space_def rev_append rev_rev_ident takeWhile_dropWhile_id)
  then have "?u \<noteq> []" using assms by (metis append_is_Nil_conv)
  then have "\<not> is_space (hd ?u)" by (rule hd_dropWhile)
  then show ?thesis using app assms by (metis hd_append2)
qed

subsection \<open>Decimal strings\<close>

definition digits_val :: "string \<Rightarrow> nat" where
  "digits_val s = foldl (\<lambda>acc c. 10 * acc + digit_val c) 0 s"

definition all_digits :: "string \<Rightarrow> bool" where
  "all_digits s \<longleftrightarrow> s \<noteq> [] \<and> list_all is_digit s"

fun show_nat :: "nat \<Rightarrow> string" where
  "show_nat n = (if n < 10 then [digit_char n] else show_nat (n div 10) @ [digit_char (n mod 10)])"

declare show_nat.simps [simp del]

definition show_int :: "int \<Rightarrow> string" where
  "show_int n = (if n < 0 then CHR ''-'' # show_nat (nat (- n)) else show_nat (nat n))"

text \<open>
  \<^verbatim>\<open>(*big.Int).SetString(s, 10)\<close>: an optional sign, then at least one digit and nothing else.
\<close>

definition set_string :: "string \<Rightarrow> int option" where
  "set_string s = (case s of
      [] \<Rightarrow> None
    | c # t \<Rightarrow>
        if c = CHR ''-'' then (if all_digits t then Some (- int (digits_val t)) else None)
        else if c = CHR ''+'' then (if all_digits t then Some (int (digits_val t)) else None)
        else if all_digits s then Some (int (digits_val s)) else None)"

text \<open>\<^verbatim>\<open>strconv.ParseInt(s, 10, 64)\<close> and \<^verbatim>\<open>strconv.ParseUint(s, 10, 64)\<close>.\<close>

definition parse_int64 :: "string \<Rightarrow> int option" where
  "parse_int64 s = (case set_string s of None \<Rightarrow> None | Some n \<Rightarrow> if in_int64 n then Some n else None)"

definition parse_uint64 :: "string \<Rightarrow> int option" where
  "parse_uint64 s =
     (if all_digits s \<and> int (digits_val s) \<le> max_uint64 then Some (int (digits_val s)) else None)"

lemma code_of_digit_char [digit_simps]: "d < 10 \<Longrightarrow> code_of (digit_char d) = 48 + d"
  by (simp add: code_of_def digit_char_def)

lemma is_digit_digit_char [digit_simps]: "d < 10 \<Longrightarrow> is_digit (digit_char d)"
  by (simp add: is_digit_def code_of_digit_char)

lemma digit_val_digit_char [digit_simps]: "d < 10 \<Longrightarrow> digit_val (digit_char d) = d"
  by (simp add: digit_val_def code_of_digit_char)

lemma digits_val_snoc [digit_simps]: "digits_val (s @ [c]) = 10 * digits_val s + digit_val c"
  by (simp add: digits_val_def)

lemma show_nat_digits: "list_all is_digit (show_nat n)"
proof (induction n rule: show_nat.induct)
  case (1 n)
  then show ?case by (subst show_nat.simps) (simp add: digit_simps)
qed

lemma show_nat_nonempty [simp]: "show_nat n \<noteq> []"
  by (subst show_nat.simps) simp

lemma all_digits_show_nat [simp]: "all_digits (show_nat n)"
  by (simp add: all_digits_def show_nat_digits)

lemma digits_val_show_nat [simp]: "digits_val (show_nat n) = n"
proof (induction n rule: show_nat.induct)
  case (1 n)
  show ?case
  proof (cases "n < 10")
    case True
    then show ?thesis
      by (subst show_nat.simps) (simp add: digits_val_def digit_val_digit_char)
  next
    case False
    with "1.IH" show ?thesis
      by (subst show_nat.simps) (simp add: digit_simps)
  qed
qed

lemma digit_not_sign: "is_digit c \<Longrightarrow> c \<noteq> CHR ''-'' \<and> c \<noteq> CHR ''+''"
  by (auto simp: is_digit_def code_of_def)

lemma set_string_digits [digit_simps]:
  assumes "all_digits s"
  shows "set_string s = Some (int (digits_val s))"
proof -
  from assms obtain c t where s: "s = c # t" "is_digit c"
    by (cases s) (auto simp: all_digits_def)
  with digit_not_sign[of c] assms show ?thesis
    by (simp add: set_string_def)
qed

lemma set_string_show_int [simp]: "set_string (show_int n) = Some n"
proof (cases "n < 0")
  case True
  then show ?thesis by (simp add: show_int_def set_string_def)
next
  case False
  then show ?thesis by (simp add: show_int_def set_string_digits)
qed

lemma show_int_nonneg: "0 \<le> n \<Longrightarrow> show_int n = show_nat (nat n)"
  by (simp add: show_int_def)

lemma show_int_inject: "show_int m = show_int n \<Longrightarrow> m = n"
  using set_string_show_int by (metis option.inject)

subsection \<open>Hexadecimal text (\<^verbatim>\<open>hex.EncodeToString\<close>)\<close>

definition hex_char :: "nat \<Rightarrow> char" where
  "hex_char d = (if d < 10 then char_of (48 + d) else char_of (87 + d))"

definition hex_of_byte :: "byte \<Rightarrow> string" where
  "hex_of_byte b = [hex_char (unat b div 16), hex_char (unat b mod 16)]"

definition hex_encode :: "byte list \<Rightarrow> string" where
  "hex_encode bs = concat (map hex_of_byte bs)"

definition hex_val :: "char \<Rightarrow> nat" where
  "hex_val c = (if is_digit c then code_of c - 48 else code_of c - 87)"

lemma hex_val_hex_char: "d < 16 \<Longrightarrow> hex_val (hex_char d) = d"
  by (auto simp: hex_val_def hex_char_def is_digit_def code_of_def)

lemma hex_char_inject: "d < 16 \<Longrightarrow> e < 16 \<Longrightarrow> hex_char d = hex_char e \<Longrightarrow> d = e"
  using hex_val_hex_char by metis

lemma hex_of_byte_inject: "hex_of_byte a = hex_of_byte b \<Longrightarrow> a = b"
proof -
  have lt: "unat x div 16 < 16" "unat x mod 16 < 16" for x :: byte
    using unsigned_less[where 'a = nat, of x] by (simp_all add: less_mult_imp_div_less)
  assume "hex_of_byte a = hex_of_byte b"
  then have "unat a div 16 = unat b div 16" "unat a mod 16 = unat b mod 16"
    using hex_char_inject lt by (auto simp: hex_of_byte_def)
  then have "unat a = unat b" by (metis div_mult_mod_eq)
  then show "a = b" by (simp add: word_unat_eq_iff)
qed

lemma hex_encode_inject: "hex_encode xs = hex_encode ys \<Longrightarrow> xs = ys"
proof (induction xs arbitrary: ys)
  case Nil
  then show ?case by (cases ys) (auto simp: hex_encode_def hex_of_byte_def)
next
  case (Cons x xs)
  then obtain y ys' where ys: "ys = y # ys'"
    by (cases ys) (auto simp: hex_encode_def hex_of_byte_def)
  have "hex_of_byte x = hex_of_byte y" "hex_encode xs = hex_encode ys'"
    using Cons.prems ys by (auto simp: hex_encode_def hex_of_byte_def)
  then show ?case using Cons.IH ys hex_of_byte_inject by blast
qed

subsection \<open>Folds and lists\<close>

lemma sum_list_map_filter_le:
  fixes f :: "'a \<Rightarrow> int"
  assumes "\<And>x. x \<in> set xs \<Longrightarrow> 0 \<le> f x" and "\<And>x. x \<in> set xs \<Longrightarrow> P x \<Longrightarrow> Q x"
  shows "sum_list (map f (filter P xs)) \<le> sum_list (map f (filter Q xs))"
  using assms
proof (induction xs)
  case (Cons x xs)
  then have "sum_list (map f (filter P xs)) \<le> sum_list (map f (filter Q xs))" by simp
  with Cons.prems(1)[of x] Cons.prems(2)[of x] show ?case by auto
qed simp

lemma sum_list_map_nonneg:
  fixes f :: "'a \<Rightarrow> int"
  shows "(\<And>x. x \<in> set xs \<Longrightarrow> 0 \<le> f x) \<Longrightarrow> 0 \<le> sum_list (map f xs)"
  by (induction xs) auto

lemma to_int64_mod: "to_int64 n mod 18446744073709551616 = n mod 18446744073709551616"
  by (simp add: to_int64_def Let_def)

lemma to_int64_range: "in_int64 (to_int64 n)"
proof -
  have "0 \<le> n mod 18446744073709551616" "n mod 18446744073709551616 < 18446744073709551616" by simp_all
  then show ?thesis unfolding to_int64_def in_int64_def Let_def by auto
qed

lemma to_int64_id: "to_int64 n = n \<longleftrightarrow> in_int64 n"
proof
  assume n: "in_int64 n"
  show "to_int64 n = n"
  proof (cases "0 \<le> n")
    case True
    then show ?thesis using n by (simp add: to_int64_def in_int64_def)
  next
    case False
    have "n mod 18446744073709551616 = (n + 18446744073709551616) mod 18446744073709551616" by simp
    also have "\<dots> = n + 18446744073709551616" using n False by (intro mod_pos_pos_trivial) (simp_all add: in_int64_def)
    finally show ?thesis using n False by (simp add: to_int64_def in_int64_def)
  qed
next
  assume "to_int64 n = n" then show "in_int64 n" using to_int64_range[of n] by simp
qed

lemma to_int64_add: "to_int64 (to_int64 m + n) = to_int64 (m + n)"
proof -
  have "(to_int64 m + n) mod 18446744073709551616 = (m + n) mod 18446744073709551616"
    by (metis mod_add_left_eq to_int64_mod)
  then show ?thesis by (simp only: to_int64_def)
qed

end
