(* ===== verification/Bech32.thy ===== *)
theory Bech32
  imports Prelude
begin

unbundle bit_operations_syntax

text \<open>
  The inline bech32 codec of \<^verbatim>\<open>internal/tx/internal/keys/derive.go\<close> with its two entry points
  \<^verbatim>\<open>AddressFromBytes\<close> and \<^verbatim>\<open>Bech32Decode\<close>, and the address functions of \<^verbatim>\<open>internal/tx/address.go\<close>
  and \<^verbatim>\<open>internal/tx/validate.go\<close> over them. Checksums are 32-bit words, the accumulator of
  \<^verbatim>\<open>bech32ConvertBits\<close> is a 64-bit word that wraps, exactly as Go's \<^verbatim>\<open>int\<close> does on the target. The prefix is expanded at
  the positions where Go's \<^verbatim>\<open>range\<close> over a string visits a rune, so that prefixes outside ASCII are covered; the lower-casing is that of
  ASCII letters (see \<^verbatim>\<open>Prelude\<close>).

  The lemmas show that regrouping is the bit-stream regrouping it should be, that an encoded
  string carries a valid checksum, and that decoding inverts encoding.
\<close>

subsection \<open>Constants\<close>

definition bech32Charset :: string where
  "bech32Charset = ''qpzry9x8gf2tvdw0s3jn54khce6mua7l''"

definition bech32ChecksumLen :: nat where "bech32ChecksumLen = 6"

definition bech32Generator :: "32 word list" where
  "bech32Generator = [0x3b6a57b2, 0x26508e6d, 0x1ea119fa, 0x3d4233dd, 0x2a1462b3]"

subsection \<open>Checksum\<close>

text \<open>The inner loop over the generator: \<^verbatim>\<open>for i, g := range bech32Generator\<close>.\<close>

fun gen_loop :: "32 word \<Rightarrow> nat \<Rightarrow> 32 word list \<Rightarrow> 32 word \<Rightarrow> 32 word" where
  "gen_loop tp i [] chk = chk"
| "gen_loop tp i (g # gs) chk =
     gen_loop tp (Suc i) gs (if (drop_bit i tp AND 1) \<noteq> 0 then chk XOR g else chk)"

definition polymod_step :: "32 word \<Rightarrow> byte \<Rightarrow> 32 word" where
  "polymod_step chk v =
     (let tp = drop_bit 25 chk;
          chk' = push_bit 5 (chk AND 0x1ffffff) XOR ucast v
      in gen_loop tp 0 bech32Generator chk')"

definition bech32Polymod :: "byte list \<Rightarrow> 32 word" where
  "bech32Polymod values = foldl polymod_step 1 values"

definition byte_of_char :: "char \<Rightarrow> byte" where "byte_of_char c = word_of_nat (code_of c)"

text \<open>\<^verbatim>\<open>for i := range hrp\<close> visits the positions where a rune starts; the other entries of the result stay zero.\<close>

definition rune_starts :: "string \<Rightarrow> bool list" where
  "rune_starts s = concat (map (\<lambda>(r, n). True # replicate (n - 1) False) (rune_list s))"

definition bech32HRPExpand :: "string \<Rightarrow> byte list" where
  "bech32HRPExpand hrp =
     (let starts = rune_starts hrp
      in map2 (\<lambda>start c. if start then drop_bit 5 (byte_of_char c) else 0) starts hrp @ [0] @
         map2 (\<lambda>start c. if start then byte_of_char c AND 31 else 0) starts hrp)"

definition bech32Checksum :: "string \<Rightarrow> byte list \<Rightarrow> byte list" where
  "bech32Checksum hrp data =
     (let poly = bech32Polymod (bech32HRPExpand hrp @ data @ [0, 0, 0, 0, 0, 0]) XOR 1
      in map (\<lambda>i. ucast (drop_bit (5 * (bech32ChecksumLen - 1 - i)) poly AND 31))
           [0..<bech32ChecksumLen])"

text \<open>
  \<^verbatim>\<open>bech32Charset[b]\<close> panics for \<^verbatim>\<open>b >= 32\<close>: the encoder is a partial function, \<^const>\<open>None\<close> the panic.
\<close>

definition charset_at :: "byte \<Rightarrow> char option" where
  "charset_at b = (if unat b < 32 then Some (bech32Charset ! unat b) else None)"

fun write_charset :: "byte list \<Rightarrow> string option" where
  "write_charset [] = Some []"
| "write_charset (b # bs) =
     (case charset_at b of
        None \<Rightarrow> None
      | Some c \<Rightarrow> map_option (\<lambda>s. c # s) (write_charset bs))"

definition bech32Encode :: "string \<Rightarrow> byte list \<Rightarrow> string option" where
  "bech32Encode hrp data =
     map_option (\<lambda>s. hrp @ CHR ''1'' # s) (write_charset (data @ bech32Checksum hrp data))"

subsection \<open>Regrouping bits\<close>

text \<open>The inner loop \<^verbatim>\<open>for bits >= toBits\<close> of \<^verbatim>\<open>bech32ConvertBits\<close>: \<^verbatim>\<open>acc\<close> is a signed 64-bit integer.\<close>

function drain_bits :: "64 word \<Rightarrow> nat \<Rightarrow> nat \<Rightarrow> byte list \<Rightarrow> nat \<times> byte list" where
  "drain_bits acc bits toBits out =
     (if toBits = 0 \<or> bits < toBits then (bits, out)
      else drain_bits acc (bits - toBits) toBits
             (out @ [ucast (signed_drop_bit (bits - toBits) acc AND mask toBits)]))"
  by pat_completeness auto
termination by (relation "measure (\<lambda>(acc, bits, toBits, out). bits)") auto

declare drain_bits.simps [simp del]

fun convert_loop :: "nat \<Rightarrow> nat \<Rightarrow> byte list \<Rightarrow> 64 word \<Rightarrow> nat \<Rightarrow> byte list \<Rightarrow> 64 word \<times> nat \<times> byte list" where
  "convert_loop fromBits toBits [] acc bits out = (acc, bits, out)"
| "convert_loop fromBits toBits (v # vs) acc bits out =
     (let acc' = push_bit fromBits acc OR ucast v;
          (bits', out') = drain_bits acc' (bits + fromBits) toBits out
      in convert_loop fromBits toBits vs acc' bits' out')"

datatype bech32_error =
    MissingSeparator
  | InvalidChar char nat
  | InvalidChecksum
  | InvalidPadding

definition bech32ConvertBits :: "byte list \<Rightarrow> nat \<Rightarrow> nat \<Rightarrow> bool \<Rightarrow> (bech32_error, byte list) result" where
  "bech32ConvertBits data fromBits toBits pad =
     (let (acc, bits, out) = convert_loop fromBits toBits data 0 0 [];
          maxv = mask toBits
      in if pad then
           (if bits > 0 then Ok (out @ [ucast (push_bit (toBits - bits) acc AND maxv)]) else Ok out)
         else if bits \<ge> fromBits \<or> (push_bit (toBits - bits) acc AND maxv) \<noteq> 0 then Err InvalidPadding
         else Ok out)"

subsection \<open>Entry points\<close>

datatype address_error = BadAddress bech32_error | EncodePanic

definition keys_AddressFromBytes :: "byte list \<Rightarrow> string \<Rightarrow> (address_error, string) result" where
  "keys_AddressFromBytes addrBytes bech32Prefix =
     (case bech32ConvertBits addrBytes 8 5 True of
        Inl e \<Rightarrow> Err (BadAddress e)
      | Inr converted \<Rightarrow>
          (case bech32Encode bech32Prefix converted of
             None \<Rightarrow> Err EncodePanic
           | Some s \<Rightarrow> Ok s))"

fun decode_chars :: "nat \<Rightarrow> string \<Rightarrow> (bech32_error, byte list) result" where
  "decode_chars i [] = Ok []"
| "decode_chars i (c # cs) =
     (case index_of c bech32Charset of
        None \<Rightarrow> Err (InvalidChar c i)
      | Some idx \<Rightarrow> rbind (decode_chars (Suc i) cs) (\<lambda>rest. Ok (word_of_nat idx # rest)))"

definition Bech32Decode :: "string \<Rightarrow> (bech32_error, string \<times> byte list) result" where
  "Bech32Decode s =
     (let lower = to_lower (trim_space s)
      in case last_index_of CHR ''1'' lower of
           None \<Rightarrow> Err MissingSeparator
         | Some sep \<Rightarrow>
             if sep < 1 \<or> sep + bech32ChecksumLen + 1 > length lower then Err MissingSeparator
             else
               let hrp = take sep lower; encoded = drop (sep + 1) lower
               in rbind (decode_chars 0 encoded) (\<lambda>decoded.
                    if bech32Polymod (bech32HRPExpand hrp @ decoded) \<noteq> 1 then Err InvalidChecksum
                    else rbind (bech32ConvertBits (take (length decoded - bech32ChecksumLen) decoded) 5 8 False)
                           (\<lambda>data. Ok (hrp, data))))"

text \<open>\<^verbatim>\<open>internal/tx/address.go\<close>.\<close>

definition DecodeAddressBytes :: "string \<Rightarrow> (bech32_error, byte list) result" where
  "DecodeAddressBytes addr = rbind (Bech32Decode addr) (\<lambda>(_, data). Ok data)"

definition AddressFromBytes :: "byte list \<Rightarrow> string \<Rightarrow> (address_error, string) result" where
  "AddressFromBytes rawBytes prefix = keys_AddressFromBytes rawBytes prefix"

text \<open>
  \<^verbatim>\<open>keys.AddressFromPubKey\<close> and \<^verbatim>\<open>tx.AddressFromPubKey\<close>. \<^verbatim>\<open>hash160\<close> stands for
  \<^verbatim>\<open>ripemd160(sha256(-))\<close>, whose implementation is not part of the repository.
\<close>

definition keys_AddressFromPubKey :: "(byte list \<Rightarrow> byte list) \<Rightarrow> byte list \<Rightarrow> string \<Rightarrow> (address_error, string) result" where
  "keys_AddressFromPubKey hash160 pub bech32Prefix = keys_AddressFromBytes (hash160 pub) bech32Prefix"

datatype pubkey_error = PubKeyLength nat | PubKeyAddress address_error

definition AddressFromPubKey :: "(byte list \<Rightarrow> byte list) \<Rightarrow> byte list \<Rightarrow> string \<Rightarrow> (pubkey_error, string) result" where
  "AddressFromPubKey hash160 pubBytes prefix =
     (if length pubBytes \<noteq> 33 then Err (PubKeyLength (length pubBytes))
      else case keys_AddressFromPubKey hash160 pubBytes prefix of
             Inl e \<Rightarrow> Err (PubKeyAddress e)
           | Inr a \<Rightarrow> Ok a)"

text \<open>\<^verbatim>\<open>internal/tx/validate.go\<close>: the shape of an address, without its checksum.\<close>

datatype validate_error = BadBech32Shape | WrongPrefix string

definition ValidateAddress :: "string \<Rightarrow> string \<Rightarrow> (validate_error, unit) result" where
  "ValidateAddress addr expectedPrefix =
     (let lower = to_lower (trim_space addr)
      in case index_of CHR ''1'' lower of
           None \<Rightarrow> Err BadBech32Shape
         | Some sep \<Rightarrow>
             if sep = 0 \<or> sep + 1 = length lower then Err BadBech32Shape
             else let hrp = take sep lower
                  in if hrp \<noteq> expectedPrefix then Err (WrongPrefix hrp) else Ok ())"

subsection \<open>Specification vocabulary\<close>

text \<open>
  The bits of a word, most significant first, the bit stream of a list of \<^verbatim>\<open>n\<close>-bit groups, and the
  human-readable prefixes a chain may use: non-empty, lower case, no leading space.
\<close>

definition bits_of :: "nat \<Rightarrow> 'a::len word \<Rightarrow> bool list" where
  "bits_of n w = map (bit w) (rev [0..<n])"

definition to_bits :: "nat \<Rightarrow> 'a::len word list \<Rightarrow> bool list" where
  "to_bits n ws = concat (map (bits_of n) ws)"

definition hrp_ok :: "string \<Rightarrow> bool" where
  "hrp_ok hrp \<longleftrightarrow> hrp \<noteq> [] \<and> list_all (\<lambda>c. \<not> is_upper c) hrp \<and> \<not> is_space (hd hrp)"

subsection \<open>The checksum of an encoded string is valid\<close>

lemma gen_loop_Cons:
  "gen_loop tp i (g # gs) chk = gen_loop tp (Suc i) gs (if bit tp i then chk XOR g else chk)"
  by (simp add: and_one_eq odd_iff_mod_2_eq_one bit_iff_odd_drop_bit flip: mod_2_eq_odd)

lemma gen_loop_xor:
  "gen_loop (s XOR t) i gs (a XOR b) = gen_loop s i gs a XOR gen_loop t i gs b"
proof (induction gs arbitrary: i a b)
  case (Cons g gs)
  have "(if bit (s XOR t) i then (a XOR b) XOR g else a XOR b)
      = (if bit s i then a XOR g else a) XOR (if bit t i then b XOR g else b)"
    by (simp add: bit_xor_iff ac_simps)
  then show ?case by (simp only: gen_loop_Cons Cons.IH[symmetric])
qed simp

lemma gen_loop_zero: "gen_loop 0 i gs chk = chk"
  by (induction gs arbitrary: i) simp_all

lemma polymod_step_xor:
  "polymod_step (a XOR b) (v XOR w) = polymod_step a v XOR polymod_step b w"
proof -
  have "push_bit 5 ((a XOR b) AND 0x1ffffff) XOR (ucast (v XOR w) :: 32 word)
      = (push_bit 5 (a AND 0x1ffffff) XOR ucast v) XOR (push_bit 5 (b AND 0x1ffffff) XOR ucast w)"
    by (rule bit_eqI) (auto simp: bit_simps)
  then show ?thesis
    by (simp add: polymod_step_def Let_def gen_loop_xor drop_bit_xor)
qed

lemma polymod_fold_xor:
  "length vs = length ws \<Longrightarrow>
     foldl polymod_step (a XOR b) (map2 (XOR) vs ws)
   = foldl polymod_step a vs XOR foldl polymod_step b ws"
  by (induction vs ws arbitrary: a b rule: list_induct2) (simp_all add: polymod_step_xor)

text \<open>Below $2^{25}$ a step only shifts the new value in.\<close>

lemma mask25: "(0x1ffffff :: 32 word) = mask 25"
  by (simp add: mask_eq_exp_minus_1)

lemma polymod_step_small:
  assumes "drop_bit 25 chk = 0"
  shows "polymod_step chk v = push_bit 5 chk XOR ucast v"
proof -
  have "chk AND 0x1ffffff = chk"
    using assms bits_ident[of 25 chk] by (simp add: mask25 flip: take_bit_eq_mask)
  with assms show ?thesis
    by (simp add: polymod_step_def Let_def gen_loop_zero)
qed

lemma shift_in_word:
  fixes q :: "32 word"
  shows "push_bit 5 (drop_bit 5 q) XOR ucast (ucast (q AND 31) :: byte) = q"
proof -
  have m: "(31 :: 32 word) = mask 5" by (simp add: mask_eq_exp_minus_1)
  show ?thesis by (rule bit_word_eqI) (auto simp: m bit_simps)
qed

lemma drop_bit_small_mono:
  fixes p :: "32 word"
  assumes "drop_bit m p = 0" "m \<le> n"
  shows "drop_bit n p = 0"
proof -
  have "drop_bit n p = drop_bit (n - m) (drop_bit m p)" using assms(2) by simp
  with assms(1) show ?thesis by simp
qed

lemma checksum_words_fold:
  fixes p :: "32 word"
  assumes p: "drop_bit 30 p = 0"
  shows "foldl polymod_step 0 (map (\<lambda>i. ucast (drop_bit (5 * (5 - i)) p AND 31)) [0..<6]) = p"
proof -
  have step: "polymod_step (drop_bit (k + 5) p) (ucast (drop_bit k p AND 31)) = drop_bit k p" for k
  proof -
    have "drop_bit 25 (drop_bit (k + 5) p) = 0"
      using drop_bit_small_mono[OF p, of "30 + k"] by (simp add: ac_simps)
    moreover have "drop_bit (k + 5) p = drop_bit 5 (drop_bit k p)" by (simp add: ac_simps)
    ultimately show ?thesis using shift_in_word[of "drop_bit k p"]
      by (simp add: polymod_step_small)
  qed
  have *: "[0..<6] = [0, 1, 2, 3, 4, 5 :: nat]" by code_simp
  show ?thesis
    using p step[of 25] step[of 20] step[of 15] step[of 10] step[of 5] step[of 0] 
    by (simp add: *)
qed

lemma gen_small: "g \<in> set bech32Generator \<Longrightarrow> drop_bit 30 g = 0"
  by (auto simp: bech32Generator_def)

lemma gen_loop_small:
  "drop_bit 30 chk = 0 \<Longrightarrow> (\<And>g. g \<in> set gs \<Longrightarrow> drop_bit 30 g = 0) \<Longrightarrow> drop_bit 30 (gen_loop tp i gs chk) = 0"
  by (induction gs arbitrary: i chk) (auto simp: drop_bit_xor)

lemma bit_small_byte:
  fixes v :: byte
  assumes "unat v < 32" "bit v n"
  shows "n < 5"
proof (rule ccontr)
  assume n: "\<not> n < 5"
  have "unat v div 2 ^ n = 0"
    using assms(1) n power_increasing[of 5 n "2 :: nat"] by (intro div_less) simp
  then have "\<not> bit (unat v) n" by (simp add: bit_iff_odd)
  with assms(2) show False by (simp add: bit_unsigned_iff bit_imp_le_length)
qed

lemma polymod_step_bound:
  assumes "unat v < 32"
  shows "drop_bit 30 (polymod_step chk v) = 0"
proof -
  have "drop_bit 30 (push_bit 5 (chk AND 0x1ffffff) XOR (ucast v :: 32 word)) = 0"
    by (intro bit_word_eqI) (auto simp: bit_simps mask25 dest: bit_small_byte[OF assms])
  then show ?thesis
    unfolding polymod_step_def Let_def by (rule gen_loop_small) (rule gen_small)
qed

lemma polymod_bound:
  "(\<And>v. v \<in> set vs \<Longrightarrow> unat v < 32) \<Longrightarrow> drop_bit 30 (bech32Polymod vs) = 0"
proof (induction vs rule: rev_induct)
  case (snoc v vs)
  then show ?case by (simp add: bech32Polymod_def polymod_step_bound)
qed (simp add: bech32Polymod_def)

lemma map2_xor_zeros:
  "length ws = n \<Longrightarrow> map2 (XOR) (replicate n 0) ws = (ws :: byte list)"
  by (induction n arbitrary: ws) (auto simp: length_Suc_conv)

lemma polymod_append_words:
  assumes "length ws = n"
  shows "foldl polymod_step s ws = foldl polymod_step s (replicate n 0) XOR foldl polymod_step 0 ws"
  using polymod_fold_xor[of "replicate n 0" ws s 0] assms by (simp add: map2_xor_zeros)

lemma hrp_expand_small: "v \<in> set (bech32HRPExpand hrp) \<Longrightarrow> unat v < 32"
proof -
  have "unat (drop_bit 5 (byte_of_char c)) < 32" for c
    using unsigned_less[where 'a = nat, of "byte_of_char c"]
    by (simp add: unat_drop_bit_eq) (simp add: drop_bit_eq_div)
  moreover have "unat (byte_of_char c AND 31) < 32" for c
    using word_and_le1[of "byte_of_char c" 31] by (simp add: word_le_nat_alt)
  ultimately show "v \<in> set (bech32HRPExpand hrp) \<Longrightarrow> unat v < 32"
    by (auto simp: bech32HRPExpand_def Let_def split: if_splits)
qed

theorem bech32_checksum_valid:
  assumes "\<And>v. v \<in> set data \<Longrightarrow> unat v < 32"
  shows "bech32Polymod (bech32HRPExpand hrp @ data @ bech32Checksum hrp data) = 1"
proof -
  let ?pre = "bech32HRPExpand hrp @ data"
  let ?z = "bech32Polymod (?pre @ replicate 6 0)"
  have z0: "?z = foldl polymod_step (foldl polymod_step 1 ?pre) (replicate 6 0)"
    by (simp add: bech32Polymod_def)
  have r6: "replicate 6 0 = [0, 0, 0, 0, 0, 0 :: byte]" by (simp add: numeral_eq_Suc)
  have "drop_bit 30 ?z = 0"
    using assms hrp_expand_small by (intro polymod_bound) (auto simp: r6)
  then have "drop_bit 30 (?z XOR 1) = 0" by (simp add: drop_bit_xor)
  then have cs: "foldl polymod_step 0 (bech32Checksum hrp data) = ?z XOR 1"
    using checksum_words_fold[of "?z XOR 1"]
    by (simp add: bech32Checksum_def Let_def bech32ChecksumLen_def r6)
  have "length (bech32Checksum hrp data) = 6"
    by (simp add: bech32Checksum_def Let_def bech32ChecksumLen_def)
  then have "foldl polymod_step (foldl polymod_step 1 ?pre) (bech32Checksum hrp data) = ?z XOR (?z XOR 1)"
    using polymod_append_words[of "bech32Checksum hrp data" 6 "foldl polymod_step 1 ?pre"] cs z0
    by simp
  then show ?thesis by (simp add: bech32Polymod_def xor.assoc[symmetric])
qed

subsection \<open>Regrouping is regrouping of one bit stream\<close>

lemma length_bits_of [simp]: "length (bits_of n w) = n"
  by (simp add: bits_of_def)

lemma length_to_bits [simp]: "length (to_bits n ws) = n * length ws"
  by (induction ws) (simp_all add: to_bits_def)

lemma to_bits_simps [simp]:
  "to_bits n [] = []" "to_bits n (xs @ ys) = to_bits n xs @ to_bits n ys"
  "to_bits n (x # xs) = bits_of n x @ to_bits n xs"
  by (simp_all add: to_bits_def)

lemma bits_of_inject:
  fixes a b :: "'a::len word"
  assumes "bits_of LENGTH('a) a = bits_of LENGTH('a) b"
  shows "a = b"
proof (rule bit_word_eqI)
  fix n assume "n < LENGTH('a)"
  with assms show "bit a n = bit b n" by (auto simp: bits_of_def map_eq_conv)
qed

lemma to_bits_inject:
  fixes xs ys :: "byte list"
  shows "length xs = length ys \<Longrightarrow> to_bits 8 xs = to_bits 8 ys \<Longrightarrow> xs = ys"
proof (induction xs ys rule: list_induct2)
  case (Cons x xs y ys)
  then have "bits_of 8 x = bits_of 8 y" "to_bits 8 xs = to_bits 8 ys" by simp_all
  with Cons.IH show ?case using bits_of_inject[of x y] by simp
qed simp

lemma upt_split: "k \<le> n \<Longrightarrow> rev [0..<n] = map ((+) k) (rev [0..<n - k]) @ rev [0..<k]"
proof -
  assume "k \<le> n"
  then have "[0..<n] = [0..<k] @ [k..<n]" using upt_add_eq_append[of 0 k "n - k"] by simp
  moreover have "[k..<n] = map ((+) k) [0..<n - k]" by (rule nth_equalityI) auto
  ultimately show ?thesis by (simp add: rev_map)
qed

lemma bits_of_split:
  "k \<le> n \<Longrightarrow> bits_of n w = map (\<lambda>i. bit w (k + i)) (rev [0..<n - k]) @ bits_of k w"
  by (simp add: bits_of_def upt_split)

lemma drain_word_bits:
  fixes acc :: "64 word"
  assumes "t \<le> 8" "k + t \<le> 64"
  shows "bits_of t (ucast (signed_drop_bit k acc AND mask t) :: byte) = map (\<lambda>i. bit acc (k + i)) (rev [0..<t])"
  using assms by (auto simp: bits_of_def bit_simps min_def)

lemma drain_bits_spec:
  assumes "drain_bits acc bits t out = (bits', out')" "0 < t" "t \<le> 8" "bits \<le> 64"
  shows "to_bits t out' @ bits_of bits' acc = to_bits t out @ bits_of bits acc \<and> bits' < t \<and> bits' \<le> bits
       \<and> (\<forall>v \<in> set out' - set out. \<forall>n. bit v n \<longrightarrow> n < t)"
  using assms
proof (induction acc bits t out rule: drain_bits.induct)
  case (1 acc bits t out)
  show ?case
  proof (cases "bits < t")
    case True
    with 1 show ?thesis by (simp add: drain_bits.simps[of acc bits])
  next
    case False
    let ?w = "ucast (signed_drop_bit (bits - t) acc AND mask t) :: byte"
    have eq: "drain_bits acc (bits - t) t (out @ [?w]) = (bits', out')"
      using 1(2,3) False by (simp add: drain_bits.simps[of acc bits])
    have IH: "to_bits t out' @ bits_of bits' acc = to_bits t (out @ [?w]) @ bits_of (bits - t) acc \<and>
        bits' < t \<and> bits' \<le> bits - t \<and> (\<forall>v \<in> set out' - set (out @ [?w]). \<forall>n. bit v n \<longrightarrow> n < t)"
      using 1(1)[OF _ eq] False 1(3-5) by simp
    have "bits_of bits acc = bits_of t ?w @ bits_of (bits - t) acc"
      using False 1(4,5) bits_of_split[of "bits - t" bits acc] by (simp add: drain_word_bits)
    moreover have "\<forall>n. bit ?w n \<longrightarrow> n < t" by (auto simp: bit_simps)
    ultimately show ?thesis using IH by auto
  qed
qed

lemma push_word_bits:
  fixes acc :: "64 word" and v :: byte
  assumes "\<And>n. bit v n \<Longrightarrow> n < f" "f \<le> 8" "bits + f \<le> 64"
  shows "bits_of (bits + f) (push_bit f acc OR ucast v) = bits_of bits acc @ bits_of f v"
proof -
  have "bits_of (bits + f) (push_bit f acc OR ucast v) =
      map (\<lambda>i. bit (push_bit f acc OR ucast v) (f + i)) (rev [0..<bits]) @ bits_of f (push_bit f acc OR ucast v)"
    using bits_of_split[of f "bits + f"] by simp
  moreover have "map (\<lambda>i. bit (push_bit f acc OR ucast v) (f + i)) (rev [0..<bits]) = bits_of bits acc"
    using assms(3) by (auto simp: bits_of_def bit_simps dest: assms(1))
  moreover have "bits_of f (push_bit f acc OR ucast v) = bits_of f v"
    using assms(2) by (auto simp: bits_of_def bit_simps)
  ultimately show ?thesis by simp
qed

lemma convert_loop_spec:
  assumes "convert_loop f t vs acc bits out = (acc', bits', out')"
    and "0 < t" "t \<le> 8" "f \<le> 8" "bits < t"
    and "\<And>v n. v \<in> set vs \<Longrightarrow> bit v n \<Longrightarrow> n < f"
  shows "to_bits t out' @ bits_of bits' acc' = to_bits t out @ bits_of bits acc @ to_bits f vs \<and> bits' < t
       \<and> (\<forall>v \<in> set out' - set out. \<forall>n. bit v n \<longrightarrow> n < t)"
  using assms
proof (induction vs arbitrary: acc bits out)
  case Nil
  then show ?case by simp
next
  case (Cons v vs)
  let ?acc = "push_bit f acc OR ucast v"
  obtain b o' where d: "drain_bits ?acc (bits + f) t out = (b, o')" by fastforce
  have bf: "bits + f \<le> 64" using Cons.prems(3-5) by simp
  have D: "to_bits t o' @ bits_of b ?acc = to_bits t out @ bits_of (bits + f) ?acc \<and> b < t \<and> b \<le> bits + f
       \<and> (\<forall>v \<in> set o' - set out. \<forall>n. bit v n \<longrightarrow> n < t)"
    using drain_bits_spec[OF d] Cons.prems(2,3) bf by simp
  have P: "bits_of (bits + f) ?acc = bits_of bits acc @ bits_of f v"
    by (rule push_word_bits[OF _ Cons.prems(4) bf]) (rule Cons.prems(6)[of v], simp)
  have "convert_loop f t vs ?acc b o' = (acc', bits', out')"
    using Cons.prems(1) d by (simp add: Let_def)
  from Cons.IH[OF this] D Cons.prems
  have "to_bits t out' @ bits_of bits' acc' = to_bits t o' @ bits_of b ?acc @ to_bits f vs" "bits' < t"
       "\<forall>v \<in> set out' - set o'. \<forall>n. bit v n \<longrightarrow> n < t" by auto
  with D P show ?case by auto
qed

lemma bit_byte_small: "(\<And>n. bit v n \<Longrightarrow> n < 5) \<Longrightarrow> unat (v :: byte) < 32"
proof -
  assume *: "\<And>n. bit v n \<Longrightarrow> n < 5"
  have "take_bit 5 v = v" by (rule bit_word_eqI) (auto simp: bit_simps dest: *)
  then have "take_bit 5 (unat v) = unat v" by (metis unsigned_take_bit_eq)
  then show ?thesis using take_bit_nat_less_exp[of 5 "unat v"] by simp
qed

lemma bits_of_False: "bits_of n w = replicate n False \<longleftrightarrow> (\<forall>i < n. \<not> bit w i)"
proof -
  have "replicate n False = map (\<lambda>_. False) (rev [0..<n])" by (simp add: map_replicate_const)
  then show ?thesis by (auto simp: bits_of_def)
qed

lemma encode_groups:
  fixes xs :: "byte list"
  shows "\<exists>ys k. bech32ConvertBits xs 8 5 True = Ok ys \<and> k < 5 \<and>
           to_bits 5 ys = to_bits 8 xs @ replicate k False \<and> (\<forall>v \<in> set ys. \<forall>n. bit v n \<longrightarrow> n < 5)"
proof -
  obtain acc b out where c: "convert_loop 8 5 xs 0 0 [] = (acc, b, out)" by (metis prod_cases3)
  have S: "to_bits 5 out @ bits_of b acc = to_bits 8 xs" "b < 5" "\<forall>v \<in> set out. \<forall>n. bit v n \<longrightarrow> n < 5"
    using convert_loop_spec[OF c] bit_imp_le_length[where 'a = 8] by (auto simp: bits_of_def)
  show ?thesis
  proof (cases "b = 0")
    case True
    with S c show ?thesis by (intro exI[of _ out] exI[of _ 0]) (simp add: bech32ConvertBits_def bits_of_def)
  next
    case False
    let ?w = "ucast (push_bit (5 - b) acc AND mask 5) :: byte"
    have "bits_of 5 ?w = map (\<lambda>i. bit ?w (5 - b + i)) (rev [0..<b]) @ bits_of (5 - b) ?w"
      using bits_of_split[of "5 - b" 5 ?w] S(2) by simp
    moreover have "map (\<lambda>i. bit ?w (5 - b + i)) (rev [0..<b]) = bits_of b acc"
      using S(2) by (auto simp: bits_of_def bit_simps)
    moreover have "bits_of (5 - b) ?w = replicate (5 - b) False"
      by (auto simp: bits_of_False bit_simps)
    ultimately have "to_bits 5 (out @ [?w]) = to_bits 8 xs @ replicate (5 - b) False"
      using S(1) by simp
    moreover have "\<forall>v \<in> set (out @ [?w]). \<forall>n. bit v n \<longrightarrow> n < 5" using S(3) by (auto simp: bit_simps)
    ultimately show ?thesis using c False S(2)
      by (intro exI[of _ "out @ [?w]"] exI[of _ "5 - b"]) (simp add: bech32ConvertBits_def)
  qed
qed

lemma decode_groups:
  fixes xs ys :: "byte list"
  assumes ys: "to_bits 5 ys = to_bits 8 xs @ replicate k False" "k < 5"
    and small: "\<And>v n. v \<in> set ys \<Longrightarrow> bit v n \<Longrightarrow> n < 5"
  shows "bech32ConvertBits ys 5 8 False = Ok xs"
proof -
  obtain acc b out where c: "convert_loop 5 8 ys 0 0 [] = (acc, b, out)" by (metis prod_cases3)
  have S: "to_bits 8 out @ bits_of b acc = to_bits 8 xs @ replicate k False" "b < 8"
    using convert_loop_spec[OF c] small ys(1) by (auto simp: bits_of_def)
  from arg_cong[OF S(1), of length] have "8 * length out + b = 8 * length xs + k" by simp
  with S(2) ys(2) have len: "length out = length xs" "b = k" by arith+
  with S(1) have "to_bits 8 out = to_bits 8 xs" "bits_of b acc = replicate b False"
    by (simp_all add: append_eq_append_conv)
  then have out: "out = xs" and z: "\<And>i. i < b \<Longrightarrow> \<not> bit acc i"
    using to_bits_inject[of out xs] len(1)
    by (auto simp: bits_of_False)
  have "push_bit (8 - b) acc AND mask 8 = 0"
  proof (rule bit_word_eqI)
    fix n show "bit (push_bit (8 - b) acc AND mask 8) n = bit (0 :: 64 word) n"
      using z S(2) by (auto simp: bit_simps)
  qed
  with c out len(2) ys(2) show ?thesis by (simp add: bech32ConvertBits_def)
qed

theorem convertBits_roundtrip:
  "\<exists>ys. bech32ConvertBits xs 8 5 True = Ok ys \<and> (\<forall>v \<in> set ys. unat v < 32) \<and>
        bech32ConvertBits ys 5 8 False = Ok xs"
  using encode_groups[of xs] decode_groups bit_byte_small by blast

subsection \<open>Decoding inverts encoding\<close>

lemma index_of_nth: "distinct xs \<Longrightarrow> i < length xs \<Longrightarrow> index_of (xs ! i) xs = Some i"
proof (induction xs arbitrary: i)
  case (Cons x xs)
  then show ?case by (cases i) auto
qed simp

lemma charset_distinct: "distinct bech32Charset" and charset_length: "length bech32Charset = 32"
  by (simp_all add: bech32Charset_def)

lemma charset_no_one: "CHR ''1'' \<notin> set bech32Charset"
  and charset_no_upper: "c \<in> set bech32Charset \<Longrightarrow> \<not> is_upper c"
  and charset_no_space: "c \<in> set bech32Charset \<Longrightarrow> \<not> is_space c"
  by (auto simp: bech32Charset_def is_upper_def is_space_def code_of_def)

lemma charset_at_small:
  "unat b < 32 \<Longrightarrow> charset_at b = Some (bech32Charset ! unat b) \<and> bech32Charset ! unat b \<in> set bech32Charset"
  by (simp add: charset_at_def charset_length)

lemma write_charset_decode:
  "(\<And>b. b \<in> set bs \<Longrightarrow> unat b < 32) \<Longrightarrow>
   \<exists>s. write_charset bs = Some s \<and> decode_chars i s = Ok bs \<and> set s \<subseteq> set bech32Charset \<and> length s = length bs"
proof (induction bs arbitrary: i)
  case (Cons b bs)
  then obtain s where s: "write_charset bs = Some s" "decode_chars (Suc i) s = Ok bs"
    "set s \<subseteq> set bech32Charset" "length s = length bs" by (metis list.set_intros(2))
  have "unat b < 32" using Cons.prems by simp
  then show ?case using s charset_at_small[of b] index_of_nth[OF charset_distinct, of "unat b"]
    by (auto simp: charset_length)
qed simp

lemma checksum_small: "v \<in> set (bech32Checksum hrp data) \<Longrightarrow> unat v < 32"
proof -
  have "unat (ucast (x AND 31) :: byte) < 32" for x :: "32 word"
  proof -
    have "unat (x AND 31) < 32"
      using word_and_le1[of x 31] by (simp add: word_le_nat_alt)
    then show ?thesis by (simp add: unsigned_ucast_eq take_bit_eq_mod)
  qed
  then show "v \<in> set (bech32Checksum hrp data) \<Longrightarrow> unat v < 32"
    by (auto simp: bech32Checksum_def Let_def)
qed

lemma checksum_length: "length (bech32Checksum hrp data) = 6"
  by (simp add: bech32Checksum_def Let_def bech32ChecksumLen_def)

lemma bech32Decode_Encode:
  assumes "\<And>v. v \<in> set data \<Longrightarrow> unat v < 32" and "hrp_ok hrp"
  shows "\<exists>s. bech32Encode hrp data = Some s \<and>
             Bech32Decode s = rbind (bech32ConvertBits data 5 8 False) (\<lambda>d. Ok (hrp, d))"
proof -
  let ?cs = "bech32Checksum hrp data"
  obtain t where t: "write_charset (data @ ?cs) = Some t" "decode_chars 0 t = Ok (data @ ?cs)"
    "set t \<subseteq> set bech32Charset" "length t = length (data @ ?cs)"
    using write_charset_decode[of "data @ ?cs" 0] assms(1) checksum_small by (metis Un_iff set_append)
  let ?s = "hrp @ CHR ''1'' # t"
  have enc: "bech32Encode hrp data = Some ?s" using t(1) by (simp add: bech32Encode_def)
  have len: "length t \<ge> 6" using t(4) checksum_length by simp
  then have "t \<noteq> []" by auto
  then have "last t \<in> set bech32Charset" using t(3) last_in_set by blast
  then have "\<not> is_space (last ?s)" using charset_no_space \<open>t \<noteq> []\<close> by simp
  then have trim: "trim_space ?s = ?s"
    using assms(2) by (intro trim_space_id) (auto simp: hrp_ok_def)
  have low: "to_lower ?s = ?s"
  proof (rule to_lower_id)
    have "\<not> is_upper CHR ''1''" by (simp add: is_upper_def code_of_def)
    then show "\<forall>c \<in> set ?s. \<not> is_upper c"
      using assms(2) t(3) charset_no_upper by (auto simp: hrp_ok_def list_all_iff)
  qed
  have sep: "last_index_of CHR ''1'' ?s = Some (length hrp)"
    using t(3) charset_no_one by (intro last_index_of_append_notin) auto
  have "hrp \<noteq> []" using assms(2) by (simp add: hrp_ok_def)
  then have "Bech32Decode ?s = rbind (bech32ConvertBits data 5 8 False) (\<lambda>d. Ok (hrp, d))"
    using len t(2) bech32_checksum_valid[of data hrp] assms(1) checksum_length[of hrp data]
    unfolding Bech32Decode_def trim low Let_def sep
    by (simp add: bech32ChecksumLen_def)
  with enc show ?thesis by blast
qed

lemma encode_decode:
  assumes "hrp_ok hrp"
  shows "\<exists>s. keys_AddressFromBytes xs hrp = Ok s \<and> Bech32Decode s = Ok (hrp, xs)"
proof -
  obtain ys where ys: "bech32ConvertBits xs 8 5 True = Ok ys" "\<forall>v \<in> set ys. unat v < 32"
    "bech32ConvertBits ys 5 8 False = Ok xs" using convertBits_roundtrip by blast
  from bech32Decode_Encode[OF _ assms, of ys] ys
  obtain s where "bech32Encode hrp ys = Some s" "Bech32Decode s = Ok (hrp, xs)" by auto
  with ys(1) show ?thesis by (simp add: keys_AddressFromBytes_def)
qed

text \<open>C20: Encoding any bytes under a lower-case prefix succeeds (no index of the character set is out of
  range, no padding error), and decoding the string gives back the prefix and the same bytes.\<close>

theorem address_roundtrip:
  assumes "hrp_ok hrp"
  shows "\<exists>s. keys_AddressFromBytes xs hrp = Ok s \<and> Bech32Decode s = Ok (hrp, xs)"
  using encode_decode[OF assms] .

theorem address_roundtrip_witness:
  "\<exists>s. keys_AddressFromBytes [0x00, 0xff, 0x10] ''cosmos'' = Ok s \<and> Bech32Decode s = Ok (''cosmos'', [0x00, 0xff, 0x10])"
  using address_roundtrip[of "''cosmos''" "[0x00, 0xff, 0x10]"]
  by (simp add: hrp_ok_def is_upper_def is_space_def code_of_def)

subsection \<open>Accepted strings are canonical\<close>

lemma shift_in_inverse:
  fixes a :: "32 word"
  assumes "drop_bit 25 a = 0" "unat v < 32"
  shows "drop_bit 5 (push_bit 5 a XOR ucast v) = a"
    and "ucast ((push_bit 5 a XOR ucast v) AND 31) = (v :: byte)"
proof -
  have m: "(31 :: 32 word) = mask 5" by (simp add: mask_eq_exp_minus_1)
  have hi: "n < 25" if "bit a n" for n
  proof (rule ccontr)
    assume "\<not> n < 25"
    have "bit a n = bit (drop_bit 25 a) (n - 25)" using \<open>\<not> n < 25\<close> by (simp add: bit_simps)
    then show False using assms(1) that by simp
  qed
  show "drop_bit 5 (push_bit 5 a XOR ucast v) = a"
    by (rule bit_word_eqI) (auto simp: bit_simps dest: bit_small_byte[OF assms(2)] hi)
  show "ucast ((push_bit 5 a XOR ucast v) AND 31) = (v :: byte)"
    by (rule bit_word_eqI) (auto simp: m bit_simps dest: bit_small_byte[OF assms(2)])
qed

lemma words_fold_inverse:
  assumes "length cs = n" "n \<le> 6" "\<And>v. v \<in> set cs \<Longrightarrow> unat v < 32"
  shows "drop_bit (5 * n) (foldl polymod_step 0 cs) = 0 \<and>
         cs = map (\<lambda>i. ucast (drop_bit (5 * (n - 1 - i)) (foldl polymod_step 0 cs) AND 31)) [0..<n]"
  using assms
proof (induction cs arbitrary: n rule: rev_induct)
  case Nil
  then show ?case by simp
next
  case (snoc v vs)
  then obtain m where n: "n = Suc m" "length vs = m" "m \<le> 5" by (cases n) auto
  let ?a = "foldl polymod_step 0 vs"
  have IH: "drop_bit (5 * m) ?a = 0"
    "vs = map (\<lambda>i. ucast (drop_bit (5 * (m - 1 - i)) ?a AND 31)) [0..<m]"
    using snoc.IH[of m] snoc.prems n by auto
  have "drop_bit 25 ?a = 0" using drop_bit_small_mono[OF IH(1), of 25] n(3) by simp
  then have b: "polymod_step ?a v = push_bit 5 ?a XOR ucast v"
    "drop_bit 5 (polymod_step ?a v) = ?a" "ucast (polymod_step ?a v AND 31) = v"
    using shift_in_inverse[of ?a v] snoc.prems(3)[of v] by (simp_all add: polymod_step_small)
  have d: "drop_bit (5 * (n - 1 - i)) (polymod_step ?a v) = drop_bit (5 * (m - 1 - i)) ?a" if "i < m" for i
  proof -
    have "5 * (n - 1 - i) = 5 * (m - 1 - i) + 5" using that n(1) by simp
    then show ?thesis using b(2) by (metis drop_bit_drop_bit add.commute)
  qed
  have "drop_bit (5 * n) (polymod_step ?a v) = 0"
    using IH(1) b(2) n(1) by (metis drop_bit_drop_bit mult_Suc_right add.commute)
  moreover have "vs @ [v] = map (\<lambda>i. ucast (drop_bit (5 * (n - 1 - i)) (polymod_step ?a v) AND 31)) [0..<n]"
  proof -
    have "vs = map (\<lambda>i. ucast (drop_bit (5 * (n - 1 - i)) (polymod_step ?a v) AND 31)) [0..<m]"
      by (subst IH(2), rule map_cong[OF refl]) (simp add: d[simplified])
    with b(3) n(1) show ?thesis by simp
  qed
  ultimately show ?case unfolding foldl_append foldl.simps by (rule conjI)
qed

lemma xor_cancel: "z XOR x = z XOR y \<Longrightarrow> x = (y :: 32 word)"
  by (metis xor.assoc xor_self_eq xor.left_neutral)

lemma checksum_unique:
  assumes small: "\<And>v. v \<in> set data \<Longrightarrow> unat v < 32" and cs: "length cs = 6" "\<And>v. v \<in> set cs \<Longrightarrow> unat v < 32"
    and ok: "bech32Polymod (bech32HRPExpand hrp @ data @ cs) = 1"
  shows "cs = bech32Checksum hrp data"
proof -
  let ?pre = "bech32HRPExpand hrp @ data"
  let ?c = "foldl polymod_step (foldl polymod_step 1 ?pre) (replicate 6 0)"
  have "?c XOR foldl polymod_step 0 cs = 1"
    using ok polymod_append_words[OF cs(1), of "foldl polymod_step 1 ?pre"] by (simp add: bech32Polymod_def)
  moreover have "?c XOR foldl polymod_step 0 (bech32Checksum hrp data) = 1"
    using bech32_checksum_valid[of data hrp, OF small]
      polymod_append_words[OF checksum_length, of "foldl polymod_step 1 ?pre"]
    by (simp add: bech32Polymod_def)
  ultimately have "foldl polymod_step 0 cs = foldl polymod_step 0 (bech32Checksum hrp data)"
    by (metis xor_cancel)
  then have eq: "foldl polymod_step 0 (bech32Checksum hrp data) = foldl polymod_step 0 cs" ..
  have "cs = map (\<lambda>i. ucast (drop_bit (5 * (6 - 1 - i)) (foldl polymod_step 0 cs) AND 31)) [0..<6]"
    using words_fold_inverse[OF cs(1) order_refl cs(2)] by (rule conjunct2)
  moreover have "bech32Checksum hrp data
      = map (\<lambda>i. ucast (drop_bit (5 * (6 - 1 - i)) (foldl polymod_step 0 (bech32Checksum hrp data)) AND 31)) [0..<6]"
    using words_fold_inverse[OF checksum_length order_refl checksum_small] by (rule conjunct2)
  ultimately show ?thesis unfolding eq by (rule trans[OF _ sym])
qed

lemma to_bits_inject5:
  fixes xs ys :: "byte list"
  shows "length xs = length ys \<Longrightarrow> to_bits 5 xs = to_bits 5 ys \<Longrightarrow>
    (\<And>v n. v \<in> set xs \<union> set ys \<Longrightarrow> bit v n \<Longrightarrow> n < 5) \<Longrightarrow> xs = ys"
proof (induction xs ys rule: list_induct2)
  case (Cons x xs y ys)
  then have "bits_of 5 x = bits_of 5 y" "to_bits 5 xs = to_bits 5 ys" by simp_all
  then have "bit x n = bit y n" if "n < 5" for n using that by (auto simp: bits_of_def)
  moreover have "bit x n \<or> bit y n \<Longrightarrow> n < 5" for n using Cons.prems(2) by auto
  ultimately have "x = y" by (intro bit_word_eqI) blast
  then show ?case using Cons.IH \<open>to_bits 5 xs = to_bits 5 ys\<close> Cons.prems(2) by auto
qed simp

lemma convertBits_canonical:
  assumes dec: "bech32ConvertBits ys 5 8 False = Ok xs" and small: "\<And>v. v \<in> set ys \<Longrightarrow> unat v < 32"
  shows "bech32ConvertBits xs 8 5 True = Ok ys"
proof -
  note sm = bit_small_byte[OF small]
  obtain acc b out where c: "convert_loop 5 8 ys 0 0 [] = (acc, b, out)" by (metis prod_cases3)
  have S: "to_bits 8 out @ bits_of b acc = to_bits 5 ys"
    using convert_loop_spec[OF c] sm by (auto simp: bits_of_def)
  have bo: "b < 5" "out = xs" "push_bit (8 - b) acc AND mask 8 = 0"
    using dec c by (auto simp: bech32ConvertBits_def split: if_splits)
  have "\<not> bit acc i" if "i < b" for i
  proof -
    have "bit (push_bit (8 - b) acc AND mask 8) (8 - b + i) = bit acc i"
      using that bo(1) by (auto simp: bit_simps)
    with bo(3) show ?thesis by simp
  qed
  then have S': "to_bits 5 ys = to_bits 8 xs @ replicate b False"
    using S bo(2) bits_of_False[of b acc] by simp
  obtain zs k where z: "bech32ConvertBits xs 8 5 True = Ok zs" "k < 5"
    "to_bits 5 zs = to_bits 8 xs @ replicate k False" "\<forall>v \<in> set zs. \<forall>n. bit v n \<longrightarrow> n < 5"
    using encode_groups[of xs] by blast
  have "5 * length ys = 8 * length xs + b" "5 * length zs = 8 * length xs + k"
    using arg_cong[OF S', of length] arg_cong[OF z(3), of length] by simp_all
  then have "length ys = length zs" "b = k" using bo(1) z(2) by arith+
  then have "ys = zs" using S' z(3,4) sm by (intro to_bits_inject5) auto
  with z(1) show ?thesis by simp
qed

lemma index_of_SomeD: "index_of c s = Some i \<Longrightarrow> i < length s \<and> s ! i = c"
  by (induction s arbitrary: i) (auto split: if_splits)

lemma decode_chars_write:
  "decode_chars i s = Ok bs \<Longrightarrow> write_charset bs = Some s \<and> length bs = length s \<and> (\<forall>b \<in> set bs. unat b < 32)"
proof (induction s arbitrary: i bs)
  case (Cons c s)
  then obtain idx rest where r: "index_of c bech32Charset = Some idx" "decode_chars (Suc i) s = Ok rest"
    "bs = word_of_nat idx # rest"
    by (auto simp: rbind_Ok_iff split: option.splits)
  have "idx < 32" "bech32Charset ! idx = c" using index_of_SomeD[OF r(1)] by (simp_all add: charset_length)
  moreover from this have "unat (word_of_nat idx :: byte) = idx" by (simp add: unat_of_nat take_bit_nat_eq_self)
  ultimately show ?case using Cons.IH[OF r(2)] r(3) by (simp add: charset_at_def)
qed simp

lemma decode_is_canonical:
  assumes "Bech32Decode s = Ok (hrp, xs)"
  shows "keys_AddressFromBytes xs hrp = Ok (to_lower (trim_space s))"
proof -
  let ?l = "to_lower (trim_space s)"
  obtain sep decoded where d: "last_index_of CHR ''1'' ?l = Some sep" "sep + 7 \<le> length ?l"
    "hrp = take sep ?l" "decode_chars 0 (drop (sep + 1) ?l) = Ok decoded"
    "bech32Polymod (bech32HRPExpand hrp @ decoded) = 1"
    "bech32ConvertBits (take (length decoded - 6) decoded) 5 8 False = Ok xs"
    using assms by (auto simp: Bech32Decode_def Let_def rbind_Ok_iff bech32ChecksumLen_def
        split: option.splits if_splits)
  note w = decode_chars_write[OF d(4)]
  define dat cs where "dat = take (length decoded - 6) decoded" and "cs = drop (length decoded - 6) decoded"
  have dc: "decoded = dat @ cs" "length cs = 6" using w d(2) by (simp_all add: dat_def cs_def)
  then have sm: "\<And>v. v \<in> set dat \<Longrightarrow> unat v < 32" "\<And>v. v \<in> set cs \<Longrightarrow> unat v < 32" using w by auto
  have cs: "cs = bech32Checksum hrp dat" using checksum_unique[OF sm(1) dc(2) sm(2)] d(5) dc(1) by simp
  have "bech32ConvertBits xs 8 5 True = Ok dat" using convertBits_canonical[OF _ sm(1)] d(6) dat_def by simp
  moreover have "bech32Encode hrp dat = Some (hrp @ CHR ''1'' # drop (sep + 1) ?l)"
    using w dc(1) cs by (simp add: bech32Encode_def)
  moreover have "?l = hrp @ CHR ''1'' # drop (sep + 1) ?l"
  proof -
    have li: "last_index_of c t = Some i \<Longrightarrow> i < length t \<and> t ! i = c" for c t i
      by (induction t arbitrary: i) (auto split: option.splits if_splits)
    show ?thesis using id_take_nth_drop[of sep ?l] li[OF d(1)] d(3) by simp
  qed
  ultimately show ?thesis by (simp add: keys_AddressFromBytes_def)
qed

text \<open>C21: An address is accepted only in its canonical form: when \<^verbatim>\<open>Bech32Decode\<close> accepts a string, the
  string is, up to surrounding space and letter case, exactly the encoding of the decoded bytes. Two
  strings that decode alike are therefore the same address text, and no other checksum or padding passes.\<close>

theorem decode_canonical:
  assumes "Bech32Decode s = Ok (hrp, xs)"
  shows "keys_AddressFromBytes xs hrp = Ok (to_lower (trim_space s))"
  using decode_is_canonical[OF assms] .

theorem decode_canonical_witness:
  "Bech32Decode '' A1QYPQVRG2CF '' = Ok (''a'', [1, 2]) \<and>
   keys_AddressFromBytes [1, 2] ''a'' = Ok (to_lower (trim_space '' A1QYPQVRG2CF ''))"
proof -
  have "Bech32Decode '' A1QYPQVRG2CF '' = Ok (''a'', [1, 2])" by code_simp
  then show ?thesis using decode_canonical by blast
qed

end
