(* ===== verification/Coins.thy ===== *)
theory Coins
  imports Prelude
begin

text \<open>
  The value types of \<^verbatim>\<open>internal/tx/types.go\<close> that every component passes around, and the coin parser
  \<^verbatim>\<open>ParseCoin\<close> of \<^verbatim>\<open>internal/config/chains.go\<close>. The lemmas characterise the parser completely: what it
  accepts, what it returns, and that it inverts the printed form \<^verbatim>\<open>Amount + Denom\<close>.
\<close>

record coin =
  coin_denom :: string
  coin_amount :: string

type_synonym coins = "coin list"

record send_request =
  sr_key_index :: nat
  sr_to_address :: string
  sr_coins :: coins

record send_output =
  so_to_address :: string
  so_coins :: coins

record batch_send_request =
  bsr_key_index :: nat
  bsr_outputs :: "send_output list"

record broadcast_result =
  br_tx_hash :: string
  br_height :: int
  br_gas_used :: int

record transfer_request =
  tr_key_index :: nat
  tr_source_port :: string
  tr_source_channel :: string
  tr_token :: coin
  tr_receiver_address :: string
  tr_timeout_timestamp :: int
  tr_memo :: string

record transfer_result =
  tres_tx_hash :: string
  tres_height :: int
  tres_gas_used :: int
  tres_packet_sequence :: int

record account =
  acc_address :: string
  acc_number :: int
  acc_sequence :: int

record estimate =
  est_gas_limit :: int
  est_fee :: coin
  est_gas_price_amount :: string

record cached_estimate =
  ce_base_gas :: int
  ce_gas_per_output :: int
  ce_fee_denom :: string
  ce_gas_price_amount :: string
  ce_sample_count :: int

definition IsTrusted :: "cached_estimate \<Rightarrow> bool" where
  "IsTrusted c \<longleftrightarrow> ce_sample_count c \<ge> 5"

definition MsgTypeSend :: string where "MsgTypeSend = ''send''"
definition MsgTypeMultiSend :: string where "MsgTypeMultiSend = ''multisend''"
definition MsgTypeTransfer :: string where "MsgTypeTransfer = ''transfer''"

datatype coin_error = CoinNoAmountDenom | CoinMissingDenom

text \<open>
  \<^verbatim>\<open>strings.IndexFunc(s, not IsDigit)\<close> is the length of the longest prefix of digits, or \<^verbatim>\<open>-1\<close> when
  the whole text is digits.
\<close>

definition index_non_digit :: "string \<Rightarrow> nat option" where
  "index_non_digit s =
     (let p = takeWhile is_digit s in if p = s then None else Some (length p))"

definition ParseCoin :: "string \<Rightarrow> (coin_error, coin) result" where
  "ParseCoin s0 =
     (let s = trim_space s0
      in case index_non_digit s of
           None \<Rightarrow> Err CoinNoAmountDenom
         | Some i \<Rightarrow>
             if i = 0 then Err CoinNoAmountDenom
             else let denom = trim_space (drop i s)
                  in if denom = [] then Err CoinMissingDenom
                     else Ok \<lparr>coin_denom = denom, coin_amount = take i s\<rparr>)"

text \<open>The printed form of a coin, and the denominations that survive the parser's trimming.\<close>

definition coin_string :: "coin \<Rightarrow> string" where
  "coin_string c = coin_amount c @ coin_denom c"

definition denom_ok :: "string \<Rightarrow> bool" where
  "denom_ok d \<longleftrightarrow> d \<noteq> [] \<and> \<not> is_digit (hd d) \<and> \<not> is_space (hd d) \<and> \<not> is_space (last d)"

definition coin_ok :: "coin \<Rightarrow> bool" where
  "coin_ok c \<longleftrightarrow> all_digits (coin_amount c) \<and> coin_denom c \<noteq> []"

subsection \<open>The parser\<close>

lemma index_non_digit_append:
  assumes "list_all is_digit p" "r \<noteq> []" "\<not> is_digit (hd r)"
  shows "index_non_digit (p @ r) = Some (length p)"
proof -
  have "takeWhile is_digit (p @ r) = p"
    using assms by (cases r) (simp_all add: list_all_iff takeWhile_append2)
  with assms(2) show ?thesis by (simp add: index_non_digit_def Let_def)
qed

lemma index_non_digit_SomeD:
  assumes "index_non_digit s = Some i"
  shows "list_all is_digit (take i s)" "i < length s" "\<not> is_digit (s ! i)"
proof -
  have i: "i = length (takeWhile is_digit s)" "takeWhile is_digit s \<noteq> s"
    using assms by (auto simp: index_non_digit_def Let_def split: if_splits)
  then show "list_all is_digit (take i s)"
    by (simp add: list_all_iff takeWhile_eq_take[symmetric]) (meson set_takeWhileD)
  show lt: "i < length s"
    using i by (metis length_takeWhile_le nat_less_le takeWhile_eq_take take_all order_refl)
  show "\<not> is_digit (s ! i)" using lt i(1) nth_length_takeWhile by blast
qed

lemma digit_not_space: "is_digit c \<Longrightarrow> \<not> is_space c"
  by (auto simp: is_digit_def is_space_def)

lemma ParseCoin_coin_ok:
  assumes "ParseCoin s = Ok c"
  shows "coin_ok c"
proof -
  from assms obtain i where i: "index_non_digit (trim_space s) = Some i" "i \<noteq> 0"
    "coin_amount c = take i (trim_space s)" "coin_denom c \<noteq> []"
    by (auto simp: ParseCoin_def Let_def split: option.splits if_splits)
  then show ?thesis
    using index_non_digit_SomeD[OF i(1)] by (auto simp: coin_ok_def all_digits_def)
qed

lemma ParseCoin_print:
  assumes "all_digits (coin_amount c)" "denom_ok (coin_denom c)"
  shows "ParseCoin (coin_string c) = Ok c"
proof -
  let ?s = "coin_amount c @ coin_denom c"
  have d: "coin_denom c \<noteq> []" "\<not> is_digit (hd (coin_denom c))" "\<not> is_space (hd (coin_denom c))"
    "\<not> is_space (last (coin_denom c))" using assms(2) by (auto simp: denom_ok_def)
  have a: "coin_amount c \<noteq> []" "list_all is_digit (coin_amount c)"
    using assms(1) by (auto simp: all_digits_def)
  have "\<not> is_space (hd ?s)"
    using a digit_not_space by (cases "coin_amount c") auto
  then have trim: "trim_space ?s = ?s" using d a by (intro trim_space_id) auto
  have "index_non_digit ?s = Some (length (coin_amount c))"
    using index_non_digit_append a d by blast
  moreover have "trim_space (coin_denom c) = coin_denom c" using d by (intro trim_space_id) auto
  ultimately show ?thesis
    using a d by (simp add: ParseCoin_def coin_string_def trim Let_def)
qed

text \<open>The coin parser inverts printing (every amount made of digits, every denomination that does not
  start with a digit or carry outer space), everything it accepts has a digits-only amount and a non-empty
  denomination, and it fails exactly when the trimmed text has no leading digit or nothing but space
  after the digits.\<close>

theorem ParseCoin_correct:
  "(all_digits (coin_amount c) \<and> denom_ok (coin_denom c) \<longrightarrow> ParseCoin (coin_string c) = Ok c) \<and>
   (ParseCoin s = Ok c' \<longrightarrow> coin_ok c') \<and>
   (is_ok (ParseCoin s) \<longleftrightarrow>
      (let t = trim_space s; r = dropWhile is_digit t
       in r \<noteq> [] \<and> r \<noteq> t \<and> trim_space r \<noteq> []))"
proof (intro conjI impI)
  have "is_ok (ParseCoin s) \<longleftrightarrow> dropWhile is_digit t \<noteq> [] \<and> dropWhile is_digit t \<noteq> t \<and>
      trim_space (dropWhile is_digit t) \<noteq> []" if "t = trim_space s" for t
  proof -
    let ?p = "takeWhile is_digit t"
    have app: "?p @ dropWhile is_digit t = t" by simp
    have "?p = t \<longleftrightarrow> dropWhile is_digit t = []" using app by (metis append_Nil2 same_append_eq)
    moreover have "?p = [] \<longleftrightarrow> dropWhile is_digit t = t"
      using app by (metis append_Nil append_same_eq)
    moreover have "drop (length ?p) t = dropWhile is_digit t" by (simp add: dropWhile_eq_drop)
    ultimately show ?thesis using that
      by (auto simp: ParseCoin_def index_non_digit_def Let_def split: if_splits)
  qed
  then show "is_ok (ParseCoin s) \<longleftrightarrow> (let t = trim_space s; r = dropWhile is_digit t
       in r \<noteq> [] \<and> r \<noteq> t \<and> trim_space r \<noteq> [])" by (simp add: Let_def)
qed (use ParseCoin_print ParseCoin_coin_ok in blast)+

end
