(* ===== verification/Ratelimit.thy ===== *)
theory Ratelimit
  imports Bech32 Coins "HOL-Library.Signed_Division"
begin

text \<open>
  \<^verbatim>\<open>internal/abuse/ratelimit/ratelimit.go\<close>: the sliding-window limiter over the SQL table
  \<^verbatim>\<open>rate_limits\<close>. The table is a list of rows, each statement of the source is a function on it, and a
  transaction commits all of its changes or none. The clock is an argument (\<^verbatim>\<open>time.Now().Unix()\<close> in
  seconds, the later reading of \<^verbatim>\<open>time.Until\<close> in nanoseconds); \<^verbatim>\<open>io\<close> says which database calls fail.

  SQLite's conversions between text and integers are not code of the repository: they are the two
  functions of the record \<^verbatim>\<open>sqlite\<close>, and the locale \<^verbatim>\<open>sqlite_laws\<close> states what its manual promises about
  digit strings. \<^verbatim>\<open>SUM\<close> fails on a running overflow of 64 bits, as documented.

  The locale \<^verbatim>\<open>sliding_window\<close> is the contract the three checks share; it is interpreted on all three.
\<close>

record sqlite =
  cast_int :: "string \<Rightarrow> int"            \<comment> \<open>\<^verbatim>\<open>CAST(x AS INTEGER)\<close>\<close>
  cast_add :: "string \<Rightarrow> string \<Rightarrow> string"  \<comment> \<open>\<^verbatim>\<open>CAST(CAST(x AS INTEGER) + ? AS TEXT)\<close>\<close>

locale sqlite_laws =
  fixes sq :: sqlite
  assumes cast_small: "all_digits s \<Longrightarrow> int (digits_val s) \<le> max_int64 \<Longrightarrow> cast_int sq s = int (digits_val s)"
    and cast_saturates: "all_digits s \<Longrightarrow> max_int64 < int (digits_val s) \<Longrightarrow> cast_int sq s = max_int64"
    and add_small: "all_digits s \<Longrightarrow> all_digits t \<Longrightarrow> int (digits_val s) + int (digits_val t) \<le> max_int64 \<Longrightarrow>
                    cast_add sq s t = show_nat (digits_val s + digits_val t)"

record rl_row =
  rl_scope_type :: string
  rl_scope_value :: string
  rl_chain_id :: string
  rl_window_start :: int
  rl_request_count :: int
  rl_coins_total :: string

type_synonym rl_table = "rl_row list"
type_synonym rl_bucket = "string \<times> string \<times> string"

record limiter =
  lim_requests_per_window :: int
  lim_window :: int   \<comment> \<open>\<^verbatim>\<open>time.Duration\<close>, nanoseconds\<close>

definition New_limiter :: "int \<Rightarrow> int \<Rightarrow> limiter" where
  "New_limiter requestsPerWindow window =
     \<lparr>lim_requests_per_window = requestsPerWindow, lim_window = window\<rparr>"

definition DefaultRequestsPerWindow :: int where "DefaultRequestsPerWindow = 10"

definition second :: int where "second = 1000000000"
definition addressWindow :: int where "addressWindow = 24 * 3600 * second"
definition apiKeyWindow :: int where "apiKeyWindow = 3600 * second"

datatype db_op = DbBegin | DbQuery | DbOldest | DbExec | DbCommit

datatype rl_error =
    RateLimitExceeded int
  | RLBegin | RLCount | RLOldest | RLInsert | RLCommit
  | RLDecodeAddress bech32_error
  | RLBadDripAmount | RLBadMaxAmount

subsection \<open>The SQL statements\<close>

definition row_key :: "rl_row \<Rightarrow> rl_bucket \<times> int" where
  "row_key r = ((rl_scope_type r, rl_scope_value r, rl_chain_id r), rl_window_start r)"

text \<open>The \<^verbatim>\<open>WHERE\<close> clause shared by the queries.\<close>

definition in_window :: "rl_bucket \<Rightarrow> int \<Rightarrow> rl_row \<Rightarrow> bool" where
  "in_window b windowStart r \<longleftrightarrow> fst (row_key r) = b \<and> rl_window_start r \<ge> windowStart"

text \<open>\<^verbatim>\<open>COALESCE(SUM(...), 0)\<close> over 64-bit integers: \<^const>\<open>None\<close> is the overflow error of the statement.\<close>

fun sql_sum :: "int \<Rightarrow> int list \<Rightarrow> int option" where
  "sql_sum acc [] = Some acc"
| "sql_sum acc (x # xs) = (if in_int64 (acc + x) then sql_sum (acc + x) xs else None)"

definition sum_requests :: "rl_bucket \<Rightarrow> int \<Rightarrow> rl_table \<Rightarrow> int option" where
  "sum_requests b from tbl = sql_sum 0 (map rl_request_count (filter (in_window b from) tbl))"

definition sum_coins :: "sqlite \<Rightarrow> rl_bucket \<Rightarrow> int \<Rightarrow> rl_table \<Rightarrow> int option" where
  "sum_coins sq b from tbl =
     sql_sum 0 (map (\<lambda>r. cast_int sq (rl_coins_total r)) (filter (in_window b from) tbl))"

text \<open>\<^verbatim>\<open>MIN(window_start)\<close>: \<^const>\<open>None\<close> is \<^verbatim>\<open>NULL\<close>, the minimum of no rows.\<close>

definition min_start :: "rl_bucket \<Rightarrow> int \<Rightarrow> rl_table \<Rightarrow> int option" where
  "min_start b from tbl =
     (case map rl_window_start (filter (in_window b from) tbl) of
        [] \<Rightarrow> None
      | x # xs \<Rightarrow> Some (foldl min x xs))"

text \<open>\<^verbatim>\<open>INSERT ... ON CONFLICT(primary key) DO UPDATE\<close>.\<close>

definition upsert :: "rl_row \<Rightarrow> (rl_row \<Rightarrow> rl_row) \<Rightarrow> rl_table \<Rightarrow> rl_table" where
  "upsert new upd tbl =
     (if row_key new \<in> set (map row_key tbl)
      then map (\<lambda>r. if row_key r = row_key new then upd r else r) tbl
      else tbl @ [new])"

definition incr_count :: "rl_row \<Rightarrow> rl_row" where
  "incr_count r = r\<lparr>rl_request_count := rl_request_count r + 1\<rparr>"

definition new_row :: "rl_bucket \<Rightarrow> int \<Rightarrow> string \<Rightarrow> rl_row" where
  "new_row b now amount =
     (case b of (st, sv, c) \<Rightarrow>
        \<lparr>rl_scope_type = st, rl_scope_value = sv, rl_chain_id = c, rl_window_start = now,
         rl_request_count = 1, rl_coins_total = amount\<rparr>)"

subsection \<open>The three checks\<close>

definition retry_after :: "int \<Rightarrow> int \<Rightarrow> int \<Rightarrow> int" where
  "retry_after oldest window nowNs = oldest * second + window - nowNs"

definition Check ::
    "(db_op \<Rightarrow> bool) \<Rightarrow> limiter \<Rightarrow> string \<Rightarrow> string \<Rightarrow> int \<Rightarrow> int \<Rightarrow> rl_table
     \<Rightarrow> (rl_error, unit) result \<times> rl_table" where
  "Check io l ip chainID now nowNs tbl =
     (if io DbBegin then (Err RLBegin, tbl)
      else
        let windowStart = now - lim_window l sdiv second; b = (''ip'', ip, chainID)
        in case (if io DbQuery then None else sum_requests b windowStart tbl) of
             None \<Rightarrow> (Err RLCount, tbl)
           | Some tot \<Rightarrow>
               if tot \<ge> lim_requests_per_window l then
                 (case (if io DbOldest then None else min_start b windowStart tbl) of
                    None \<Rightarrow> (Err RLOldest, tbl)
                  | Some oldest \<Rightarrow> (Err (RateLimitExceeded (retry_after oldest (lim_window l) nowNs)), tbl))
               else if io DbExec then (Err RLInsert, tbl)
               else if io DbCommit then (Err RLCommit, tbl)
               else (Ok (), upsert (new_row b now '''') incr_count tbl))"

definition scope_value :: "string \<Rightarrow> byte list \<Rightarrow> string \<Rightarrow> string" where
  "scope_value keyAlgo rawBytes denom = keyAlgo @ '':'' @ hex_encode rawBytes @ '':'' @ denom"

definition add_coins :: "sqlite \<Rightarrow> string \<Rightarrow> rl_row \<Rightarrow> rl_row" where
  "add_coins sq amount r =
     r\<lparr>rl_request_count := rl_request_count r + 1, rl_coins_total := cast_add sq (rl_coins_total r) amount\<rparr>"

definition CheckAddress ::
    "sqlite \<Rightarrow> (db_op \<Rightarrow> bool) \<Rightarrow> string \<Rightarrow> string \<Rightarrow> string \<Rightarrow> coin \<Rightarrow> coin \<Rightarrow> int \<Rightarrow> int \<Rightarrow> rl_table
     \<Rightarrow> (rl_error, unit) result \<times> rl_table" where
  "CheckAddress sq io bech32Addr keyAlgo chainID dripCoin maxPerDay now nowNs tbl =
     (case DecodeAddressBytes bech32Addr of
        Inl e \<Rightarrow> (Err (RLDecodeAddress e), tbl)
      | Inr rawBytes \<Rightarrow>
          let scopeValue = scope_value keyAlgo rawBytes (coin_denom dripCoin);
              b = (''address'', scopeValue, chainID)
          in case set_string (coin_amount dripCoin) of
               None \<Rightarrow> (Err RLBadDripAmount, tbl)
             | Some dripAmt \<Rightarrow>
          (case set_string (coin_amount maxPerDay) of
             None \<Rightarrow> (Err RLBadMaxAmount, tbl)
           | Some maxAmt \<Rightarrow>
               if io DbBegin then (Err RLBegin, tbl)
               else
                 let windowStart = now - addressWindow sdiv second
                 in case (if io DbQuery then None else sum_coins sq b windowStart tbl) of
                      None \<Rightarrow> (Err RLCount, tbl)
                    | Some tot \<Rightarrow>
                        if tot + dripAmt > maxAmt then
                          (if io DbOldest then (Err RLOldest, tbl)
                           else let oldest = case_option now id (min_start b windowStart tbl)
                                in (Err (RateLimitExceeded (retry_after oldest addressWindow nowNs)), tbl))
                        else if io DbExec then (Err RLInsert, tbl)
                        else if io DbCommit then (Err RLCommit, tbl)
                        else (Ok (), upsert (new_row b now (coin_amount dripCoin))
                                       (add_coins sq (coin_amount dripCoin)) tbl)))"

definition api_key_limit :: "limiter \<Rightarrow> int \<Rightarrow> int" where
  "api_key_limit l rateLimitPerHour =
     (if rateLimitPerHour > 0 then rateLimitPerHour else lim_requests_per_window l)"

definition CheckAPIKey ::
    "(db_op \<Rightarrow> bool) \<Rightarrow> limiter \<Rightarrow> string \<Rightarrow> string \<Rightarrow> int \<Rightarrow> int \<Rightarrow> int \<Rightarrow> rl_table
     \<Rightarrow> (rl_error, unit) result \<times> rl_table" where
  "CheckAPIKey io l keyID chainID rateLimitPerHour now nowNs tbl =
     (let limit = api_key_limit l rateLimitPerHour
      in if io DbBegin then (Err RLBegin, tbl)
         else
           let windowStart = now - apiKeyWindow sdiv second; b = (''api_key'', keyID, chainID)
           in case (if io DbQuery then None else sum_requests b windowStart tbl) of
                None \<Rightarrow> (Err RLCount, tbl)
              | Some tot \<Rightarrow>
                  if tot \<ge> limit then
                    (if io DbOldest then (Err RLOldest, tbl)
                     else let oldest = case_option now id (min_start b windowStart tbl)
                          in (Err (RateLimitExceeded (retry_after oldest apiKeyWindow nowNs)), tbl))
                  else if io DbExec then (Err RLInsert, tbl)
                  else if io DbCommit then (Err RLCommit, tbl)
                  else (Ok (), upsert (new_row b now '''') incr_count tbl))"

subsection \<open>Specification vocabulary\<close>

text \<open>
  What a run of operations grants, with the clock of each grant, and the total granted in a time interval.
  \<^verbatim>\<open>rl_exec\<close> dispatches one operation on the table; \<^verbatim>\<open>recorded\<close> is the usage the rows of a bucket add up to.
\<close>

fun grants :: "('op \<Rightarrow> 's \<Rightarrow> 's) \<Rightarrow> ('op \<Rightarrow> 's \<Rightarrow> int) \<Rightarrow> ('op \<Rightarrow> int) \<Rightarrow> 'op list \<Rightarrow> 's \<Rightarrow> (int \<times> int) list" where
  "grants step grant clock [] s = []"
| "grants step grant clock (op # ops) s =
     (clock op, grant op s) # grants step grant clock ops (step op s)"

definition granted_within :: "int \<Rightarrow> int \<Rightarrow> (int \<times> int) list \<Rightarrow> int" where
  "granted_within lo hi gs = sum_list (map snd (filter (\<lambda>g. lo \<le> fst g \<and> fst g \<le> hi) gs))"

datatype rl_op =
    OpCheck "db_op \<Rightarrow> bool" string string int int
  | OpAddress "db_op \<Rightarrow> bool" string string string coin coin int int
  | OpAPIKey "db_op \<Rightarrow> bool" string string int int int

fun rl_exec :: "sqlite \<Rightarrow> limiter \<Rightarrow> rl_op \<Rightarrow> rl_table \<Rightarrow> (rl_error, unit) result \<times> rl_table" where
  "rl_exec sq l (OpCheck io ip c now nowNs) tbl = Check io l ip c now nowNs tbl"
| "rl_exec sq l (OpAddress io a algo c drip mx now nowNs) tbl = CheckAddress sq io a algo c drip mx now nowNs tbl"
| "rl_exec sq l (OpAPIKey io k c rate now nowNs) tbl = CheckAPIKey io l k c rate now nowNs tbl"

definition rl_step :: "sqlite \<Rightarrow> limiter \<Rightarrow> rl_op \<Rightarrow> rl_table \<Rightarrow> rl_table" where
  "rl_step sq l op tbl = snd (rl_exec sq l op tbl)"

fun op_clock :: "rl_op \<Rightarrow> int" where
  "op_clock (OpCheck io ip c now nowNs) = now"
| "op_clock (OpAddress io a algo c drip mx now nowNs) = now"
| "op_clock (OpAPIKey io k c rate now nowNs) = now"

fun op_bucket :: "rl_op \<Rightarrow> rl_bucket option" where
  "op_bucket (OpCheck io ip c now nowNs) = Some (''ip'', ip, c)"
| "op_bucket (OpAddress io a algo c drip mx now nowNs) =
     (case DecodeAddressBytes a of
        Inl e \<Rightarrow> None
      | Inr raw \<Rightarrow> Some (''address'', scope_value algo raw (coin_denom drip), c))"
| "op_bucket (OpAPIKey io k c rate now nowNs) = Some (''api_key'', k, c)"

fun op_amount :: "rl_op \<Rightarrow> int" where
  "op_amount (OpAddress io a algo c drip mx now nowNs) = int (digits_val (coin_amount drip))"
| "op_amount _ = 0"

text \<open>What an operation grants to a bucket: one request, or its drip amount, when it is admitted.\<close>

definition req_grant :: "sqlite \<Rightarrow> limiter \<Rightarrow> rl_bucket \<Rightarrow> rl_op \<Rightarrow> rl_table \<Rightarrow> int" where
  "req_grant sq l b op tbl = (if op_bucket op = Some b \<and> is_ok (fst (rl_exec sq l op tbl)) then 1 else 0)"

definition coin_grant :: "sqlite \<Rightarrow> limiter \<Rightarrow> rl_bucket \<Rightarrow> rl_op \<Rightarrow> rl_table \<Rightarrow> int" where
  "coin_grant sq l b op tbl =
     (if op_bucket op = Some b \<and> is_ok (fst (rl_exec sq l op tbl)) then op_amount op else 0)"

definition recorded :: "(rl_row \<Rightarrow> int) \<Rightarrow> rl_bucket \<Rightarrow> rl_table \<Rightarrow> int \<Rightarrow> int" where
  "recorded f b tbl from = sum_list (map f (filter (in_window b from) tbl))"

definition row_coins :: "rl_row \<Rightarrow> int" where
  "row_coins r = int (digits_val (rl_coins_total r))"

definition rl_inv :: "rl_table \<Rightarrow> bool" where
  "rl_inv tbl \<longleftrightarrow> distinct (map row_key tbl) \<and>
     list_all (\<lambda>r. 1 \<le> rl_request_count r \<and>
       (rl_scope_type r = ''address'' \<longrightarrow> all_digits (rl_coins_total r) \<and> row_coins r \<le> max_int64)) tbl"

text \<open>Operations a valid configuration produces: digit amounts and daily maxima that fit 64 bits.\<close>

fun op_valid :: "rl_op \<Rightarrow> bool" where
  "op_valid (OpAddress io a algo c drip mx now nowNs) \<longleftrightarrow>
     all_digits (coin_amount drip) \<and>
     (case set_string (coin_amount mx) of Some m \<Rightarrow> m \<le> max_int64 | None \<Rightarrow> True)"
| "op_valid _ \<longleftrightarrow> True"

text \<open>Limits an operation on a bucket may rely on.\<close>

fun key_limited :: "limiter \<Rightarrow> int \<Rightarrow> rl_op \<Rightarrow> bool" where
  "key_limited l cap (OpAPIKey io k c rate now nowNs) \<longleftrightarrow> api_key_limit l rate \<le> cap"
| "key_limited l cap _ \<longleftrightarrow> True"

fun coin_limited :: "int \<Rightarrow> rl_op \<Rightarrow> bool" where
  "coin_limited cap (OpAddress io a algo c drip mx now nowNs) \<longleftrightarrow>
     (case set_string (coin_amount mx) of Some m \<Rightarrow> m \<le> cap | None \<Rightarrow> True)"
| "coin_limited cap _ \<longleftrightarrow> True"

text \<open>A concrete text arithmetic with the documented behaviour, for the witnesses.\<close>

definition sqlite_doc :: sqlite where
  "sqlite_doc =
     (let cast = (\<lambda>s. min max_int64 (int (digits_val (takeWhile is_digit s))))
      in \<lparr>cast_int = cast, cast_add = (\<lambda>s t. show_int (cast s + cast t))\<rparr>)"

subsection \<open>Sliding windows\<close>

locale sliding_window =
  fixes step :: "'op \<Rightarrow> 's \<Rightarrow> 's" and grant :: "'op \<Rightarrow> 's \<Rightarrow> int" and clock :: "'op \<Rightarrow> int"
    and usage :: "'s \<Rightarrow> int \<Rightarrow> int" and inv :: "'s \<Rightarrow> bool" and valid :: "'op \<Rightarrow> bool"
    and W :: int and cap :: int
  assumes inv_step: "inv s \<Longrightarrow> valid op \<Longrightarrow> inv (step op s)"
    and grant_nonneg: "0 \<le> grant op s"
    and usage_step: "inv s \<Longrightarrow> valid op \<Longrightarrow>
          usage (step op s) from = usage s from + (if from \<le> clock op then grant op s else 0)"
    and grant_guard: "inv s \<Longrightarrow> valid op \<Longrightarrow> grant op s \<noteq> 0 \<Longrightarrow>
          usage s (clock op - W) + grant op s \<le> cap"
begin

lemma inv_run: "inv s \<Longrightarrow> list_all valid ops \<Longrightarrow> inv (fold step ops s)"
  by (induction ops arbitrary: s) (auto simp: inv_step)

lemma usage_run:
  "inv s \<Longrightarrow> list_all valid ops \<Longrightarrow>
   usage (fold step ops s) from = usage s from +
     sum_list (map snd (filter (\<lambda>g. from \<le> fst g) (grants step grant clock ops s)))"
  by (induction ops arbitrary: s) (auto simp: inv_step usage_step)

lemma grants_snoc:
  "grants step grant clock (ops @ [op]) s =
   grants step grant clock ops s @ [(clock op, grant op (fold step ops s))]"
  by (induction ops arbitrary: s) auto

lemma grants_fst: "g \<in> set (grants step grant clock ops s) \<Longrightarrow> fst g \<in> clock ` set ops"
  by (induction ops arbitrary: s) auto

lemma grants_snd: "g \<in> set (grants step grant clock ops s) \<Longrightarrow> 0 \<le> snd g"
  by (induction ops arbitrary: s) (auto simp: grant_nonneg)

lemma window_bound:
  assumes "inv s" "\<And>from. usage s from = 0" "list_all valid ops" "sorted (map clock ops)"
  shows "granted_within (t - W) t (grants step grant clock ops s) \<le> max 0 cap"
  using assms(3,4)
proof (induction ops rule: rev_induct)
  case Nil
  then show ?case by (simp add: granted_within_def)
next
  case (snoc op ops)
  let ?s = "fold step ops s" and ?gs = "grants step grant clock ops s"
  have IH: "granted_within (t - W) t ?gs \<le> max 0 cap" using snoc by (simp add: sorted_append)
  have last: "fst g \<le> clock op" if "g \<in> set ?gs" for g
    using grants_fst[OF that] snoc.prems(2) by (auto simp: sorted_append)
  have valid: "list_all valid ops" "valid op" using snoc.prems(1) by simp_all
  show ?case
  proof (cases "t - W \<le> clock op \<and> clock op \<le> t \<and> grant op ?s \<noteq> 0")
    case True
    have "granted_within (t - W) t ?gs
        \<le> sum_list (map snd (filter (\<lambda>g. clock op - W \<le> fst g) ?gs))"
      unfolding granted_within_def using True
      by (intro sum_list_map_filter_le) (auto simp: grants_snd)
    also have "\<dots> = usage ?s (clock op - W)"
      using usage_run[OF assms(1) valid(1)] assms(2) by simp
    finally have "granted_within (t - W) t ?gs + grant op ?s \<le> cap"
      using grant_guard[OF inv_run[OF assms(1) valid(1)] valid(2)] True by simp
    then show ?thesis using True by (simp add: grants_snoc granted_within_def)
  next
    case False
    then show ?thesis using IH by (auto simp: grants_snoc granted_within_def)
  qed
qed

end

subsection \<open>The table\<close>

lemma sql_sum_Some: "sql_sum acc xs = Some t \<Longrightarrow> t = acc + sum_list xs"
proof (induction xs arbitrary: acc)
  case (Cons x xs)
  then have "t = (acc + x) + sum_list xs" by (auto split: if_splits)
  then show ?case by simp
qed simp

lemma sql_sum_nonneg:
  "0 \<le> acc \<Longrightarrow> \<forall>x \<in> set xs. 0 \<le> x \<Longrightarrow> acc + sum_list xs \<le> max_int64 \<Longrightarrow> sql_sum acc xs = Some (acc + sum_list xs)"
proof (induction xs arbitrary: acc)
  case (Cons x xs)
  moreover from Cons.prems have "0 \<le> sum_list xs" using sum_list_nonneg[of xs] by auto
  ultimately show ?case by (auto simp: in_int64_def add.assoc)
qed simp

lemma row_key_new_row [simp]: "row_key (new_row b now a) = (b, now)"
  by (simp add: row_key_def new_row_def split: prod.splits)

lemma row_key_upd [simp]: "row_key (incr_count r) = row_key r" "row_key (add_coins sq a r) = row_key r"
  by (simp_all add: row_key_def incr_count_def add_coins_def)

lemma upd_fields [simp]:
  "rl_request_count (incr_count r) = rl_request_count r + 1"
  "rl_request_count (add_coins sq a r) = rl_request_count r + 1"
  "rl_coins_total (incr_count r) = rl_coins_total r" "rl_scope_type (incr_count r) = rl_scope_type r"
  "rl_scope_type (add_coins sq a r) = rl_scope_type r"
  "rl_coins_total (add_coins sq a r) = cast_add sq (rl_coins_total r) a"
  by (simp_all add: incr_count_def add_coins_def)

lemma new_row_fields [simp]:
  "rl_request_count (new_row b now a) = 1" "rl_coins_total (new_row b now a) = a"
  "rl_scope_type (new_row b now a) = fst b" "rl_window_start (new_row b now a) = now"
  by (simp_all add: new_row_def split: prod.splits)

lemma row_key_scope: "rl_scope_type r = fst (fst (row_key r))" "rl_window_start r = snd (row_key r)"
  by (simp_all add: row_key_def)

lemma in_window_key: "in_window b from r \<longleftrightarrow> fst (row_key r) = b \<and> from \<le> snd (row_key r)"
  by (simp add: in_window_def row_key_def)

lemma upsert_keys:
  assumes "\<And>r. row_key (upd r) = row_key r"
  shows "map row_key (upsert new upd tbl) =
    (if row_key new \<in> set (map row_key tbl) then map row_key tbl else map row_key tbl @ [row_key new])"
  using assms by (auto simp: upsert_def)

lemma recorded_update:
  assumes "distinct (map row_key tbl)" "\<And>r. row_key (upd r) = row_key r"
    and "\<And>r. r \<in> set tbl \<Longrightarrow> row_key r = k \<Longrightarrow> f (upd r) = f r + w"
    and "k \<in> set (map row_key tbl)"
  shows "recorded f b (map (\<lambda>r. if row_key r = k then upd r else r) tbl) from =
         recorded f b tbl from + (if fst k = b \<and> from \<le> snd k then w else 0)"
  using assms
proof (induction tbl)
  case (Cons r rs)
  show ?case
  proof (cases "row_key r = k")
    case True
    then have "map (\<lambda>r. if row_key r = k then upd r else r) rs = rs"
      using Cons.prems(1) by (intro map_idI) (auto simp: image_iff)
    then show ?thesis using True Cons.prems(2)[of r] Cons.prems(3)[of r]
      by (auto simp: recorded_def in_window_key)
  next
    case False
    then show ?thesis using Cons.IH Cons.prems by (auto simp: recorded_def)
  qed
qed simp

lemma recorded_upsert:
  assumes "distinct (map row_key tbl)" "\<And>r. row_key (upd r) = row_key r" "f new = w"
    and "\<And>r. r \<in> set tbl \<Longrightarrow> row_key r = row_key new \<Longrightarrow> f (upd r) = f r + w"
  shows "recorded f b (upsert new upd tbl) from =
         recorded f b tbl from + (if fst (row_key new) = b \<and> from \<le> snd (row_key new) then w else 0)"
proof (cases "row_key new \<in> set (map row_key tbl)")
  case True
  then show ?thesis using recorded_update[of tbl upd "row_key new" f w b "from"] assms
    by (simp add: upsert_def)
next
  case False
  then show ?thesis using assms(3) by (auto simp: upsert_def recorded_def in_window_key)
qed

lemma list_all_upsert:
  assumes "list_all P tbl" "P new" "\<And>r. r \<in> set tbl \<Longrightarrow> P r \<Longrightarrow> row_key r = row_key new \<Longrightarrow> P (upd r)"
  shows "list_all P (upsert new upd tbl)"
  using assms by (auto simp: upsert_def list_all_iff)

subsection \<open>What the checks do\<close>

lemma sum_requests_recorded: "sum_requests b from tbl = Some n \<Longrightarrow> n = recorded rl_request_count b tbl from"
  by (auto simp: sum_requests_def recorded_def dest: sql_sum_Some)

lemma Check_ok:
  assumes "is_ok (fst (Check io l ip c now nowNs tbl))"
  shows "snd (Check io l ip c now nowNs tbl) = upsert (new_row (''ip'', ip, c) now '''') incr_count tbl"
    and "recorded rl_request_count (''ip'', ip, c) tbl (now - lim_window l sdiv second) < lim_requests_per_window l"
  using assms by (auto simp: Check_def Let_def split: option.splits if_splits dest: sum_requests_recorded)

lemma Check_not_ok: "\<not> is_ok (fst (Check io l ip c now nowNs tbl)) \<Longrightarrow> snd (Check io l ip c now nowNs tbl) = tbl"
  by (auto simp: Check_def Let_def split: option.splits if_splits)

lemma CheckAPIKey_ok:
  assumes "is_ok (fst (CheckAPIKey io l k c rate now nowNs tbl))"
  shows "snd (CheckAPIKey io l k c rate now nowNs tbl) = upsert (new_row (''api_key'', k, c) now '''') incr_count tbl"
    and "recorded rl_request_count (''api_key'', k, c) tbl (now - apiKeyWindow sdiv second) < api_key_limit l rate"
  using assms by (auto simp: CheckAPIKey_def Let_def split: option.splits if_splits dest: sum_requests_recorded)

lemma CheckAPIKey_not_ok:
  "\<not> is_ok (fst (CheckAPIKey io l k c rate now nowNs tbl)) \<Longrightarrow> snd (CheckAPIKey io l k c rate now nowNs tbl) = tbl"
  by (auto simp: CheckAPIKey_def Let_def split: option.splits if_splits)

lemma CheckAddress_ok:
  assumes "is_ok (fst (CheckAddress sq io a algo c drip mx now nowNs tbl))"
  obtains raw n m t where "DecodeAddressBytes a = Ok raw" "set_string (coin_amount drip) = Some n"
    "set_string (coin_amount mx) = Some m"
    "sum_coins sq (''address'', scope_value algo raw (coin_denom drip), c) (now - addressWindow sdiv second) tbl = Some t"
    "t + n \<le> m"
    "snd (CheckAddress sq io a algo c drip mx now nowNs tbl) =
       upsert (new_row (''address'', scope_value algo raw (coin_denom drip), c) now (coin_amount drip))
         (add_coins sq (coin_amount drip)) tbl"
proof -
  from assms have "\<exists>raw n m t. DecodeAddressBytes a = Ok raw \<and> set_string (coin_amount drip) = Some n \<and>
    set_string (coin_amount mx) = Some m \<and>
    sum_coins sq (''address'', scope_value algo raw (coin_denom drip), c) (now - addressWindow sdiv second) tbl = Some t \<and>
    t + n \<le> m \<and> snd (CheckAddress sq io a algo c drip mx now nowNs tbl) =
       upsert (new_row (''address'', scope_value algo raw (coin_denom drip), c) now (coin_amount drip))
         (add_coins sq (coin_amount drip)) tbl"
    by (auto simp: CheckAddress_def Let_def split: option.splits if_splits sum.splits)
  then show ?thesis using that by blast
qed

lemma CheckAddress_not_ok:
  "\<not> is_ok (fst (CheckAddress sq io a algo c drip mx now nowNs tbl)) \<Longrightarrow>
   snd (CheckAddress sq io a algo c drip mx now nowNs tbl) = tbl"
  by (auto simp: CheckAddress_def Let_def split: option.splits if_splits sum.splits)

lemmas check_not_ok = Check_not_ok CheckAddress_not_ok CheckAPIKey_not_ok

lemma rl_step_not_ok: "\<not> is_ok (fst (rl_exec sq l op tbl)) \<Longrightarrow> rl_step sq l op tbl = tbl"
  by (cases op) (auto simp: rl_step_def check_not_ok)

lemma rl_invD: "rl_inv tbl \<Longrightarrow> distinct (map row_key tbl)"
  by (simp add: rl_inv_def)

lemma rl_inv_rowD:
  assumes "rl_inv tbl" "r \<in> set tbl"
  shows "1 \<le> rl_request_count r"
    and "rl_scope_type r = ''address'' \<Longrightarrow> all_digits (rl_coins_total r)"
    and "rl_scope_type r = ''address'' \<Longrightarrow> row_coins r \<le> max_int64"
  using assms by (auto simp: rl_inv_def list_all_iff)

lemma usage_requests_step:
  assumes "distinct (map row_key tbl)"
  shows "recorded rl_request_count b (rl_step sq l op tbl) from =
         recorded rl_request_count b tbl from + (if from \<le> op_clock op then req_grant sq l b op tbl else 0)"
proof (cases "is_ok (fst (rl_exec sq l op tbl))")
  case False
  then show ?thesis by (simp add: rl_step_not_ok req_grant_def)
next
  case True
  note up = recorded_upsert[of tbl _ rl_request_count, OF assms]
  show ?thesis
  proof (cases op)
    case (OpCheck io ip c now nowNs)
    then show ?thesis using True Check_ok(1)[of io l ip c now nowNs tbl] up[of incr_count "new_row (''ip'', ip, c) now ''''" 1 b "from"]
      by (auto simp: rl_step_def req_grant_def)
  next
    case (OpAPIKey io k c rate now nowNs)
    then show ?thesis using True CheckAPIKey_ok(1)[of io l k c rate now nowNs tbl]
        up[of incr_count "new_row (''api_key'', k, c) now ''''" 1 b "from"]
      by (auto simp: rl_step_def req_grant_def)
  next
    case (OpAddress io a algo c drip mx now nowNs)
    with True obtain raw where r: "DecodeAddressBytes a = Ok raw"
      "rl_step sq l op tbl = upsert (new_row (''address'', scope_value algo raw (coin_denom drip), c) now (coin_amount drip))
         (add_coins sq (coin_amount drip)) tbl"
      by (auto simp: rl_step_def elim: CheckAddress_ok)
    then show ?thesis
      using True OpAddress up[of "add_coins sq (coin_amount drip)"
          "new_row (''address'', scope_value algo raw (coin_denom drip), c) now (coin_amount drip)" 1 b "from"]
      by (auto simp: req_grant_def)
  qed
qed

lemma req_grant_nonneg: "0 \<le> req_grant sq l b op tbl" by (simp add: req_grant_def)
lemma coin_grant_nonneg: "0 \<le> coin_grant sq l b op tbl" by (cases op) (auto simp: coin_grant_def)

subsection \<open>Coins\<close>

lemma address_sum:
  assumes "sqlite_laws sq" "rl_inv tbl" "fst b = ''address''" "sum_coins sq b from tbl = Some t"
  shows "t = recorded row_coins b tbl from"
proof -
  have "map (\<lambda>r. cast_int sq (rl_coins_total r)) (filter (in_window b from) tbl) =
        map row_coins (filter (in_window b from) tbl)"
  proof (rule map_cong[OF refl])
    fix r assume r: "r \<in> set (filter (in_window b from) tbl)"
    then have "rl_scope_type r = ''address''" using assms(3) by (auto simp: in_window_key row_key_scope)
    with r rl_inv_rowD[OF assms(2), of r] sqlite_laws.cast_small[OF assms(1), of "rl_coins_total r"]
    show "cast_int sq (rl_coins_total r) = row_coins r" by (auto simp: row_coins_def)
  qed
  then have "sql_sum 0 (map row_coins (filter (in_window b from) tbl)) = Some t"
    using assms(4) by (simp only: sum_coins_def)
  then show ?thesis using sql_sum_Some by (fastforce simp: recorded_def)
qed

lemma row_coins_le_recorded:
  assumes "r \<in> set tbl" "in_window b from r"
  shows "row_coins r \<le> recorded row_coins b tbl from"
proof -
  have "row_coins r \<in> set (map row_coins (filter (in_window b from) tbl))" using assms by auto
  moreover have "\<forall>x \<in> set (map row_coins (filter (in_window b from) tbl)). 0 \<le> x" by (auto simp: row_coins_def)
  ultimately show ?thesis unfolding recorded_def by (meson member_le_sum_list)
qed

lemma recorded_coins_nonneg: "0 \<le> recorded row_coins b tbl from"
  unfolding recorded_def by (rule sum_list_map_nonneg) (simp add: row_coins_def)

text \<open>Everything a passed \<^const>\<open>CheckAddress\<close> tells about the table, in one place.\<close>

lemma address_step_ok:
  assumes sq: "sqlite_laws sq" and inv: "rl_inv tbl" and valid: "op_valid op"
    and op: "op = OpAddress io a algo c drip mx now nowNs" and ok: "is_ok (fst (rl_exec sq l op tbl))"
  obtains raw m where "DecodeAddressBytes a = Ok raw" "set_string (coin_amount mx) = Some m" "m \<le> max_int64"
    "recorded row_coins (''address'', scope_value algo raw (coin_denom drip), c) tbl (now - addressWindow sdiv second)
       + op_amount op \<le> m"
    "rl_step sq l op tbl =
       upsert (new_row (''address'', scope_value algo raw (coin_denom drip), c) now (coin_amount drip))
         (add_coins sq (coin_amount drip)) tbl"
proof -
  from ok op obtain raw n m t where h: "DecodeAddressBytes a = Ok raw" "set_string (coin_amount drip) = Some n"
    "set_string (coin_amount mx) = Some m"
    "sum_coins sq (''address'', scope_value algo raw (coin_denom drip), c) (now - addressWindow sdiv second) tbl = Some t"
    "t + n \<le> m" "rl_step sq l op tbl =
       upsert (new_row (''address'', scope_value algo raw (coin_denom drip), c) now (coin_amount drip))
         (add_coins sq (coin_amount drip)) tbl"
    by (auto simp: rl_step_def elim: CheckAddress_ok)
  moreover have "t = recorded row_coins (''address'', scope_value algo raw (coin_denom drip), c) tbl (now - addressWindow sdiv second)"
    using address_sum[OF sq inv _ h(4)] by simp
  moreover have "n = op_amount op" "m \<le> max_int64"
    using h(2,3) valid op by (auto simp: set_string_digits)
  ultimately show ?thesis using that by blast
qed

lemma add_coins_row:
  assumes "sqlite_laws sq" "all_digits (rl_coins_total r)" "all_digits amt" "row_coins r + int (digits_val amt) \<le> max_int64"
  shows "row_coins (add_coins sq amt r) = row_coins r + int (digits_val amt)"
    and "all_digits (rl_coins_total (add_coins sq amt r))"
  using assms sqlite_laws.add_small[of sq "rl_coins_total r" amt] by (simp_all add: row_coins_def add_coins_def)

lemma address_row_fits:
  assumes "rl_inv tbl" "r \<in> set tbl" "row_key r = (b, now)" "recorded row_coins b tbl (now - W) + n \<le> m" "m \<le> max_int64" "0 \<le> W"
  shows "row_coins r + n \<le> max_int64"
proof -
  have "in_window b (now - W) r" using assms(3,6) by (simp add: in_window_key)
  then show ?thesis using row_coins_le_recorded[OF assms(2)] assms(4,5) by fastforce
qed

lemma addressWindow_nonneg: "0 \<le> addressWindow sdiv second"
  by (simp add: addressWindow_def second_def)

lemma distinct_step: "distinct (map row_key tbl) \<Longrightarrow> distinct (map row_key (rl_step sq l op tbl))"
proof (cases "is_ok (fst (rl_exec sq l op tbl))")
  case True
  then have "\<exists>new upd. (\<forall>r. row_key (upd r) = row_key r) \<and> rl_step sq l op tbl = upsert new upd tbl"
  proof (cases op)
    case (OpAddress io a algo c drip mx now nowNs)
    then show ?thesis using True by (auto simp: rl_step_def elim!: CheckAddress_ok) (metis row_key_upd(2))
  qed (auto simp: rl_step_def Check_ok(1) CheckAPIKey_ok(1), (metis row_key_upd(1))+)
  then obtain new upd where "\<And>r. row_key (upd r) = row_key r" "rl_step sq l op tbl = upsert new upd tbl"
    by blast
  then show "distinct (map row_key tbl) \<Longrightarrow> ?thesis" by (simp only: upsert_keys) simp
qed (simp add: rl_step_not_ok)

lemma usage_coins_step:
  assumes "sqlite_laws sq" "rl_inv tbl" "op_valid op" "fst b = ''address''"
  shows "recorded row_coins b (rl_step sq l op tbl) from =
         recorded row_coins b tbl from + (if from \<le> op_clock op then coin_grant sq l b op tbl else 0)"
proof (cases "is_ok (fst (rl_exec sq l op tbl))")
  case False
  then show ?thesis by (simp add: rl_step_not_ok coin_grant_def)
next
  case True
  show ?thesis
  proof (cases op)
    case (OpAddress io a algo c drip mx now nowNs)
    obtain raw m where r: "DecodeAddressBytes a = Ok raw" "m \<le> max_int64"
      "recorded row_coins (''address'', scope_value algo raw (coin_denom drip), c) tbl (now - addressWindow sdiv second)
         + op_amount op \<le> m"
      "rl_step sq l op tbl = upsert (new_row (''address'', scope_value algo raw (coin_denom drip), c) now (coin_amount drip))
         (add_coins sq (coin_amount drip)) tbl"
      by (rule address_step_ok[OF assms(1-3) OpAddress True])
    let ?b = "(''address'', scope_value algo raw (coin_denom drip), c)"
    have amt: "all_digits (coin_amount drip)" "op_amount op = int (digits_val (coin_amount drip))"
      using assms(3) OpAddress by simp_all
    have "row_coins (add_coins sq (coin_amount drip) x) = row_coins x + op_amount op"
      if "x \<in> set tbl" "row_key x = (?b, now)" for x
    proof -
      have "rl_scope_type x = ''address''" using that(2) by (simp add: row_key_scope)
      then show ?thesis
        using add_coins_row(1)[OF assms(1) _ amt(1)] rl_inv_rowD(2)[OF assms(2) that(1)] amt(2)
          address_row_fits[OF assms(2) that r(3,2) addressWindow_nonneg] by simp
    qed
    then show ?thesis
      using recorded_upsert[OF rl_invD[OF assms(2)], of "add_coins sq (coin_amount drip)" row_coins
          "new_row ?b now (coin_amount drip)" "op_amount op" b "from"] True r OpAddress amt
      by (auto simp: coin_grant_def row_coins_def)
  next
    case (OpCheck io ip c now nowNs)
    then show ?thesis using True Check_ok(1)[of io l ip c now nowNs tbl] assms(4)
        recorded_upsert[OF rl_invD[OF assms(2)], of incr_count row_coins "new_row (''ip'', ip, c) now ''''" 0 b "from"]
      by (auto simp: rl_step_def coin_grant_def row_coins_def digits_val_def)
  next
    case (OpAPIKey io k c rate now nowNs)
    then show ?thesis using True CheckAPIKey_ok(1)[of io l k c rate now nowNs tbl] assms(4)
        recorded_upsert[OF rl_invD[OF assms(2)], of incr_count row_coins "new_row (''api_key'', k, c) now ''''" 0 b "from"]
      by (auto simp: rl_step_def coin_grant_def row_coins_def digits_val_def)
  qed
qed

lemma rl_inv_step:
  assumes "sqlite_laws sq" "rl_inv tbl" "op_valid op"
  shows "rl_inv (rl_step sq l op tbl)"
proof (cases "is_ok (fst (rl_exec sq l op tbl))")
  case True
  let ?P = "\<lambda>r. 1 \<le> rl_request_count r \<and>
       (rl_scope_type r = ''address'' \<longrightarrow> all_digits (rl_coins_total r) \<and> row_coins r \<le> max_int64)"
  have all: "list_all ?P tbl" using assms(2) by (simp add: rl_inv_def)
  have "list_all ?P (rl_step sq l op tbl)"
  proof (cases op)
    case (OpAddress io a algo c drip mx now nowNs)
    obtain raw m where r: "m \<le> max_int64"
      "recorded row_coins (''address'', scope_value algo raw (coin_denom drip), c) tbl (now - addressWindow sdiv second)
         + op_amount op \<le> m"
      "rl_step sq l op tbl = upsert (new_row (''address'', scope_value algo raw (coin_denom drip), c) now (coin_amount drip))
         (add_coins sq (coin_amount drip)) tbl"
      by (rule address_step_ok[OF assms OpAddress True])
    let ?b = "(''address'', scope_value algo raw (coin_denom drip), c)"
    have amt: "all_digits (coin_amount drip)" "op_amount op = int (digits_val (coin_amount drip))"
      using assms(3) OpAddress by simp_all
    have "op_amount op \<le> max_int64" using r(1,2) recorded_coins_nonneg[of ?b tbl "now - addressWindow sdiv second"] by simp
    moreover have "?P (add_coins sq (coin_amount drip) x)" if "x \<in> set tbl" "row_key x = (?b, now)" for x
    proof -
      have x: "rl_scope_type x = ''address''" using that(2) by (simp add: row_key_scope)
      then show ?thesis
        using add_coins_row[OF assms(1) _ amt(1)] rl_inv_rowD[OF assms(2) that(1)] amt(2)
          address_row_fits[OF assms(2) that r(2,1) addressWindow_nonneg] by simp
    qed
    ultimately show ?thesis unfolding r(3) using amt
      by (intro list_all_upsert[OF all]) (auto simp: row_coins_def)
  next
    case (OpCheck io ip c now nowNs)
    then show ?thesis using True list_all_upsert[OF all, of "new_row (''ip'', ip, c) now ''''" incr_count]
      by (auto simp: rl_step_def Check_ok(1) row_coins_def)
  next
    case (OpAPIKey io k c rate now nowNs)
    then show ?thesis using True list_all_upsert[OF all, of "new_row (''api_key'', k, c) now ''''" incr_count]
      by (auto simp: rl_step_def CheckAPIKey_ok(1) row_coins_def)
  qed
  then show ?thesis using distinct_step[OF rl_invD[OF assms(2)]] by (simp add: rl_inv_def)
qed (use assms in \<open>simp add: rl_step_not_ok\<close>)

subsection \<open>The three limits are sliding windows\<close>

interpretation ip_limit: sliding_window "rl_step sq l" "req_grant sq l (''ip'', ip, c)" op_clock
    "recorded rl_request_count (''ip'', ip, c)" "\<lambda>tbl. distinct (map row_key tbl)" "\<lambda>op. True"
    "lim_window l sdiv second" "lim_requests_per_window l" for sq l ip c
proof (unfold_locales, goal_cases)
  case (4 tbl op)
  then show ?case by (cases op) (auto simp: req_grant_def dest: Check_ok(2) split: if_splits sum.splits)
qed (auto simp: distinct_step usage_requests_step req_grant_nonneg)

interpretation key_limit: sliding_window "rl_step sq l" "req_grant sq l (''api_key'', k, c)" op_clock
    "recorded rl_request_count (''api_key'', k, c)" "\<lambda>tbl. distinct (map row_key tbl)" "key_limited l cap"
    "apiKeyWindow sdiv second" cap for sq l k c cap
proof (unfold_locales, goal_cases)
  case (4 tbl op)
  then show ?case by (cases op) (auto simp: req_grant_def dest!: CheckAPIKey_ok(2) split: if_splits sum.splits)
qed (auto simp: distinct_step usage_requests_step req_grant_nonneg)

sublocale sqlite_laws \<subseteq> coin_limit: sliding_window "rl_step sq l" "coin_grant sq l (''address'', sv, c)" op_clock
    "recorded row_coins (''address'', sv, c)" rl_inv "\<lambda>op. op_valid op \<and> coin_limited cap op"
    "addressWindow sdiv second" cap for l sv c cap
proof (unfold_locales, goal_cases)
  case (4 tbl op)
  then obtain io a algo c' drip mx now nowNs where op: "op = OpAddress io a algo c' drip mx now nowNs"
    "is_ok (fst (rl_exec sq l op tbl))" "op_bucket op = Some (''address'', sv, c)"
    by (cases op) (auto simp: coin_grant_def split: if_splits)
  obtain raw m where "DecodeAddressBytes a = Ok raw" "set_string (coin_amount mx) = Some m"
    "recorded row_coins (''address'', scope_value algo raw (coin_denom drip), c') tbl (now - addressWindow sdiv second)
       + op_amount op \<le> m"
    using address_step_ok[OF sqlite_laws_axioms 4(1) conjunct1[OF 4(2)] op(1,2)] by metis
  then show ?case using op 4(2) by (auto simp: coin_grant_def)
qed (auto simp: rl_inv_step usage_coins_step coin_grant_nonneg sqlite_laws_axioms)

context sqlite_laws
begin

lemma coins_within_cap:
  assumes "sorted (map op_clock ops)" "list_all (\<lambda>op. op_valid op \<and> coin_limited cap op) ops"
  shows "granted_within (t - addressWindow sdiv second) t
           (grants (rl_step sq l) (coin_grant sq l (''address'', sv, c)) op_clock ops []) \<le> max 0 cap"
  using assms by (intro coin_limit.window_bound) (simp_all add: rl_inv_def recorded_def)

end

lemma rl_step_counts:
  assumes "list_all (\<lambda>r. 0 \<le> rl_request_count r) tbl"
  shows "list_all (\<lambda>r. 0 \<le> rl_request_count r) (rl_step sq l op tbl)"
proof (cases "is_ok (fst (rl_exec sq l op tbl))")
  case True
  note up = list_all_upsert[OF assms]
  show ?thesis
  proof (cases op)
    case (OpAddress io a algo c drip mx now nowNs)
    with True obtain b where "rl_step sq l op tbl = upsert (new_row b now (coin_amount drip)) (add_coins sq (coin_amount drip)) tbl"
      by (auto simp: rl_step_def elim: CheckAddress_ok)
    then show ?thesis by (simp add: up)
  qed (use True in \<open>simp_all add: rl_step_def Check_ok(1) CheckAPIKey_ok(1) up\<close>)
qed (simp add: assms rl_step_not_ok)

lemma second_sdiv: "w * second sdiv second = w"
  by (simp add: signed_divide_int_def second_def abs_mult sgn_mult mult_sgn_abs)

lemma foldl_min: "foldl min x xs \<in> set (x # xs) \<and> (\<forall>y \<in> set (x # xs). foldl min x xs \<le> (y :: int))"
proof (induction xs arbitrary: x)
  case (Cons a xs)
  from Cons[of "min x a"] show ?case by (auto simp: min_def split: if_splits)
qed simp

lemma min_start_SomeD:
  assumes "min_start b from tbl = Some m"
  shows "from \<le> m" "\<And>r. r \<in> set tbl \<Longrightarrow> in_window b from r \<Longrightarrow> m \<le> rl_window_start r"
proof -
  obtain x xs where x: "map rl_window_start (filter (in_window b from) tbl) = x # xs" "m = foldl min x xs"
    using assms by (auto simp: min_start_def split: list.splits)
  have "set (x # xs) = rl_window_start ` {r \<in> set tbl. in_window b from r}"
    using arg_cong[OF x(1), of set] by simp
  then have m: "m \<in> rl_window_start ` {r \<in> set tbl. in_window b from r}"
    "\<forall>y \<in> rl_window_start ` {r \<in> set tbl. in_window b from r}. m \<le> y"
    using foldl_min[of x xs] x(2) by simp_all
  then show "from \<le> m" by (force simp: in_window_def)
  show "m \<le> rl_window_start r" if "r \<in> set tbl" "in_window b from r" for r using m(2) that by blast
qed

interpretation sqlite_doc: sqlite_laws sqlite_doc
proof
  have tw: "takeWhile is_digit s = s" if "all_digits s" for s
    using that by (simp add: all_digits_def list_all_iff takeWhile_eq_all_conv)
  show "all_digits s \<Longrightarrow> int (digits_val s) \<le> max_int64 \<Longrightarrow> cast_int sqlite_doc s = int (digits_val s)"
    and "all_digits s \<Longrightarrow> max_int64 < int (digits_val s) \<Longrightarrow> cast_int sqlite_doc s = max_int64" for s
    by (simp_all add: sqlite_doc_def Let_def tw)
  fix s t assume "all_digits s" "all_digits t" "int (digits_val s) + int (digits_val t) \<le> max_int64"
  then show "cast_add sqlite_doc s t = show_nat (digits_val s + digits_val t)"
    by (simp add: sqlite_doc_def Let_def tw show_int_def nat_add_distrib del: of_nat_add)
qed

lemma recorded_empty [simp]: "recorded f b [] from = 0"
  by (simp add: recorded_def)

text \<open>C12: The IP limit is a true sliding window. For any sequence of limiter calls of all three kinds in
  clock order, with any database failures, starting from an empty table, no window of the configured length
  contains more admitted requests of one IP on one chain than the limit.\<close>

theorem ip_window_bound:
  assumes "sorted (map op_clock ops)"
  shows "granted_within (t - lim_window l sdiv second) t
           (grants (rl_step sq l) (req_grant sq l (''ip'', ip, c)) op_clock ops [])
         \<le> max 0 (lim_requests_per_window l)"
  by (rule ip_limit.window_bound) (simp_all add: assms list_all_iff)

theorem ip_window_bound_witness:
  "let io = (\<lambda>_. False); l = New_limiter 1 (60 * second);
       ops = [OpCheck io ''1.2.3.4'' ''osmosis-1'' 10 0, OpCheck io ''1.2.3.4'' ''osmosis-1'' 11 0]
   in granted_within (15 - lim_window l sdiv second) 15
        (grants (rl_step sqlite_doc l) (req_grant sqlite_doc l (''ip'', ''1.2.3.4'', ''osmosis-1'')) op_clock ops []) \<le> 1"
  using ip_window_bound[of "[OpCheck (\<lambda>_. False) ''1.2.3.4'' ''osmosis-1'' 10 0, OpCheck (\<lambda>_. False) ''1.2.3.4'' ''osmosis-1'' 11 0]"
      15 "New_limiter 1 (60 * second)"]
  by (simp add: Let_def New_limiter_def)

text \<open>The per-address coin cap holds in every rolling 24 hours. For any sequence of limiter calls in
  clock order whose amounts are digit strings and whose daily maxima are at most \<^verbatim>\<open>cap\<close> (and fit 64 bits),
  the coins granted to one address (by raw bytes, so for every prefix and letter case), denomination and chain within any 24 hours never exceed \<^verbatim>\<open>cap\<close>.\<close>

theorem address_cap_bound:
  assumes "sqlite_laws sq" "sorted (map op_clock ops)"
    and "list_all (\<lambda>op. op_valid op \<and> coin_limited cap op) ops"
  shows "granted_within (t - 86400) t
           (grants (rl_step sq l) (coin_grant sq l (''address'', scope_value algo raw denom, c)) op_clock ops [])
         \<le> max 0 cap"
proof -
  have "addressWindow sdiv second = 86400" by (simp add: addressWindow_def second_def)
  with sqlite_laws.coins_within_cap[OF assms, of t l "scope_value algo raw denom" c]
  show ?thesis by simp
qed

text \<open>The API-key limit is a sliding window of one hour, for the key's own hourly rate or, when it has
  none, the limiter's default.\<close>

theorem api_key_window_bound:
  assumes "sorted (map op_clock ops)" "list_all (key_limited l cap) ops"
  shows "granted_within (t - 3600) t
           (grants (rl_step sq l) (req_grant sq l (''api_key'', k, c)) op_clock ops []) \<le> max 0 cap"
proof -
  have "apiKeyWindow sdiv second = 3600" by (simp add: apiKeyWindow_def second_def)
  with key_limit.window_bound[of "[]" k c l cap ops] assms show ?thesis by simp
qed

text \<open>C22: The table is an exact log. After any run from the empty table, and with a working database,
  \<^verbatim>\<open>Check\<close> admits a request exactly when fewer than the limit were admitted since the start of its window,
  and an admitted request adds one to the usage from then on.\<close>

theorem Check_refines_log:
  assumes "\<And>d. \<not> io d" "int (length ops) \<le> max_int64"
  shows "is_ok (fst (Check io l ip c now nowNs (fold (rl_step sq l) ops []))) \<longleftrightarrow>
         sum_list (map snd (filter (\<lambda>g. now - lim_window l sdiv second \<le> fst g)
           (grants (rl_step sq l) (req_grant sq l (''ip'', ip, c)) op_clock ops [])))
         < lim_requests_per_window l"
proof -
  let ?b = "(''ip'', ip, c)" and ?from = "now - lim_window l sdiv second" and ?tbl = "fold (rl_step sq l) ops []"
  let ?gs = "grants (rl_step sq l) (req_grant sq l ?b) op_clock ops"
  have use: "recorded rl_request_count ?b ?tbl ?from = sum_list (map snd (filter (\<lambda>g. ?from \<le> fst g) (?gs [])))"
    using ip_limit.usage_run[of "[]" ops ip c sq l ?from] by (simp add: list_all_iff)
  have len: "sum_list (map snd (filter P (?gs s))) \<le> int (length ops)" for s P
  proof (induction ops arbitrary: s)
    case (Cons op ops)
    from Cons[of "rl_step sq l op s"] show ?case by (simp add: req_grant_def)
  qed simp
  have le: "recorded rl_request_count ?b ?tbl ?from \<le> max_int64"
    unfolding use by (rule order_trans[OF len assms(2)])
  have cnt: "list_all (\<lambda>r. 0 \<le> rl_request_count r) (fold (rl_step sq l) ops tbl)"
    if "list_all (\<lambda>r. 0 \<le> rl_request_count r) tbl" for tbl
    using that
  proof (induction ops arbitrary: tbl)
    case (Cons op ops)
    have "list_all (\<lambda>r. 0 \<le> rl_request_count r) (rl_step sq l op tbl)"
      using Cons.prems by (rule rl_step_counts)
    then show ?case using Cons.IH by simp
  qed simp
  have "sum_requests ?b ?from ?tbl = Some (recorded rl_request_count ?b ?tbl ?from)"
    using sql_sum_nonneg[of 0 "map rl_request_count (filter (in_window ?b ?from) ?tbl)"] le cnt[of "[]"]
    by (auto simp: sum_requests_def recorded_def list_all_iff)
  then show ?thesis using assms(1) use
    by (auto simp: Check_def Let_def split: option.splits)
qed

theorem Check_refines_log_witness:
  "\<not> is_ok (fst (Check (\<lambda>_. False) (New_limiter 1 (60 * second)) ''1.2.3.4'' ''osmosis-1'' 20 0
      (fold (rl_step sqlite_doc (New_limiter 1 (60 * second))) [OpCheck (\<lambda>_. False) ''1.2.3.4'' ''osmosis-1'' 10 0] [])))"
  by (subst Check_refines_log)
    (simp_all add: New_limiter_def second_def req_grant_def Check_def Let_def sum_requests_def in_window_def)

text \<open>The advertised wait is one second short. When \<^verbatim>\<open>Check\<close> refuses with a retry time, a call made exactly
  when that time is over, with nothing else recorded meanwhile, is refused again: the window comparison is
  inclusive, so the oldest request still counts at that second.\<close>

theorem retry_after_refused_again:
  assumes "fst (Check io l ip c now nowNs tbl) = Err (RateLimitExceeded r)"
    and "lim_window l = w * second" "now' * second = nowNs + r"
  shows "\<not> is_ok (fst (Check io' l ip c now' nowNs' tbl))"
proof -
  let ?b = "(''ip'', ip, c)"
  have w: "lim_window l sdiv second = w" using assms(2) by (simp add: second_sdiv)
  from assms(1) obtain n oldest where h: "sum_requests ?b (now - w) tbl = Some n" "n \<ge> lim_requests_per_window l"
    "min_start ?b (now - w) tbl = Some oldest" "r = retry_after oldest (lim_window l) nowNs"
    by (auto simp: Check_def Let_def w split: if_splits option.splits)
  have now': "now' - w = oldest" using h(4) assms(2,3) by (simp add: retry_after_def second_def)
  have "now - w \<le> oldest" "\<And>x. x \<in> set tbl \<Longrightarrow> in_window ?b (now - w) x \<Longrightarrow> oldest \<le> rl_window_start x"
    using min_start_SomeD[OF h(3)] by auto
  then have "filter (in_window ?b oldest) tbl = filter (in_window ?b (now - w)) tbl"
    by (intro filter_cong[OF refl]) (auto simp: in_window_def)
  then have "sum_requests ?b (now' - w) tbl = Some n" using h(1) now' by (simp add: sum_requests_def)
  then show ?thesis using h(2) by (auto simp: Check_def Let_def w split: option.splits)
qed

text \<open>C23: The cap is lost beyond 64 bits. When the drip amount is larger than the largest 64-bit integer (18-decimal
  denominations reach this at ten whole tokens) and the cap is at least that integer plus one drip but less than two drips, SQLite's cast
  saturates: two drips, the second at a later time, are both admitted although their sum is above the cap. Below that cap the
  second drip is refused.\<close>

theorem cap_saturation_overpays:
  assumes "sqlite_laws sq" "\<And>d. \<not> io d" "DecodeAddressBytes a = Ok raw"
    and "all_digits (coin_amount drip)" "all_digits (coin_amount mx)"
    and "max_int64 < int (digits_val (coin_amount drip))"
    and "max_int64 + int (digits_val (coin_amount drip)) \<le> int (digits_val (coin_amount mx))"
    and "int (digits_val (coin_amount mx)) < 2 * int (digits_val (coin_amount drip))"
    and "t < t'"
  shows "granted_within t t'
           (grants (rl_step sq l) (coin_grant sq l (''address'', scope_value algo raw (coin_denom drip), c)) op_clock
              [OpAddress io a algo c drip mx t 0, OpAddress io a algo c drip mx t' 0] [])
         > int (digits_val (coin_amount mx))"
proof -
  let ?b = "(''address'', scope_value algo raw (coin_denom drip), c)" and ?n = "int (digits_val (coin_amount drip))"
  let ?row = "new_row ?b t (coin_amount drip)"
  have n: "set_string (coin_amount drip) = Some ?n" "set_string (coin_amount mx) = Some (int (digits_val (coin_amount mx)))"
    using assms(4,5) by (simp_all add: set_string_digits)
  have first: "CheckAddress sq io a algo c drip mx t 0 [] = (Ok (), [?row])"
    using assms(2,3,7) n by (simp add: CheckAddress_def Let_def sum_coins_def upsert_def)
  have cast: "cast_int sq (coin_amount drip) = max_int64"
    using sqlite_laws.cast_saturates[OF assms(1,4)] assms(6) by simp
  have "\<exists>s. sum_coins sq ?b from [?row] = Some s \<and> s \<le> max_int64" for "from"
    by (auto simp: sum_coins_def cast in_int64_def in_window_key)
  then obtain s where "sum_coins sq ?b (t' - addressWindow sdiv second) [?row] = Some s" "s \<le> max_int64" by blast
  then have second_ok: "is_ok (fst (CheckAddress sq io a algo c drip mx t' 0 [?row]))"
    using assms(2,3,7) n by (simp add: CheckAddress_def Let_def)
  show ?thesis
    using first second_ok assms(3,8,9) by (simp add: rl_step_def coin_grant_def granted_within_def)
qed

theorem cap_saturation_overpays_witness:
  "let drip = \<lparr>coin_denom = ''aevmos'', coin_amount = ''10000000000000000000''\<rparr>;
       mx = \<lparr>coin_denom = ''aevmos'', coin_amount = ''19500000000000000000''\<rparr>;
       op = (\<lambda>t. OpAddress (\<lambda>_. False) ''a1qypqvrg2cf'' ''secp256k1'' ''evmos_9000-1'' drip mx t 0)
   in granted_within 10 11
        (grants (rl_step sqlite_doc (New_limiter 1 second))
           (coin_grant sqlite_doc (New_limiter 1 second) (''address'', scope_value ''secp256k1'' [1, 2] ''aevmos'', ''evmos_9000-1''))
           op_clock [op 10, op 11] []) > 19500000000000000000"
proof -
  let ?d = "\<lparr>coin_denom = ''aevmos'', coin_amount = ''10000000000000000000''\<rparr>"
    and ?m = "\<lparr>coin_denom = ''aevmos'', coin_amount = ''19500000000000000000''\<rparr>"
  have "DecodeAddressBytes ''a1qypqvrg2cf'' = Ok [1, 2]" by code_simp
  moreover have "all_digits (coin_amount ?d)" "all_digits (coin_amount ?m)"
    "digits_val (coin_amount ?d) = 10000000000000000000" "digits_val (coin_amount ?m) = 19500000000000000000"
    by (simp_all add: all_digits_def is_digit_def code_of_def digits_val_def digit_val_def)
  ultimately show ?thesis
    using cap_saturation_overpays[OF sqlite_doc.sqlite_laws_axioms, of "\<lambda>_. False" "''a1qypqvrg2cf''" "[1, 2]" ?d ?m
        10 11 "New_limiter 1 second" "''secp256k1''" "''evmos_9000-1''" ]
    by (simp add: Let_def)
qed

end
