(* ===== verification/Nonce.thy ===== *)
theory Nonce
  imports Prelude
begin

text \<open>
  \<^verbatim>\<open>internal/abuse/signed/nonce.go\<close>: the store of single-use nonces behind signed challenges. The map from
  nonce to expiry is a HOL map, the bytes of \<^verbatim>\<open>crypto/rand\<close> and the clock readings are arguments.

  The lemmas give the life of a nonce over arbitrary traces of issues and redemptions.
\<close>

record nonce_store =
  ns_nonces :: "string \<rightharpoonup> int"   \<comment> \<open>expiry, nanoseconds\<close>
  ns_ttl :: int

definition nonceBytes :: nat where "nonceBytes = 16"

definition NewNonceStore :: "int \<Rightarrow> nonce_store" where
  "NewNonceStore ttl = \<lparr>ns_nonces = Map.empty, ns_ttl = ttl\<rparr>"

definition sweep :: "int \<Rightarrow> nonce_store \<Rightarrow> nonce_store" where
  "sweep now s = s\<lparr>ns_nonces :=
     (\<lambda>k. case ns_nonces s k of
            Some exp \<Rightarrow> if now > exp then None else Some exp
          | None \<Rightarrow> None)\<rparr>"

text \<open>\<^verbatim>\<open>rnd\<close> is what \<^verbatim>\<open>rand.Read\<close> fills in, \<^const>\<open>None\<close> its error; the two clock readings follow each other.\<close>

definition Issue :: "byte list option \<Rightarrow> int \<Rightarrow> int \<Rightarrow> nonce_store \<Rightarrow> string option \<times> nonce_store" where
  "Issue rnd sweepNow now s =
     (case rnd of
        None \<Rightarrow> (None, s)
      | Some b \<Rightarrow>
          let nonce = hex_encode b; s' = sweep sweepNow s
          in (Some nonce, s'\<lparr>ns_nonces := (ns_nonces s')(nonce \<mapsto> now + ns_ttl s')\<rparr>))"

definition Consume :: "int \<Rightarrow> string \<Rightarrow> nonce_store \<Rightarrow> bool \<times> nonce_store" where
  "Consume now nonce s =
     ((case ns_nonces s nonce of Some expiry \<Rightarrow> now < expiry | None \<Rightarrow> False),
      s\<lparr>ns_nonces := (ns_nonces s)(nonce := None)\<rparr>)"

text \<open>Traces of calls on the store, for the specification.\<close>

datatype nonce_op = OpIssue "byte list option" int int | OpConsume int string

fun nonce_step :: "nonce_op \<Rightarrow> nonce_store \<Rightarrow> nonce_store" where
  "nonce_step (OpIssue rnd t0 t) s = snd (Issue rnd t0 t s)"
| "nonce_step (OpConsume t n) s = snd (Consume t n s)"

text \<open>Times at which a nonce was issued, and the redemptions of it that succeeded.\<close>

fun issued_at :: "string \<Rightarrow> nonce_op \<Rightarrow> int list" where
  "issued_at n (OpIssue (Some b) t0 t) = (if hex_encode b = n then [t] else [])"
| "issued_at n _ = []"

fun redeemed :: "string \<Rightarrow> nonce_op list \<Rightarrow> nonce_store \<Rightarrow> nat" where
  "redeemed n [] s = 0"
| "redeemed n (op # ops) s =
     (case op of OpConsume t m \<Rightarrow> if m = n \<and> fst (Consume t n s) then 1 else 0 | _ \<Rightarrow> 0)
     + redeemed n ops (nonce_step op s)"

definition issues :: "string \<Rightarrow> nonce_op list \<Rightarrow> int list" where
  "issues n ops = concat (map (issued_at n) ops)"

subsection \<open>The life of a nonce\<close>

lemma ns_ttl_step [simp]: "ns_ttl (nonce_step op s) = ns_ttl s"
  by (cases op) (auto simp: Issue_def Consume_def sweep_def Let_def split: option.splits)

lemma ns_ttl_run [simp]: "ns_ttl (fold nonce_step ops s) = ns_ttl s"
  by (induction ops arbitrary: s) simp_all

lemma step_entry:
  assumes "ns_nonces (nonce_step op s) n = Some e"
  shows "ns_nonces s n = Some e \<or> (\<exists>t \<in> set (issued_at n op). e = t + ns_ttl s)"
  using assms
  by (cases op) (auto simp: Issue_def Consume_def sweep_def Let_def split: option.splits if_splits)

lemma live_nonce_issued:
  assumes "ns_nonces (fold nonce_step ops s) n = Some e" "ns_nonces s n = None"
  shows "\<exists>t \<in> set (issues n ops). e = t + ns_ttl s"
  using assms(1)
proof (induction ops arbitrary: e rule: rev_induct)
  case Nil
  with assms(2) show ?case by simp
next
  case (snoc op ops)
  then consider "ns_nonces (fold nonce_step ops s) n = Some e" | t where "t \<in> set (issued_at n op)" "e = t + ns_ttl s"
    using step_entry[of op "fold nonce_step ops s" n e] by auto
  then show ?case
  proof cases
    case 1
    with snoc.IH show ?thesis by (auto simp: issues_def)
  next
    case 2
    then show ?thesis by (auto simp: issues_def)
  qed
qed

lemma step_live_count:
  "(case op of OpConsume t m \<Rightarrow> if m = n \<and> fst (Consume t n s) then 1 else 0 | _ \<Rightarrow> 0)
   + (if ns_nonces (nonce_step op s) n = None then 0 else 1)
   \<le> length (issued_at n op) + (if ns_nonces s n = None then 0 else (1 :: nat))"
proof (cases op)
  case (OpIssue rnd t0 t)
  then show ?thesis by (cases rnd) (auto simp: Issue_def sweep_def Let_def split: option.splits if_splits)
qed (auto simp: Consume_def split: option.splits)

lemma redeemed_le_issued:
  "redeemed n ops s \<le> length (issues n ops) + (if ns_nonces s n = None then 0 else 1)"
proof (induction ops arbitrary: s)
  case (Cons op ops)
  have "redeemed n ops (nonce_step op s)
      \<le> length (issues n ops) + (if ns_nonces (nonce_step op s) n = None then 0 else 1)" by (rule Cons)
  then show ?case using step_live_count[of n s op] by (auto simp: issues_def)
qed (simp add: issues_def)

text \<open>C11: A nonce is single-use and short-lived. Over any trace of calls on a fresh store, a nonce is redeemed at
  most as often as it was issued; and a redemption that succeeds at some time was preceded by an issue of that
  very nonce less than the time-to-live before.\<close>

theorem nonce_single_use:
  "redeemed n ops (NewNonceStore ttl) \<le> length (issues n ops) \<and>
   (fst (Consume now n (fold nonce_step ops (NewNonceStore ttl))) \<longrightarrow>
      (\<exists>t \<in> set (issues n ops). now < t + ttl))"
proof
  show "redeemed n ops (NewNonceStore ttl) \<le> length (issues n ops)"
    using redeemed_le_issued[of n ops "NewNonceStore ttl"] by (simp add: NewNonceStore_def)
  show "fst (Consume now n (fold nonce_step ops (NewNonceStore ttl))) \<longrightarrow> (\<exists>t \<in> set (issues n ops). now < t + ttl)"
    using live_nonce_issued[of ops "NewNonceStore ttl" n]
    by (auto simp: Consume_def NewNonceStore_def split: option.splits)
qed

theorem nonce_single_use_witness:
  "(\<exists>t \<in> set (issues ''ff'' [OpIssue (Some [255]) 0 10]). (15 :: int) < t + 10) \<and>
   redeemed ''ff'' [OpIssue (Some [255]) 0 10, OpConsume 15 ''ff'', OpConsume 16 ''ff''] (NewNonceStore 10) \<le> 1"
proof -
  have hex: "hex_encode [255] = ''ff''" by code_simp
  then have "fst (Consume 15 ''ff'' (fold nonce_step [OpIssue (Some [255]) 0 10] (NewNonceStore 10)))"
    by (simp add: Consume_def Issue_def Let_def sweep_def NewNonceStore_def)
  then show ?thesis
    using nonce_single_use[of "''ff''" "[OpIssue (Some [255]) 0 10]" 10 15]
      nonce_single_use[of "''ff''" "[OpIssue (Some [255]) 0 10, OpConsume 15 ''ff'', OpConsume 16 ''ff'']" 10 15]
    by (auto simp: hex issues_def)
qed

text \<open>A nonce issued and not used by anyone else is accepted. On any reachable store, a nonce issued at one time
  and presented before its expiry, with only other nonces issued or redeemed in between no later than the
  presentation, is accepted.\<close>

theorem nonce_live_accepted:
  assumes "\<forall>op \<in> set ops. case op of OpIssue rnd t0 t' \<Rightarrow> t0 \<le> now \<and> (\<forall>b. rnd = Some b \<longrightarrow> hex_encode b \<noteq> n)
                                   | OpConsume t' m \<Rightarrow> m \<noteq> n"
    and "hex_encode b = n" "now < t + ns_ttl s"
  shows "fst (Consume now n (fold nonce_step ops (snd (Issue (Some b) t0 t s))))"
proof -
  have "ns_nonces (fold nonce_step ops s') n = Some (t + ns_ttl s)"
    if "ns_nonces s' n = Some (t + ns_ttl s)" for s'
    using assms(1) that
  proof (induction ops arbitrary: s')
    case (Cons op ops)
    then have "ns_nonces (nonce_step op s') n = Some (t + ns_ttl s)"
      using assms(3)
      by (cases op) (auto simp: Issue_def Consume_def sweep_def Let_def split: option.splits)
    with Cons show ?case by simp
  qed simp
  then show ?thesis using assms(2,3) by (simp add: Consume_def Issue_def sweep_def Let_def)
qed

end
