(* ===== verification/Base64.thy ===== *)
theory Base64
  imports Prelude
begin

text \<open>
  The two encodings of Go's \<^verbatim>\<open>encoding/base64\<close> the faucet uses: \<^verbatim>\<open>StdEncoding\<close> (padded) for the keys,
  signatures and challenges of ADR-036, and \<^verbatim>\<open>RawURLEncoding\<close> (no padding) for API key secrets. As in
  Go, the decoder skips carriage returns and newlines anywhere and does not insist on zero trailing bits.
  The lemmas show that decoding inverts encoding.
\<close>

record b64_encoding =
  b64_alphabet :: string
  b64_padded :: bool

definition StdEncoding :: b64_encoding where
  "StdEncoding =
     \<lparr>b64_alphabet = ''ABCDEFGHIJKLMNOPQRSTUVWXYZabcdefghijklmnopqrstuvwxyz0123456789+/'', b64_padded = True\<rparr>"

definition RawURLEncoding :: b64_encoding where
  "RawURLEncoding =
     \<lparr>b64_alphabet = ''ABCDEFGHIJKLMNOPQRSTUVWXYZabcdefghijklmnopqrstuvwxyz0123456789-_'', b64_padded = False\<rparr>"

definition b64_char :: "b64_encoding \<Rightarrow> nat \<Rightarrow> char" where
  "b64_char e d = b64_alphabet e ! d"

fun b64_encode :: "b64_encoding \<Rightarrow> byte list \<Rightarrow> string" where
  "b64_encode e [] = []"
| "b64_encode e [a] =
     [b64_char e (unat a div 4), b64_char e (unat a mod 4 * 16)] @ (if b64_padded e then ''=='' else [])"
| "b64_encode e [a, b] =
     [b64_char e (unat a div 4), b64_char e (unat a mod 4 * 16 + unat b div 16), b64_char e (unat b mod 16 * 4)]
     @ (if b64_padded e then ''='' else [])"
| "b64_encode e (a # b # c # rest) =
     [b64_char e (unat a div 4), b64_char e (unat a mod 4 * 16 + unat b div 16),
      b64_char e (unat b mod 16 * 4 + unat c div 64), b64_char e (unat c mod 64)] @ b64_encode e rest"

definition b64_byte1 :: "nat \<Rightarrow> nat \<Rightarrow> byte" where "b64_byte1 w x = word_of_nat (w * 4 + x div 16)"
definition b64_byte2 :: "nat \<Rightarrow> nat \<Rightarrow> byte" where "b64_byte2 x y = word_of_nat (x mod 16 * 16 + y div 4)"
definition b64_byte3 :: "nat \<Rightarrow> nat \<Rightarrow> byte" where "b64_byte3 y z = word_of_nat (y mod 4 * 64 + z)"

text \<open>The four-character quanta, after the skipped line breaks are gone.\<close>

fun b64_quanta :: "b64_encoding \<Rightarrow> string \<Rightarrow> byte list option" where
  "b64_quanta e [] = Some []"
| "b64_quanta e [_] = None"
| "b64_quanta e [p, q] =
     (if b64_padded e then None
      else case (index_of p (b64_alphabet e), index_of q (b64_alphabet e)) of
             (Some w, Some x) \<Rightarrow> Some [b64_byte1 w x]
           | _ \<Rightarrow> None)"
| "b64_quanta e [p, q, r] =
     (if b64_padded e then None
      else case (index_of p (b64_alphabet e), index_of q (b64_alphabet e), index_of r (b64_alphabet e)) of
             (Some w, Some x, Some y) \<Rightarrow> Some [b64_byte1 w x, b64_byte2 x y]
           | _ \<Rightarrow> None)"
| "b64_quanta e (p # q # r # s # rest) =
     (case (index_of p (b64_alphabet e), index_of q (b64_alphabet e)) of
        (Some w, Some x) \<Rightarrow>
          if b64_padded e \<and> r = CHR ''='' then
            (if s = CHR ''='' \<and> rest = [] then Some [b64_byte1 w x] else None)
          else (case index_of r (b64_alphabet e) of
                  None \<Rightarrow> None
                | Some y \<Rightarrow>
                    if b64_padded e \<and> s = CHR ''='' then
                      (if rest = [] then Some [b64_byte1 w x, b64_byte2 x y] else None)
                    else (case index_of s (b64_alphabet e) of
                            None \<Rightarrow> None
                          | Some z \<Rightarrow> map_option (\<lambda>bs. b64_byte1 w x # b64_byte2 x y # b64_byte3 y z # bs)
                                        (b64_quanta e rest)))
      | _ \<Rightarrow> None)"

definition b64_decode :: "b64_encoding \<Rightarrow> string \<Rightarrow> byte list option" where
  "b64_decode e s = b64_quanta e (filter (\<lambda>c. c \<noteq> CHR 0x0A \<and> c \<noteq> CHR 0x0D) s)"

definition b64_ok :: "b64_encoding \<Rightarrow> bool" where
  "b64_ok e \<longleftrightarrow> length (b64_alphabet e) = 64 \<and> distinct (b64_alphabet e) \<and>
     list_all (\<lambda>c. c \<noteq> CHR 0x0A \<and> c \<noteq> CHR 0x0D \<and> c \<noteq> CHR ''='') (b64_alphabet e)"

subsection \<open>Decoding inverts encoding\<close>

lemma b64_encodings_ok: "b64_ok StdEncoding" "b64_ok RawURLEncoding"
  by (simp_all add: b64_ok_def StdEncoding_def RawURLEncoding_def)

lemma index_of_nth_distinct: "distinct xs \<Longrightarrow> i < length xs \<Longrightarrow> index_of (xs ! i) xs = Some i"
proof (induction xs arbitrary: i)
  case (Cons x xs)
  then show ?case by (cases i) auto
qed simp

lemma b64_index: "b64_ok e \<Longrightarrow> d < 64 \<Longrightarrow> index_of (b64_char e d) (b64_alphabet e) = Some d"
  by (simp add: b64_char_def b64_ok_def index_of_nth_distinct)

lemma b64_char_ok:
  "b64_ok e \<Longrightarrow> d < 64 \<Longrightarrow> b64_char e d \<noteq> CHR 0x0A \<and> b64_char e d \<noteq> CHR 0x0D \<and> b64_char e d \<noteq> CHR ''=''"
  by (simp add: b64_char_def b64_ok_def list_all_length)

lemma byte_lt: "unat (a :: byte) < 256"
  using unsigned_less[where 'a = nat, of a] by simp

lemma b64_sextets:
  "unat (a :: byte) div 4 < 64" "unat a mod 4 * 16 < 64" "unat a mod 4 * 16 + unat (b :: byte) div 16 < 64"
  "unat b mod 16 * 4 < 64" "unat b mod 16 * 4 + unat (c :: byte) div 64 < 64" "unat c mod 64 < 64"
proof -
  have "unat a div 4 < 64" "unat b div 16 < 16" "unat c div 64 < 4" using byte_lt[of a] byte_lt[of b] byte_lt[of c] by arith+
  moreover have "unat a mod 4 < 4" "unat b mod 16 < 16" by simp_all
  ultimately show "unat a div 4 < 64" "unat a mod 4 * 16 < 64" "unat a mod 4 * 16 + unat b div 16 < 64"
    "unat b mod 16 * 4 < 64" "unat b mod 16 * 4 + unat c div 64 < 64" "unat c mod 64 < 64" by auto
qed

lemma b64_bytes:
  "b64_byte1 (unat a div 4) (unat a mod 4 * 16) = a"
  "b64_byte1 (unat a div 4) (unat a mod 4 * 16 + unat b div 16) = a"
  "b64_byte2 (unat a mod 4 * 16 + unat b div 16) (unat b mod 16 * 4) = b"
  "b64_byte2 (unat a mod 4 * 16 + unat b div 16) (unat b mod 16 * 4 + unat c div 64) = b"
  "b64_byte3 (unat b mod 16 * 4 + unat c div 64) (unat c mod 64) = c"
proof -
  have lt: "unat b div 16 < 16" "unat c div 64 < 4" using byte_lt[of b] byte_lt[of c] by arith+
  have "(unat a div 4) * 4 + (unat a mod 4 * 16) div 16 = unat a"
    "(unat a div 4) * 4 + (unat a mod 4 * 16 + unat b div 16) div 16 = unat a"
    "(unat a mod 4 * 16 + unat b div 16) mod 16 * 16 + (unat b mod 16 * 4) div 4 = unat b"
    "(unat a mod 4 * 16 + unat b div 16) mod 16 * 16 + (unat b mod 16 * 4 + unat c div 64) div 4 = unat b"
    "(unat b mod 16 * 4 + unat c div 64) mod 4 * 64 + unat c mod 64 = unat c"
    using lt by auto
  then show "b64_byte1 (unat a div 4) (unat a mod 4 * 16) = a"
    "b64_byte1 (unat a div 4) (unat a mod 4 * 16 + unat b div 16) = a"
    "b64_byte2 (unat a mod 4 * 16 + unat b div 16) (unat b mod 16 * 4) = b"
    "b64_byte2 (unat a mod 4 * 16 + unat b div 16) (unat b mod 16 * 4 + unat c div 64) = b"
    "b64_byte3 (unat b mod 16 * 4 + unat c div 64) (unat c mod 64) = c"
    unfolding b64_byte1_def b64_byte2_def b64_byte3_def by (simp_all only: of_nat_unat ucast_id)
qed

lemma b64_encode_no_breaks:
  "b64_ok e \<Longrightarrow> filter (\<lambda>c. c \<noteq> CHR 0x0A \<and> c \<noteq> CHR 0x0D) (b64_encode e bs) = b64_encode e bs"
  by (induction e bs rule: b64_encode.induct) (simp_all add: b64_char_ok b64_sextets)

lemma b64_quanta_encode: "b64_ok e \<Longrightarrow> b64_quanta e (b64_encode e bs) = Some bs"
proof (induction e bs rule: b64_encode.induct)
  case (2 e a)
  then show ?case by (simp add: b64_index b64_sextets b64_bytes)
next
  case (3 e a b)
  then show ?case by (simp add: b64_index b64_sextets b64_bytes b64_char_ok)
next
  case (4 e a b c rest)
  then show ?case by (simp add: b64_index b64_sextets b64_bytes b64_char_ok)
qed simp

lemma b64_decode_encode: "b64_ok e \<Longrightarrow> b64_decode e (b64_encode e bs) = Some bs"
  by (simp add: b64_decode_def b64_encode_no_breaks b64_quanta_encode)

end
