(* ===== verification/Signed.thy ===== *)
theory Signed
  imports Bech32 Coins Base64
begin

unbundle bit_operations_syntax

text \<open>
  \<^verbatim>\<open>internal/abuse/signed/predicate.go\<close> and \<^verbatim>\<open>internal/abuse/signed/verifier.go\<close>: the predicates a signed request must meet
  and the ADR-036 signature check. The hash functions and the secp256k1 library are the fields of the record
  \<^verbatim>\<open>crypto\<close>; a chain's balance query is a function from address and denomination.

  The lemmas show that the DER conversion is correct, and that a verified request is bound to the address
  bytes the rate limiter charges.
\<close>

subsection \<open>Predicates\<close>

definition PredicateNone :: string where "PredicateNone = ''none''"
definition PredicateHasBalance :: string where "PredicateHasBalance = ''has_balance''"

datatype predicate_error =
    ErrPredicateFailed | ErrChainNotAvailable | UnknownPredicate string
  | PredBadMinAmount coin_error | PredBadAddress bech32_error | PredEncode address_error | PredQueryFailed | PredBadAmounts

type_synonym balance_querier = "string \<Rightarrow> string \<Rightarrow> coin option"

record predicate_checker =
  pc_clients :: "string \<rightharpoonup> balance_querier"
  pc_prefixes :: "string \<rightharpoonup> string"

definition NewPredicateChecker :: "(string \<rightharpoonup> balance_querier) \<Rightarrow> (string \<rightharpoonup> string) \<Rightarrow> predicate_checker" where
  "NewPredicateChecker clients prefixes = \<lparr>pc_clients = clients, pc_prefixes = prefixes\<rparr>"

definition reencodeAddress :: "string \<Rightarrow> string \<Rightarrow> (predicate_error, string) result" where
  "reencodeAddress addr targetPrefix =
     (case DecodeAddressBytes addr of
        Inl e \<Rightarrow> Err (PredBadAddress e)
      | Inr raw \<Rightarrow>
          (case AddressFromBytes raw targetPrefix of
             Inl e \<Rightarrow> Err (PredEncode e)
           | Inr a \<Rightarrow> Ok a))"

definition checkBalance :: "predicate_checker \<Rightarrow> string \<Rightarrow> string \<Rightarrow> string \<Rightarrow> (predicate_error, unit) result" where
  "checkBalance c targetChainID signerAddress minAmount =
     (case pc_clients c targetChainID of
        None \<Rightarrow> Err ErrChainNotAvailable
      | Some client \<Rightarrow>
     (case pc_prefixes c targetChainID of
        None \<Rightarrow> Err ErrChainNotAvailable
      | Some prefix \<Rightarrow>
     (case ParseCoin minAmount of
        Inl e \<Rightarrow> Err (PredBadMinAmount e)
      | Inr minCoin \<Rightarrow>
          rbind (reencodeAddress signerAddress prefix) (\<lambda>targetAddr.
            case client targetAddr (coin_denom minCoin) of
              None \<Rightarrow> Err PredQueryFailed
            | Some balance \<Rightarrow>
                (case (set_string (coin_amount balance), set_string (coin_amount minCoin)) of
                   (Some got, Some want) \<Rightarrow> if got < want then Err ErrPredicateFailed else Ok ()
                 | _ \<Rightarrow> Err PredBadAmounts)))))"

definition Predicate_Check :: "predicate_checker \<Rightarrow> string \<Rightarrow> string \<Rightarrow> string \<Rightarrow> string \<Rightarrow> (predicate_error, unit) result" where
  "Predicate_Check c predicate targetChainID signerAddress minAmount =
     (if predicate = PredicateNone \<or> predicate = '''' then Ok ()
      else if predicate = PredicateHasBalance then checkBalance c targetChainID signerAddress minAmount
      else Err (UnknownPredicate predicate))"

subsection \<open>The signature check\<close>

type_synonym pubkey = "byte list"
type_synonym ecdsa_sig = "byte list"

record crypto =
  cr_hash160 :: "byte list \<Rightarrow> byte list"                 \<comment> \<open>\<^verbatim>\<open>ripemd160(sha256(-))\<close>\<close>
  cr_sha256 :: "byte list \<Rightarrow> byte list"
  cr_parse_pubkey :: "byte list \<Rightarrow> pubkey option"          \<comment> \<open>\<^verbatim>\<open>secp256k1.ParsePubKey\<close>\<close>
  cr_parse_der :: "byte list \<Rightarrow> ecdsa_sig option"         \<comment> \<open>\<^verbatim>\<open>ecdsa.ParseDERSignature\<close>\<close>
  cr_verify :: "ecdsa_sig \<Rightarrow> byte list \<Rightarrow> pubkey \<Rightarrow> bool" \<comment> \<open>\<^verbatim>\<open>(*Signature).Verify\<close>\<close>

datatype verify_error =
    VDecodePubkey | VParsePubkey | VNoHRP | VDeriveAddress pubkey_error
  | VDecodeSig | VSigLength nat | VParseDER

definition compactSigLen :: nat where "compactSigLen = 64"
definition compactSigWithRecov :: nat where "compactSigWithRecov = 65"

definition hrpFromAddress :: "string \<Rightarrow> string" where
  "hrpFromAddress addr =
     (let lower = to_lower (trim_space addr)
      in case index_of CHR ''1'' lower of
           None \<Rightarrow> ''''
         | Some sep \<Rightarrow> if sep = 0 then '''' else take sep lower)"

text \<open>The string encoder of \<^verbatim>\<open>encoding/json\<close> with its HTML escapes, on ASCII text.\<close>

definition json_hex :: "nat \<Rightarrow> string" where
  "json_hex n = CHR 0x5C # ''u00'' @ [hex_char (n div 16), hex_char (n mod 16)]"

definition json_char :: "char \<Rightarrow> string" where
  "json_char c =
     (if c = CHR 0x22 \<or> c = CHR 0x5C then [CHR 0x5C, c]
      else if c = CHR 0x08 then [CHR 0x5C, CHR ''b'']
      else if c = CHR 0x0C then [CHR 0x5C, CHR ''f'']
      else if c = CHR 0x0A then [CHR 0x5C, CHR ''n'']
      else if c = CHR 0x0D then [CHR 0x5C, CHR ''r'']
      else if c = CHR 0x09 then [CHR 0x5C, CHR ''t'']
      else if code_of c < 32 \<or> c = CHR ''<'' \<or> c = CHR ''>'' \<or> c = CHR ''&'' then json_hex (code_of c)
      else [c])"

definition json_string :: "string \<Rightarrow> string" where
  "json_string s = CHR 0x22 # concat (map json_char s) @ [CHR 0x22]"

definition quoted :: "string \<Rightarrow> string" where "quoted s = CHR 0x22 # s @ [CHR 0x22]"

record adr036_doc =
  ad_account_number :: string
  ad_chain_id :: string
  ad_fee_amount :: string   \<comment> \<open>raw JSON\<close>
  ad_fee_gas :: string
  ad_memo :: string
  ad_msg_type :: string     \<comment> \<open>the one message of the document\<close>
  ad_msg_data :: string
  ad_msg_signer :: string
  ad_sequence :: string

text \<open>\<^verbatim>\<open>json.Marshal\<close> of the document: the fields in the order of their declaration.\<close>

definition marshal_adr036 :: "adr036_doc \<Rightarrow> string" where
  "marshal_adr036 d =
     ''{'' @ quoted ''account_number'' @ '':'' @ json_string (ad_account_number d) @
     '','' @ quoted ''chain_id'' @ '':'' @ json_string (ad_chain_id d) @
     '','' @ quoted ''fee'' @ '':{'' @ quoted ''amount'' @ '':'' @ ad_fee_amount d @
     '','' @ quoted ''gas'' @ '':'' @ json_string (ad_fee_gas d) @ ''}'' @
     '','' @ quoted ''memo'' @ '':'' @ json_string (ad_memo d) @
     '','' @ quoted ''msgs'' @ '':[{'' @ quoted ''type'' @ '':'' @ json_string (ad_msg_type d) @
     '','' @ quoted ''value'' @ '':{'' @ quoted ''data'' @ '':'' @ json_string (ad_msg_data d) @
     '','' @ quoted ''signer'' @ '':'' @ json_string (ad_msg_signer d) @ ''}}]'' @
     '','' @ quoted ''sequence'' @ '':'' @ json_string (ad_sequence d) @ ''}''"

definition bytes_of_string :: "string \<Rightarrow> byte list" where
  "bytes_of_string s = map byte_of_char s"

definition adr036SignBytes :: "string \<Rightarrow> string \<Rightarrow> byte list" where
  "adr036SignBytes address challenge =
     bytes_of_string (marshal_adr036
       \<lparr>ad_account_number = ''0'', ad_chain_id = '''', ad_fee_amount = ''[]'', ad_fee_gas = ''0'', ad_memo = '''',
        ad_msg_type = ''sign/MsgSignData'', ad_msg_data = b64_encode StdEncoding (bytes_of_string challenge),
        ad_msg_signer = address, ad_sequence = ''0''\<rparr>)"

text \<open>The loop of \<^verbatim>\<open>padDER\<close> drops leading zeros while more than one byte is left; \<^verbatim>\<open>b[0]\<close> of nothing panics.\<close>

fun strip_zeros :: "byte list \<Rightarrow> byte list" where
  "strip_zeros (x # y # ys) = (if x = 0 then strip_zeros (y # ys) else x # y # ys)"
| "strip_zeros xs = xs"

definition padDER :: "byte list \<Rightarrow> byte list option" where
  "padDER b0 =
     (case strip_zeros b0 of
        [] \<Rightarrow> None
      | x # xs \<Rightarrow> Some (if x AND 0x80 \<noteq> 0 then 0 # x # xs else x # xs))"

definition compactToDER :: "byte list \<Rightarrow> (verify_error, byte list) result" where
  "compactToDER sig =
     (if length sig \<noteq> compactSigLen then Err (VSigLength (length sig))
      else case (padDER (take 32 sig), padDER (drop 32 sig)) of
             (Some r, Some s) \<Rightarrow>
               let body = [0x02, word_of_nat (length r)] @ r @ [0x02, word_of_nat (length s)] @ s
               in Ok ([0x30, word_of_nat (length body)] @ body)
           | _ \<Rightarrow> Err VParseDER)"

definition parseSig :: "crypto \<Rightarrow> byte list \<Rightarrow> (verify_error, ecdsa_sig) result" where
  "parseSig cr sigBytes0 =
     (let sigBytes = (if length sigBytes0 = compactSigWithRecov then drop 1 sigBytes0 else sigBytes0)
      in if length sigBytes \<noteq> compactSigLen then Err (VSigLength (length sigBytes))
         else rbind (compactToDER sigBytes) (\<lambda>der.
                case cr_parse_der cr der of None \<Rightarrow> Err VParseDER | Some sg \<Rightarrow> Ok sg))"

definition Verify :: "crypto \<Rightarrow> string \<Rightarrow> string \<Rightarrow> string \<Rightarrow> string \<Rightarrow> (verify_error, bool) result" where
  "Verify cr address pubkeyB64 sigB64 challenge =
     (case b64_decode StdEncoding pubkeyB64 of
        None \<Rightarrow> Err VDecodePubkey
      | Some pubBytes \<Rightarrow>
     (case cr_parse_pubkey cr pubBytes of
        None \<Rightarrow> Err VParsePubkey
      | Some pubKey \<Rightarrow>
          let hrp = hrpFromAddress address
          in if hrp = '''' then Err VNoHRP
             else case AddressFromPubKey (cr_hash160 cr) pubBytes hrp of
                    Inl e \<Rightarrow> Err (VDeriveAddress e)
                  | Inr expected \<Rightarrow>
                      if \<not> equal_fold expected (trim_space address) then Ok False
                      else
                        let hash = cr_sha256 cr (adr036SignBytes address challenge)
                        in case b64_decode StdEncoding sigB64 of
                             None \<Rightarrow> Err VDecodeSig
                           | Some sigBytes \<Rightarrow>
                               rbind (parseSig cr sigBytes) (\<lambda>sg. Ok (cr_verify cr sg hash pubKey))))"

text \<open>Vocabulary of the specification: big-endian values and minimal DER integers.\<close>

definition be_val :: "byte list \<Rightarrow> nat" where
  "be_val bs = foldl (\<lambda>a b. 256 * a + unat b) 0 bs"

definition der_int_ok :: "byte list \<Rightarrow> bool" where
  "der_int_ok bs \<longleftrightarrow> bs \<noteq> [] \<and> hd bs AND 0x80 = 0 \<and> (1 < length bs \<and> hd bs = 0 \<longrightarrow> (bs ! 1) AND 0x80 \<noteq> 0)"

definition crypto_accepting :: "byte list \<Rightarrow> crypto" where
  "crypto_accepting addr =
     \<lparr>cr_hash160 = (\<lambda>_. addr), cr_sha256 = (\<lambda>_. []), cr_parse_pubkey = Some, cr_parse_der = Some, cr_verify = (\<lambda>_ _ _. True)\<rparr>"

subsection \<open>DER conversion\<close>

lemma be_val_zero_Cons [simp]: "be_val (0 # bs) = be_val bs"
  by (simp add: be_val_def)

lemma strip_zeros_props:
  "bs \<noteq> [] \<Longrightarrow> strip_zeros bs \<noteq> [] \<and> be_val (strip_zeros bs) = be_val bs \<and>
     length (strip_zeros bs) \<le> length bs \<and> (1 < length (strip_zeros bs) \<longrightarrow> hd (strip_zeros bs) \<noteq> 0)"
  by (induction bs rule: strip_zeros.induct) auto

lemma padDER_props:
  assumes "bs \<noteq> []"
  shows "\<exists>r. padDER bs = Some r \<and> der_int_ok r \<and> be_val r = be_val bs \<and> length r \<le> Suc (length bs)"
proof -
  obtain x xs where s: "strip_zeros bs = x # xs" using strip_zeros_props[OF assms] by (cases "strip_zeros bs") auto
  with strip_zeros_props[OF assms] have "be_val (x # xs) = be_val bs" "length (x # xs) \<le> length bs" "xs \<noteq> [] \<Longrightarrow> x \<noteq> 0" by auto
  with s show ?thesis by (auto simp: padDER_def der_int_ok_def)
qed

lemma unat_byte_small: "n < 256 \<Longrightarrow> unat (word_of_nat n :: byte) = n"
  by (simp add: unat_of_nat take_bit_nat_eq_self)

text \<open>\<^verbatim>\<open>compactToDER\<close> turns every 64-byte signature into a well-formed DER sequence of two integers: all length bytes are right,
  both integers are non-negative and minimally encoded, and their values are the big-endian halves of the input.\<close>

theorem compactToDER_correct:
  assumes "length sig = 64"
  shows "\<exists>len lr r ls s. compactToDER sig = Ok ([0x30, len, 0x02, lr] @ r @ [0x02, ls] @ s) \<and>
           unat len = 4 + length r + length s \<and> unat lr = length r \<and> unat ls = length s \<and>
           der_int_ok r \<and> der_int_ok s \<and> be_val r = be_val (take 32 sig) \<and> be_val s = be_val (drop 32 sig)"
proof -
  have ne: "take 32 sig \<noteq> []" "drop 32 sig \<noteq> []" using assms by auto
  from padDER_props[OF ne(1)] assms obtain r where r: "padDER (take 32 sig) = Some r" "der_int_ok r"
    "be_val r = be_val (take 32 sig)" "length r \<le> 33" by auto
  from padDER_props[OF ne(2)] assms obtain s where s: "padDER (drop 32 sig) = Some s" "der_int_ok s"
    "be_val s = be_val (drop 32 sig)" "length s \<le> 33" by auto
  let ?len = "word_of_nat (4 + length r + length s) :: byte"
  have "compactToDER sig = Ok ([0x30, ?len, 0x02, word_of_nat (length r)] @ r @ [0x02, word_of_nat (length s)] @ s)"
    using assms r(1) s(1) by (simp add: compactToDER_def compactSigLen_def Let_def add.commute add.left_commute)
  moreover have "unat ?len = 4 + length r + length s" "unat (word_of_nat (length r) :: byte) = length r"
    "unat (word_of_nat (length s) :: byte) = length s" using r(4) s(4) by (intro unat_byte_small; simp)+
  ultimately show ?thesis using r(2,3) s(2,3) by blast
qed

subsection \<open>Addresses\<close>

lemma hrpFromAddress_ok: "hrpFromAddress a \<noteq> [] \<Longrightarrow> hrp_ok (hrpFromAddress a)"
proof -
  let ?l = "to_lower (trim_space a)"
  assume "hrpFromAddress a \<noteq> []"
  then obtain sep where h: "hrpFromAddress a = take sep ?l" "sep \<noteq> 0" "?l \<noteq> []"
    by (auto simp: hrpFromAddress_def Let_def split: option.splits if_splits)
  have "\<not> is_space (hd ?l)"
    using trim_space_hd[of a] h(3) by (cases "trim_space a") (auto simp: to_lower_def)
  moreover have "list_all (\<lambda>c. \<not> is_upper c) (take sep ?l)"
    by (auto simp: list_all_iff dest!: in_set_takeD to_lower_not_upper)
  ultimately show ?thesis using h by (simp add: hrp_ok_def hd_take)
qed

lemma Bech32Decode_normal: "to_lower (trim_space s) = to_lower (trim_space t) \<Longrightarrow> Bech32Decode s = Bech32Decode t"
  by (simp add: Bech32Decode_def)

lemma encode_normal:
  assumes "hrp_ok hrp" "keys_AddressFromBytes xs hrp = Ok s"
  shows "Bech32Decode s = Ok (hrp, xs)" "to_lower (trim_space s) = s" "to_lower s = s"
proof -
  show d: "Bech32Decode s = Ok (hrp, xs)" using encode_decode[OF assms(1), of xs] assms(2) by auto
  show n: "to_lower (trim_space s) = s" using decode_is_canonical[OF d] assms(2) by simp
  show "to_lower s = s" using n by (metis to_lower_idem)
qed

lemma charset_ascii: "c \<in> set bech32Charset \<Longrightarrow> is_ascii c"
  by (auto simp: bech32Charset_def is_ascii_def code_of_def)

lemma encode_ascii:
  assumes "hrp_ok hrp" "keys_AddressFromBytes xs hrp = Ok s" "list_all is_ascii hrp"
  shows "list_all is_ascii s"
proof -
  have "write_charset bs = Some t \<Longrightarrow> set t \<subseteq> set bech32Charset" for bs t
  proof (induction bs arbitrary: t)
    case (Cons b bs)
    then show ?case using charset_at_small[of b]
      by (cases "unat b < 32") (auto simp: charset_at_def charset_length split: option.splits)
  qed simp
  then have "write_charset bs = Some t \<Longrightarrow> list_all is_ascii t" for bs t using charset_ascii by (auto simp: list_all_iff)
  moreover have "is_ascii CHR ''1''" by (simp add: is_ascii_def code_of_def)
  ultimately show ?thesis using assms(2,3) by (auto simp: keys_AddressFromBytes_def bech32Encode_def split: sum.splits option.splits)
qed

lemma hrpFromAddress_ascii: "list_all is_ascii a \<Longrightarrow> list_all is_ascii (hrpFromAddress a)"
proof -
  assume "list_all is_ascii a"
  then have "\<forall>c \<in> set (to_lower (trim_space a)). is_ascii c"
    using trim_space_subset[of a] lower_char_ascii by (auto simp: list_all_iff to_lower_def)
  then show ?thesis by (auto simp: hrpFromAddress_def Let_def list_all_iff dest!: in_set_takeD split: option.splits)
qed

lemma encode_fold_decode:
  assumes "hrp_ok hrp" "keys_AddressFromBytes xs hrp = Ok s" "equal_fold s (trim_space a)" "list_all is_ascii hrp" "list_all is_ascii a"
  shows "DecodeAddressBytes a = Ok xs"
proof -
  have "list_all is_ascii (trim_space a)" using assms(5) trim_space_subset[of a] by (auto simp: list_all_iff)
  then have "to_lower (trim_space s) = to_lower (trim_space a)"
    using encode_normal(2,3)[OF assms(1,2)] assms(3) equal_fold_ascii[OF encode_ascii[OF assms(1,2,4)]] by simp
  from Bech32Decode_normal[OF this] have "Bech32Decode a = Ok (hrp, xs)"
    using encode_normal(1)[OF assms(1,2)] by simp
  then show ?thesis by (simp add: DecodeAddressBytes_def)
qed

text \<open>C14: A verified challenge is bound to the address. When \<^verbatim>\<open>Verify\<close> accepts an address written in ASCII, the address decodes to the
  hash of the presented 33-byte key, and the signature is valid under that key for the ADR-036 document naming this very
  address and challenge. (With a character outside ASCII the comparison may accept an address that does not decode, see below.)\<close>

theorem Verify_binds_address:
  assumes "Verify cr address pubkeyB64 sigB64 challenge = Ok True" "list_all is_ascii address"
  shows "\<exists>pub key sigBytes sg. b64_decode StdEncoding pubkeyB64 = Some pub \<and> length pub = 33 \<and>
           DecodeAddressBytes address = Ok (cr_hash160 cr pub) \<and>
           cr_parse_pubkey cr pub = Some key \<and> b64_decode StdEncoding sigB64 = Some sigBytes \<and>
           parseSig cr sigBytes = Ok sg \<and> cr_verify cr sg (cr_sha256 cr (adr036SignBytes address challenge)) key"
proof -
  from assms(1) obtain pub key expected sigBytes sg where h:
    "b64_decode StdEncoding pubkeyB64 = Some pub" "cr_parse_pubkey cr pub = Some key" "hrpFromAddress address \<noteq> []"
    "AddressFromPubKey (cr_hash160 cr) pub (hrpFromAddress address) = Ok expected"
    "equal_fold expected (trim_space address)" "b64_decode StdEncoding sigB64 = Some sigBytes"
    "parseSig cr sigBytes = Ok sg" "cr_verify cr sg (cr_sha256 cr (adr036SignBytes address challenge)) key"
    by (auto simp: Verify_def Let_def rbind_Ok_iff split: option.splits if_splits sum.splits)
  from h(4) have "length pub = 33" "keys_AddressFromBytes (cr_hash160 cr pub) (hrpFromAddress address) = Ok expected"
    by (auto simp: AddressFromPubKey_def keys_AddressFromPubKey_def split: if_splits sum.splits)
  then show ?thesis
    using h encode_fold_decode[OF hrpFromAddress_ok[OF h(3)] _ h(5) hrpFromAddress_ascii assms(2)] assms(2) by blast
qed

theorem Verify_binds_address_witness:
  "\<exists>pub. b64_decode StdEncoding (b64_encode StdEncoding (replicate 33 2)) = Some pub \<and> length pub = 33 \<and>
     DecodeAddressBytes ''a1qypqvrg2cf'' = Ok (cr_hash160 (crypto_accepting [1, 2]) pub)"
proof -
  have "Verify (crypto_accepting [1, 2]) ''a1qypqvrg2cf'' (b64_encode StdEncoding (replicate 33 2))
          (b64_encode StdEncoding (replicate 64 1)) ''nonce'' = Ok True" by code_simp
  moreover have "list_all is_ascii ''a1qypqvrg2cf''" by (simp add: is_ascii_def code_of_def)
  ultimately show ?thesis using Verify_binds_address by blast
qed

text \<open>The long s (U+017F) in place of an s passes the comparison of \<^verbatim>\<open>Verify\<close>, although no other part of the program can decode the address.\<close>

lemma long_s_passes:
  "let address = ''a1'' @ map char_of [197 :: nat, 191] @ ''qpqw5y6na''
   in Verify (crypto_accepting [128, 2]) address (b64_encode StdEncoding (replicate 33 2)) (b64_encode StdEncoding (replicate 64 1)) ''nonce'' = Ok True \<and>
      \<not> is_ok (DecodeAddressBytes address) \<and> is_ok (DecodeAddressBytes ''a1sqpqw5y6na'')"
  by code_simp

lemma reencode_same_bytes:
  assumes "reencodeAddress addr prefix = Ok b" "hrp_ok prefix"
  shows "DecodeAddressBytes b = DecodeAddressBytes addr" "is_ok (DecodeAddressBytes addr)"
proof -
  obtain raw where r: "DecodeAddressBytes addr = Ok raw" "keys_AddressFromBytes raw prefix = Ok b"
    using assms(1) by (auto simp: reencodeAddress_def AddressFromBytes_def split: sum.splits)
  then show "DecodeAddressBytes b = DecodeAddressBytes addr" "is_ok (DecodeAddressBytes addr)"
    using encode_normal(1)[OF assms(2) r(2)] by (simp_all add: DecodeAddressBytes_def[of b])
qed

lemma checkBalance_Ok:
  assumes "checkBalance c chain signer minAmount = Ok ()"
  obtains client p minCoin target bal got want where
    "pc_clients c chain = Some client" "pc_prefixes c chain = Some p" "ParseCoin minAmount = Ok minCoin"
    "reencodeAddress signer p = Ok target" "client target (coin_denom minCoin) = Some bal"
    "set_string (coin_amount bal) = Some got" "set_string (coin_amount minCoin) = Some want" "want \<le> got"
proof -
  obtain client p minCoin where h: "pc_clients c chain = Some client" "pc_prefixes c chain = Some p" "ParseCoin minAmount = Ok minCoin"
    using assms by (auto simp: checkBalance_def split: option.splits sum.splits)
  with assms obtain target where t: "reencodeAddress signer p = Ok target"
    by (cases "reencodeAddress signer p") (auto simp: checkBalance_def)
  with assms h show ?thesis
    using that by (auto simp: checkBalance_def split: option.splits if_splits)
qed

text \<open>The balance predicate passes only for an account of the same key. When a request with the \<^verbatim>\<open>has_balance\<close> predicate passes, the target
  chain's client reported, for the address with the same raw bytes under that chain's prefix and for the
  minimum's denomination, a balance at least the minimum.\<close>

theorem has_balance_sound:
  assumes "Predicate_Check c PredicateHasBalance chain signer minAmount = Ok ()"
    and "\<And>p. pc_prefixes c chain = Some p \<Longrightarrow> hrp_ok p"
  shows "\<exists>client minCoin target bal got want. pc_clients c chain = Some client \<and> ParseCoin minAmount = Ok minCoin \<and>
           DecodeAddressBytes target = DecodeAddressBytes signer \<and> is_ok (DecodeAddressBytes signer) \<and>
           client target (coin_denom minCoin) = Some bal \<and> set_string (coin_amount bal) = Some got \<and>
           set_string (coin_amount minCoin) = Some want \<and> want \<le> got"
proof -
  have "PredicateHasBalance \<noteq> PredicateNone" "PredicateHasBalance \<noteq> []" by (simp_all add: PredicateHasBalance_def PredicateNone_def)
  with assms(1) have "checkBalance c chain signer minAmount = Ok ()" by (simp add: Predicate_Check_def)
  then obtain client p minCoin target bal got want where h:
    "pc_clients c chain = Some client" "pc_prefixes c chain = Some p" "ParseCoin minAmount = Ok minCoin"
    "reencodeAddress signer p = Ok target" "client target (coin_denom minCoin) = Some bal"
    "set_string (coin_amount bal) = Some got" "set_string (coin_amount minCoin) = Some want" "want \<le> got"
    by (rule checkBalance_Ok)
  with reencode_same_bytes[OF h(4) assms(2)[OF h(2)]] show ?thesis by blast
qed

end
