(* ===== verification/Apikey.thy ===== *)
theory Apikey
  imports Base64
begin

text \<open>
  \<^verbatim>\<open>internal/abuse/apikey/store.go\<close>: API keys in the SQL table \<^verbatim>\<open>api_keys\<close>. The table is a list of rows with the
  primary key \<^verbatim>\<open>id\<close>; the JSON text of a column is represented by the value it parses to (or as unparsable);
  \<^verbatim>\<open>argon2.IDKey\<close> with the package's fixed cost parameters is a function of body and salt, the random bytes and
  the clock are arguments.

  The lemmas give the life of a key over arbitrary traces: it authenticates with exactly its issued token, until it
  expires or is revoked.
\<close>

datatype apikey_error =
    ErrInvalidSecret | ErrNotFound | ErrRevoked | ErrExpired
  | AKRandom | AKInsert | AKQuery | AKList | AKRevoke | AKCorruptHash | AKScopeJSON | AKDripsJSON

definition secretPrefix :: string where "secretPrefix = ''pour_key_''"
definition secretIDHex :: nat where "secretIDHex = 16"
definition secretBodyLen :: nat where "secretBodyLen = 32"
definition saltLen :: nat where "saltLen = 16"
definition argonKeyLen :: nat where "argonKeyLen = 32"

record create_params =
  cp_label :: string
  cp_chain_scope :: "string list"
  cp_per_chain_drips :: "(string \<rightharpoonup> string) option"
  cp_rate_limit_per_hour :: int
  cp_expires_at :: "int option"

record api_key =
  key_id :: string
  key_label :: string
  key_chain_scope :: "string list"
  key_per_chain_drips :: "string \<rightharpoonup> string"
  key_rate_limit_per_hour :: int
  key_expires_at :: "int option"
  key_created_at :: int
  key_last_used_at :: "int option"

datatype json_col = JArr "string list" | JObj "string \<rightharpoonup> string" | JBad

record key_row =
  kr_id :: string
  kr_secret_hash :: "byte list"
  kr_label :: "string option"
  kr_chain_scope :: json_col
  kr_per_chain_drips :: "json_col option"
  kr_rate_limit :: "int option"
  kr_expires_at :: "int option"
  kr_created_at :: int
  kr_last_used_at :: "int option"
  kr_revoked_at :: "int option"

type_synonym key_table = "key_row list"
type_synonym argon = "byte list \<Rightarrow> byte list \<Rightarrow> byte list"

definition DripsForChain :: "api_key \<Rightarrow> string \<Rightarrow> string" where
  "DripsForChain k chainID = (case key_per_chain_drips k chainID of Some d \<Rightarrow> d | None \<Rightarrow> '''')"

fun in_scope_loop :: "string list \<Rightarrow> string \<Rightarrow> bool" where
  "in_scope_loop [] chainID = False"
| "in_scope_loop (s # ss) chainID = (if s = ''*'' \<or> s = chainID then True else in_scope_loop ss chainID)"

definition InScope :: "api_key \<Rightarrow> string \<Rightarrow> bool" where
  "InScope k chainID = in_scope_loop (key_chain_scope k) chainID"

text \<open>Three reads of \<^verbatim>\<open>crypto/rand\<close>: the id, the body and the salt; \<^const>\<open>None\<close> is an error.\<close>

definition Create ::
    "argon \<Rightarrow> byte list option \<Rightarrow> byte list option \<Rightarrow> byte list option \<Rightarrow> bool \<Rightarrow> int \<Rightarrow> create_params \<Rightarrow> key_table
     \<Rightarrow> (apikey_error, string \<times> string) result \<times> key_table" where
  "Create argon idRaw0 body0 salt0 insertFails now p tbl =
     (case idRaw0 of
        None \<Rightarrow> (Err AKRandom, tbl)
      | Some idRaw \<Rightarrow>
     (case body0 of
        None \<Rightarrow> (Err AKRandom, tbl)
      | Some body \<Rightarrow>
     (case salt0 of
        None \<Rightarrow> (Err AKRandom, tbl)
      | Some salt \<Rightarrow>
          let idHex = hex_encode idRaw;
              id = ''key_'' @ idHex;
              secret = secretPrefix @ idHex @ b64_encode RawURLEncoding body;
              secretHash = salt @ argon body salt
          in if insertFails \<or> id \<in> set (map kr_id tbl) then (Err AKInsert, tbl)
             else (Ok (id, secret),
                   tbl @ [\<lparr>kr_id = id, kr_secret_hash = secretHash, kr_label = Some (cp_label p),
                           kr_chain_scope = JArr (cp_chain_scope p),
                           kr_per_chain_drips = map_option JObj (cp_per_chain_drips p),
                           kr_rate_limit = (if cp_rate_limit_per_hour p > 0 then Some (cp_rate_limit_per_hour p) else None),
                           kr_expires_at = cp_expires_at p, kr_created_at = now,
                           kr_last_used_at = None, kr_revoked_at = None\<rparr>]))))"

text \<open>The part of \<^verbatim>\<open>scanKey\<close> and of \<^verbatim>\<open>Authenticate\<close> that turns the columns into a \<^verbatim>\<open>Key\<close>.\<close>

definition key_of_row :: "key_row \<Rightarrow> (apikey_error, api_key) result" where
  "key_of_row r =
     (let k = \<lparr>key_id = kr_id r, key_label = case_option '''' id (kr_label r), key_chain_scope = [],
              key_per_chain_drips = Map.empty, key_rate_limit_per_hour = case_option 0 id (kr_rate_limit r),
              key_expires_at = kr_expires_at r, key_created_at = kr_created_at r,
              key_last_used_at = kr_last_used_at r\<rparr>
      in case kr_chain_scope r of
           JArr sc \<Rightarrow>
             (case kr_per_chain_drips r of
                None \<Rightarrow> Ok (k\<lparr>key_chain_scope := sc\<rparr>)
              | Some (JObj m) \<Rightarrow> Ok (k\<lparr>key_chain_scope := sc, key_per_chain_drips := m\<rparr>)
              | Some _ \<Rightarrow> Err AKDripsJSON)
         | _ \<Rightarrow> Err AKScopeJSON)"

definition scanKey :: "key_row \<Rightarrow> (apikey_error, api_key) result" where
  "scanKey r = key_of_row r"

fun scan_rows :: "key_row list \<Rightarrow> (apikey_error, api_key list) result" where
  "scan_rows [] = Ok []"
| "scan_rows (r # rs) = rbind (scanKey r) (\<lambda>k. rbind (scan_rows rs) (\<lambda>ks. Ok (k # ks)))"

definition List_keys :: "bool \<Rightarrow> key_table \<Rightarrow> (apikey_error, api_key list) result" where
  "List_keys queryFails tbl =
     (if queryFails then Err AKList
      else scan_rows (sort_key (\<lambda>r. - kr_created_at r) (filter (\<lambda>r. kr_revoked_at r = None) tbl)))"

definition Revoke :: "bool \<Rightarrow> int \<Rightarrow> string \<Rightarrow> key_table \<Rightarrow> (apikey_error, unit) result \<times> key_table" where
  "Revoke execFails now kid tbl =
     (if execFails then (Err AKRevoke, tbl)
      else if \<exists>r \<in> set tbl. kr_id r = kid \<and> kr_revoked_at r = None
      then (Ok (), map (\<lambda>r. if kr_id r = kid \<and> kr_revoked_at r = None then r\<lparr>kr_revoked_at := Some now\<rparr> else r) tbl)
      else (Err ErrNotFound, tbl))"

definition touch_last_used :: "bool \<Rightarrow> int \<Rightarrow> string \<Rightarrow> key_table \<Rightarrow> key_table" where
  "touch_last_used execFails now kid tbl =
     (if execFails then tbl
      else map (\<lambda>r. if kr_id r = kid then r\<lparr>kr_last_used_at := Some now\<rparr> else r) tbl)"

definition Authenticate ::
    "argon \<Rightarrow> bool \<Rightarrow> bool \<Rightarrow> int \<Rightarrow> string \<Rightarrow> key_table \<Rightarrow> (apikey_error, api_key) result \<times> key_table" where
  "Authenticate argon queryFails touchFails now rawSecret tbl =
     (if \<not> has_prefix rawSecret secretPrefix then (Err ErrInvalidSecret, tbl)
      else
        let tail = drop (length secretPrefix) rawSecret
        in if length tail \<le> secretIDHex then (Err ErrInvalidSecret, tbl)
           else
             let idHex = take secretIDHex tail; encoded = drop secretIDHex tail
             in case b64_decode RawURLEncoding encoded of
                  None \<Rightarrow> (Err ErrInvalidSecret, tbl)
                | Some body \<Rightarrow>
                    if length body \<noteq> secretBodyLen then (Err ErrInvalidSecret, tbl)
                    else if b64_encode RawURLEncoding body \<noteq> encoded then (Err ErrInvalidSecret, tbl)
                    else if queryFails then (Err AKQuery, tbl)
                    else
                      let id = ''key_'' @ idHex
                      in case find (\<lambda>r. kr_id r = id) tbl of
                           None \<Rightarrow> (Err ErrInvalidSecret, tbl)
                         | Some r \<Rightarrow>
                             if kr_revoked_at r \<noteq> None then (Err ErrRevoked, tbl)
                             else if (case kr_expires_at r of Some e \<Rightarrow> now > e | None \<Rightarrow> False) then (Err ErrExpired, tbl)
                             else if length (kr_secret_hash r) \<noteq> saltLen + argonKeyLen then (Err AKCorruptHash, tbl)
                             else if argon body (take saltLen (kr_secret_hash r)) \<noteq> drop saltLen (kr_secret_hash r)
                             then (Err ErrInvalidSecret, tbl)
                             else (key_of_row r, touch_last_used touchFails now id tbl))"

definition ParseBearer :: "string \<Rightarrow> string option" where
  "ParseBearer header =
     (if \<not> has_prefix header ''Bearer '' then None
      else let token = trim_prefix header ''Bearer ''
           in if \<not> has_prefix token secretPrefix then None else Some token)"

text \<open>Traces of calls on the table, for the specification.\<close>

datatype ak_op =
    OpCreate "byte list option" "byte list option" "byte list option" bool int create_params
  | OpRevoke bool int string
  | OpAuthenticate bool bool int string

fun ak_step :: "argon \<Rightarrow> ak_op \<Rightarrow> key_table \<Rightarrow> key_table" where
  "ak_step argon (OpCreate i b s f now p) tbl = snd (Create argon i b s f now p tbl)"
| "ak_step argon (OpRevoke f now kid) tbl = snd (Revoke f now kid tbl)"
| "ak_step argon (OpAuthenticate qf tf now raw) tbl = snd (Authenticate argon qf tf now raw tbl)"

fun revokes :: "string \<Rightarrow> ak_op \<Rightarrow> bool" where
  "revokes kid (OpRevoke f now kid') \<longleftrightarrow> kid' = kid"
| "revokes kid _ \<longleftrightarrow> False"

definition find_key :: "string \<Rightarrow> key_table \<Rightarrow> key_row option" where
  "find_key kid tbl = find (\<lambda>r. kr_id r = kid) tbl"

text \<open>What no operation changes of an existing row.\<close>

definition credentials :: "key_row \<Rightarrow> key_row" where
  "credentials r = r\<lparr>kr_last_used_at := None, kr_revoked_at := None\<rparr>"

definition sample_params :: create_params where
  "sample_params = \<lparr>cp_label = ''ci'', cp_chain_scope = [''*''], cp_per_chain_drips = None, cp_rate_limit_per_hour = 5,
     cp_expires_at = Some 100\<rparr>"

definition sample_argon :: argon where
  "sample_argon body salt = take 32 (body @ salt)"

subsection \<open>Rows under the operations\<close>

lemma find_key_map:
  "(\<And>r. kr_id (f r) = kr_id r) \<Longrightarrow> find_key kid (map f tbl) = map_option f (find_key kid tbl)"
  by (induction tbl) (simp_all add: find_key_def)

lemma find_key_append: "find_key kid tbl = Some r \<Longrightarrow> find_key kid (tbl @ xs) = Some r"
  by (induction tbl) (auto simp: find_key_def)

lemma find_key_snoc: "kid \<notin> set (map kr_id tbl) \<Longrightarrow> kr_id r = kid \<Longrightarrow> find_key kid (tbl @ [r]) = Some r"
  by (induction tbl) (auto simp: find_key_def)

lemma find_key_id: "find_key kid tbl = Some r \<Longrightarrow> kr_id r = kid"
  by (auto simp: find_key_def find_Some_iff)

lemma Authenticate_snd:
  "snd (Authenticate argon qf tf now raw tbl) = tbl \<or> (\<exists>kid. snd (Authenticate argon qf tf now raw tbl) = touch_last_used tf now kid tbl)"
  by (auto simp: Authenticate_def Let_def split: option.splits)

lemma Create_snd:
  "snd (Create argon i b s f now p tbl) = tbl \<or> (\<exists>r. snd (Create argon i b s f now p tbl) = tbl @ [r])"
  by (auto simp: Create_def Let_def split: option.splits)

lemma step_find:
  assumes "find_key kid tbl = Some r"
  shows "\<exists>r'. find_key kid (ak_step argon op tbl) = Some r' \<and> credentials r' = credentials r \<and>
           (kr_revoked_at r \<noteq> None \<or> \<not> revokes kid op \<longrightarrow> kr_revoked_at r' = kr_revoked_at r)"
proof (cases op)
  case (OpCreate i b s f now p)
  then show ?thesis using assms Create_snd[of argon i b s f now p tbl] find_key_append by auto
next
  case (OpAuthenticate qf tf now raw)
  have "\<exists>r'. find_key kid (touch_last_used tf now k tbl) = Some r' \<and> credentials r' = credentials r \<and>
          kr_revoked_at r' = kr_revoked_at r" for k
    using assms by (auto simp: touch_last_used_def find_key_map credentials_def)
  then show ?thesis using OpAuthenticate assms Authenticate_snd[of argon qf tf now raw tbl] by auto
next
  case (OpRevoke f now kid')
  then show ?thesis
    using assms find_key_id[OF assms] by (auto simp: Revoke_def find_key_map credentials_def)
qed

lemma run_find:
  assumes "find_key kid tbl = Some r"
  shows "\<exists>r'. find_key kid (fold (ak_step argon) ops tbl) = Some r' \<and> credentials r' = credentials r \<and>
           (kr_revoked_at r \<noteq> None \<or> (\<forall>op \<in> set ops. \<not> revokes kid op) \<longrightarrow> kr_revoked_at r' = kr_revoked_at r)"
  using assms
proof (induction ops arbitrary: tbl r)
  case (Cons op ops)
  from step_find[OF Cons.prems, of argon op] obtain r1 where r1: "find_key kid (ak_step argon op tbl) = Some r1"
    "credentials r1 = credentials r"
    "kr_revoked_at r \<noteq> None \<or> \<not> revokes kid op \<Longrightarrow> kr_revoked_at r1 = kr_revoked_at r" by blast
  from Cons.IH[OF r1(1)] obtain r2 where "find_key kid (fold (ak_step argon) (op # ops) tbl) = Some r2"
    "credentials r2 = credentials r1"
    "kr_revoked_at r1 \<noteq> None \<or> (\<forall>op \<in> set ops. \<not> revokes kid op) \<Longrightarrow> kr_revoked_at r2 = kr_revoked_at r1" by auto
  with r1 show ?case by (intro exI[of _ r2]) auto
qed simp

lemma credentials_fields:
  assumes "credentials r' = credentials r"
  shows "kr_id r' = kr_id r" "kr_secret_hash r' = kr_secret_hash r" "kr_chain_scope r' = kr_chain_scope r"
    "kr_per_chain_drips r' = kr_per_chain_drips r" "kr_rate_limit r' = kr_rate_limit r" "kr_expires_at r' = kr_expires_at r"
  using assms by (simp_all add: credentials_def key_row.defs) (cases r; cases r'; simp)+

text \<open>Everything a successful authentication shows.\<close>

lemma Authenticate_Ok:
  assumes "fst (Authenticate argon qf tf now raw tbl) = Ok k"
  obtains idHex body r where
    "raw = secretPrefix @ idHex @ b64_encode RawURLEncoding body" "length idHex = secretIDHex"
    "length body = secretBodyLen" "find_key (''key_'' @ idHex) tbl = Some r" "key_of_row r = Ok k"
    "kr_revoked_at r = None" "length (kr_secret_hash r) = saltLen + argonKeyLen"
    "argon body (take saltLen (kr_secret_hash r)) = drop saltLen (kr_secret_hash r)"
    "case kr_expires_at r of Some e \<Rightarrow> now \<le> e | None \<Rightarrow> True"
proof -
  let ?tl = "drop (length secretPrefix) raw"
  from assms obtain body r where h: "has_prefix raw secretPrefix" "secretIDHex < length ?tl"
    "b64_decode RawURLEncoding (drop secretIDHex ?tl) = Some body" "length body = secretBodyLen"
    "b64_encode RawURLEncoding body = drop secretIDHex ?tl" "find_key (''key_'' @ take secretIDHex ?tl) tbl = Some r"
    "key_of_row r = Ok k" "kr_revoked_at r = None" "length (kr_secret_hash r) = saltLen + argonKeyLen"
    "argon body (take saltLen (kr_secret_hash r)) = drop saltLen (kr_secret_hash r)"
    "case kr_expires_at r of Some e \<Rightarrow> now \<le> e | None \<Rightarrow> True"
    by (auto simp: Authenticate_def Let_def find_key_def not_le split: if_splits option.splits)
  have "raw = secretPrefix @ take secretIDHex ?tl @ b64_encode RawURLEncoding body"
    unfolding h(5) append_take_drop_id using h(1) append_take_drop_id[of "length secretPrefix" raw]
    by (simp add: has_prefix_def)
  with h that[of "take secretIDHex ?tl" body r] show ?thesis by simp
qed

lemma length_hex_encode: "length (hex_encode bs) = 2 * length bs"
  by (induction bs) (simp_all add: hex_encode_def hex_of_byte_def)

lemma b64_encode_nonempty: "bs \<noteq> [] \<Longrightarrow> b64_encode e bs \<noteq> []"
  by (cases "(e, bs)" rule: b64_encode.cases) auto

lemma key_of_row_id: "key_of_row r = Ok k \<Longrightarrow> key_id k = kr_id r"
  by (auto simp: key_of_row_def Let_def split: json_col.splits option.splits)

lemma Create_Ok:
  assumes "Create argon (Some idRaw) (Some body) (Some salt) f now p tbl = (Ok (kid, secret), tbl')"
  shows "kid = ''key_'' @ hex_encode idRaw" "secret = secretPrefix @ hex_encode idRaw @ b64_encode RawURLEncoding body"
    "\<exists>r. find_key kid tbl' = Some r \<and> kr_id r = kid \<and> kr_secret_hash r = salt @ argon body salt \<and> kr_chain_scope r = JArr (cp_chain_scope p) \<and>
        kr_per_chain_drips r = map_option JObj (cp_per_chain_drips p) \<and> kr_expires_at r = cp_expires_at p \<and> kr_revoked_at r = None \<and>
        kr_rate_limit r = (if cp_rate_limit_per_hour p > 0 then Some (cp_rate_limit_per_hour p) else None)"
  using assms by (auto simp: Create_def Let_def find_key_snoc split: if_splits)

text \<open>Acceptance by a row with these credentials.\<close>

lemma Authenticate_accepts:
  assumes "length idHex = secretIDHex" "length body = secretBodyLen" "find_key (''key_'' @ idHex) tbl = Some r"
    and "kr_revoked_at r = None" "kr_secret_hash r = salt @ argon body salt" "length salt = saltLen"
    and "length (argon body salt) = argonKeyLen" "case kr_expires_at r of Some e \<Rightarrow> now \<le> e | None \<Rightarrow> True"
  shows "fst (Authenticate argon False tf now (secretPrefix @ idHex @ b64_encode RawURLEncoding body) tbl) = key_of_row r"
proof -
  have "b64_encode RawURLEncoding body \<noteq> []" using assms(2) by (intro b64_encode_nonempty) (auto simp: secretBodyLen_def)
  then show ?thesis
    using assms by (simp add: Authenticate_def Let_def b64_decode_encode b64_encodings_ok find_key_def has_prefix_def split: option.splits)
qed

text \<open>The life of a key. The token \<^verbatim>\<open>Create\<close> hands out authenticates, with the scope, drips and rate it was created with,
  in every later state of the store that no revocation of this key precedes, as long as the key has not expired.\<close>

theorem created_key_authenticates:
  assumes "Create argon (Some idRaw) (Some body) (Some salt) f now0 p tbl = (Ok (kid, secret), tbl')"
    and "length idRaw = 8" "length body = 32" "length salt = 16" "length (argon body salt) = 32"
    and "\<forall>op \<in> set ops. \<not> revokes kid op" "case cp_expires_at p of Some e \<Rightarrow> now \<le> e | None \<Rightarrow> True"
  shows "\<exists>k. fst (Authenticate argon False tf now secret (fold (ak_step argon) ops tbl')) = Ok k \<and>
           key_id k = kid \<and> key_chain_scope k = cp_chain_scope p \<and>
           key_per_chain_drips k = case_option Map.empty id (cp_per_chain_drips p) \<and>
           key_rate_limit_per_hour k = max 0 (cp_rate_limit_per_hour p)"
proof -
  note c = Create_Ok[OF assms(1)]
  obtain r where r: "find_key kid tbl' = Some r" "kr_id r = kid" "kr_secret_hash r = salt @ argon body salt"
    "kr_chain_scope r = JArr (cp_chain_scope p)" "kr_per_chain_drips r = map_option JObj (cp_per_chain_drips p)"
    "kr_expires_at r = cp_expires_at p" "kr_revoked_at r = None"
    "kr_rate_limit r = (if cp_rate_limit_per_hour p > 0 then Some (cp_rate_limit_per_hour p) else None)"
    using c(3) by blast
  from run_find[OF r(1), of argon ops] assms(6) obtain r' where r':
    "find_key kid (fold (ak_step argon) ops tbl') = Some r'" "credentials r' = credentials r" "kr_revoked_at r' = None"
    using r(7) by auto
  note f = credentials_fields[OF r'(2)]
  have "fst (Authenticate argon False tf now secret (fold (ak_step argon) ops tbl')) = key_of_row r'"
    unfolding c(2) using r'(1,3) f r c(1) assms(2-5,7)
    by (intro Authenticate_accepts)
      (simp_all add: length_hex_encode secretIDHex_def secretBodyLen_def saltLen_def argonKeyLen_def)
  moreover have "\<exists>k. key_of_row r' = Ok k \<and> key_id k = kid \<and> key_chain_scope k = cp_chain_scope p \<and>
      key_per_chain_drips k = case_option Map.empty id (cp_per_chain_drips p) \<and>
      key_rate_limit_per_hour k = max 0 (cp_rate_limit_per_hour p)"
    using f r by (auto simp: key_of_row_def Let_def split: option.splits)
  ultimately show ?thesis by simp
qed

text \<open>C7: Revocation is final. After a successful \<^verbatim>\<open>Revoke\<close> no secret whatsoever authenticates as that key, whatever calls are made on
  the store afterwards.\<close>

theorem revoked_key_never_authenticates:
  assumes "Revoke f now0 kid tbl = (Ok (), tbl')"
    and "fst (Authenticate argon qf tf now raw (fold (ak_step argon) ops tbl')) = Ok k"
  shows "key_id k \<noteq> kid"
proof
  assume kid: "key_id k = kid"
  from assms(2) obtain idHex r where a: "find_key (''key_'' @ idHex) (fold (ak_step argon) ops tbl') = Some r"
    "key_of_row r = Ok k" "kr_revoked_at r = None" by (rule Authenticate_Ok)
  then have id: "''key_'' @ idHex = kid" using find_key_id[OF a(1)] key_of_row_id[OF a(2)] kid by simp
  have "\<exists>r \<in> set tbl. kr_id r = kid" and
    t: "tbl' = map (\<lambda>r. if kr_id r = kid \<and> kr_revoked_at r = None then r\<lparr>kr_revoked_at := Some now0\<rparr> else r) tbl"
    using assms(1) by (auto simp: Revoke_def split: if_splits)
  then have "find_key kid tbl \<noteq> None" by (auto simp: find_key_def find_None_iff)
  then obtain r0 where "find_key kid tbl = Some r0" by blast
  then obtain r1 where r1: "find_key kid tbl' = Some r1" "kr_revoked_at r1 \<noteq> None"
    unfolding t using find_key_id by (auto simp: find_key_map)
  from run_find[OF r1(1), of argon ops] r1(2) a(1,3) id show False by auto
qed

theorem revoked_key_never_authenticates_witness:
  "let tbl = snd (Create sample_argon (Some (replicate 8 1)) (Some (replicate 32 2)) (Some (replicate 16 3)) False 1 sample_params []);
       tbl2 = snd (Create sample_argon (Some (replicate 8 4)) (Some (replicate 32 5)) (Some (replicate 16 3)) False 1 sample_params tbl);
       kid = ''key_'' @ hex_encode (replicate 8 1);
       secret2 = secretPrefix @ hex_encode (replicate 8 4) @ b64_encode RawURLEncoding (replicate 32 5)
   in \<exists>tbl' k. Revoke False 9 kid tbl2 = (Ok (), tbl') \<and>
        fst (Authenticate sample_argon False False 10 secret2 tbl') = Ok k \<and> key_id k \<noteq> kid"
proof -
  let ?tbl = "snd (Create sample_argon (Some (replicate 8 1)) (Some (replicate 32 2)) (Some (replicate 16 3)) False 1 sample_params [])"
  let ?tbl2 = "snd (Create sample_argon (Some (replicate 8 4)) (Some (replicate 32 5)) (Some (replicate 16 3)) False 1 sample_params ?tbl)"
  let ?kid = "''key_'' @ hex_encode (replicate 8 1)"
  let ?secret2 = "secretPrefix @ hex_encode (replicate 8 4) @ b64_encode RawURLEncoding (replicate 32 5)"
  have "fst (Revoke False 9 ?kid ?tbl2) = Ok ()" by code_simp
  then obtain tbl' where r: "Revoke False 9 ?kid ?tbl2 = (Ok (), tbl')" by (metis prod.collapse)
  have "is_ok (fst (Authenticate sample_argon False False 10 ?secret2 (snd (Revoke False 9 ?kid ?tbl2))))" by code_simp
  then obtain k where k: "fst (Authenticate sample_argon False False 10 ?secret2 tbl') = Ok k" using r by (auto simp: is_ok_iff)
  have "key_id k \<noteq> ?kid" using revoked_key_never_authenticates[OF r, of sample_argon False False 10 ?secret2 "[]"] k by simp
  with r k show ?thesis unfolding Let_def by blast
qed

text \<open>C24: One token per key. Whatever string authenticates as a created key, at any later time and after any operations on the table, is the
  very token \<^verbatim>\<open>Create\<close> returned, or the token's prefix and id followed by the encoding of another body that the key derivation function
  maps, under the stored salt, to the hash of the issued body. No re-encoding of the token, other id or other salt is accepted, and nothing is
  assumed of the key derivation function. The salt has the sixteen bytes that \<^verbatim>\<open>Create\<close> draws.\<close>

theorem only_issued_token_authenticates:
  assumes "Create argon (Some idRaw) (Some body) (Some salt) f now0 p tbl = (Ok (kid, secret), tbl')"
    and "length salt = 16"
    and "fst (Authenticate argon qf tf now raw (fold (ak_step argon) ops tbl')) = Ok k" "key_id k = kid"
  shows "raw = secret \<or>
    (\<exists>b. b \<noteq> body \<and> raw = secretPrefix @ hex_encode idRaw @ b64_encode RawURLEncoding b \<and> argon b salt = argon body salt)"
proof -
  note c = Create_Ok[OF assms(1)]
  from assms(3) obtain idHex b r where a: "raw = secretPrefix @ idHex @ b64_encode RawURLEncoding b"
    "find_key (''key_'' @ idHex) (fold (ak_step argon) ops tbl') = Some r" "key_of_row r = Ok k"
    "argon b (take saltLen (kr_secret_hash r)) = drop saltLen (kr_secret_hash r)" by (rule Authenticate_Ok)
  then have id: "''key_'' @ idHex = kid" using find_key_id[OF a(2)] key_of_row_id[OF a(3)] assms(4) by simp
  obtain r0 where r0: "find_key kid tbl' = Some r0" "kr_secret_hash r0 = salt @ argon body salt" using c(3) by blast
  from run_find[OF r0(1), of argon ops] a(2) id have "credentials r = credentials r0" by auto
  then have "kr_secret_hash r = salt @ argon body salt" using r0(2) credentials_fields(2) by metis
  then have "argon b salt = argon body salt" using a(4) assms(2) by (simp add: saltLen_def)
  with a(1) id c(1,2) show ?thesis by (cases "b = body") auto
qed

theorem only_issued_token_authenticates_witness:
  "\<exists>kid secret tbl' k. Create sample_argon (Some (replicate 8 1)) (Some (replicate 32 2)) (Some (replicate 16 3)) False 1 sample_params []
       = (Ok (kid, secret), tbl') \<and>
     fst (Authenticate sample_argon False False 10 (secretPrefix @ hex_encode (replicate 8 1) @ b64_encode RawURLEncoding (replicate 32 2)) tbl') = Ok k \<and>
     key_id k = kid \<and>
     (secretPrefix @ hex_encode (replicate 8 1) @ b64_encode RawURLEncoding (replicate 32 2) = secret \<or>
      (\<exists>b. b \<noteq> replicate 32 2 \<and> sample_argon b (replicate 16 3) = sample_argon (replicate 32 2) (replicate 16 3)))"
proof -
  let ?c = "Create sample_argon (Some (replicate 8 1)) (Some (replicate 32 2)) (Some (replicate 16 3)) False 1 sample_params []"
  let ?raw = "secretPrefix @ hex_encode (replicate 8 1) @ b64_encode RawURLEncoding (replicate 32 2)"
  obtain kid secret tbl' where c: "?c = (Ok (kid, secret), tbl')" by (simp add: Create_def Let_def)
  have "case fst (Authenticate sample_argon False False 10 ?raw (snd ?c)) of
      Inr k \<Rightarrow> key_id k = ''key_'' @ hex_encode (replicate 8 1) | Inl e \<Rightarrow> False" by code_simp
  then obtain k where k: "fst (Authenticate sample_argon False False 10 ?raw tbl') = Ok k" and "key_id k = kid"
    using c Create_Ok(1)[OF c] by (auto split: sum.splits)
  with only_issued_token_authenticates[OF c _ _ \<open>key_id k = kid\<close>, of False False 10 ?raw "[]"] k c show ?thesis by auto
qed

end
