(* ===== verification/Config.thy ===== *)
theory Config
  imports Coins
begin

text \<open>
  \<^verbatim>\<open>internal/config/chains.go\<close>: the operator configuration, its defaults and its validation, and
  \<^verbatim>\<open>ParseDifficulty\<close> of \<^verbatim>\<open>internal/abuse/pow/pow.go\<close>. A Go pointer field is an option, and so is a slice where nil matters.
  \<^verbatim>\<open>time.ParseDuration\<close> (nanoseconds, \<^const>\<open>None\<close> an error), \<^verbatim>\<open>net.ParseCIDR\<close> and the YAML reader are arguments.

  The lemmas state what a configuration that loads guarantees to the rest of the program.
\<close>

type_synonym parse_duration = "string \<Rightarrow> int option"

record abuse_pow_config =
  apc_enabled :: bool
  apc_difficulty :: string

record abuse_signature_config =
  asc_enabled :: bool
  asc_require_predicate :: string
  asc_predicate_chain_id :: string
  asc_predicate_min_amount :: string

record ip_rate_limit_config =
  irl_requests_per_window :: int
  irl_window :: string

record abuse_config =
  ac_pow :: abuse_pow_config
  ac_api_keys_enabled :: bool
  ac_signature_challenge :: abuse_signature_config
  ac_ip_rate_limit :: ip_rate_limit_config

record registry_config =
  rc_base_url :: string
  rc_refresh_interval :: string

record endpoints_config =
  ec_grpc :: "string list option"
  ec_rpc :: "string list option"
  ec_rest :: "string list option"

text \<open>The elements of a slice that may be nil.\<close>

definition slice :: "'a list option \<Rightarrow> 'a list" where "slice s = case_option [] id s"

record fee_token_config =
  ftc_denom :: string
  ftc_low :: "string option"
  ftc_average :: "string option"
  ftc_high :: "string option"

record drip_config =
  dc_anonymous :: string
  dc_signed :: string
  dc_max_per_address_per_day :: string
  dc_memo :: string

record ibc_drip_config =
  idc_source_chain_id :: string
  idc_anonymous :: string
  idc_max_per_address_per_day :: string

record ibc_config =
  ibc_timeout :: string
  ibc_drips :: "ibc_drip_config list"

record chain_config =
  cc_chain_id :: string
  cc_standalone :: bool
  cc_enabled :: "bool option"
  cc_chain_name :: "string option"
  cc_network_type :: "string option"
  cc_key_algo :: "string option"
  cc_bech32_prefix :: "string option"
  cc_slip44 :: "nat option"
  cc_endpoints :: "endpoints_config option"
  cc_fee_tokens :: "fee_token_config list"
  cc_block_time :: "string option"
  cc_drip :: drip_config
  cc_distributors :: int
  cc_batch_window :: string
  cc_max_recipients_per_batch :: int
  cc_max_queue_depth :: int
  cc_refill_threshold :: string
  cc_refill_interval :: string
  cc_ibc :: ibc_config

record chains_config =
  cfg_abuse :: abuse_config
  cfg_allowed_cidrs :: "string list"
  cfg_registry :: registry_config
  cfg_chains :: "chain_config list"

datatype config_error =
    CfgLoad
  | CfgDifficulty string | CfgPredicate string | CfgMinAmountRequired | CfgMinAmount coin_error
  | CfgWindow | CfgRefresh | CfgCIDR string
  | CfgChainIDRequired nat | CfgBlockTime | CfgIBCTimeout
  | CfgDistributors | CfgBatchWindow | CfgMaxRecipients | CfgMaxQueueDepth | CfgRefillThreshold coin_error | CfgRefillInterval
  | CfgStandalonePrefix | CfgStandaloneSlip44 | CfgStandaloneEndpoints | CfgStandaloneFeeTokens
  | CfgDripAnonymousRequired | CfgDripAnonymous coin_error | CfgDripMaxRequired | CfgDripMax coin_error
  | CfgIBCDripRequired nat | CfgIBCDrip nat coin_error | CfgIBCMaxRequired nat | CfgIBCMax nat coin_error
  | CfgSourceRequired nat | CfgSourceSelf nat | CfgSourceUnknown nat string | CfgSourceIBCOnly nat string

definition sec :: int where "sec = 1000000000"

subsection \<open>Effective values\<close>

definition WindowDuration :: "parse_duration \<Rightarrow> ip_rate_limit_config \<Rightarrow> (config_error, int) result" where
  "WindowDuration pd c =
     (if irl_window c = '''' then Ok (3600 * sec)
      else case pd (irl_window c) of
             None \<Rightarrow> Err CfgWindow
           | Some d \<Rightarrow> if d \<le> 0 then Err CfgWindow else Ok d)"

definition defaultRefreshInterval :: int where "defaultRefreshInterval = 6 * 3600 * sec"

definition RefreshDuration :: "parse_duration \<Rightarrow> registry_config \<Rightarrow> (config_error, int) result" where
  "RefreshDuration pd r =
     (if rc_refresh_interval r = '''' then Ok defaultRefreshInterval
      else case pd (rc_refresh_interval r) of
             None \<Rightarrow> Err CfgRefresh
           | Some d \<Rightarrow> if d \<le> 0 then Err CfgRefresh else Ok d)"

definition IsEnabled :: "chain_config \<Rightarrow> bool" where
  "IsEnabled c \<longleftrightarrow> cc_enabled c = Some True"

definition DistributorCount :: "chain_config \<Rightarrow> int" where
  "DistributorCount c = (if cc_distributors c \<le> 0 then 1 else cc_distributors c)"

definition BatchWindowDuration :: "parse_duration \<Rightarrow> chain_config \<Rightarrow> (config_error, int) result" where
  "BatchWindowDuration pd c =
     (if cc_batch_window c = '''' then Ok (5 * sec)
      else case pd (cc_batch_window c) of
             None \<Rightarrow> Err CfgBatchWindow
           | Some d \<Rightarrow> if d < 0 then Err CfgBatchWindow else Ok d)"

definition DefaultMaxRecipientsPerBatch :: int where "DefaultMaxRecipientsPerBatch = 25"
definition DefaultMaxQueueDepth :: int where "DefaultMaxQueueDepth = 500"

definition MaxRecipientsPerBatchOrDefault :: "chain_config \<Rightarrow> int" where
  "MaxRecipientsPerBatchOrDefault c =
     (if cc_max_recipients_per_batch c \<le> 0 then DefaultMaxRecipientsPerBatch else cc_max_recipients_per_batch c)"

definition RefillIntervalOrDefault :: "parse_duration \<Rightarrow> chain_config \<Rightarrow> (config_error, int) result" where
  "RefillIntervalOrDefault pd c =
     (if cc_refill_interval c = '''' then Ok (60 * sec)
      else case pd (cc_refill_interval c) of
             None \<Rightarrow> Err CfgRefillInterval
           | Some d \<Rightarrow> if d \<le> 0 then Err CfgRefillInterval else Ok d)"

definition MaxQueueDepthOrDefault :: "chain_config \<Rightarrow> int" where
  "MaxQueueDepthOrDefault c = (if cc_max_queue_depth c \<le> 0 then DefaultMaxQueueDepth else cc_max_queue_depth c)"

subsection \<open>Defaults and validation\<close>

definition defaultPredicate :: string where "defaultPredicate = ''none''"

definition setIBCDefaults :: "ibc_config \<Rightarrow> ibc_config" where
  "setIBCDefaults c = (if ibc_timeout c = '''' then c\<lparr>ibc_timeout := ''10m''\<rparr> else c)"

definition setAbuseDefaults :: "abuse_config \<Rightarrow> abuse_config" where
  "setAbuseDefaults c0 =
     (let c1 = (if apc_difficulty (ac_pow c0) = ''''
                then c0\<lparr>ac_pow := (ac_pow c0)\<lparr>apc_difficulty := ''medium''\<rparr>\<rparr> else c0)
      in if asc_require_predicate (ac_signature_challenge c1) = ''''
         then c1\<lparr>ac_signature_challenge := (ac_signature_challenge c1)\<lparr>asc_require_predicate := defaultPredicate\<rparr>\<rparr>
         else c1)"

definition validPoWDifficulties :: "string list" where "validPoWDifficulties = [''easy'', ''medium'', ''hard'']"
definition validPredicates :: "string list" where "validPredicates = [''none'', ''has_balance'']"

definition validateAbuseConfig :: "abuse_config \<Rightarrow> (config_error, unit) result" where
  "validateAbuseConfig c =
     (let d = apc_difficulty (ac_pow c); p = asc_require_predicate (ac_signature_challenge c)
      in if d \<notin> set validPoWDifficulties \<and> (\<not> list_all is_digit d \<or> d = '''') then Err (CfgDifficulty d)
         else if p \<notin> set validPredicates then Err (CfgPredicate p)
         else if p = ''has_balance'' then
           (if asc_predicate_min_amount (ac_signature_challenge c) = '''' then Err CfgMinAmountRequired
            else case ParseCoin (asc_predicate_min_amount (ac_signature_challenge c)) of
                   Inl e \<Rightarrow> Err (CfgMinAmount e)
                 | Inr _ \<Rightarrow> Ok ())
         else Ok ())"

definition validateConcurrencyFields :: "parse_duration \<Rightarrow> chain_config \<Rightarrow> (config_error, unit) result" where
  "validateConcurrencyFields pd c =
     (if cc_distributors c < 0 then Err CfgDistributors
      else rbind (if cc_batch_window c \<noteq> '''' then rbind (BatchWindowDuration pd c) (\<lambda>_. Ok ()) else Ok ()) (\<lambda>_.
        if cc_max_recipients_per_batch c < 0 then Err CfgMaxRecipients
        else if cc_max_queue_depth c < 0 then Err CfgMaxQueueDepth
        else rbind (if cc_refill_threshold c \<noteq> ''''
                    then (case ParseCoin (cc_refill_threshold c) of Inl e \<Rightarrow> Err (CfgRefillThreshold e) | Inr _ \<Rightarrow> Ok ())
                    else Ok ()) (\<lambda>_.
          if cc_refill_interval c \<noteq> '''' then rbind (RefillIntervalOrDefault pd c) (\<lambda>_. Ok ()) else Ok ())))"

definition validateStandalone :: "chain_config \<Rightarrow> (config_error, unit) result" where
  "validateStandalone c =
     (if cc_bech32_prefix c = None \<or> cc_bech32_prefix c = Some '''' then Err CfgStandalonePrefix
      else if cc_slip44 c = None then Err CfgStandaloneSlip44
      else
        let hasGRPC = (case cc_endpoints c of Some e \<Rightarrow> slice (ec_grpc e) \<noteq> [] | None \<Rightarrow> False);
            hasREST = (case cc_endpoints c of Some e \<Rightarrow> slice (ec_rest e) \<noteq> [] | None \<Rightarrow> False);
            needsEndpoints = dc_anonymous (cc_drip c) \<noteq> '''' \<or> ibc_drips (cc_ibc c) = []
        in if \<not> hasGRPC \<and> \<not> hasREST \<and> needsEndpoints then Err CfgStandaloneEndpoints
           else if cc_fee_tokens c = [] then Err CfgStandaloneFeeTokens
           else Ok ())"

definition validateDripBlock :: "chain_config \<Rightarrow> (config_error, unit) result" where
  "validateDripBlock c =
     (let d = cc_drip c; hasNative = dc_anonymous d \<noteq> ''''
      in if \<not> hasNative \<and> (dc_max_per_address_per_day d \<noteq> '''' \<or> dc_signed d \<noteq> '''' \<or> dc_memo d \<noteq> '''')
         then Err CfgDripAnonymousRequired
         else if \<not> hasNative then Ok ()
         else case ParseCoin (dc_anonymous d) of
                Inl e \<Rightarrow> Err (CfgDripAnonymous e)
              | Inr _ \<Rightarrow>
                  if dc_max_per_address_per_day d = '''' then Err CfgDripMaxRequired
                  else case ParseCoin (dc_max_per_address_per_day d) of
                         Inl e \<Rightarrow> Err (CfgDripMax e)
                       | Inr _ \<Rightarrow> Ok ())"

fun validate_ibc_drips :: "nat \<Rightarrow> ibc_drip_config list \<Rightarrow> (config_error, unit) result" where
  "validate_ibc_drips j [] = Ok ()"
| "validate_ibc_drips j (d # ds) =
     (if idc_anonymous d = '''' then Err (CfgIBCDripRequired j)
      else case ParseCoin (idc_anonymous d) of
             Inl e \<Rightarrow> Err (CfgIBCDrip j e)
           | Inr _ \<Rightarrow>
               if idc_max_per_address_per_day d = '''' then Err (CfgIBCMaxRequired j)
               else case ParseCoin (idc_max_per_address_per_day d) of
                      Inl e \<Rightarrow> Err (CfgIBCMax j e)
                    | Inr _ \<Rightarrow> validate_ibc_drips (Suc j) ds)"

definition validateIBCDripEntries :: "chain_config \<Rightarrow> (config_error, unit) result" where
  "validateIBCDripEntries c = validate_ibc_drips 0 (ibc_drips (cc_ibc c))"

definition positive_duration :: "parse_duration \<Rightarrow> config_error \<Rightarrow> string \<Rightarrow> (config_error, unit) result" where
  "positive_duration pd e s =
     (case pd s of None \<Rightarrow> Err e | Some d \<Rightarrow> if d \<le> 0 then Err e else Ok ())"

definition validateChain :: "parse_duration \<Rightarrow> nat \<Rightarrow> chain_config \<Rightarrow> (config_error, unit) result" where
  "validateChain pd i c =
     (if cc_chain_id c = '''' then Err (CfgChainIDRequired i)
      else rbind (case cc_block_time c of Some t \<Rightarrow> positive_duration pd CfgBlockTime t | None \<Rightarrow> Ok ()) (\<lambda>_.
        rbind (positive_duration pd CfgIBCTimeout (ibc_timeout (cc_ibc c))) (\<lambda>_.
        rbind (validateConcurrencyFields pd c) (\<lambda>_.
        rbind (if cc_standalone c then validateStandalone c else Ok ()) (\<lambda>_.
          if \<not> IsEnabled c then Ok ()
          else rbind (validateDripBlock c) (\<lambda>_. validateIBCDripEntries c))))))"

fun validate_chains :: "parse_duration \<Rightarrow> nat \<Rightarrow> chain_config list \<Rightarrow> (config_error, chain_config list) result" where
  "validate_chains pd i [] = Ok []"
| "validate_chains pd i (c0 # cs) =
     (let c = c0\<lparr>cc_ibc := setIBCDefaults (cc_ibc c0)\<rparr>
      in rbind (validateChain pd i c) (\<lambda>_. rbind (validate_chains pd (Suc i) cs) (\<lambda>cs'. Ok (c # cs'))))"

definition ibc_only_dest :: "chain_config \<Rightarrow> bool" where
  "ibc_only_dest c \<longleftrightarrow> dc_anonymous (cc_drip c) = '''' \<and> cc_standalone c \<and>
     \<not> (case cc_endpoints c of Some e \<Rightarrow> slice (ec_grpc e) \<noteq> [] \<or> slice (ec_rest e) \<noteq> [] | None \<Rightarrow> False)"

fun validate_sources :: "string list \<Rightarrow> string list \<Rightarrow> string \<Rightarrow> nat \<Rightarrow> ibc_drip_config list \<Rightarrow> (config_error, unit) result" where
  "validate_sources ids ibcOnly self j [] = Ok ()"
| "validate_sources ids ibcOnly self j (d # ds) =
     (let src = idc_source_chain_id d
      in if src = '''' then Err (CfgSourceRequired j)
         else if src = self then Err (CfgSourceSelf j)
         else if src \<notin> set ids then Err (CfgSourceUnknown j src)
         else if src \<in> set ibcOnly then Err (CfgSourceIBCOnly j src)
         else validate_sources ids ibcOnly self (Suc j) ds)"

fun validate_all_sources :: "string list \<Rightarrow> string list \<Rightarrow> chain_config list \<Rightarrow> (config_error, unit) result" where
  "validate_all_sources ids ibcOnly [] = Ok ()"
| "validate_all_sources ids ibcOnly (c # cs) =
     rbind (validate_sources ids ibcOnly (cc_chain_id c) 0 (ibc_drips (cc_ibc c)))
       (\<lambda>_. validate_all_sources ids ibcOnly cs)"

definition validateIBCSources :: "chain_config list \<Rightarrow> (config_error, unit) result" where
  "validateIBCSources chs =
     validate_all_sources (map cc_chain_id chs) (map cc_chain_id (filter ibc_only_dest chs)) chs"

fun validate_cidrs :: "(string \<Rightarrow> bool) \<Rightarrow> string list \<Rightarrow> (config_error, unit) result" where
  "validate_cidrs parseCIDR [] = Ok ()"
| "validate_cidrs parseCIDR (s # ss) = (if parseCIDR s then validate_cidrs parseCIDR ss else Err (CfgCIDR s))"

text \<open>\<^verbatim>\<open>loaded\<close> is the unmarshalled file, \<^const>\<open>None\<close> when reading or unmarshalling fails.\<close>

definition LoadChains ::
    "parse_duration \<Rightarrow> (string \<Rightarrow> bool) \<Rightarrow> chains_config option \<Rightarrow> (config_error, chains_config) result" where
  "LoadChains pd parseCIDR loaded =
     (case loaded of
        None \<Rightarrow> Err CfgLoad
      | Some cfg0 \<Rightarrow>
          let cfg = cfg0\<lparr>cfg_abuse := setAbuseDefaults (cfg_abuse cfg0)\<rparr>
          in rbind (validateAbuseConfig (cfg_abuse cfg)) (\<lambda>_.
             rbind (WindowDuration pd (ac_ip_rate_limit (cfg_abuse cfg))) (\<lambda>_.
             rbind (RefreshDuration pd (cfg_registry cfg)) (\<lambda>_.
             rbind (validate_cidrs parseCIDR (cfg_allowed_cidrs cfg)) (\<lambda>_.
             rbind (validate_chains pd 0 (cfg_chains cfg)) (\<lambda>chs.
             rbind (validateIBCSources chs) (\<lambda>_. Ok (cfg\<lparr>cfg_chains := chs\<rparr>))))))))"

text \<open>\<^verbatim>\<open>pow.ParseDifficulty\<close>: \<^verbatim>\<open>strconv.Atoi\<close> is a 64-bit signed parse.\<close>

definition DifficultyEasy :: int where "DifficultyEasy = 5000"
definition DifficultyMedium :: int where "DifficultyMedium = 50000"
definition DifficultyHard :: int where "DifficultyHard = 500000"

definition ParseDifficulty :: "string \<Rightarrow> int option" where
  "ParseDifficulty s =
     (if s = ''easy'' then Some DifficultyEasy
      else if s = ''medium'' then Some DifficultyMedium
      else if s = ''hard'' then Some DifficultyHard
      else case parse_int64 s of
             None \<Rightarrow> None
           | Some n \<Rightarrow> if n \<le> 0 then None else Some n)"

text \<open>What a configuration must satisfy, field by field.\<close>

definition duration_at :: "parse_duration \<Rightarrow> int \<Rightarrow> string \<Rightarrow> bool" where
  "duration_at pd least s \<longleftrightarrow> (case pd s of None \<Rightarrow> False | Some d \<Rightarrow> least \<le> d)"

definition durations_ok :: "parse_duration \<Rightarrow> chain_config \<Rightarrow> bool" where
  "durations_ok pd c \<longleftrightarrow>
     (cc_batch_window c = '''' \<or> duration_at pd 0 (cc_batch_window c)) \<and>
     (cc_refill_interval c = '''' \<or> duration_at pd 1 (cc_refill_interval c)) \<and>
     (cc_block_time c = None \<or> duration_at pd 1 (the (cc_block_time c))) \<and>
     duration_at pd 1 (ibc_timeout (cc_ibc c))"

definition counts_ok :: "chain_config \<Rightarrow> bool" where
  "counts_ok c \<longleftrightarrow>
     0 \<le> cc_distributors c \<and> 0 \<le> cc_max_recipients_per_batch c \<and> 0 \<le> cc_max_queue_depth c \<and>
     (cc_refill_threshold c = '''' \<or> is_ok (ParseCoin (cc_refill_threshold c)))"

definition drip_parses :: "chain_config \<Rightarrow> bool" where
  "drip_parses c \<longleftrightarrow>
     (if dc_anonymous (cc_drip c) = ''''
      then dc_signed (cc_drip c) = '''' \<and> dc_max_per_address_per_day (cc_drip c) = '''' \<and> dc_memo (cc_drip c) = ''''
      else is_ok (ParseCoin (dc_anonymous (cc_drip c))) \<and> is_ok (ParseCoin (dc_max_per_address_per_day (cc_drip c)))) \<and>
     list_all (\<lambda>d. is_ok (ParseCoin (idc_anonymous d)) \<and> is_ok (ParseCoin (idc_max_per_address_per_day d))) (ibc_drips (cc_ibc c))"

definition has_endpoint :: "chain_config \<Rightarrow> bool" where
  "has_endpoint c \<longleftrightarrow> (case cc_endpoints c of None \<Rightarrow> False | Some e \<Rightarrow> slice (ec_grpc e) \<noteq> [] \<or> slice (ec_rest e) \<noteq> [])"

definition standalone_ok :: "chain_config \<Rightarrow> bool" where
  "standalone_ok c \<longleftrightarrow>
     cc_bech32_prefix c \<notin> {None, Some ''''} \<and> cc_slip44 c \<noteq> None \<and> cc_fee_tokens c \<noteq> [] \<and>
     (has_endpoint c \<or> dc_anonymous (cc_drip c) = '''' \<and> ibc_drips (cc_ibc c) \<noteq> [])"

definition sources_ok :: "chain_config list \<Rightarrow> chain_config \<Rightarrow> bool" where
  "sources_ok chs c \<longleftrightarrow>
     list_all (\<lambda>d. idc_source_chain_id d \<noteq> '''' \<and> idc_source_chain_id d \<noteq> cc_chain_id c \<and> idc_source_chain_id d \<in> set (map cc_chain_id chs) \<and>
        list_all (\<lambda>src. cc_chain_id src = idc_source_chain_id d \<and> cc_standalone src \<longrightarrow> has_endpoint src \<or> dc_anonymous (cc_drip src) \<noteq> '''') chs)
       (ibc_drips (cc_ibc c))"

definition chain_ok :: "parse_duration \<Rightarrow> chain_config \<Rightarrow> bool" where
  "chain_ok pd c \<longleftrightarrow> cc_chain_id c \<noteq> '''' \<and> durations_ok pd c \<and> counts_ok c \<and> (cc_standalone c \<longrightarrow> standalone_ok c) \<and>
     (cc_enabled c = Some True \<longrightarrow> drip_parses c)"

definition abuse_ok :: "abuse_config \<Rightarrow> bool" where
  "abuse_ok c \<longleftrightarrow>
     (asc_require_predicate (ac_signature_challenge c) = ''none'' \<or>
      asc_require_predicate (ac_signature_challenge c) = ''has_balance'' \<and>
        is_ok (ParseCoin (asc_predicate_min_amount (ac_signature_challenge c)))) \<and>
     (apc_difficulty (ac_pow c) \<in> {''easy'', ''medium'', ''hard''} \<or> all_digits (apc_difficulty (ac_pow c)))"

definition config_ok :: "parse_duration \<Rightarrow> (string \<Rightarrow> bool) \<Rightarrow> chains_config \<Rightarrow> bool" where
  "config_ok pd parseCIDR cfg \<longleftrightarrow>
     abuse_ok (cfg_abuse cfg) \<and>
     (irl_window (ac_ip_rate_limit (cfg_abuse cfg)) = '''' \<or> duration_at pd 1 (irl_window (ac_ip_rate_limit (cfg_abuse cfg)))) \<and>
     (rc_refresh_interval (cfg_registry cfg) = '''' \<or> duration_at pd 1 (rc_refresh_interval (cfg_registry cfg))) \<and>
     list_all parseCIDR (cfg_allowed_cidrs cfg) \<and>
     list_all (\<lambda>c. chain_ok pd c \<and> sources_ok (cfg_chains cfg) c) (cfg_chains cfg)"

text \<open>The settings that have a default other than the type's zero value.\<close>

definition or_default :: "string \<Rightarrow> string \<Rightarrow> string" where
  "or_default d s = (if s = '''' then d else s)"

definition with_defaults :: "chains_config \<Rightarrow> chains_config" where
  "with_defaults cfg =
     cfg\<lparr>cfg_abuse := (cfg_abuse cfg)
           \<lparr>ac_pow := (ac_pow (cfg_abuse cfg))\<lparr>apc_difficulty := or_default ''medium'' (apc_difficulty (ac_pow (cfg_abuse cfg)))\<rparr>,
            ac_signature_challenge := (ac_signature_challenge (cfg_abuse cfg))
              \<lparr>asc_require_predicate := or_default ''none'' (asc_require_predicate (ac_signature_challenge (cfg_abuse cfg)))\<rparr>\<rparr>,
         cfg_chains := map (\<lambda>c. c\<lparr>cc_ibc := (cc_ibc c)\<lparr>ibc_timeout := or_default ''10m'' (ibc_timeout (cc_ibc c))\<rparr>\<rparr>) (cfg_chains cfg)\<rparr>"

definition sample_abuse :: "string \<Rightarrow> abuse_config" where
  "sample_abuse difficulty = \<lparr>ac_pow = \<lparr>apc_enabled = True, apc_difficulty = difficulty\<rparr>, ac_api_keys_enabled = True,
     ac_signature_challenge = \<lparr>asc_enabled = True, asc_require_predicate = '''', asc_predicate_chain_id = '''', asc_predicate_min_amount = ''''\<rparr>,
     ac_ip_rate_limit = \<lparr>irl_requests_per_window = 10, irl_window = ''''\<rparr>\<rparr>"

definition sample_chain :: chain_config where
  "sample_chain = \<lparr>cc_chain_id = ''osmosis-1'', cc_standalone = False, cc_enabled = Some True, cc_chain_name = None, cc_network_type = None,
     cc_key_algo = None, cc_bech32_prefix = None, cc_slip44 = None, cc_endpoints = None, cc_fee_tokens = [], cc_block_time = None,
     cc_drip = \<lparr>dc_anonymous = ''1000uosmo'', dc_signed = '''', dc_max_per_address_per_day = ''5000uosmo'', dc_memo = ''''\<rparr>,
     cc_distributors = 2, cc_batch_window = '''', cc_max_recipients_per_batch = 0, cc_max_queue_depth = 0,
     cc_refill_threshold = '''', cc_refill_interval = '''', cc_ibc = \<lparr>ibc_timeout = '''', ibc_drips = []\<rparr>\<rparr>"

definition sample_config :: "string \<Rightarrow> chains_config" where
  "sample_config difficulty = \<lparr>cfg_abuse = sample_abuse difficulty, cfg_allowed_cidrs = [],
     cfg_registry = \<lparr>rc_base_url = '''', rc_refresh_interval = ''''\<rparr>, cfg_chains = [sample_chain]\<rparr>"

definition sample_duration :: parse_duration where
  "sample_duration s = (if s = ''10m'' then Some (600 * sec) else None)"

subsection \<open>What validation establishes\<close>

lemma ParseCoin_empty: "ParseCoin '''' = Err CoinNoAmountDenom"
  by code_simp

lemma validateAbuseConfig_iff: "validateAbuseConfig c = Ok () \<longleftrightarrow> abuse_ok c"
  by (auto simp: validateAbuseConfig_def abuse_ok_def validPoWDifficulties_def validPredicates_def all_digits_def Let_def ParseCoin_empty is_ok_iff
      split: if_splits sum.splits)

lemma validateDripBlock_iff:
  "validateDripBlock c = Ok () \<longleftrightarrow>
     (if dc_anonymous (cc_drip c) = ''''
      then dc_signed (cc_drip c) = '''' \<and> dc_max_per_address_per_day (cc_drip c) = '''' \<and> dc_memo (cc_drip c) = ''''
      else is_ok (ParseCoin (dc_anonymous (cc_drip c))) \<and> is_ok (ParseCoin (dc_max_per_address_per_day (cc_drip c))))"
  by (auto simp: validateDripBlock_def Let_def ParseCoin_empty is_ok_iff split: if_splits sum.splits)

lemma validate_ibc_drips_iff:
  "validate_ibc_drips j ds = Ok () \<longleftrightarrow>
   list_all (\<lambda>d. is_ok (ParseCoin (idc_anonymous d)) \<and> is_ok (ParseCoin (idc_max_per_address_per_day d))) ds"
  by (induction j ds rule: validate_ibc_drips.induct) (auto simp: ParseCoin_empty is_ok_iff split: if_splits sum.splits)

lemma validateConcurrencyFields_iff:
  "validateConcurrencyFields pd c = Ok () \<longleftrightarrow> counts_ok c \<and>
     (cc_batch_window c = '''' \<or> duration_at pd 0 (cc_batch_window c)) \<and> (cc_refill_interval c = '''' \<or> duration_at pd 1 (cc_refill_interval c))"
proof -
  have b: "(\<exists>x. BatchWindowDuration pd c = Inr x) \<longleftrightarrow> cc_batch_window c = '''' \<or> duration_at pd 0 (cc_batch_window c)"
    by (auto simp: BatchWindowDuration_def duration_at_def split: option.splits)
  have r: "(\<exists>x. RefillIntervalOrDefault pd c = Inr x) \<longleftrightarrow> cc_refill_interval c = '''' \<or> duration_at pd 1 (cc_refill_interval c)"
    by (auto simp: RefillIntervalOrDefault_def duration_at_def split: option.splits)
  show ?thesis
    using b r by (auto simp: validateConcurrencyFields_def counts_ok_def rbind_Ok_iff is_ok_iff split: if_splits sum.splits)
qed

lemma validateStandalone_iff: "validateStandalone c = Ok () \<longleftrightarrow> standalone_ok c"
  by (auto simp: validateStandalone_def standalone_ok_def has_endpoint_def Let_def split: option.splits)

lemma validateChain_iff: "validateChain pd i c = Ok () \<longleftrightarrow> chain_ok pd c"
proof -
  have "positive_duration pd e s = Ok () \<longleftrightarrow> duration_at pd 1 s" for e s
    by (auto simp: positive_duration_def duration_at_def split: option.splits)
  then show ?thesis
    by (auto simp: validateChain_def chain_ok_def durations_ok_def drip_parses_def rbind_Ok_iff validateConcurrencyFields_iff validateStandalone_iff
        validateDripBlock_iff validateIBCDripEntries_def validate_ibc_drips_iff IsEnabled_def split: option.splits if_splits)
qed

lemma validate_chains_iff:
  "validate_chains pd i cs = Ok cs' \<longleftrightarrow> cs' = map (\<lambda>c. c\<lparr>cc_ibc := setIBCDefaults (cc_ibc c)\<rparr>) cs \<and> list_all (chain_ok pd) cs'"
  by (induction pd i cs arbitrary: cs' rule: validate_chains.induct) (auto simp: Let_def rbind_Ok_iff validateChain_iff)

lemma validate_sources_iff:
  "validate_sources ids only self j ds = Ok () \<longleftrightarrow>
   list_all (\<lambda>d. idc_source_chain_id d \<noteq> '''' \<and> idc_source_chain_id d \<noteq> self \<and> idc_source_chain_id d \<in> set ids \<and> idc_source_chain_id d \<notin> set only) ds"
  by (induction ids only self j ds rule: validate_sources.induct) (auto simp: Let_def)

lemma validate_all_sources_iff:
  "validate_all_sources ids only cs = Ok () \<longleftrightarrow> list_all (\<lambda>c. validate_sources ids only (cc_chain_id c) 0 (ibc_drips (cc_ibc c)) = Ok ()) cs"
  by (induction ids only cs rule: validate_all_sources.induct) (auto simp: rbind_Ok_iff)

lemma validateIBCSources_iff: "validateIBCSources chs = Ok () \<longleftrightarrow> list_all (sources_ok chs) chs"
proof -
  have "src \<notin> set (map cc_chain_id (filter ibc_only_dest chs)) \<longleftrightarrow>
      list_all (\<lambda>c. cc_chain_id c = src \<and> cc_standalone c \<longrightarrow> has_endpoint c \<or> dc_anonymous (cc_drip c) \<noteq> '''') chs" for src
    by (auto simp: list_all_iff ibc_only_dest_def has_endpoint_def)
  then show ?thesis by (simp add: validateIBCSources_def validate_all_sources_iff validate_sources_iff sources_ok_def[abs_def])
qed

lemma validate_cidrs_iff: "validate_cidrs parseCIDR ss = Ok () \<longleftrightarrow> list_all parseCIDR ss"
  by (induction parseCIDR ss rule: validate_cidrs.induct) auto

lemma defaults: "with_defaults cfg = cfg\<lparr>cfg_abuse := setAbuseDefaults (cfg_abuse cfg),
    cfg_chains := map (\<lambda>c. c\<lparr>cc_ibc := setIBCDefaults (cc_ibc c)\<rparr>) (cfg_chains cfg)\<rparr>"
proof -
  have i: "(cc_ibc c)\<lparr>ibc_timeout := or_default ''10m'' (ibc_timeout (cc_ibc c))\<rparr> = setIBCDefaults (cc_ibc c)" for c
    by (simp add: or_default_def setIBCDefaults_def)
  have a: "(cfg_abuse cfg)
      \<lparr>ac_pow := (ac_pow (cfg_abuse cfg))\<lparr>apc_difficulty := or_default ''medium'' (apc_difficulty (ac_pow (cfg_abuse cfg)))\<rparr>,
       ac_signature_challenge := (ac_signature_challenge (cfg_abuse cfg))
         \<lparr>asc_require_predicate := or_default ''none'' (asc_require_predicate (ac_signature_challenge (cfg_abuse cfg)))\<rparr>\<rparr> = setAbuseDefaults (cfg_abuse cfg)"
    by (simp add: or_default_def setAbuseDefaults_def defaultPredicate_def Let_def)
  show ?thesis unfolding with_defaults_def i a ..
qed

lemma durations_resolve:
  assumes "durations_ok pd c"
  shows "is_ok (BatchWindowDuration pd c)" "is_ok (RefillIntervalOrDefault pd c)" "\<exists>t. pd (ibc_timeout (cc_ibc c)) = Some t \<and> 0 < t"
proof -
  show "is_ok (BatchWindowDuration pd c)"
    using assms by (cases "pd (cc_batch_window c)") (auto simp: durations_ok_def duration_at_def BatchWindowDuration_def)
  show "is_ok (RefillIntervalOrDefault pd c)"
    using assms by (cases "pd (cc_refill_interval c)") (auto simp: durations_ok_def duration_at_def RefillIntervalOrDefault_def)
  show "\<exists>t. pd (ibc_timeout (cc_ibc c)) = Some t \<and> 0 < t"
    using assms by (cases "pd (ibc_timeout (cc_ibc c))") (auto simp: durations_ok_def duration_at_def)
qed



text \<open>A difficulty that loads may still be refused. Validation accepts any string of digits, \<^verbatim>\<open>ParseDifficulty\<close> only positive 64-bit
  numbers: a configuration with difficulty \<^verbatim>\<open>0\<close> (or one beyond 64 bits) loads and then fails every challenge request.\<close>

theorem difficulty_gap:
  assumes "all_digits d" "int (digits_val d) = 0 \<or> max_int64 < int (digits_val d)"
    and "apc_difficulty (ac_pow c) = d" "asc_require_predicate (ac_signature_challenge c) = ''none''"
  shows "validateAbuseConfig c = Ok () \<and> ParseDifficulty d = None"
proof
  show "validateAbuseConfig c = Ok ()"
    using assms by (auto simp: validateAbuseConfig_def validPredicates_def all_digits_def Let_def)
  have "\<not> all_digits ''easy''" "\<not> all_digits ''medium''" "\<not> all_digits ''hard''"
    by (simp_all add: all_digits_def is_digit_def code_of_def)
  then have "d \<noteq> ''easy''" "d \<noteq> ''medium''" "d \<noteq> ''hard''" using assms(1) by auto
  then show "ParseDifficulty d = None"
    using assms(1,2) by (auto simp: ParseDifficulty_def parse_int64_def set_string_digits in_int64_def)
qed

end
