(* ===== verification/Gate.thy ===== *)
theory Gate
  imports Ratelimit Nonce Signed Apikey Config
begin

text \<open>
  \<^verbatim>\<open>internal/abuse/gate.go\<close>: the admission gate, which composes the rate limiter, the API keys, the nonces, the signature
  check and the proof-of-work check. The state is the limiter table, the nonce store and the key table; every
  operation is the one of its component. \<^verbatim>\<open>gate_env\<close> holds what is constant during one call: the configuration, the
  clocks, the database faults and the third-party functions (Altcha's check is \<^verbatim>\<open>ge_pow_verify\<close>).

  The lemmas show that a call is a sequence of limiter operations, so that the limits of the limiter bound what the
  gate admits, whichever mechanism does it.
\<close>

datatype mechanism = MechanismAPIKey | MechanismSigned | MechanismPoW | MechanismAnonymous

record decision =
  dec_mechanism :: mechanism
  dec_drip_coin :: coin
  dec_api_key_id :: string
  dec_signer_address :: string

record chain_context =
  cx_chain_id :: string
  cx_key_algo :: string
  cx_drip_anonymous :: coin
  cx_drip_signed :: coin
  cx_max_per_day :: coin

record pow_credential =
  pwc_challenge :: string
  pwc_solution :: string

record sig_credential =
  sc_nonce :: string
  sc_address :: string
  sc_pubkey :: string
  sc_signature :: string

record pour_request =
  pr_chain_id :: string
  pr_address :: string
  pr_denom :: string
  pr_pow :: "pow_credential option"
  pr_signature :: "sig_credential option"

record http_request =
  hr_remote_addr :: string
  hr_authorization :: string

datatype gate_error =
    ErrUnauthenticated | ErrForbidden | ErrPoWRequired | ErrBadPoW | ErrNonceRequired | ErrBadNonce | ErrBadSignature
  | GatePredicateFailed predicate_error
  | GateVerifySig verify_error | GateVerifyPoW
  | GateLimiter rl_error

record gate_state =
  gs_limits :: rl_table
  gs_nonces :: nonce_store
  gs_keys :: key_table

record gate_env =
  ge_cfg :: abuse_config
  ge_sqlite :: sqlite
  ge_limiter :: limiter
  ge_io_ip :: "db_op \<Rightarrow> bool"
  ge_io_key :: "db_op \<Rightarrow> bool"
  ge_io_address :: "db_op \<Rightarrow> bool"
  ge_now :: int        \<comment> \<open>seconds\<close>
  ge_now_ns :: int     \<comment> \<open>nanoseconds\<close>
  ge_argon :: argon
  ge_auth_query_fails :: bool
  ge_auth_touch_fails :: bool
  ge_crypto :: crypto
  ge_predicates :: predicate_checker
  ge_pow_verify :: "string \<Rightarrow> (unit, bool) result"  \<comment> \<open>\<^verbatim>\<open>altcha.VerifySolutionSafe\<close> with the current key\<close>

text \<open>\<^verbatim>\<open>net.SplitHostPort\<close>: the host, or \<^const>\<open>None\<close> for its errors.\<close>

definition split_host_port :: "string \<Rightarrow> string option" where
  "split_host_port hp =
     (case last_index_of CHR '':'' hp of
        None \<Rightarrow> None
      | Some i \<Rightarrow>
          if hp ! 0 = CHR ''['' then
            (case index_of CHR '']'' hp of
               None \<Rightarrow> None
             | Some e \<Rightarrow>
                 if e + 1 = i \<and> CHR ''['' \<notin> set (drop 1 hp) \<and> CHR '']'' \<notin> set (drop (e + 1) hp)
                 then Some (take (e - 1) (drop 1 hp)) else None)
          else
            let host = take i hp
            in if CHR '':'' \<in> set host \<or> CHR ''['' \<in> set hp \<or> CHR '']'' \<in> set hp then None else Some host)"

definition extractIP :: "string \<Rightarrow> string" where
  "extractIP remoteAddr = (case split_host_port remoteAddr of None \<Rightarrow> remoteAddr | Some host \<Rightarrow> host)"

text \<open>The three limiter calls of the gate, on its state.\<close>

definition gate_check_ip :: "gate_env \<Rightarrow> string \<Rightarrow> string \<Rightarrow> gate_state \<Rightarrow> (gate_error, unit) result \<times> gate_state" where
  "gate_check_ip e ip chainID st =
     (let (r, tbl) = Check (ge_io_ip e) (ge_limiter e) ip chainID (ge_now e) (ge_now_ns e) (gs_limits st)
      in (case r of Inl x \<Rightarrow> Err (GateLimiter x) | Inr _ \<Rightarrow> Ok (), st\<lparr>gs_limits := tbl\<rparr>))"

definition gate_check_key :: "gate_env \<Rightarrow> api_key \<Rightarrow> string \<Rightarrow> gate_state \<Rightarrow> (gate_error, unit) result \<times> gate_state" where
  "gate_check_key e key chainID st =
     (let (r, tbl) = CheckAPIKey (ge_io_key e) (ge_limiter e) (key_id key) chainID (key_rate_limit_per_hour key)
                       (ge_now e) (ge_now_ns e) (gs_limits st)
      in (case r of Inl x \<Rightarrow> Err (GateLimiter x) | Inr _ \<Rightarrow> Ok (), st\<lparr>gs_limits := tbl\<rparr>))"

definition gate_check_address :: "gate_env \<Rightarrow> string \<Rightarrow> chain_context \<Rightarrow> coin \<Rightarrow> gate_state \<Rightarrow> (gate_error, unit) result \<times> gate_state" where
  "gate_check_address e addr cx dripCoin st =
     (let (r, tbl) = CheckAddress (ge_sqlite e) (ge_io_address e) addr (cx_key_algo cx) (cx_chain_id cx) dripCoin (cx_max_per_day cx)
                       (ge_now e) (ge_now_ns e) (gs_limits st)
      in (case r of Inl x \<Rightarrow> Err (GateLimiter x) | Inr _ \<Rightarrow> Ok (), st\<lparr>gs_limits := tbl\<rparr>))"

text \<open>The tail every mechanism shares: charge the address, then decide.\<close>

definition charge_and_decide ::
    "gate_env \<Rightarrow> pour_request \<Rightarrow> chain_context \<Rightarrow> decision \<Rightarrow> gate_state \<Rightarrow> (gate_error, decision) result \<times> gate_state" where
  "charge_and_decide e req cx d st =
     (let (r, st') = gate_check_address e (pr_address req) cx (dec_drip_coin d) st
      in (rbind r (\<lambda>_. Ok d), st'))"

definition key_drip :: "api_key \<Rightarrow> chain_context \<Rightarrow> coin" where
  "key_drip key cx =
     (let dripStr = DripsForChain key (cx_chain_id cx)
      in if dripStr \<noteq> '''' then (case ParseCoin dripStr of Inr parsed \<Rightarrow> parsed | Inl _ \<Rightarrow> cx_drip_anonymous cx)
         else cx_drip_anonymous cx)"

definition admitAPIKey ::
    "gate_env \<Rightarrow> pour_request \<Rightarrow> chain_context \<Rightarrow> string \<Rightarrow> gate_state \<Rightarrow> (gate_error, decision) result \<times> gate_state" where
  "admitAPIKey e req cx bearer st0 =
     (let (r, keys) = Authenticate (ge_argon e) (ge_auth_query_fails e) (ge_auth_touch_fails e) (ge_now e) bearer (gs_keys st0);
          st = st0\<lparr>gs_keys := keys\<rparr>
      in case r of
           Inl _ \<Rightarrow> (Err ErrUnauthenticated, st)
         | Inr key \<Rightarrow>
             if \<not> InScope key (cx_chain_id cx) then (Err ErrForbidden, st)
             else
               let (rk, st1) = gate_check_key e key (cx_chain_id cx) st
               in case rk of
                    Inl x \<Rightarrow> (Err x, st1)
                  | Inr _ \<Rightarrow>
                      charge_and_decide e req cx
                        \<lparr>dec_mechanism = MechanismAPIKey, dec_drip_coin = key_drip key cx, dec_api_key_id = key_id key,
                         dec_signer_address = ''''\<rparr> st1)"

definition signed_drip :: "chain_context \<Rightarrow> coin" where
  "signed_drip cx = (if coin_amount (cx_drip_signed cx) = '''' then cx_drip_anonymous cx else cx_drip_signed cx)"

definition predicate_chain :: "gate_env \<Rightarrow> chain_context \<Rightarrow> string" where
  "predicate_chain e cx =
     (let p = asc_predicate_chain_id (ac_signature_challenge (ge_cfg e)) in if p = '''' then cx_chain_id cx else p)"

definition admitSigned ::
    "gate_env \<Rightarrow> pour_request \<Rightarrow> sig_credential \<Rightarrow> chain_context \<Rightarrow> gate_state \<Rightarrow> (gate_error, decision) result \<times> gate_state" where
  "admitSigned e req sg cx st0 =
     (if sc_nonce sg = '''' then (Err ErrNonceRequired, st0)
      else
        let (live, ns) = Consume (ge_now_ns e) (sc_nonce sg) (gs_nonces st0); st = st0\<lparr>gs_nonces := ns\<rparr>
        in if \<not> live then (Err ErrBadNonce, st)
           else case Verify (ge_crypto e) (sc_address sg) (sc_pubkey sg) (sc_signature sg) (sc_nonce sg) of
                  Inl x \<Rightarrow> (Err (GateVerifySig x), st)
                | Inr ok \<Rightarrow>
                    if \<not> ok then (Err ErrBadSignature, st)
                    else case Predicate_Check (ge_predicates e) (asc_require_predicate (ac_signature_challenge (ge_cfg e)))
                                (predicate_chain e cx) (sc_address sg)
                                (asc_predicate_min_amount (ac_signature_challenge (ge_cfg e))) of
                           Inl x \<Rightarrow> (Err (GatePredicateFailed x), st)
                         | Inr _ \<Rightarrow>
                             charge_and_decide e req cx
                               \<lparr>dec_mechanism = MechanismSigned, dec_drip_coin = signed_drip cx, dec_api_key_id = '''',
                                dec_signer_address = sc_address sg\<rparr> st)"

definition admitPoW ::
    "gate_env \<Rightarrow> pour_request \<Rightarrow> chain_context \<Rightarrow> gate_state \<Rightarrow> (gate_error, decision) result \<times> gate_state" where
  "admitPoW e req cx st =
     (case pr_pow req of
        None \<Rightarrow> (Err ErrPoWRequired, st)
      | Some p \<Rightarrow>
          (case ge_pow_verify e (pwc_solution p) of
             Inl _ \<Rightarrow> (Err GateVerifyPoW, st)
           | Inr ok \<Rightarrow>
               if \<not> ok then (Err ErrBadPoW, st)
               else charge_and_decide e req cx
                      \<lparr>dec_mechanism = MechanismPoW, dec_drip_coin = cx_drip_anonymous cx, dec_api_key_id = '''',
                       dec_signer_address = ''''\<rparr> st))"

definition admitAnonymous ::
    "gate_env \<Rightarrow> pour_request \<Rightarrow> chain_context \<Rightarrow> gate_state \<Rightarrow> (gate_error, decision) result \<times> gate_state" where
  "admitAnonymous e req cx st =
     charge_and_decide e req cx
       \<lparr>dec_mechanism = MechanismAnonymous, dec_drip_coin = cx_drip_anonymous cx, dec_api_key_id = '''',
        dec_signer_address = ''''\<rparr> st"

definition Admit ::
    "gate_env \<Rightarrow> http_request \<Rightarrow> pour_request \<Rightarrow> chain_context \<Rightarrow> gate_state \<Rightarrow> (gate_error, decision) result \<times> gate_state" where
  "Admit e r req cx st0 =
     (let (ri, st) = gate_check_ip e (extractIP (hr_remote_addr r)) (cx_chain_id cx) st0
      in case ri of
           Inl x \<Rightarrow> (Err x, st)
         | Inr _ \<Rightarrow>
             (case (ParseBearer (hr_authorization r), ac_api_keys_enabled (ge_cfg e)) of
                (Some bearer, True) \<Rightarrow> admitAPIKey e req cx bearer st
              | _ \<Rightarrow>
                  (case (pr_signature req, asc_enabled (ac_signature_challenge (ge_cfg e))) of
                     (Some sg, True) \<Rightarrow> admitSigned e req sg cx st
                   | _ \<Rightarrow>
                       if apc_enabled (ac_pow (ge_cfg e)) then admitPoW e req cx st
                       else admitAnonymous e req cx st)))"

text \<open>Calls of the gate as operations of a trace, and what a call grants to an address bucket.\<close>

datatype gate_call = GateCall gate_env http_request pour_request chain_context

fun gate_step :: "gate_call \<Rightarrow> gate_state \<Rightarrow> gate_state" where
  "gate_step (GateCall e r req cx) st = snd (Admit e r req cx st)"

fun gate_clock :: "gate_call \<Rightarrow> int" where
  "gate_clock (GateCall e r req cx) = ge_now e"

definition address_op :: "gate_env \<Rightarrow> pour_request \<Rightarrow> chain_context \<Rightarrow> coin \<Rightarrow> rl_op" where
  "address_op e req cx drip =
     OpAddress (ge_io_address e) (pr_address req) (cx_key_algo cx) (cx_chain_id cx) drip (cx_max_per_day cx) (ge_now e) (ge_now_ns e)"

fun gate_grant :: "rl_bucket \<Rightarrow> gate_call \<Rightarrow> gate_state \<Rightarrow> int" where
  "gate_grant b (GateCall e r req cx) st =
     (case fst (Admit e r req cx st) of
        Inl _ \<Rightarrow> 0
      | Inr d \<Rightarrow> if op_bucket (address_op e req cx (dec_drip_coin d)) = Some b
                 then int (digits_val (coin_amount (dec_drip_coin d))) else 0)"

text \<open>Calls a loaded configuration gives: digit amounts, a daily maximum of at most \<^verbatim>\<open>cap\<close> that fits 64 bits.\<close>

fun gate_valid :: "int \<Rightarrow> gate_call \<Rightarrow> bool" where
  "gate_valid cap (GateCall e r req cx) \<longleftrightarrow>
     sqlite_laws (ge_sqlite e) \<and> all_digits (coin_amount (cx_drip_anonymous cx)) \<and>
     (coin_amount (cx_drip_signed cx) = '''' \<or> all_digits (coin_amount (cx_drip_signed cx))) \<and>
     (case set_string (coin_amount (cx_max_per_day cx)) of Some m \<Rightarrow> m \<le> cap \<and> m \<le> max_int64 | None \<Rightarrow> True)"

definition gate_inv :: "gate_state \<Rightarrow> bool" where
  "gate_inv st \<longleftrightarrow> rl_inv (gs_limits st)"

fun no_address :: "rl_op \<Rightarrow> bool" where
  "no_address (OpAddress io a algo c drip mx now nowNs) \<longleftrightarrow> False"
| "no_address _ \<longleftrightarrow> True"

abbreviation gate_rl :: "gate_env \<Rightarrow> rl_op \<Rightarrow> rl_table \<Rightarrow> rl_table" where
  "gate_rl e \<equiv> rl_step (ge_sqlite e) (ge_limiter e)"

text \<open>The shape of a call: operations that are no address charge, then, exactly when it is admitted, the charge.\<close>

definition charged :: "gate_env \<Rightarrow> pour_request \<Rightarrow> chain_context \<Rightarrow> (gate_error, decision) result \<times> gate_state \<Rightarrow> rl_table \<Rightarrow> bool" where
  "charged e req cx res tbl \<longleftrightarrow>
     (\<exists>pre. list_all (\<lambda>op. no_address op \<and> op_clock op = ge_now e) pre \<and>
        (case fst res of
           Inl _ \<Rightarrow> gs_limits (snd res) = fold (gate_rl e) pre tbl
         | Inr d \<Rightarrow> gs_limits (snd res) = gate_rl e (address_op e req cx (dec_drip_coin d)) (fold (gate_rl e) pre tbl) \<and>
             is_ok (fst (rl_exec (ge_sqlite e) (ge_limiter e) (address_op e req cx (dec_drip_coin d)) (fold (gate_rl e) pre tbl)))))"

definition sample_env :: "bool \<Rightarrow> int \<Rightarrow> gate_env" where
  "sample_env pow now =
     \<lparr>ge_cfg = setAbuseDefaults (sample_abuse ''easy'')\<lparr>ac_pow := \<lparr>apc_enabled = pow, apc_difficulty = ''easy''\<rparr>\<rparr>,
      ge_sqlite = sqlite_doc, ge_limiter = New_limiter 10 (3600 * second), ge_io_ip = (\<lambda>_. False), ge_io_key = (\<lambda>_. False),
      ge_io_address = (\<lambda>_. False), ge_now = now, ge_now_ns = now * second, ge_argon = sample_argon, ge_auth_query_fails = False,
      ge_auth_touch_fails = False, ge_crypto = crypto_accepting [1, 2], ge_predicates = NewPredicateChecker Map.empty Map.empty,
      ge_pow_verify = (\<lambda>s. Ok (s = ''solved''))\<rparr>"

definition sample_http :: http_request where
  "sample_http = \<lparr>hr_remote_addr = ''1.2.3.4:5'', hr_authorization = ''''\<rparr>"

definition sample_request :: pour_request where
  "sample_request = \<lparr>pr_chain_id = ''osmosis-1'', pr_address = ''a1qypqvrg2cf'', pr_denom = '''', pr_pow = None, pr_signature = None\<rparr>"

definition sample_sig :: sig_credential where
  "sample_sig = \<lparr>sc_nonce = ''ff'', sc_address = ''a1qypqvrg2cf'', sc_pubkey = b64_encode StdEncoding (replicate 33 2),
     sc_signature = b64_encode StdEncoding (replicate 64 1)\<rparr>"

definition sample_context :: chain_context where
  "sample_context = \<lparr>cx_chain_id = ''osmosis-1'', cx_key_algo = ''secp256k1'',
     cx_drip_anonymous = \<lparr>coin_denom = ''uosmo'', coin_amount = ''7''\<rparr>, cx_drip_signed = \<lparr>coin_denom = '''', coin_amount = ''''\<rparr>,
     cx_max_per_day = \<lparr>coin_denom = ''uosmo'', coin_amount = ''10''\<rparr>\<rparr>"

definition sample_state :: gate_state where
  "sample_state = \<lparr>gs_limits = [], gs_nonces = snd (Issue (Some [255]) 0 0 (NewNonceStore (300 * second))), gs_keys = []\<rparr>"

text \<open>The priority rule of the gate, as a specification.\<close>

definition chosen_mechanism :: "abuse_config \<Rightarrow> http_request \<Rightarrow> pour_request \<Rightarrow> mechanism" where
  "chosen_mechanism cfg r req =
     (if ParseBearer (hr_authorization r) \<noteq> None \<and> ac_api_keys_enabled cfg then MechanismAPIKey
      else if pr_signature req \<noteq> None \<and> asc_enabled (ac_signature_challenge cfg) then MechanismSigned
      else if apc_enabled (ac_pow cfg) then MechanismPoW else MechanismAnonymous)"

definition credential_ok :: "gate_env \<Rightarrow> http_request \<Rightarrow> pour_request \<Rightarrow> chain_context \<Rightarrow> gate_state \<Rightarrow> decision \<Rightarrow> bool" where
  "credential_ok e r req cx st d \<longleftrightarrow>
     (case dec_mechanism d of
        MechanismAPIKey \<Rightarrow>
          (\<exists>bearer key. ParseBearer (hr_authorization r) = Some bearer \<and>
             fst (Authenticate (ge_argon e) (ge_auth_query_fails e) (ge_auth_touch_fails e) (ge_now e) bearer (gs_keys st)) = Ok key \<and>
             InScope key (cx_chain_id cx) \<and> dec_api_key_id d = key_id key \<and> dec_drip_coin d = key_drip key cx)
      | MechanismSigned \<Rightarrow>
          (\<exists>sg. pr_signature req = Some sg \<and> fst (Consume (ge_now_ns e) (sc_nonce sg) (gs_nonces st)) \<and>
             Verify (ge_crypto e) (sc_address sg) (sc_pubkey sg) (sc_signature sg) (sc_nonce sg) = Ok True \<and>
             Predicate_Check (ge_predicates e) (asc_require_predicate (ac_signature_challenge (ge_cfg e))) (predicate_chain e cx)
               (sc_address sg) (asc_predicate_min_amount (ac_signature_challenge (ge_cfg e))) = Ok () \<and>
             dec_signer_address d = sc_address sg \<and> dec_drip_coin d = signed_drip cx)
      | MechanismPoW \<Rightarrow>
          (\<exists>p. pr_pow req = Some p \<and> ge_pow_verify e (pwc_solution p) = Ok True) \<and> dec_drip_coin d = cx_drip_anonymous cx
      | MechanismAnonymous \<Rightarrow> dec_drip_coin d = cx_drip_anonymous cx)"

subsection \<open>A gate call is a sequence of limiter operations\<close>

lemma gate_check_ip_step:
  "gs_limits (snd (gate_check_ip e ip c st)) = gate_rl e (OpCheck (ge_io_ip e) ip c (ge_now e) (ge_now_ns e)) (gs_limits st)"
  by (auto simp: gate_check_ip_def rl_step_def Let_def split: prod.splits)

lemma gate_check_key_step:
  "gs_limits (snd (gate_check_key e k c st)) =
   gate_rl e (OpAPIKey (ge_io_key e) (key_id k) c (key_rate_limit_per_hour k) (ge_now e) (ge_now_ns e)) (gs_limits st)"
  by (auto simp: gate_check_key_def rl_step_def Let_def split: prod.splits)

lemma charge_Ok:
  assumes "fst (charge_and_decide e req cx d st) = Ok d'"
  shows "d' = d" "is_ok (fst (rl_exec (ge_sqlite e) (ge_limiter e) (address_op e req cx (dec_drip_coin d)) (gs_limits st)))"
    "gs_limits (snd (charge_and_decide e req cx d st)) = gate_rl e (address_op e req cx (dec_drip_coin d)) (gs_limits st)"
  using assms
  by (auto simp: charge_and_decide_def gate_check_address_def address_op_def rl_step_def Let_def split: prod.splits sum.splits)

lemma charge_Err:
  assumes "fst (charge_and_decide e req cx d st) = Err x"
  shows "gs_limits (snd (charge_and_decide e req cx d st)) = gs_limits st"
  using assms CheckAddress_not_ok[of "ge_sqlite e" "ge_io_address e" "pr_address req" "cx_key_algo cx" "cx_chain_id cx"
      "dec_drip_coin d" "cx_max_per_day cx" "ge_now e" "ge_now_ns e" "gs_limits st"]
  by (auto simp: charge_and_decide_def gate_check_address_def Let_def split: prod.splits sum.splits)

lemma charged_charge: "gs_limits st = tbl \<Longrightarrow> charged e req cx (charge_and_decide e req cx d st) tbl"
  unfolding charged_def
  by (rule exI[of _ "[]"]) (auto dest: charge_Ok charge_Err split: sum.splits)

lemma charged_error: "gs_limits st = tbl \<Longrightarrow> charged e req cx (Err x, st) tbl"
  unfolding charged_def by (rule exI[of _ "[]"]) simp

lemma charged_prepend:
  assumes "charged e req cx res (gate_rl e op tbl)" "no_address op" "op_clock op = ge_now e"
  shows "charged e req cx res tbl"
proof -
  obtain pre where "list_all (\<lambda>op. no_address op \<and> op_clock op = ge_now e) pre"
    "case fst res of Inl _ \<Rightarrow> gs_limits (snd res) = fold (gate_rl e) pre (gate_rl e op tbl)
       | Inr d \<Rightarrow> gs_limits (snd res) = gate_rl e (address_op e req cx (dec_drip_coin d)) (fold (gate_rl e) pre (gate_rl e op tbl)) \<and>
           is_ok (fst (rl_exec (ge_sqlite e) (ge_limiter e) (address_op e req cx (dec_drip_coin d)) (fold (gate_rl e) pre (gate_rl e op tbl))))"
    using assms(1) unfolding charged_def by blast
  then show ?thesis unfolding charged_def using assms(2,3) by (intro exI[of _ "op # pre"]) (simp split: sum.splits)
qed

lemma charged_APIKey: "charged e req cx (admitAPIKey e req cx bearer st) (gs_limits st)"
proof -
  obtain r keys where a: "Authenticate (ge_argon e) (ge_auth_query_fails e) (ge_auth_touch_fails e) (ge_now e) bearer (gs_keys st) = (r, keys)"
    by fastforce
  let ?st = "st\<lparr>gs_keys := keys\<rparr>"
  show ?thesis
  proof (cases r)
    case (Inr key)
    obtain rk st1 where k: "gate_check_key e key (cx_chain_id cx) ?st = (rk, st1)" by fastforce
    let ?op = "OpAPIKey (ge_io_key e) (key_id key) (cx_chain_id cx) (key_rate_limit_per_hour key) (ge_now e) (ge_now_ns e)"
    have l: "gs_limits st1 = gate_rl e ?op (gs_limits st)"
      using gate_check_key_step[of e key "cx_chain_id cx" ?st] k by simp
    have "charged e req cx (admitAPIKey e req cx bearer st) (gate_rl e ?op (gs_limits st))" if "InScope key (cx_chain_id cx)"
      using that a k Inr l by (auto simp: admitAPIKey_def intro: charged_error charged_charge split: sum.splits)
    then show ?thesis
      using charged_prepend[of e req cx _ ?op "gs_limits st"] a Inr
      by (cases "InScope key (cx_chain_id cx)") (auto simp: admitAPIKey_def charged_error)
  qed (simp add: admitAPIKey_def a charged_error)
qed

lemma charged_Signed: "charged e req cx (admitSigned e req sg cx st) (gs_limits st)"
  by (auto simp: admitSigned_def Let_def intro!: charged_error charged_charge split: prod.splits sum.splits)

lemma charged_PoW: "charged e req cx (admitPoW e req cx st) (gs_limits st)"
  by (auto simp: admitPoW_def intro!: charged_error charged_charge split: option.splits sum.splits)

lemma charged_Anonymous: "charged e req cx (admitAnonymous e req cx st) (gs_limits st)"
  by (simp add: admitAnonymous_def charged_charge)

lemmas charged_mechanisms = charged_APIKey charged_Signed charged_PoW charged_Anonymous

lemma charged_Admit: "charged e req cx (Admit e r req cx st) (gs_limits st)"
proof -
  let ?ip = "extractIP (hr_remote_addr r)"
  let ?op = "OpCheck (ge_io_ip e) ?ip (cx_chain_id cx) (ge_now e) (ge_now_ns e)"
  obtain ri st1 where c: "gate_check_ip e ?ip (cx_chain_id cx) st = (ri, st1)" by fastforce
  have l: "gs_limits st1 = gate_rl e ?op (gs_limits st)" using gate_check_ip_step[of e ?ip "cx_chain_id cx" st] c by simp
  have "charged e req cx (Admit e r req cx st) (gs_limits st1)"
    by (auto simp: Admit_def c charged_mechanisms charged_error split: sum.splits option.splits bool.splits)
  then show ?thesis unfolding l by (rule charged_prepend) simp_all
qed

subsection \<open>The gate keeps the daily cap\<close>

lemma no_address_valid: "no_address op \<Longrightarrow> op_valid op" "no_address op \<Longrightarrow> coin_grant sq l b op tbl = 0"
  by (cases op; simp add: coin_grant_def)+

lemma pre_run:
  assumes "sqlite_laws sq" "rl_inv tbl" "list_all no_address pre" "fst b = ''address''"
  shows "rl_inv (fold (rl_step sq l) pre tbl)" "recorded row_coins b (fold (rl_step sq l) pre tbl) from = recorded row_coins b tbl from"
  using assms(2,3)
proof (induction pre arbitrary: tbl)
  case (Cons op pre)
  {
    case 1
    then show ?case using Cons.IH(1) rl_inv_step[OF assms(1)] no_address_valid by simp
  next
    case 2
    then show ?case using Cons.IH(2) rl_inv_step[OF assms(1)] usage_coins_step[OF assms(1) _ _ assms(4)] no_address_valid by simp
  }
qed simp_all

lemma decision_drip:
  assumes "fst (Admit e r req cx st) = Ok d"
  shows "dec_drip_coin d = cx_drip_anonymous cx \<or> dec_drip_coin d = signed_drip cx \<or> (\<exists>key. dec_drip_coin d = key_drip key cx)"
  using assms
  by (auto simp: Admit_def admitAPIKey_def admitSigned_def admitPoW_def admitAnonymous_def Let_def dest!: charge_Ok(1)
      split: prod.splits sum.splits option.splits bool.splits if_splits)

lemma decision_digits:
  assumes "fst (Admit e r req cx st) = Ok d" "gate_valid cap (GateCall e r req cx)"
  shows "all_digits (coin_amount (dec_drip_coin d))"
proof -
  have "all_digits (coin_amount (key_drip key cx))" for key
    using assms(2) ParseCoin_coin_ok by (auto simp: key_drip_def Let_def coin_ok_def split: sum.splits)
  then show ?thesis using decision_drip[OF assms(1)] assms(2) by (auto simp: signed_drip_def)
qed

lemma Admit_limits:
  assumes inv: "gate_inv st" and valid: "gate_valid cap (GateCall e r req cx)" and b: "fst b = ''address''"
  shows "rl_inv (gs_limits (snd (Admit e r req cx st)))"
    and "recorded row_coins b (gs_limits (snd (Admit e r req cx st))) from =
         recorded row_coins b (gs_limits st) from + (if from \<le> ge_now e then gate_grant b (GateCall e r req cx) st else 0)"
    and "gate_grant b (GateCall e r req cx) st \<noteq> 0 \<Longrightarrow>
         recorded row_coins b (gs_limits st) (ge_now e - addressWindow sdiv second) + gate_grant b (GateCall e r req cx) st \<le> cap"
proof -
  let ?sq = "ge_sqlite e" and ?l = "ge_limiter e" and ?res = "Admit e r req cx st"
  have sq: "sqlite_laws ?sq" using valid by simp
  obtain pre where pre: "list_all no_address pre"
    "case fst ?res of Inl _ \<Rightarrow> gs_limits (snd ?res) = fold (gate_rl e) pre (gs_limits st)
     | Inr d \<Rightarrow> gs_limits (snd ?res) = gate_rl e (address_op e req cx (dec_drip_coin d)) (fold (gate_rl e) pre (gs_limits st)) \<and>
         is_ok (fst (rl_exec ?sq ?l (address_op e req cx (dec_drip_coin d)) (fold (gate_rl e) pre (gs_limits st))))"
    using charged_Admit[of e req cx r st] unfolding charged_def by (auto simp: list_all_iff)
  let ?tbl = "fold (gate_rl e) pre (gs_limits st)"
  note p = pre_run[OF sq inv[unfolded gate_inv_def] pre(1) b]
  have *: "rl_inv (gs_limits (snd ?res)) \<and>
     recorded row_coins b (gs_limits (snd ?res)) from =
         recorded row_coins b (gs_limits st) from + (if from \<le> ge_now e then gate_grant b (GateCall e r req cx) st else 0) \<and>
     (gate_grant b (GateCall e r req cx) st \<noteq> 0 \<longrightarrow>
         recorded row_coins b (gs_limits st) (ge_now e - addressWindow sdiv second) + gate_grant b (GateCall e r req cx) st \<le> cap)"
  proof (cases "fst ?res")
    case (Inl x)
    then show ?thesis using pre(2) p by simp
  next
    case (Inr d)
    let ?op = "address_op e req cx (dec_drip_coin d)"
    have h: "gs_limits (snd ?res) = gate_rl e ?op ?tbl" "is_ok (fst (rl_exec ?sq ?l ?op ?tbl))" using pre(2) Inr by simp_all
    have ov: "op_valid ?op" using decision_digits[OF Inr valid] valid
      by (auto simp: address_op_def split: option.splits)
    have g: "gate_grant b (GateCall e r req cx) st = coin_grant ?sq ?l b ?op ?tbl"
      using Inr h(2) by (simp add: coin_grant_def address_op_def)
    obtain raw m where a: "DecodeAddressBytes (pr_address req) = Ok raw" "set_string (coin_amount (cx_max_per_day cx)) = Some m"
      "recorded row_coins (''address'', scope_value (cx_key_algo cx) raw (coin_denom (dec_drip_coin d)), cx_chain_id cx) ?tbl
         (ge_now e - addressWindow sdiv second) + op_amount ?op \<le> m"
      using address_step_ok[OF sq p(1) ov address_op_def h(2)] by metis
    have "recorded row_coins b (gs_limits st) (ge_now e - addressWindow sdiv second) + coin_grant ?sq ?l b ?op ?tbl \<le> cap"
      if "coin_grant ?sq ?l b ?op ?tbl \<noteq> 0"
      using that a valid p(2) by (auto simp: coin_grant_def address_op_def split: if_splits)
    then show ?thesis
      using h(1) rl_inv_step[OF sq p(1) ov] usage_coins_step[OF sq p(1) ov b] p(2) g by (simp add: address_op_def)
  qed
  show "rl_inv (gs_limits (snd ?res))" using * by blast
  show "recorded row_coins b (gs_limits (snd ?res)) from =
         recorded row_coins b (gs_limits st) from + (if from \<le> ge_now e then gate_grant b (GateCall e r req cx) st else 0)" using * by blast
  show "gate_grant b (GateCall e r req cx) st \<noteq> 0 \<Longrightarrow>
         recorded row_coins b (gs_limits st) (ge_now e - addressWindow sdiv second) + gate_grant b (GateCall e r req cx) st \<le> cap"
    using * by blast
qed

lemma gate_grant_nonneg: "0 \<le> gate_grant b call st"
  by (cases call) (auto split: sum.splits)

interpretation gate_cap: sliding_window gate_step "gate_grant (''address'', sv, c)" gate_clock
    "\<lambda>st. recorded row_coins (''address'', sv, c) (gs_limits st)" gate_inv "gate_valid cap" "addressWindow sdiv second" cap
    for sv c cap
proof (unfold_locales, goal_cases)
  case (1 st call)
  then show ?case using Admit_limits(1)[of st cap _ _ _ _ "(''address'', [], [])"] by (cases call) (simp add: gate_inv_def)
next
  case (2 call st)
  then show ?case by (rule gate_grant_nonneg)
next
  case (3 st call "from")
  then show ?case using Admit_limits(2)[of st cap] by (cases call) (simp del: gate_valid.simps gate_grant.simps)
next
  case (4 st call)
  then show ?case using Admit_limits(3)[of st cap] by (cases call) (simp del: gate_valid.simps gate_grant.simps)
qed

text \<open>The daily cap binds the whole gate. For any sequence of admission calls in clock order, by any mix of API keys, signed
  challenges, proofs of work and anonymous requests, from any number of IPs and with any database failures, the
  drips admitted for one address (by raw bytes), denomination and chain in any 24 hours add up to at most the cap.\<close>

theorem gate_daily_cap:
  assumes "list_all (gate_valid cap) calls" "sorted (map gate_clock calls)" "gs_limits st = []"
  shows "granted_within (t - 86400) t
           (grants gate_step (gate_grant (''address'', scope_value algo raw denom, c)) gate_clock calls st) \<le> max 0 cap"
proof -
  have "addressWindow sdiv second = 86400" by (simp add: addressWindow_def second_def)
  with gate_cap.window_bound[of st "scope_value algo raw denom" c cap calls t] assms
  show ?thesis by (simp add: gate_inv_def rl_inv_def)
qed

subsection \<open>Which mechanism admits\<close>

lemma gate_check_ip_other [simp]:
  "gs_keys (snd (gate_check_ip e ip c st)) = gs_keys st" "gs_nonces (snd (gate_check_ip e ip c st)) = gs_nonces st"
  by (simp_all add: gate_check_ip_def Let_def split: prod.splits)

lemma admitAPIKey_Ok:
  assumes "fst (admitAPIKey e req cx bearer st) = Ok d"
  obtains key where "fst (Authenticate (ge_argon e) (ge_auth_query_fails e) (ge_auth_touch_fails e) (ge_now e) bearer (gs_keys st)) = Ok key"
    "InScope key (cx_chain_id cx)" "dec_mechanism d = MechanismAPIKey" "dec_api_key_id d = key_id key" "dec_drip_coin d = key_drip key cx"
  using assms by (auto simp: admitAPIKey_def Let_def dest!: charge_Ok(1) split: prod.splits sum.splits if_splits)

lemma admitSigned_Ok:
  assumes "fst (admitSigned e req sg cx st) = Ok d"
  shows "fst (Consume (ge_now_ns e) (sc_nonce sg) (gs_nonces st))"
    "Verify (ge_crypto e) (sc_address sg) (sc_pubkey sg) (sc_signature sg) (sc_nonce sg) = Ok True"
    "Predicate_Check (ge_predicates e) (asc_require_predicate (ac_signature_challenge (ge_cfg e))) (predicate_chain e cx)
       (sc_address sg) (asc_predicate_min_amount (ac_signature_challenge (ge_cfg e))) = Ok ()"
    "dec_mechanism d = MechanismSigned" "dec_signer_address d = sc_address sg" "dec_drip_coin d = signed_drip cx"
  using assms by (auto simp: admitSigned_def Let_def dest!: charge_Ok(1) split: prod.splits sum.splits if_splits)

lemma admitPoW_Ok:
  assumes "fst (admitPoW e req cx st) = Ok d"
  shows "\<exists>p. pr_pow req = Some p \<and> ge_pow_verify e (pwc_solution p) = Ok True"
    "dec_mechanism d = MechanismPoW" "dec_drip_coin d = cx_drip_anonymous cx"
  using assms by (auto simp: admitPoW_def dest!: charge_Ok(1) split: option.splits sum.splits if_splits)

lemma admitAnonymous_Ok:
  assumes "fst (admitAnonymous e req cx st) = Ok d"
  shows "dec_mechanism d = MechanismAnonymous" "dec_drip_coin d = cx_drip_anonymous cx"
  using assms by (auto simp: admitAnonymous_def dest!: charge_Ok(1))

lemma Admit_evidence:
  assumes "fst (Admit e r req cx st) = Ok d"
  shows "dec_mechanism d = chosen_mechanism (ge_cfg e) r req \<and> credential_ok e r req cx st d"
proof -
  let ?ip = "extractIP (hr_remote_addr r)" and ?cfg = "ge_cfg e"
  obtain ri st1 where c: "gate_check_ip e ?ip (cx_chain_id cx) st = (ri, st1)" by fastforce
  have same: "gs_keys st1 = gs_keys st" "gs_nonces st1 = gs_nonces st"
    using gate_check_ip_other[of e ?ip "cx_chain_id cx" st] c by simp_all
  consider (key) bearer where "ParseBearer (hr_authorization r) = Some bearer" "ac_api_keys_enabled ?cfg"
      "fst (admitAPIKey e req cx bearer st1) = Ok d"
    | (sig) sg where "\<not> (ParseBearer (hr_authorization r) \<noteq> None \<and> ac_api_keys_enabled ?cfg)" "pr_signature req = Some sg"
      "asc_enabled (ac_signature_challenge ?cfg)" "fst (admitSigned e req sg cx st1) = Ok d"
    | (weak) "\<not> (ParseBearer (hr_authorization r) \<noteq> None \<and> ac_api_keys_enabled ?cfg)"
      "\<not> (pr_signature req \<noteq> None \<and> asc_enabled (ac_signature_challenge ?cfg))"
      "fst (if apc_enabled (ac_pow ?cfg) then admitPoW e req cx st1 else admitAnonymous e req cx st1) = Ok d"
    using assms by (auto simp: Admit_def c split: sum.splits option.splits bool.splits)
  then show ?thesis
  proof cases
    case key
    from key(3) show ?thesis by (rule admitAPIKey_Ok) (use key same in \<open>simp add: credential_ok_def chosen_mechanism_def\<close>)
  next
    case sig
    then show ?thesis using admitSigned_Ok[OF sig(4)] same by (auto simp: credential_ok_def chosen_mechanism_def)
  next
    case weak
    then show ?thesis using admitPoW_Ok[of e req cx st1 d] admitAnonymous_Ok[of e req cx st1 d]
      by (auto simp: credential_ok_def chosen_mechanism_def split: if_splits)
  qed
qed

text \<open>C13: The priority rule and its evidence. An admitted request was admitted by the mechanism the priority rule (API key, then signature,
  then proof of work, then anonymous) selects for it, never by a weaker one as a fallback; the credential of that mechanism
  was valid for this request; and the drip is the one that mechanism is configured to give.\<close>

theorem Admit_sound:
  assumes "fst (Admit e r req cx st) = Ok d"
  shows "dec_mechanism d = chosen_mechanism (ge_cfg e) r req \<and> credential_ok e r req cx st d"
  using Admit_evidence[OF assms] .

theorem Admit_sound_witness:
  "\<exists>d. fst (Admit (sample_env True 10) sample_http (sample_request\<lparr>pr_signature := Some sample_sig\<rparr>) sample_context sample_state) = Ok d \<and>
     dec_mechanism d = MechanismSigned \<and>
     credential_ok (sample_env True 10) sample_http (sample_request\<lparr>pr_signature := Some sample_sig\<rparr>) sample_context sample_state d"
proof -
  let ?req = "sample_request\<lparr>pr_signature := Some sample_sig\<rparr>"
  have "is_ok (fst (Admit (sample_env True 10) sample_http ?req sample_context sample_state))" by code_simp
  then obtain d where d: "fst (Admit (sample_env True 10) sample_http ?req sample_context sample_state) = Ok d" by (auto simp: is_ok_iff)
  have "chosen_mechanism (ge_cfg (sample_env True 10)) sample_http ?req = MechanismSigned" by code_simp
  with Admit_sound[OF d] d show ?thesis by auto
qed

subsection \<open>Nonces\<close>

lemma charge_other [simp]:
  "gs_nonces (snd (charge_and_decide e req cx d st)) = gs_nonces st" "gs_keys (snd (charge_and_decide e req cx d st)) = gs_keys st"
  by (simp_all add: charge_and_decide_def gate_check_address_def Let_def split: prod.splits)

lemma gate_check_key_other [simp]: "gs_nonces (snd (gate_check_key e k c st)) = gs_nonces st"
  by (simp add: gate_check_key_def Let_def split: prod.splits)

lemma Admit_nonces:
  "gs_nonces (snd (Admit e r req cx st)) = gs_nonces st \<or>
   (\<exists>sg. pr_signature req = Some sg \<and> gs_nonces (snd (Admit e r req cx st)) = snd (Consume (ge_now_ns e) (sc_nonce sg) (gs_nonces st)))"
proof -
  obtain ri st1 where c: "gate_check_ip e (extractIP (hr_remote_addr r)) (cx_chain_id cx) st = (ri, st1)" by fastforce
  have n: "gs_nonces st1 = gs_nonces st" using gate_check_ip_other(2)[of e "extractIP (hr_remote_addr r)" "cx_chain_id cx" st] c by simp
  have "gs_nonces (snd (admitAPIKey e req cx bearer st1)) = gs_nonces st" for bearer
  proof -
    have "gs_nonces st' = gs_nonces s" if "gate_check_key e k c s = (x, st')" for e k c s x st'
      using gate_check_key_other[of e k c s] that by simp
    then show ?thesis using n by (auto simp: admitAPIKey_def Let_def split: prod.splits sum.splits)
  qed
  moreover have "gs_nonces (snd (admitSigned e req sg cx st1)) = gs_nonces st \<or>
      gs_nonces (snd (admitSigned e req sg cx st1)) = snd (Consume (ge_now_ns e) (sc_nonce sg) (gs_nonces st))" for sg
    using n by (auto simp: admitSigned_def Let_def split: prod.splits sum.splits)
  moreover have "gs_nonces (snd (admitPoW e req cx st1)) = gs_nonces st" "gs_nonces (snd (admitAnonymous e req cx st1)) = gs_nonces st"
    using n by (auto simp: admitPoW_def admitAnonymous_def split: option.splits sum.splits)
  ultimately show ?thesis
    using n by (auto simp: Admit_def c split: sum.splits option.splits bool.splits)
qed

lemma nonce_gone_step:
  assumes "ns_nonces (gs_nonces st) n = None"
  shows "ns_nonces (gs_nonces (gate_step call st)) n = None"
proof (cases call)
  case (GateCall e r req cx)
  show ?thesis using Admit_nonces[of e r req cx st] assms GateCall by (auto simp: Consume_def)
qed

text \<open>C4: A signed request cannot be replayed. Once a request was admitted by signature, no later call of the gate, by anyone and in any
  number, is admitted by a signature over the same nonce (unless the nonce store issues it anew).\<close>

theorem signed_request_no_replay:
  assumes "fst (Admit e r req cx st) = Ok d" "dec_mechanism d = MechanismSigned" "pr_signature req = Some sg"
    and "pr_signature req' = Some sg'" "sc_nonce sg' = sc_nonce sg"
    and "chosen_mechanism (ge_cfg e') r' req' = MechanismSigned"
  shows "\<not> is_ok (fst (Admit e' r' req' cx' (fold gate_step calls (snd (Admit e r req cx st)))))"
proof
  assume "is_ok (fst (Admit e' r' req' cx' (fold gate_step calls (snd (Admit e r req cx st)))))"
  then obtain d' where d': "fst (Admit e' r' req' cx' (fold gate_step calls (snd (Admit e r req cx st)))) = Ok d'"
    by (auto simp: is_ok_iff)
  then have live: "fst (Consume (ge_now_ns e') (sc_nonce sg) (gs_nonces (fold gate_step calls (snd (Admit e r req cx st)))))"
    using Admit_evidence[OF d'] assms(4-6) by (auto simp: credential_ok_def)
  have run: "ns_nonces (gs_nonces (fold gate_step calls s)) n = None" if "ns_nonces (gs_nonces s) n = None" for s n
    using that by (induction calls arbitrary: s) (simp_all add: nonce_gone_step)
  obtain ri st1 where c: "gate_check_ip e (extractIP (hr_remote_addr r)) (cx_chain_id cx) st = (ri, st1)" by fastforce
  have "fst (Consume (ge_now_ns e) (sc_nonce sg) (gs_nonces st))" "dec_mechanism d = chosen_mechanism (ge_cfg e) r req"
    using Admit_evidence[OF assms(1)] assms(2,3) by (auto simp: credential_ok_def)
  then have "snd (Admit e r req cx st) = snd (admitSigned e req sg cx st1)"
    using assms(1-3) by (auto simp: Admit_def c chosen_mechanism_def split: sum.splits option.splits bool.splits if_splits)
  moreover have "fst (admitSigned e req sg cx st1) = Ok d"
    using assms(1-3) \<open>dec_mechanism d = chosen_mechanism (ge_cfg e) r req\<close>
    by (auto simp: Admit_def c chosen_mechanism_def split: sum.splits option.splits bool.splits if_splits)
  moreover from this have "ns_nonces (gs_nonces (snd (admitSigned e req sg cx st1))) (sc_nonce sg) = None"
    by (auto simp: admitSigned_def Let_def Consume_def split: prod.splits sum.splits if_splits)
  ultimately have "ns_nonces (gs_nonces (snd (Admit e r req cx st))) (sc_nonce sg) = None" by simp
  from run[OF this] live show False by (simp add: Consume_def)
qed

theorem signed_request_no_replay_witness:
  "is_ok (fst (Admit (sample_env True 10) sample_http (sample_request\<lparr>pr_signature := Some sample_sig\<rparr>) sample_context sample_state)) \<and>
   \<not> is_ok (fst (Admit (sample_env True 11) sample_http (sample_request\<lparr>pr_signature := Some sample_sig\<rparr>) sample_context
        (fold gate_step [GateCall (sample_env False 10) sample_http sample_request sample_context]
          (snd (Admit (sample_env True 10) sample_http (sample_request\<lparr>pr_signature := Some sample_sig\<rparr>) sample_context sample_state)))))"
proof -
  let ?req = "sample_request\<lparr>pr_signature := Some sample_sig\<rparr>"
  have ok: "case fst (Admit (sample_env True 10) sample_http ?req sample_context sample_state) of
      Inr d \<Rightarrow> dec_mechanism d = MechanismSigned | Inl x \<Rightarrow> False" by code_simp
  then obtain d where d: "fst (Admit (sample_env True 10) sample_http ?req sample_context sample_state) = Ok d"
    "dec_mechanism d = MechanismSigned" by (auto split: sum.splits)
  have "chosen_mechanism (ge_cfg (sample_env True 11)) sample_http ?req = MechanismSigned" by code_simp
  from signed_request_no_replay[OF d _ _ _ this, of sample_sig sample_sig sample_context
      "[GateCall (sample_env False 10) sample_http sample_request sample_context]"] d(1)
  show ?thesis by simp
qed

end
