(* ===== verification/Batch.thy ===== *)
theory Batch
  imports Coins
begin

text \<open>
  \<^verbatim>\<open>internal/batch/window.go\<close> and \<^verbatim>\<open>internal/batch/pool.go\<close>: the queue of a distributor with its flushing goroutine, and the pool
  that routes requests to the least loaded healthy distributor. A buffered channel is a list with a capacity; the
  channel \<^verbatim>\<open>Result\<close> of a request is represented by the identity \<^verbatim>\<open>bq_id\<close>. The goroutine of \<^verbatim>\<open>Window.Start\<close> is the step
  relation \<^verbatim>\<open>win_step\<close>, in which a select picks any ready event.

  The locale \<^verbatim>\<open>bounded_fifo\<close> is the contract of the queue; it is interpreted on the window.
\<close>

record batch_request =
  bq_id :: nat
  bq_to_address :: string
  bq_coins :: coins

datatype batch_error = ErrQueueFull | ErrAllFull | ErrNoHealthyDistributor

subsection \<open>Windows\<close>

record window =
  w_max_recipients :: nat
  w_capacity :: nat
  w_queue :: "batch_request list"
  w_flush_now :: bool

definition NewWindow :: "nat \<Rightarrow> nat \<Rightarrow> window" where
  "NewWindow maxRecipients maxQueueDepth =
     \<lparr>w_max_recipients = maxRecipients, w_capacity = maxQueueDepth, w_queue = [], w_flush_now = False\<rparr>"

definition Depth :: "window \<Rightarrow> nat" where "Depth w = length (w_queue w)"

definition Enqueue :: "batch_request \<Rightarrow> window \<Rightarrow> (batch_error, window) result" where
  "Enqueue req w =
     (if length (w_queue w) \<ge> w_capacity w then Err ErrQueueFull
      else let w' = w\<lparr>w_queue := w_queue w @ [req]\<rparr>
           in Ok (if length (w_queue w') \<ge> w_max_recipients w' then w'\<lparr>w_flush_now := True\<rparr> else w'))"

text \<open>The receive loop of \<^verbatim>\<open>doFlush\<close>: take requests until the batch is full or the channel empty.\<close>

function drain :: "nat \<Rightarrow> batch_request list \<Rightarrow> batch_request list \<Rightarrow> batch_request list \<times> batch_request list" where
  "drain m batch q =
     (if length batch < m
      then (case q of [] \<Rightarrow> (batch, []) | req # rest \<Rightarrow> drain m (batch @ [req]) rest)
      else (batch, q))"
  by pat_completeness auto
termination by (relation "measure (\<lambda>(m, batch, q). length q)") auto

declare drain.simps [simp del]

text \<open>The batch handed to \<^verbatim>\<open>flush\<close> (empty when it is not called) and the window afterwards.\<close>

definition doFlush :: "window \<Rightarrow> batch_request list \<times> window" where
  "doFlush w = (case drain (w_max_recipients w) [] (w_queue w) of (batch, q) \<Rightarrow> (batch, w\<lparr>w_queue := q\<rparr>))"

text \<open>
  The goroutine of \<^verbatim>\<open>Start\<close>: \<^verbatim>\<open>ws_flushed\<close> collects the batches handed to the flush function and \<^verbatim>\<open>ws_accepted\<close> the requests
  whose \<^verbatim>\<open>Enqueue\<close> returned nil; \<^verbatim>\<open>ws_stopped\<close> says that the goroutine has returned.
\<close>

record win_state =
  ws_window :: window
  ws_flushed :: "batch_request list list"
  ws_accepted :: "batch_request list"
  ws_stopped :: bool

definition flush_state :: "win_state \<Rightarrow> win_state" where
  "flush_state s =
     (case doFlush (ws_window s) of (batch, w) \<Rightarrow>
        s\<lparr>ws_window := w, ws_flushed := (if batch \<noteq> [] then ws_flushed s @ [batch] else ws_flushed s)\<rparr>)"

inductive win_step :: "win_state \<Rightarrow> win_state \<Rightarrow> bool" where
  enqueue: "Enqueue req (ws_window s) = Ok w \<Longrightarrow>
     win_step s (s\<lparr>ws_window := w, ws_accepted := ws_accepted s @ [req]\<rparr>)"
| reject: "Enqueue req (ws_window s) = Err e \<Longrightarrow> win_step s s"
| tick: "\<not> ws_stopped s \<Longrightarrow> win_step s (flush_state s)"
| signal: "\<not> ws_stopped s \<Longrightarrow> w_flush_now (ws_window s) \<Longrightarrow>
     win_step s (flush_state (s\<lparr>ws_window := (ws_window s)\<lparr>w_flush_now := False\<rparr>\<rparr>))"
| cancel: "\<not> ws_stopped s \<Longrightarrow> win_step s ((flush_state s)\<lparr>ws_stopped := True\<rparr>)"

inductive_cases win_stepE: "win_step s s'"

definition win_init :: "nat \<Rightarrow> nat \<Rightarrow> win_state" where
  "win_init maxRecipients maxQueueDepth =
     \<lparr>ws_window = NewWindow maxRecipients maxQueueDepth, ws_flushed = [], ws_accepted = [], ws_stopped = False\<rparr>"

subsection \<open>Pools\<close>

datatype dist_status = StatusHealthy | StatusRecovering

record distributor =
  d_key_index :: nat
  d_window :: window
  d_status :: dist_status

type_synonym pool = "distributor list"

definition NewPool :: "nat \<Rightarrow> nat \<Rightarrow> nat \<Rightarrow> pool" where
  "NewPool n maxRecipients maxQueueDepth =
     map (\<lambda>i. \<lparr>d_key_index = i + 1, d_window = NewWindow maxRecipients maxQueueDepth, d_status = StatusHealthy\<rparr>) [0..<n]"

text \<open>The selection loop of \<^verbatim>\<open>Route\<close>: \<^verbatim>\<open>best\<close> is the position of the distributor chosen so far.\<close>

fun select_best :: "pool \<Rightarrow> nat \<Rightarrow> (nat \<times> distributor) option \<Rightarrow> (nat \<times> distributor) option" where
  "select_best [] i best = best"
| "select_best (d # ds) i best =
     select_best ds (Suc i)
       (if d_status d \<noteq> StatusHealthy then best
        else case best of
               None \<Rightarrow> Some (i, d)
             | Some (j, b) \<Rightarrow> if Depth (d_window d) < Depth (d_window b) then Some (i, d) else best)"

definition Route :: "batch_request \<Rightarrow> pool \<Rightarrow> (batch_error, unit) result \<times> pool" where
  "Route req p =
     (case select_best p 0 None of
        None \<Rightarrow> (Err ErrNoHealthyDistributor, p)
      | Some (i, best) \<Rightarrow>
          (case Enqueue req (d_window best) of
             Inl _ \<Rightarrow> (Err ErrAllFull, p)
           | Inr w \<Rightarrow> (Ok (), p[i := best\<lparr>d_window := w\<rparr>])))"

fun set_status :: "nat \<Rightarrow> dist_status \<Rightarrow> pool \<Rightarrow> pool" where
  "set_status k s [] = []"
| "set_status k s (d # ds) = (if d_key_index d = k then d\<lparr>d_status := s\<rparr> # ds else d # set_status k s ds)"

definition MarkRecovering :: "nat \<Rightarrow> pool \<Rightarrow> pool" where "MarkRecovering k p = set_status k StatusRecovering p"
definition MarkHealthy :: "nat \<Rightarrow> pool \<Rightarrow> pool" where "MarkHealthy k p = set_status k StatusHealthy p"

definition Healthy :: "pool \<Rightarrow> distributor list" where
  "Healthy p = filter (\<lambda>d. d_status d = StatusHealthy) p"

definition All_distributors :: "pool \<Rightarrow> distributor list" where "All_distributors p = p"

definition dist_Status :: "distributor \<Rightarrow> dist_status" where "dist_Status d = d_status d"

text \<open>What \<^verbatim>\<open>NewPool\<close> establishes: key indices 1..n in order, and the same limits everywhere.\<close>

definition pool_inv :: "nat \<Rightarrow> nat \<Rightarrow> pool \<Rightarrow> bool" where
  "pool_inv m cap p \<longleftrightarrow>
     map d_key_index p = map Suc [0..<length p] \<and>
     list_all (\<lambda>d. w_max_recipients (d_window d) = m \<and> w_capacity (d_window d) = cap \<and> Depth (d_window d) \<le> cap) p"

subsection \<open>A window is a bounded queue\<close>

locale bounded_fifo =
  fixes content :: "'q \<Rightarrow> 'a list" and cap :: "'q \<Rightarrow> nat" and batch_max :: "'q \<Rightarrow> nat"
    and put :: "'a \<Rightarrow> 'q \<Rightarrow> 'q option" and take_batch :: "'q \<Rightarrow> 'a list \<times> 'q"
  assumes put_None: "put x q = None \<longleftrightarrow> length (content q) \<ge> cap q"
    and put_Some: "put x q = Some q' \<Longrightarrow> content q' = content q @ [x] \<and> cap q' = cap q \<and> batch_max q' = batch_max q"
    and take_batch: "take_batch q = (b, q') \<Longrightarrow>
          b = take (batch_max q) (content q) \<and> content q' = drop (batch_max q) (content q) \<and> cap q' = cap q \<and>
          batch_max q' = batch_max q"
begin

lemma take_batch_append: "take_batch q = (b, q') \<Longrightarrow> b @ content q' = content q \<and> length b \<le> batch_max q"
  by (auto dest: take_batch)

fun take_batches :: "nat \<Rightarrow> 'q \<Rightarrow> 'a list list \<times> 'q" where
  "take_batches 0 q = ([], q)"
| "take_batches (Suc n) q =
     (case take_batch q of (b, q') \<Rightarrow> case take_batches n q' of (bs, q'') \<Rightarrow> (b # bs, q''))"

lemma take_batches_content:
  "take_batches n q = (bs, q') \<Longrightarrow>
   concat bs = take (n * batch_max q) (content q) \<and> content q' = drop (n * batch_max q) (content q)"
proof (induction n arbitrary: q bs q')
  case (Suc n)
  then obtain b q1 bs1 where s: "take_batch q = (b, q1)" "take_batches n q1 = (bs1, q')" "bs = b # bs1"
    by (auto split: prod.splits)
  have "b = take (batch_max q) (content q)" "content q1 = drop (batch_max q) (content q)" "batch_max q1 = batch_max q"
    using take_batch[OF s(1)] by auto
  with Suc.IH[OF s(2)] s(3) show ?case by (simp add: take_add add.commute)
qed simp

lemma drained_after:
  assumes "0 < batch_max q" "length (content q) \<le> n * batch_max q" "take_batches n q = (bs, q')"
  shows "concat bs = content q \<and> content q' = []"
  using take_batches_content[OF assms(3)] assms(2) by simp

end

lemma drain_take_drop:
  "length batch \<le> m \<Longrightarrow> drain m batch q = (batch @ take (m - length batch) q, drop (m - length batch) q)"
proof (induction m batch q rule: drain.induct)
  case (1 m batch q)
  show ?case
  proof (cases "length batch < m")
    case True
    show ?thesis
    proof (cases q)
      case Nil
      with True show ?thesis by (subst drain.simps) simp
    next
      case (Cons r rs)
      obtain k where "m - length batch = Suc k" using True by (metis Suc_diff_Suc)
      moreover from this have "m - length (batch @ [r]) = k" by simp
      ultimately show ?thesis using "1.IH"[OF True Cons] True Cons by (subst drain.simps) simp
    qed
  next
    case False
    with 1 show ?thesis by (subst drain.simps) simp
  qed
qed

lemma doFlush_take_drop:
  "doFlush w = (take (w_max_recipients w) (w_queue w), w\<lparr>w_queue := drop (w_max_recipients w) (w_queue w)\<rparr>)"
  by (simp add: doFlush_def drain_take_drop)

interpretation window_queue: bounded_fifo w_queue w_capacity w_max_recipients
    "\<lambda>r w. case Enqueue r w of Inl _ \<Rightarrow> None | Inr w' \<Rightarrow> Some w'" doFlush
  by unfold_locales (auto simp: Enqueue_def Let_def doFlush_take_drop split: if_splits sum.splits)

definition win_inv :: "nat \<Rightarrow> nat \<Rightarrow> win_state \<Rightarrow> bool" where
  "win_inv m cap s \<longleftrightarrow>
     w_max_recipients (ws_window s) = m \<and> w_capacity (ws_window s) = cap \<and> Depth (ws_window s) \<le> cap \<and>
     concat (ws_flushed s) @ w_queue (ws_window s) = ws_accepted s \<and>
     list_all (\<lambda>b. b \<noteq> [] \<and> length b \<le> m) (ws_flushed s)"

definition win_reachable :: "nat \<Rightarrow> nat \<Rightarrow> win_state \<Rightarrow> bool" where
  "win_reachable m cap s \<longleftrightarrow> win_step\<^sup>*\<^sup>* (win_init m cap) s"

definition sample_req :: "nat \<Rightarrow> batch_request" where
  "sample_req n = \<lparr>bq_id = n, bq_to_address = ''osmo1x'', bq_coins = []\<rparr>"

definition sample_win :: win_state where
  "sample_win = \<lparr>ws_window = \<lparr>w_max_recipients = 1, w_capacity = 5, w_queue = [sample_req 0, sample_req 1], w_flush_now = True\<rparr>,
     ws_flushed = [], ws_accepted = [sample_req 0, sample_req 1], ws_stopped = False\<rparr>"

definition is_best :: "pool \<Rightarrow> (nat \<times> distributor) option \<Rightarrow> bool" where
  "is_best p r \<longleftrightarrow>
     (case r of
        None \<Rightarrow> \<forall>d \<in> set p. d_status d \<noteq> StatusHealthy
      | Some (j, b) \<Rightarrow> j < length p \<and> p ! j = b \<and> d_status b = StatusHealthy \<and>
          (\<forall>d \<in> set p. d_status d = StatusHealthy \<longrightarrow> Depth (d_window b) \<le> Depth (d_window d)))"

subsection \<open>The flushing goroutine\<close>

lemma Enqueue_Ok:
  assumes "Enqueue r w = Ok w'"
  shows "w_queue w' = w_queue w @ [r]" "w_max_recipients w' = w_max_recipients w" "w_capacity w' = w_capacity w"
    "length (w_queue w) < w_capacity w"
  using assms by (auto simp: Enqueue_def Let_def split: if_splits)

lemma flush_state_fields:
  "ws_accepted (flush_state s) = ws_accepted s" "ws_stopped (flush_state s) = ws_stopped s"
  "concat (ws_flushed (flush_state s)) = concat (ws_flushed s) @ take (w_max_recipients (ws_window s)) (w_queue (ws_window s))"
  "w_queue (ws_window (flush_state s)) = drop (w_max_recipients (ws_window s)) (w_queue (ws_window s))"
  "w_max_recipients (ws_window (flush_state s)) = w_max_recipients (ws_window s)"
  "w_capacity (ws_window (flush_state s)) = w_capacity (ws_window s)"
  by (auto simp: flush_state_def doFlush_take_drop)

lemma win_inv_flush: "win_inv m cap s \<Longrightarrow> win_inv m cap (flush_state s)"
proof -
  assume inv: "win_inv m cap s"
  have "list_all (\<lambda>b. b \<noteq> [] \<and> length b \<le> m) (ws_flushed (flush_state s))"
    using inv by (auto simp: win_inv_def flush_state_def doFlush_take_drop)
  then show ?thesis using inv by (auto simp: win_inv_def flush_state_fields Depth_def)
qed

lemma win_inv_step: "win_step s s' \<Longrightarrow> win_inv m cap s \<Longrightarrow> win_inv m cap s'"
proof (induction rule: win_step.induct)
  case (enqueue req s w)
  then show ?case using Enqueue_Ok[OF enqueue(1)] by (auto simp: win_inv_def Depth_def)
next
  case (tick s)
  then show ?case by (simp add: win_inv_flush)
next
  case (signal s)
  have "win_inv m cap (s\<lparr>ws_window := (ws_window s)\<lparr>w_flush_now := False\<rparr>\<rparr>)" using signal.prems by (simp add: win_inv_def Depth_def)
  then show ?case by (rule win_inv_flush)
next
  case (cancel s)
  then show ?case using win_inv_flush[OF cancel.prems] by (simp add: win_inv_def)
qed

lemma win_inv_reachable: "win_reachable m cap s \<Longrightarrow> win_inv m cap s"
proof -
  assume "win_reachable m cap s"
  then have "win_step\<^sup>*\<^sup>* (win_init m cap) s" by (simp add: win_reachable_def)
  then show ?thesis
  proof (induction rule: rtranclp_induct)
    case base
    show ?case by (simp add: win_inv_def win_init_def NewWindow_def Depth_def)
  next
    case (step s s')
    then show ?case using win_inv_step by blast
  qed
qed

text \<open>A window neither loses, duplicates nor reorders a request while it runs. In every reachable state, under any interleaving of
  enqueues, ticks, early-flush signals and cancellation, the flushed batches followed by the queue are exactly the accepted requests in
  order; every batch is non-empty and within the recipient limit; the queue never exceeds its capacity.\<close>

theorem window_fifo:
  assumes "win_reachable m cap s"
  shows "concat (ws_flushed s) @ w_queue (ws_window s) = ws_accepted s \<and>
         list_all (\<lambda>b. b \<noteq> [] \<and> length b \<le> m) (ws_flushed s) \<and> Depth (ws_window s) \<le> cap"
  using win_inv_reachable[OF assms] by (simp add: win_inv_def)

lemma sample_win_reachable: "win_reachable 1 5 sample_win"
proof -
  have "win_step (win_init 1 5) ((win_init 1 5)\<lparr>ws_window := \<lparr>w_max_recipients = 1, w_capacity = 5, w_queue = [sample_req 0], w_flush_now = True\<rparr>,
      ws_accepted := [sample_req 0]\<rparr>)" (is "win_step _ ?s1")
    using win_step.enqueue[of "sample_req 0" "win_init 1 5"] by (simp add: Enqueue_def win_init_def NewWindow_def)
  moreover have "win_step ?s1 sample_win"
    using win_step.enqueue[of "sample_req 1" ?s1] by (simp add: Enqueue_def win_init_def sample_win_def)
  ultimately show ?thesis unfolding win_reachable_def by (meson rtranclp.rtrancl_into_rtrancl rtranclp.rtrancl_refl)
qed

text \<open>Everything accepted is flushed if the window keeps ticking: with a positive recipient limit, after enough ticks the queue is
  empty and the batches are exactly the accepted requests.\<close>

theorem window_drains:
  assumes "win_reachable m cap s" "0 < m" "Depth (ws_window s) \<le> n * m"
  shows "w_queue (ws_window ((flush_state ^^ n) s)) = [] \<and> concat (ws_flushed ((flush_state ^^ n) s)) = ws_accepted s"
proof -
  have run: "win_inv m cap ((flush_state ^^ n) t) \<and> ws_accepted ((flush_state ^^ n) t) = ws_accepted t \<and>
      w_queue (ws_window ((flush_state ^^ n) t)) = drop (n * m) (w_queue (ws_window t))" if "win_inv m cap t" for t
  proof (induction n)
    case (Suc n)
    then have "w_max_recipients (ws_window ((flush_state ^^ n) t)) = m" by (simp add: win_inv_def)
    with Suc show ?case by (simp add: win_inv_flush flush_state_fields add.commute)
  qed (simp add: that)
  have "w_queue (ws_window ((flush_state ^^ n) s)) = []"
    using run[OF win_inv_reachable[OF assms(1)]] assms(3) by (simp add: Depth_def)
  with run[OF win_inv_reachable[OF assms(1)]] show ?thesis by (auto simp: win_inv_def)
qed

lemma stopped_stays:
  assumes "win_step\<^sup>*\<^sup>* s s'" "ws_stopped s"
  shows "ws_stopped s' \<and> ws_flushed s' = ws_flushed s"
  using assms by (induction rule: rtranclp_induct) (auto elim!: win_stepE)

text \<open>C26: Shutdown drops requests. When the context is cancelled with more requests queued than one batch holds, the final flush
  takes one batch only: the accepted requests beyond it are in no batch that is ever flushed, whatever happens afterwards.\<close>

theorem shutdown_drops_requests:
  assumes "win_reachable m cap s" "m < Depth (ws_window s)"
    and "win_step\<^sup>*\<^sup>* ((flush_state s)\<lparr>ws_stopped := True\<rparr>) s'"
  shows "\<exists>lost. lost \<noteq> [] \<and> concat (ws_flushed s') @ lost = ws_accepted s"
proof -
  have inv: "win_inv m cap s" by (rule win_inv_reachable[OF assms(1)])
  have "concat (ws_flushed s') = concat (ws_flushed s) @ take m (w_queue (ws_window s))"
    using stopped_stays[OF assms(3)] inv by (simp add: flush_state_fields win_inv_def)
  then show ?thesis
    using inv assms(2) by (intro exI[of _ "drop m (w_queue (ws_window s))"]) (auto simp: win_inv_def Depth_def)
qed

theorem shutdown_drops_requests_witness:
  "\<exists>lost. lost \<noteq> [] \<and> concat (ws_flushed ((flush_state sample_win)\<lparr>ws_stopped := True\<rparr>)) @ lost = ws_accepted sample_win"
  by (rule shutdown_drops_requests[OF sample_win_reachable]) (simp_all add: sample_win_def Depth_def)

subsection \<open>Routing\<close>

lemma is_best_step:
  assumes "is_best p best"
  shows "is_best (p @ [d])
    (if d_status d \<noteq> StatusHealthy then best
     else case best of None \<Rightarrow> Some (length p, d)
          | Some (j, b) \<Rightarrow> if Depth (d_window d) < Depth (d_window b) then Some (length p, d) else best)"
  using assms by (cases best) (auto simp: is_best_def nth_append, fastforce)

lemma select_best_spec: "is_best p best \<Longrightarrow> is_best (p @ ds) (select_best ds (length p) best)"
proof (induction ds arbitrary: p best)
  case (Cons d ds)
  from Cons.IH[OF is_best_step[OF Cons.prems, of d]] show ?case by simp
qed simp

lemma select_best_0: "is_best p (select_best p 0 None)"
  using select_best_spec[of "[]" None p] by (simp add: is_best_def)

text \<open>Routing on every branch. A request goes to a healthy distributor of least depth and to the end of its queue, and nothing else changes;
  it fails with \<^verbatim>\<open>ErrNoHealthyDistributor\<close> exactly when no distributor is healthy, and with \<^verbatim>\<open>ErrAllFull\<close> exactly when there are healthy
  ones and every one of them is full.\<close>

theorem Route_correct:
  assumes "pool_inv m cap p" "Route r p = (res, p')"
  shows "(res = Ok () \<longrightarrow> (\<exists>i w. i < length p \<and> d_status (p ! i) = StatusHealthy \<and>
             (\<forall>d \<in> set p. d_status d = StatusHealthy \<longrightarrow> Depth (d_window (p ! i)) \<le> Depth (d_window d)) \<and>
             w_queue w = w_queue (d_window (p ! i)) @ [r] \<and> p' = p[i := (p ! i)\<lparr>d_window := w\<rparr>])) \<and>
         (res \<noteq> Ok () \<longrightarrow> p' = p) \<and>
         (res = Err ErrNoHealthyDistributor \<longleftrightarrow> Healthy p = []) \<and>
         (res = Err ErrAllFull \<longleftrightarrow> Healthy p \<noteq> [] \<and> list_all (\<lambda>d. Depth (d_window d) = cap) (Healthy p))"
proof (cases "select_best p 0 None")
  case None
  then have "Healthy p = []" using select_best_0[of p] by (auto simp: is_best_def Healthy_def filter_empty_conv)
  then show ?thesis using assms(2) None by (auto simp: Route_def)
next
  case (Some x)
  then obtain i b where b: "select_best p 0 None = Some (i, b)" by (cases x) simp
  have s: "i < length p" "p ! i = b" "d_status b = StatusHealthy"
    "\<And>d. d \<in> set p \<Longrightarrow> d_status d = StatusHealthy \<Longrightarrow> Depth (d_window b) \<le> Depth (d_window d)"
    using select_best_0[of p] b by (auto simp: is_best_def)
  have "b \<in> set p" using s(1,2) nth_mem by blast
  then have H: "b \<in> set (Healthy p)" using s(3) by (simp add: Healthy_def)
  have capd: "w_capacity (d_window d) = cap" "Depth (d_window d) \<le> cap" if "d \<in> set p" for d
    using assms(1) that by (auto simp: pool_inv_def list_all_iff)
  have full: "list_all (\<lambda>d. Depth (d_window d) = cap) (Healthy p) \<longleftrightarrow> cap \<le> Depth (d_window b)"
    using s(4) capd H by (fastforce simp: list_all_iff Healthy_def)
  show ?thesis
  proof (cases "Enqueue r (d_window b)")
    case (Inl e)
    then have "cap \<le> Depth (d_window b)" using capd[OF \<open>b \<in> set p\<close>] by (auto simp: Enqueue_def Let_def Depth_def split: if_splits)
    then show ?thesis using assms(2) b Inl full H by (auto simp: Route_def)
  next
    case (Inr w)
    have "\<not> cap \<le> Depth (d_window b)" using Enqueue_Ok(4)[OF Inr] capd[OF \<open>b \<in> set p\<close>] by (simp add: Depth_def)
    moreover have "w_queue w = w_queue (d_window b) @ [r]" by (rule Enqueue_Ok(1)[OF Inr])
    ultimately show ?thesis using assms(2) b Inr full H s by (auto simp: Route_def)
  qed
qed

lemma pool_inv_NewPool: "pool_inv m cap (NewPool n m cap)"
  by (simp add: pool_inv_def NewPool_def NewWindow_def Depth_def list_all_iff)

end
