(* ===== verification/Registry.thy ===== *)
theory Registry
  imports Prelude "HOL-Library.List_Lexorder" "HOL-Library.Char_ord"
begin

text \<open>
  \<^verbatim>\<open>pkg/chainregistry\<close>: the chain information types (\<^verbatim>\<open>types.go\<close>), the field policy (\<^verbatim>\<open>policy.go\<close>), operator overrides
  (\<^verbatim>\<open>override.go\<close>), conversion of fetched data (\<^verbatim>\<open>raw.go\<close>), resolution (\<^verbatim>\<open>resolve.go\<close>, \<^verbatim>\<open>store_helpers.go\<close>) and the store
  (\<^verbatim>\<open>store.go\<close>, \<^verbatim>\<open>diff.go\<close>). A Go map is a HOL map; where the code ranges over one, the iteration order is an argument, a list of
  the keys. \<^verbatim>\<open>any\<close> values are the datatype \<^verbatim>\<open>field_value\<close>. The decimal package is two functions (parse and print).

  The lemmas show the freeze policy: what a live update may change, what it must queue, and what acceptance does.
\<close>

subsection \<open>Types\<close>

record decimal =
  dec_coeff :: int
  dec_exp :: int

definition decimal_Zero :: decimal where "decimal_Zero = \<lparr>dec_coeff = 0, dec_exp = 1\<rparr>"

record decimal_lib =
  dl_parse :: "string \<Rightarrow> decimal option"
  dl_string :: "decimal \<Rightarrow> string"

datatype source = SourceLive | SourceConfig

record endpoint =
  ept_url :: string
  ept_provider :: string

record endpoints =
  eps_grpc :: "endpoint list"
  eps_rpc :: "endpoint list"
  eps_rest :: "endpoint list"

record fee_token =
  ft_denom :: string
  ft_low :: decimal
  ft_average :: decimal
  ft_high :: decimal
  ft_display :: string
  ft_exponent :: nat

record field_sources =
  src_identity :: source
  src_address :: source
  src_endpoints :: source
  src_fee_tokens :: source
  src_block_time :: source

definition setAll :: "source \<Rightarrow> field_sources" where
  "setAll src = \<lparr>src_identity = src, src_address = src, src_endpoints = src, src_fee_tokens = src, src_block_time = src\<rparr>"

record chain_info =
  ci_chain_id :: string
  ci_chain_name :: string
  ci_network_type :: string
  ci_pretty_name :: string
  ci_bech32_prefix :: string
  ci_slip44 :: nat
  ci_key_algo :: string
  ci_endpoints :: endpoints
  ci_fee_tokens :: "fee_token list"
  ci_block_time :: int
  ci_enabled :: bool
  ci_last_changed :: int
  ci_sources :: field_sources

record ibc_channel =
  ic_chain_name_a :: string
  ic_chain_name_b :: string
  ic_channel_a :: string
  ic_channel_b :: string
  ic_port_a :: string
  ic_port_b :: string
  ic_ordering :: string
  ic_version :: string
  ic_status :: string
  ic_preferred :: bool

definition ChannelFor :: "ibc_channel \<Rightarrow> string \<Rightarrow> (string \<times> string \<times> string) option" where
  "ChannelFor c chainName =
     (if chainName = ic_chain_name_a c then Some (ic_channel_a c, ic_port_a c, ic_chain_name_b c)
      else if chainName = ic_chain_name_b c then Some (ic_channel_b c, ic_port_b c, ic_chain_name_a c)
      else None)"

subsection \<open>Field policy\<close>

datatype field =
    FieldChainID | FieldChainName | FieldNetworkType | FieldPrettyName | FieldBech32Prefix | FieldSlip44 | FieldKeyAlgo
  | FieldEndpointsGRPC | FieldEndpointsRPC | FieldEndpointsREST | FieldBlockTime
  | FieldFeeTokensDenom | FieldFeeTokensLowGasPrice | FieldFeeTokensAvgGasPrice | FieldFeeTokensHighGasPrice
  | FieldFeeTokensDisplay | FieldFeeTokensExponent

datatype field_policy = FieldPolicyHotReload | FieldPolicyWarn | FieldPolicyFreeze

fun classify :: "field \<Rightarrow> field_policy" where
  "classify FieldChainID = FieldPolicyFreeze"
| "classify FieldChainName = FieldPolicyFreeze"
| "classify FieldNetworkType = FieldPolicyFreeze"
| "classify FieldBech32Prefix = FieldPolicyFreeze"
| "classify FieldSlip44 = FieldPolicyFreeze"
| "classify FieldKeyAlgo = FieldPolicyFreeze"
| "classify FieldFeeTokensDenom = FieldPolicyFreeze"
| "classify FieldFeeTokensLowGasPrice = FieldPolicyWarn"
| "classify FieldFeeTokensAvgGasPrice = FieldPolicyWarn"
| "classify FieldFeeTokensHighGasPrice = FieldPolicyWarn"
| "classify FieldFeeTokensDisplay = FieldPolicyHotReload"
| "classify FieldFeeTokensExponent = FieldPolicyHotReload"
| "classify FieldEndpointsGRPC = FieldPolicyHotReload"
| "classify FieldEndpointsRPC = FieldPolicyHotReload"
| "classify FieldEndpointsREST = FieldPolicyHotReload"
| "classify FieldPrettyName = FieldPolicyHotReload"
| "classify FieldBlockTime = FieldPolicyHotReload"

definition classifiableFields :: "field list" where
  "classifiableFields =
     [FieldChainID, FieldChainName, FieldNetworkType, FieldPrettyName, FieldBech32Prefix, FieldSlip44, FieldKeyAlgo,
      FieldEndpointsGRPC, FieldEndpointsRPC, FieldEndpointsREST, FieldBlockTime, FieldFeeTokensDenom,
      FieldFeeTokensLowGasPrice, FieldFeeTokensAvgGasPrice, FieldFeeTokensHighGasPrice, FieldFeeTokensDisplay,
      FieldFeeTokensExponent]"

datatype field_value =
    FVString string | FVNetworkType string | FVKeyAlgo string | FVUint32 nat | FVEndpoints "endpoint list"
  | FVDuration int | FVFeeTokens "fee_token list"

record pending_change =
  pc_chain_id :: string
  pc_field :: field
  pc_old_value :: field_value
  pc_new_value :: field_value
  pc_detected_at :: int
  pc_source :: source

record field_change =
  fc_chain_id :: string
  fc_field :: field
  fc_old_value :: field_value
  fc_new_value :: field_value

record change_set =
  cs_hot_reloaded :: "field_change list"
  cs_warned :: "field_change list"
  cs_frozen :: "field_change list"
  cs_removed :: "string list"

subsection \<open>Overrides\<close>

record endpoints_override =
  eo_grpc :: "string list option"
  eo_rpc :: "string list option"
  eo_rest :: "string list option"

record fee_token_override =
  fto_denom :: string
  fto_low :: "string option"
  fto_average :: "string option"
  fto_high :: "string option"

record chain_override =
  co_enabled :: "bool option"
  co_chain_name :: "string option"
  co_network_type :: "string option"
  co_key_algo :: "string option"
  co_bech32_prefix :: "string option"
  co_slip44 :: "nat option"
  co_endpoints :: "endpoints_override option"
  co_fee_tokens :: "fee_token_override list"
  co_block_time :: "int option"
  co_distributors :: int

type_synonym override_set = "string \<rightharpoonup> chain_override"

record drip_policy =
  dp_anonymous :: string
  dp_signed :: string
  dp_max_per_address_per_day :: string
  dp_memo :: string

definition stringsToEndpoints :: "string list \<Rightarrow> endpoint list" where
  "stringsToEndpoints ss = map (\<lambda>s. \<lparr>ept_url = s, ept_provider = ''''\<rparr>) ss"

text \<open>\<^verbatim>\<open>if ov.F != nil { ... }\<close>.\<close>

definition if_some :: "'a option \<Rightarrow> ('a \<Rightarrow> 'b \<Rightarrow> 'b) \<Rightarrow> 'b \<Rightarrow> 'b" where
  "if_some v f x = (case v of Some y \<Rightarrow> f y x | None \<Rightarrow> x)"

definition applyEndpoints :: "endpoints_override option \<Rightarrow> chain_info \<times> field_sources \<Rightarrow> chain_info \<times> field_sources" where
  "applyEndpoints ov0 is0 =
     (case ov0 of
        None \<Rightarrow> is0
      | Some ov \<Rightarrow>
          let assign = (\<lambda>f x (i, s). (i\<lparr>ci_endpoints := f (stringsToEndpoints x) (ci_endpoints i)\<rparr>, s\<lparr>src_endpoints := SourceConfig\<rparr>));
              is1 = if_some (eo_grpc ov) (assign (\<lambda>e eps. eps\<lparr>eps_grpc := e\<rparr>)) is0;
              is2 = if_some (eo_rpc ov) (assign (\<lambda>e eps. eps\<lparr>eps_rpc := e\<rparr>)) is1
          in if_some (eo_rest ov) (assign (\<lambda>e eps. eps\<lparr>eps_rest := e\<rparr>)) is2)"

definition applyDecimalField :: "decimal_lib \<Rightarrow> string option \<Rightarrow> decimal \<times> source \<Rightarrow> decimal \<times> source" where
  "applyDecimalField dl raw fs =
     (case raw of
        None \<Rightarrow> fs
      | Some r \<Rightarrow> (case dl_parse dl r of Some d \<Rightarrow> (d, SourceConfig) | None \<Rightarrow> fs))"

definition applyFeeToken :: "decimal_lib \<Rightarrow> fee_token_override \<Rightarrow> fee_token \<times> source \<Rightarrow> fee_token \<times> source" where
  "applyFeeToken dl ov fs =
     (case fs of (ft, s0) \<Rightarrow>
        case applyDecimalField dl (fto_low ov) (ft_low ft, s0) of (l, s1) \<Rightarrow>
        case applyDecimalField dl (fto_average ov) (ft_average ft, s1) of (a, s2) \<Rightarrow>
        case applyDecimalField dl (fto_high ov) (ft_high ft, s2) of (h, s3) \<Rightarrow>
          (ft\<lparr>ft_low := l, ft_average := a, ft_high := h\<rparr>, s3))"

text \<open>\<^verbatim>\<open>slices.IndexFunc\<close> on the denominations: the first token of that denomination, if any.\<close>

fun update_first_token :: "decimal_lib \<Rightarrow> fee_token_override \<Rightarrow> fee_token list \<times> source \<Rightarrow> fee_token list \<times> source" where
  "update_first_token dl ov ([], s) = ([], s)"
| "update_first_token dl ov (ft # fts, s) =
     (if ft_denom ft = fto_denom ov then (case applyFeeToken dl ov (ft, s) of (ft', s') \<Rightarrow> (ft' # fts, s'))
      else case update_first_token dl ov (fts, s) of (fts', s') \<Rightarrow> (ft # fts', s'))"

fun applyFeeTokens :: "decimal_lib \<Rightarrow> fee_token_override list \<Rightarrow> chain_info \<times> field_sources \<Rightarrow> chain_info \<times> field_sources" where
  "applyFeeTokens dl [] is = is"
| "applyFeeTokens dl (ov # ovs) (info, src) =
     (case update_first_token dl ov (ci_fee_tokens info, src_fee_tokens src) of (fts, s) \<Rightarrow>
        applyFeeTokens dl ovs (info\<lparr>ci_fee_tokens := fts\<rparr>, src\<lparr>src_fee_tokens := s\<rparr>))"

definition applyOverride :: "decimal_lib \<Rightarrow> chain_override \<Rightarrow> chain_info \<times> field_sources \<Rightarrow> chain_info \<times> field_sources" where
  "applyOverride dl ov is0 =
     (let is1 = if_some (co_enabled ov) (\<lambda>x (i, s). (i\<lparr>ci_enabled := x\<rparr>, s)) is0;
          is2 = if_some (co_chain_name ov) (\<lambda>x (i, s). (i\<lparr>ci_chain_name := x\<rparr>, s\<lparr>src_identity := SourceConfig\<rparr>)) is1;
          is3 = if_some (co_network_type ov) (\<lambda>x (i, s). (i\<lparr>ci_network_type := x\<rparr>, s\<lparr>src_identity := SourceConfig\<rparr>)) is2;
          is4 = if_some (co_key_algo ov) (\<lambda>x (i, s). (i\<lparr>ci_key_algo := x\<rparr>, s\<lparr>src_address := SourceConfig\<rparr>)) is3;
          is5 = if_some (co_bech32_prefix ov) (\<lambda>x (i, s). (i\<lparr>ci_bech32_prefix := x\<rparr>, s\<lparr>src_address := SourceConfig\<rparr>)) is4;
          is6 = if_some (co_slip44 ov) (\<lambda>x (i, s). (i\<lparr>ci_slip44 := x\<rparr>, s\<lparr>src_address := SourceConfig\<rparr>)) is5;
          is7 = if_some (co_block_time ov) (\<lambda>x (i, s). (i\<lparr>ci_block_time := x\<rparr>, s\<lparr>src_block_time := SourceConfig\<rparr>)) is6
      in applyFeeTokens dl (co_fee_tokens ov) (applyEndpoints (co_endpoints ov) is7))"

subsection \<open>Fetched data\<close>

record raw_fee_token =
  rft_denom :: string
  rft_low :: string
  rft_average :: string
  rft_high :: string
  rft_display :: string
  rft_exponent :: nat

record raw_chain_info =
  rci_chain_id :: string
  rci_chain_name :: string
  rci_network_type :: string
  rci_pretty_name :: string
  rci_bech32_prefix :: string
  rci_slip44 :: nat
  rci_key_algos :: "string list"
  rci_fee_tokens :: "raw_fee_token list"
  rci_grpc :: "(string \<times> string) list"
  rci_rpc :: "(string \<times> string) list"
  rci_rest :: "(string \<times> string) list"

record snapshot =
  snap_revision :: string
  snap_chains :: "string \<rightharpoonup> raw_chain_info"
  snap_ibc_channels :: "ibc_channel list"

definition networkTypeFromString :: "string \<Rightarrow> string" where
  "networkTypeFromString s =
     (if to_lower s = ''testnet'' then ''testnet'' else if to_lower s = ''devnet'' then ''devnet'' else ''mainnet'')"

fun keyAlgoFromStrings :: "string list \<Rightarrow> string" where
  "keyAlgoFromStrings [] = ''secp256k1''"
| "keyAlgoFromStrings (a # as) = (if equal_fold a ''ethsecp256k1'' then ''ethsecp256k1'' else keyAlgoFromStrings as)"

definition rawEndpointsToEndpoints :: "(string \<times> string) list \<Rightarrow> endpoint list" where
  "rawEndpointsToEndpoints raw = map (\<lambda>(a, p). \<lparr>ept_url = a, ept_provider = p\<rparr>) raw"

definition decimalFromNumber :: "decimal_lib \<Rightarrow> string \<Rightarrow> decimal" where
  "decimalFromNumber dl n =
     (if n = '''' then decimal_Zero else case dl_parse dl n of Some d \<Rightarrow> d | None \<Rightarrow> decimal_Zero)"

definition rawToInfo :: "decimal_lib \<Rightarrow> raw_chain_info \<Rightarrow> chain_info" where
  "rawToInfo dl raw =
     \<lparr>ci_chain_id = rci_chain_id raw, ci_chain_name = rci_chain_name raw,
      ci_network_type = networkTypeFromString (rci_network_type raw), ci_pretty_name = rci_pretty_name raw,
      ci_bech32_prefix = rci_bech32_prefix raw, ci_slip44 = rci_slip44 raw, ci_key_algo = keyAlgoFromStrings (rci_key_algos raw),
      ci_endpoints = \<lparr>eps_grpc = rawEndpointsToEndpoints (rci_grpc raw), eps_rpc = rawEndpointsToEndpoints (rci_rpc raw),
                      eps_rest = rawEndpointsToEndpoints (rci_rest raw)\<rparr>,
      ci_fee_tokens = map (\<lambda>rt. \<lparr>ft_denom = rft_denom rt, ft_low = decimalFromNumber dl (rft_low rt),
                        ft_average = decimalFromNumber dl (rft_average rt), ft_high = decimalFromNumber dl (rft_high rt),
                        ft_display = rft_display rt, ft_exponent = rft_exponent rt\<rparr>) (rci_fee_tokens raw),
      ci_block_time = 0, ci_enabled = False, ci_last_changed = 0, ci_sources = setAll SourceLive\<rparr>"

subsection \<open>Comparing and accepting fields\<close>

definition feeTokenDenoms :: "fee_token list \<Rightarrow> string list" where "feeTokenDenoms fts = map ft_denom fts"

definition feeTokenGasSummary :: "decimal_lib \<Rightarrow> (fee_token \<Rightarrow> decimal) \<Rightarrow> fee_token list \<Rightarrow> string" where
  "feeTokenGasSummary dl tier fts = concat (map (\<lambda>ft. ft_denom ft @ ''='' @ dl_string dl (tier ft) @ '';'') fts)"

definition feeTokenDisplaySummary :: "fee_token list \<Rightarrow> string" where
  "feeTokenDisplaySummary fts = concat (map (\<lambda>ft. ft_denom ft @ ''='' @ ft_display ft @ '';'') fts)"

fun fieldValues :: "decimal_lib \<Rightarrow> chain_info \<Rightarrow> chain_info \<Rightarrow> field \<Rightarrow> field_value \<times> field_value \<times> bool" where
  "fieldValues dl old cur FieldChainID =
     (FVString (ci_chain_id old), FVString (ci_chain_id cur), ci_chain_id old \<noteq> ci_chain_id cur)"
| "fieldValues dl old cur FieldChainName =
     (FVString (ci_chain_name old), FVString (ci_chain_name cur), ci_chain_name old \<noteq> ci_chain_name cur)"
| "fieldValues dl old cur FieldNetworkType =
     (FVNetworkType (ci_network_type old), FVNetworkType (ci_network_type cur), ci_network_type old \<noteq> ci_network_type cur)"
| "fieldValues dl old cur FieldPrettyName =
     (FVString (ci_pretty_name old), FVString (ci_pretty_name cur), ci_pretty_name old \<noteq> ci_pretty_name cur)"
| "fieldValues dl old cur FieldBech32Prefix =
     (FVString (ci_bech32_prefix old), FVString (ci_bech32_prefix cur), ci_bech32_prefix old \<noteq> ci_bech32_prefix cur)"
| "fieldValues dl old cur FieldSlip44 =
     (FVUint32 (ci_slip44 old), FVUint32 (ci_slip44 cur), ci_slip44 old \<noteq> ci_slip44 cur)"
| "fieldValues dl old cur FieldKeyAlgo =
     (FVKeyAlgo (ci_key_algo old), FVKeyAlgo (ci_key_algo cur), ci_key_algo old \<noteq> ci_key_algo cur)"
| "fieldValues dl old cur FieldEndpointsGRPC =
     (FVEndpoints (eps_grpc (ci_endpoints old)), FVEndpoints (eps_grpc (ci_endpoints cur)),
      eps_grpc (ci_endpoints old) \<noteq> eps_grpc (ci_endpoints cur))"
| "fieldValues dl old cur FieldEndpointsRPC =
     (FVEndpoints (eps_rpc (ci_endpoints old)), FVEndpoints (eps_rpc (ci_endpoints cur)),
      eps_rpc (ci_endpoints old) \<noteq> eps_rpc (ci_endpoints cur))"
| "fieldValues dl old cur FieldEndpointsREST =
     (FVEndpoints (eps_rest (ci_endpoints old)), FVEndpoints (eps_rest (ci_endpoints cur)),
      eps_rest (ci_endpoints old) \<noteq> eps_rest (ci_endpoints cur))"
| "fieldValues dl old cur FieldBlockTime =
     (FVDuration (ci_block_time old), FVDuration (ci_block_time cur), ci_block_time old \<noteq> ci_block_time cur)"
| "fieldValues dl old cur FieldFeeTokensDenom =
     (FVFeeTokens (ci_fee_tokens old), FVFeeTokens (ci_fee_tokens cur),
      feeTokenDenoms (ci_fee_tokens old) \<noteq> feeTokenDenoms (ci_fee_tokens cur))"
| "fieldValues dl old cur FieldFeeTokensLowGasPrice =
     (let os = feeTokenGasSummary dl ft_low (ci_fee_tokens old); ns = feeTokenGasSummary dl ft_low (ci_fee_tokens cur)
      in (FVString os, FVString ns, os \<noteq> ns))"
| "fieldValues dl old cur FieldFeeTokensAvgGasPrice =
     (let os = feeTokenGasSummary dl ft_average (ci_fee_tokens old); ns = feeTokenGasSummary dl ft_average (ci_fee_tokens cur)
      in (FVString os, FVString ns, os \<noteq> ns))"
| "fieldValues dl old cur FieldFeeTokensHighGasPrice =
     (let os = feeTokenGasSummary dl ft_high (ci_fee_tokens old); ns = feeTokenGasSummary dl ft_high (ci_fee_tokens cur)
      in (FVString os, FVString ns, os \<noteq> ns))"
| "fieldValues dl old cur FieldFeeTokensDisplay =
     (let os = feeTokenDisplaySummary (ci_fee_tokens old); ns = feeTokenDisplaySummary (ci_fee_tokens cur)
      in (FVString os, FVString ns, os \<noteq> ns))"
| "fieldValues dl old cur FieldFeeTokensExponent =
     (FVFeeTokens (ci_fee_tokens old), FVFeeTokens (ci_fee_tokens cur), ci_fee_tokens old \<noteq> ci_fee_tokens cur)"

text \<open>\<^const>\<open>None\<close> is the error for a field that is not under the freeze policy; a value of the wrong type is ignored.\<close>

fun applyAcceptedField :: "field \<Rightarrow> field_value \<Rightarrow> chain_info \<Rightarrow> chain_info option" where
  "applyAcceptedField FieldChainID v info = Some (case v of FVString s \<Rightarrow> info\<lparr>ci_chain_id := s\<rparr> | _ \<Rightarrow> info)"
| "applyAcceptedField FieldChainName v info = Some (case v of FVString s \<Rightarrow> info\<lparr>ci_chain_name := s\<rparr> | _ \<Rightarrow> info)"
| "applyAcceptedField FieldNetworkType v info =
     Some (case v of FVNetworkType s \<Rightarrow> info\<lparr>ci_network_type := s\<rparr> | FVString s \<Rightarrow> info\<lparr>ci_network_type := s\<rparr> | _ \<Rightarrow> info)"
| "applyAcceptedField FieldBech32Prefix v info = Some (case v of FVString s \<Rightarrow> info\<lparr>ci_bech32_prefix := s\<rparr> | _ \<Rightarrow> info)"
| "applyAcceptedField FieldSlip44 v info = Some (case v of FVUint32 n \<Rightarrow> info\<lparr>ci_slip44 := n\<rparr> | _ \<Rightarrow> info)"
| "applyAcceptedField FieldKeyAlgo v info =
     Some (case v of FVKeyAlgo s \<Rightarrow> info\<lparr>ci_key_algo := s\<rparr> | FVString s \<Rightarrow> info\<lparr>ci_key_algo := s\<rparr> | _ \<Rightarrow> info)"
| "applyAcceptedField FieldFeeTokensDenom v info = Some (case v of FVFeeTokens f \<Rightarrow> info\<lparr>ci_fee_tokens := f\<rparr> | _ \<Rightarrow> info)"
| "applyAcceptedField _ v info = None"

subsection \<open>The store\<close>

text \<open>The pending map is keyed by chain and field, which the code joins with a colon. \<^verbatim>\<open>resolveStandalone\<close> copies the base
  struct but not its fee token array, which \<^verbatim>\<open>applyFeeTokens\<close> then writes in place: the base and the resolved entry see the same
  tokens. \<^verbatim>\<open>st_fee_shared\<close> holds the standalone chains whose resolved entry still shares the array of the base (accepting a change of
  the denominations gives the entry another array).\<close>

record registry_store =
  st_chains :: "string \<rightharpoonup> chain_info"
  st_standalone_base :: "string \<rightharpoonup> chain_info"
  st_live :: "snapshot option"
  st_ibc_channels :: "ibc_channel list"
  st_overrides :: "override_set option"
  st_pending :: "string \<times> field \<rightharpoonup> pending_change"
  st_fee_shared :: "string set"

definition New_store :: "override_set option \<Rightarrow> registry_store" where
  "New_store ov =
     \<lparr>st_chains = Map.empty, st_standalone_base = Map.empty, st_live = None, st_ibc_channels = [], st_overrides = ov,
      st_pending = Map.empty, st_fee_shared = {}\<rparr>"

definition with_override :: "decimal_lib \<Rightarrow> override_set option \<Rightarrow> string \<Rightarrow> source \<Rightarrow> chain_info \<Rightarrow> chain_info" where
  "with_override dl ovs chainID src base =
     (case (case ovs of None \<Rightarrow> None | Some m \<Rightarrow> m chainID) of
        None \<Rightarrow> base\<lparr>ci_sources := setAll src\<rparr>
      | Some ov \<Rightarrow> (case applyOverride dl ov (base, setAll src) of (info, sources) \<Rightarrow> info\<lparr>ci_sources := sources\<rparr>))"

definition resolveUnsafe :: "decimal_lib \<Rightarrow> registry_store \<Rightarrow> string \<Rightarrow> chain_info option" where
  "resolveUnsafe dl s chainID =
     (case st_live s of
        None \<Rightarrow> None
      | Some snap \<Rightarrow>
          (case snap_chains snap chainID of
             None \<Rightarrow> None
           | Some raw \<Rightarrow> Some (with_override dl (st_overrides s) chainID SourceLive (rawToInfo dl raw))))"

definition resolveStandalone :: "decimal_lib \<Rightarrow> registry_store \<Rightarrow> chain_info \<Rightarrow> chain_info" where
  "resolveStandalone dl s base = with_override dl (st_overrides s) (ci_chain_id base) SourceConfig base"

fun AddStandalone :: "decimal_lib \<Rightarrow> int \<Rightarrow> chain_info list \<Rightarrow> registry_store \<Rightarrow> registry_store" where
  "AddStandalone dl now [] s = s"
| "AddStandalone dl now (info # infos) s =
     (let resolved = (resolveStandalone dl s info)\<lparr>ci_last_changed := now\<rparr>
      in AddStandalone dl now infos
           (s\<lparr>st_standalone_base := (st_standalone_base s)(ci_chain_id info \<mapsto> info\<lparr>ci_fee_tokens := ci_fee_tokens resolved\<rparr>),
              st_chains := (st_chains s)(ci_chain_id info \<mapsto> resolved),
              st_fee_shared := insert (ci_chain_id info) (st_fee_shared s)\<rparr>))"

definition is_standalone :: "registry_store \<Rightarrow> string \<Rightarrow> bool" where
  "is_standalone s chainID \<longleftrightarrow> st_standalone_base s chainID \<noteq> None"

definition Get :: "registry_store \<Rightarrow> string \<Rightarrow> chain_info option" where "Get s chainID = st_chains s chainID"

text \<open>\<^verbatim>\<open>List\<close>, \<^verbatim>\<open>IDs\<close> and \<^verbatim>\<open>Pending\<close>: the keys in iteration order, sorted.\<close>

definition List_chains :: "string list \<Rightarrow> registry_store \<Rightarrow> chain_info list" where
  "List_chains ord s = sort_key ci_chain_id (List.map_filter (st_chains s) ord)"

definition IDs :: "string list \<Rightarrow> registry_store \<Rightarrow> string list" where
  "IDs ord s = sort (filter (\<lambda>c. st_chains s c \<noteq> None) ord)"

fun field_name :: "field \<Rightarrow> string" where
  "field_name FieldChainID = ''ChainID''"
| "field_name FieldChainName = ''ChainName''"
| "field_name FieldNetworkType = ''NetworkType''"
| "field_name FieldPrettyName = ''PrettyName''"
| "field_name FieldBech32Prefix = ''Bech32Prefix''"
| "field_name FieldSlip44 = ''Slip44''"
| "field_name FieldKeyAlgo = ''KeyAlgo''"
| "field_name FieldEndpointsGRPC = ''Endpoints.GRPC''"
| "field_name FieldEndpointsRPC = ''Endpoints.RPC''"
| "field_name FieldEndpointsREST = ''Endpoints.REST''"
| "field_name FieldBlockTime = ''BlockTime''"
| "field_name FieldFeeTokensDenom = ''FeeTokens.Denom''"
| "field_name FieldFeeTokensLowGasPrice = ''FeeTokens.LowGasPrice''"
| "field_name FieldFeeTokensAvgGasPrice = ''FeeTokens.AverageGasPrice''"
| "field_name FieldFeeTokensHighGasPrice = ''FeeTokens.HighGasPrice''"
| "field_name FieldFeeTokensDisplay = ''FeeTokens.Display''"
| "field_name FieldFeeTokensExponent = ''FeeTokens.Exponent''"

definition Pending :: "(string \<times> field) list \<Rightarrow> registry_store \<Rightarrow> pending_change list" where
  "Pending ord s =
     sort_key pc_chain_id (sort_key (\<lambda>pc. field_name (pc_field pc)) (List.map_filter (st_pending s) ord))"

text \<open>The loop over the fields in \<^verbatim>\<open>applyChainUpdate\<close>: the new information, the pending map and the change set evolve.\<close>

record update_acc =
  ua_info :: chain_info
  ua_pending :: "string \<times> field \<rightharpoonup> pending_change"
  ua_changes :: change_set
  ua_changed :: bool

definition update_field :: "decimal_lib \<Rightarrow> string \<Rightarrow> chain_info \<Rightarrow> int \<Rightarrow> field \<Rightarrow> update_acc \<Rightarrow> update_acc" where
  "update_field dl chainID old now f a =
     (case fieldValues dl old (ua_info a) f of (ov, nv, changed) \<Rightarrow>
        if \<not> changed then a\<lparr>ua_pending := (ua_pending a)((chainID, f) := None)\<rparr>
        else
          let fc = \<lparr>fc_chain_id = chainID, fc_field = f, fc_old_value = ov, fc_new_value = nv\<rparr>;
              cs = ua_changes a
          in case classify f of
               FieldPolicyHotReload \<Rightarrow>
                 a\<lparr>ua_changed := True, ua_changes := cs\<lparr>cs_hot_reloaded := cs_hot_reloaded cs @ [fc]\<rparr>\<rparr>
             | FieldPolicyWarn \<Rightarrow>
                 a\<lparr>ua_changed := True, ua_changes := cs\<lparr>cs_warned := cs_warned cs @ [fc]\<rparr>\<rparr>
             | FieldPolicyFreeze \<Rightarrow>
                 a\<lparr>ua_changed := True, ua_changes := cs\<lparr>cs_frozen := cs_frozen cs @ [fc]\<rparr>,
                   ua_pending := (ua_pending a)((chainID, f) \<mapsto>
                     \<lparr>pc_chain_id = chainID, pc_field = f, pc_old_value = ov, pc_new_value = nv, pc_detected_at = now,
                      pc_source = SourceLive\<rparr>),
                   ua_info := case_option (ua_info a) id (applyAcceptedField f ov (ua_info a))\<rparr>)"

definition applyChainUpdate ::
    "decimal_lib \<Rightarrow> string \<Rightarrow> chain_info \<Rightarrow> chain_info \<Rightarrow> int \<Rightarrow> registry_store \<times> change_set \<Rightarrow> registry_store \<times> change_set" where
  "applyChainUpdate dl chainID old newInfo now sc =
     (case sc of (s, cs) \<Rightarrow>
        let a = fold (update_field dl chainID old now) classifiableFields
                  \<lparr>ua_info = newInfo, ua_pending = st_pending s, ua_changes = cs, ua_changed = False\<rparr>;
            info = (ua_info a)\<lparr>ci_last_changed := (if ua_changed a then now else ci_last_changed old)\<rparr>
        in (s\<lparr>st_chains := (st_chains s)(chainID \<mapsto> info), st_pending := ua_pending a\<rparr>, ua_changes a))"

definition update_chain ::
    "decimal_lib \<Rightarrow> bool \<Rightarrow> int \<Rightarrow> string \<Rightarrow> registry_store \<times> change_set \<Rightarrow> registry_store \<times> change_set" where
  "update_chain dl firstCall now chainID sc =
     (case sc of (s, cs) \<Rightarrow>
        if is_standalone s chainID then sc
        else case resolveUnsafe dl s chainID of
               None \<Rightarrow> sc
             | Some newInfo \<Rightarrow>
                 (case st_chains s chainID of
                    None \<Rightarrow> (s\<lparr>st_chains := (st_chains s)(chainID \<mapsto> newInfo\<lparr>ci_last_changed := now\<rparr>)\<rparr>, cs)
                  | Some old \<Rightarrow>
                      if firstCall then (s\<lparr>st_chains := (st_chains s)(chainID \<mapsto> newInfo\<lparr>ci_last_changed := now\<rparr>)\<rparr>, cs)
                      else applyChainUpdate dl chainID old newInfo now sc))"

definition disable_missing :: "snapshot \<Rightarrow> string \<Rightarrow> registry_store \<times> change_set \<Rightarrow> registry_store \<times> change_set" where
  "disable_missing snap chainID sc =
     (case sc of (s, cs) \<Rightarrow>
        if is_standalone s chainID \<or> snap_chains snap chainID \<noteq> None then sc
        else case st_chains s chainID of
               None \<Rightarrow> sc
             | Some info \<Rightarrow>
                 if ci_enabled info
                 then (s\<lparr>st_chains := (st_chains s)(chainID \<mapsto> info\<lparr>ci_enabled := False\<rparr>)\<rparr>,
                       cs\<lparr>cs_removed := cs_removed cs @ [chainID]\<rparr>)
                 else sc)"

text \<open>\<^verbatim>\<open>ord1\<close> lists the keys of the snapshot, \<^verbatim>\<open>ord2\<close> those of the resolved view, in iteration order.\<close>

definition UpdateLive ::
    "decimal_lib \<Rightarrow> string list \<Rightarrow> string list \<Rightarrow> int \<Rightarrow> snapshot \<Rightarrow> registry_store \<Rightarrow> registry_store \<times> change_set" where
  "UpdateLive dl ord1 ord2 now snap s0 =
     (let firstCall = (st_live s0 = None);
          s = s0\<lparr>st_live := Some snap, st_ibc_channels := snap_ibc_channels snap\<rparr>;
          cs0 = \<lparr>cs_hot_reloaded = [], cs_warned = [], cs_frozen = [], cs_removed = []\<rparr>
      in fold (disable_missing snap) ord2 (fold (update_chain dl firstCall now) ord1 (s, cs0)))"

datatype registry_error = ErrChainNotFound | ErrPendingChange | ErrUnhandledField

definition Accept :: "string \<Rightarrow> field \<Rightarrow> registry_store \<Rightarrow> (registry_error, registry_store) result" where
  "Accept chainID f s =
     (case st_pending s (chainID, f) of
        None \<Rightarrow> Err ErrPendingChange
      | Some pc \<Rightarrow>
          (case st_chains s chainID of
             None \<Rightarrow> Err ErrChainNotFound
           | Some info \<Rightarrow>
               (case applyAcceptedField f (pc_new_value pc) info of
                  None \<Rightarrow> Err ErrUnhandledField
                | Some updated \<Rightarrow>
                    Ok (s\<lparr>st_chains := (st_chains s)(chainID \<mapsto> updated),
                          st_pending := (st_pending s)((chainID, f) := None),
                          st_fee_shared := (if f = FieldFeeTokensDenom then st_fee_shared s - {chainID} else st_fee_shared s)\<rparr>))))"

definition any_changed :: "decimal_lib \<Rightarrow> chain_info \<Rightarrow> chain_info \<Rightarrow> bool" where
  "any_changed dl old new = list_ex (\<lambda>f. snd (snd (fieldValues dl old new f))) classifiableFields"

text \<open>For a standalone chain the entry that is compared has already been written through the shared array.\<close>

definition reresolve :: "decimal_lib \<Rightarrow> int \<Rightarrow> string \<Rightarrow> registry_store \<Rightarrow> registry_store" where
  "reresolve dl now chainID s =
     (case st_chains s chainID of
        None \<Rightarrow> s
      | Some old \<Rightarrow>
          (case st_standalone_base s chainID of
             Some base \<Rightarrow>
               (let newInfo = resolveStandalone dl s base;
                    old' = (if chainID \<in> st_fee_shared s then old\<lparr>ci_fee_tokens := ci_fee_tokens newInfo\<rparr> else old)
                in s\<lparr>st_chains := (st_chains s)(chainID \<mapsto>
                       newInfo\<lparr>ci_last_changed := (if any_changed dl old' newInfo then now else ci_last_changed old)\<rparr>),
                     st_standalone_base := (st_standalone_base s)(chainID \<mapsto> base\<lparr>ci_fee_tokens := ci_fee_tokens newInfo\<rparr>),
                     st_fee_shared := insert chainID (st_fee_shared s)\<rparr>)
           | None \<Rightarrow>
               (case resolveUnsafe dl s chainID of
                  None \<Rightarrow> s
                | Some newInfo \<Rightarrow>
                    s\<lparr>st_chains := (st_chains s)(chainID \<mapsto>
                       newInfo\<lparr>ci_last_changed := (if any_changed dl old newInfo then now else ci_last_changed old)\<rparr>)\<rparr>)))"

definition SetOverrides :: "decimal_lib \<Rightarrow> string list \<Rightarrow> int \<Rightarrow> override_set option \<Rightarrow> registry_store \<Rightarrow> registry_store" where
  "SetOverrides dl ord now ov s = fold (reresolve dl now) ord (s\<lparr>st_overrides := ov\<rparr>)"

definition AllIBCChannels :: "registry_store \<Rightarrow> ibc_channel list" where "AllIBCChannels s = st_ibc_channels s"

definition ChannelsFor :: "registry_store \<Rightarrow> string \<Rightarrow> ibc_channel list" where
  "ChannelsFor s chainName = filter (\<lambda>c. ChannelFor c chainName \<noteq> None) (st_ibc_channels s)"

text \<open>The fields under the freeze policy, and the reference description of what an update makes of them.\<close>

definition freeze_fields :: "field list" where
  "freeze_fields = [FieldChainID, FieldChainName, FieldNetworkType, FieldBech32Prefix, FieldSlip44, FieldKeyAlgo, FieldFeeTokensDenom]"

definition frozen_merge :: "chain_info \<Rightarrow> chain_info \<Rightarrow> chain_info" where
  "frozen_merge old new =
     new\<lparr>ci_chain_id := ci_chain_id old, ci_chain_name := ci_chain_name old, ci_network_type := ci_network_type old,
         ci_bech32_prefix := ci_bech32_prefix old, ci_slip44 := ci_slip44 old, ci_key_algo := ci_key_algo old,
         ci_fee_tokens := (if feeTokenDenoms (ci_fee_tokens old) \<noteq> feeTokenDenoms (ci_fee_tokens new)
                           then ci_fee_tokens old else ci_fee_tokens new)\<rparr>"

definition frozen_view :: "chain_info \<Rightarrow> string \<times> string \<times> string \<times> string \<times> nat \<times> string \<times> string list" where
  "frozen_view i = (ci_chain_id i, ci_chain_name i, ci_network_type i, ci_bech32_prefix i, ci_slip44 i, ci_key_algo i,
     feeTokenDenoms (ci_fee_tokens i))"

definition field_changed :: "decimal_lib \<Rightarrow> chain_info \<Rightarrow> chain_info \<Rightarrow> field \<Rightarrow> bool" where
  "field_changed dl old new f = snd (snd (fieldValues dl old new f))"

definition pending_for :: "decimal_lib \<Rightarrow> string \<Rightarrow> chain_info \<Rightarrow> chain_info \<Rightarrow> int \<Rightarrow> field \<Rightarrow> pending_change option" where
  "pending_for dl c old new now f =
     (if field_changed dl old new f
      then Some \<lparr>pc_chain_id = c, pc_field = f, pc_old_value = fst (fieldValues dl old new f),
                 pc_new_value = fst (snd (fieldValues dl old new f)), pc_detected_at = now, pc_source = SourceLive\<rparr>
      else None)"

definition freeze_info :: "decimal_lib \<Rightarrow> chain_info \<Rightarrow> field \<Rightarrow> chain_info \<Rightarrow> chain_info" where
  "freeze_info dl old f info =
     (if classify f = FieldPolicyFreeze \<and> field_changed dl old info f
      then case_option info id (applyAcceptedField f (fst (fieldValues dl old info f)) info) else info)"

text \<open>What the view of one chain consists of; an update of another chain leaves it alone.\<close>

definition same_for :: "string \<Rightarrow> registry_store \<Rightarrow> registry_store \<Rightarrow> bool" where
  "same_for c s s' \<longleftrightarrow> st_chains s' c = st_chains s c \<and> (\<forall>f. st_pending s' (c, f) = st_pending s (c, f)) \<and>
     st_standalone_base s' c = st_standalone_base s c \<and> st_live s' = st_live s \<and> st_overrides s' = st_overrides s"

text \<open>The live information of a chain as the store resolves it.\<close>

definition resolved :: "decimal_lib \<Rightarrow> registry_store \<Rightarrow> string \<Rightarrow> raw_chain_info \<Rightarrow> chain_info" where
  "resolved dl s c raw = with_override dl (st_overrides s) c SourceLive (rawToInfo dl raw)"

definition accept_all :: "string \<Rightarrow> field list \<Rightarrow> registry_store \<Rightarrow> registry_store" where
  "accept_all c fs s = fold (\<lambda>f s. case Accept c f s of Inl _ \<Rightarrow> s | Inr s' \<Rightarrow> s') fs s"

text \<open>What accepting the pending change of a field does to the information: it takes the new value if it is pending.\<close>

definition take_new :: "decimal_lib \<Rightarrow> chain_info \<Rightarrow> chain_info \<Rightarrow> field \<Rightarrow> chain_info \<Rightarrow> chain_info" where
  "take_new dl old new f i =
     (if field_changed dl old new f then case_option i id (applyAcceptedField f (fst (snd (fieldValues dl old new f))) i) else i)"

definition ex_raw :: "string \<Rightarrow> raw_chain_info" where
  "ex_raw prefix =
     \<lparr>rci_chain_id = ''hub-1'', rci_chain_name = ''hub'', rci_network_type = ''testnet'', rci_pretty_name = ''Hub'',
      rci_bech32_prefix = prefix, rci_slip44 = 118, rci_key_algos = [], rci_fee_tokens = [], rci_grpc = [], rci_rpc = [], rci_rest = []\<rparr>"

definition ex_dl :: decimal_lib where "ex_dl = \<lparr>dl_parse = (\<lambda>_. None), dl_string = (\<lambda>_. ''0'')\<rparr>"

definition ex_snap :: "string \<Rightarrow> snapshot" where
  "ex_snap prefix = \<lparr>snap_revision = ''r'', snap_chains = [''hub-1'' \<mapsto> ex_raw prefix], snap_ibc_channels = []\<rparr>"

definition ex_store :: registry_store where
  "ex_store = fst (UpdateLive ex_dl [''hub-1''] [''hub-1''] 5 (ex_snap ''cosmos'') (New_store None))"

subsection \<open>One chain under an update\<close>

lemma ua_info_update: "ua_info (update_field dl c old now f a) = freeze_info dl old f (ua_info a)"
  by (auto simp: update_field_def freeze_info_def field_changed_def Let_def split: prod.splits field_policy.splits)

lemma ua_info_fold: "ua_info (fold (update_field dl c old now) fs a) = fold (freeze_info dl old) fs (ua_info a)"
  by (induction fs arbitrary: a) (simp_all add: ua_info_update)

lemma freeze_info_simps [simp]:
  "freeze_info dl old FieldChainID i = i\<lparr>ci_chain_id := ci_chain_id old\<rparr>"
  "freeze_info dl old FieldChainName i = i\<lparr>ci_chain_name := ci_chain_name old\<rparr>"
  "freeze_info dl old FieldNetworkType i = i\<lparr>ci_network_type := ci_network_type old\<rparr>"
  "freeze_info dl old FieldBech32Prefix i = i\<lparr>ci_bech32_prefix := ci_bech32_prefix old\<rparr>"
  "freeze_info dl old FieldSlip44 i = i\<lparr>ci_slip44 := ci_slip44 old\<rparr>"
  "freeze_info dl old FieldKeyAlgo i = i\<lparr>ci_key_algo := ci_key_algo old\<rparr>"
  "freeze_info dl old FieldFeeTokensDenom i =
     i\<lparr>ci_fee_tokens := (if feeTokenDenoms (ci_fee_tokens old) \<noteq> feeTokenDenoms (ci_fee_tokens i)
                          then ci_fee_tokens old else ci_fee_tokens i)\<rparr>"
  by (simp_all add: freeze_info_def field_changed_def)

lemma freeze_info_other: "classify f \<noteq> FieldPolicyFreeze \<Longrightarrow> freeze_info dl old f i = i"
  by (simp add: freeze_info_def)

lemma freeze_info_fold: "fold (freeze_info dl old) classifiableFields new = frozen_merge old new"
  by (simp add: classifiableFields_def freeze_info_other frozen_merge_def)

lemma frozen_view_merge: "frozen_view (frozen_merge old new) = frozen_view old"
  by (auto simp: frozen_view_def frozen_merge_def)

lemma ua_pending_update:
  "ua_pending (update_field dl c old now f a) =
   (ua_pending a)((c, f) := (if field_changed dl old (ua_info a) f
      then if classify f = FieldPolicyFreeze then pending_for dl c old (ua_info a) now f else ua_pending a (c, f) else None))"
  by (auto simp: update_field_def field_changed_def pending_for_def Let_def split: prod.splits field_policy.splits)

lemma ua_pending_other: "ua_pending (fold (update_field dl c old now) fs a) k = ua_pending a k" if "k \<notin> Pair c ` set fs"
  using that by (induction fs arbitrary: a) (auto simp: ua_pending_update)

lemma freeze_values_stable:
  "f \<in> set freeze_fields \<Longrightarrow> g \<noteq> f \<Longrightarrow> fieldValues dl old (freeze_info dl old g i) f = fieldValues dl old i f"
  by (cases "classify g = FieldPolicyFreeze"; cases g) (auto simp: freeze_fields_def freeze_info_other)

lemma pending_for_values: "fieldValues dl old i f = fieldValues dl old j f \<Longrightarrow> pending_for dl c old i now f = pending_for dl c old j now f"
  by (simp add: pending_for_def field_changed_def)

lemma ua_pending_fold:
  assumes "f \<in> set freeze_fields" "f \<in> set fs" "distinct fs"
  shows "ua_pending (fold (update_field dl c old now) fs a) (c, f) = pending_for dl c old (ua_info a) now f"
  using assms(2,3)
proof (induction fs arbitrary: a)
  case (Cons g fs)
  have fz: "classify f = FieldPolicyFreeze" using assms(1) by (auto simp: freeze_fields_def)
  show ?case
  proof (cases "g = f")
    case True
    then have "(c, f) \<notin> Pair c ` set fs" using Cons.prems by auto
    then show ?thesis using True fz by (simp add: ua_pending_other ua_pending_update) (simp add: pending_for_def)
  next
    case False
    then have "ua_pending (fold (update_field dl c old now) (g # fs) a) (c, f) =
        pending_for dl c old (freeze_info dl old g (ua_info a)) now f"
      using Cons by (simp add: ua_info_update)
    then show ?thesis using pending_for_values[OF freeze_values_stable[OF assms(1) False]] by simp
  qed
qed simp

lemma distinct_classifiable: "distinct classifiableFields" and freeze_classifiable: "set freeze_fields \<subseteq> set classifiableFields"
  by (auto simp: classifiableFields_def freeze_fields_def)

lemma applyChainUpdate_view:
  assumes "applyChainUpdate dl c old new now (s, cs) = (s', cs')"
  shows "\<exists>t. st_chains s' = (st_chains s)(c \<mapsto> (frozen_merge old new)\<lparr>ci_last_changed := t\<rparr>)"
    and "f \<in> set freeze_fields \<Longrightarrow> st_pending s' (c, f) = pending_for dl c old new now f"
    and "c' \<noteq> c \<Longrightarrow> st_pending s' (c', g) = st_pending s (c', g)"
    and "st_standalone_base s' = st_standalone_base s" "st_live s' = st_live s" "st_overrides s' = st_overrides s"
proof -
  let ?a = "fold (update_field dl c old now) classifiableFields \<lparr>ua_info = new, ua_pending = st_pending s, ua_changes = cs, ua_changed = False\<rparr>"
  have s': "s' = s\<lparr>st_chains := (st_chains s)(c \<mapsto> (frozen_merge old new)\<lparr>ci_last_changed := (if ua_changed ?a then now else ci_last_changed old)\<rparr>),
       st_pending := ua_pending ?a\<rparr>"
    using assms by (auto simp: applyChainUpdate_def Let_def ua_info_fold freeze_info_fold)
  then show "\<exists>t. st_chains s' = (st_chains s)(c \<mapsto> (frozen_merge old new)\<lparr>ci_last_changed := t\<rparr>)" by auto
  show "f \<in> set freeze_fields \<Longrightarrow> st_pending s' (c, f) = pending_for dl c old new now f"
    using s' ua_pending_fold[of f classifiableFields] distinct_classifiable freeze_classifiable by auto
  show "c' \<noteq> c \<Longrightarrow> st_pending s' (c', g) = st_pending s (c', g)" using s' by (simp add: ua_pending_other image_iff)
  show "st_standalone_base s' = st_standalone_base s" "st_live s' = st_live s" "st_overrides s' = st_overrides s" using s' by simp_all
qed

subsection \<open>A whole update\<close>

lemma same_for_refl [simp]: "same_for c s s" by (simp add: same_for_def)

lemma same_for_trans: "same_for c s t \<Longrightarrow> same_for c t u \<Longrightarrow> same_for c s u"
  by (simp add: same_for_def)

lemma update_chain_other:
  assumes "d \<noteq> c"
  shows "same_for c (fst sc) (fst (update_chain dl fc now d sc))"
proof -
  obtain s cs where sc: "sc = (s, cs)" by fastforce
  have "same_for c s (fst (applyChainUpdate dl d old new now (s, cs)))" for old new
  proof -
    obtain s' cs' where a: "applyChainUpdate dl d old new now (s, cs) = (s', cs')" by fastforce
    show ?thesis using applyChainUpdate_view[OF a] assms a by (auto simp: same_for_def)
  qed
  then show ?thesis using assms sc
    by (auto simp: update_chain_def same_for_def split: option.splits)
qed

lemma fold_other:
  assumes "c \<notin> set ord"
  shows "same_for c (fst sc) (fst (fold (update_chain dl fc now) ord sc))"
  using assms
proof (induction ord arbitrary: sc)
  case (Cons d ord)
  then show ?case using update_chain_other[of d c] same_for_trans by (metis fold_simps(2) list.set_intros(1,2))
qed simp

lemma fold_disable:
  assumes "snap_chains snap c \<noteq> None"
  shows "same_for c (fst sc) (fst (fold (disable_missing snap) ord sc))"
proof (induction ord arbitrary: sc)
  case (Cons d ord)
  have "same_for c (fst sc) (fst (disable_missing snap d sc))"
    using assms by (auto simp: disable_missing_def same_for_def split: prod.splits option.splits)
  then show ?case using Cons[of "disable_missing snap d sc"] same_for_trans by simp
qed simp

lemma UpdateLive_chain:
  assumes "st_live s \<noteq> None" "\<not> is_standalone s c" "st_chains s c = Some old" "snap_chains snap c = Some raw"
    and "distinct ord1" "c \<in> set ord1"
  shows "\<exists>t. st_chains (fst (UpdateLive dl ord1 ord2 now snap s)) c =
           Some ((frozen_merge old (resolved dl s c raw))\<lparr>ci_last_changed := t\<rparr>)"
    and "f \<in> set freeze_fields \<Longrightarrow>
         st_pending (fst (UpdateLive dl ord1 ord2 now snap s)) (c, f) = pending_for dl c old (resolved dl s c raw) now f"
    and "st_live (fst (UpdateLive dl ord1 ord2 now snap s)) = Some snap \<and> st_overrides (fst (UpdateLive dl ord1 ord2 now snap s)) = st_overrides s \<and>
         st_standalone_base (fst (UpdateLive dl ord1 ord2 now snap s)) c = st_standalone_base s c"
proof -
  let ?s0 = "s\<lparr>st_live := Some snap, st_ibc_channels := snap_ibc_channels snap\<rparr>"
  let ?cs = "\<lparr>cs_hot_reloaded = [], cs_warned = [], cs_frozen = [], cs_removed = []\<rparr>"
  let ?new = "resolved dl s c raw"
  let ?U = "fst (UpdateLive dl ord1 ord2 now snap s)"
  obtain pre post where ord: "ord1 = pre @ c # post" "c \<notin> set pre" "c \<notin> set post"
    using assms(5,6) by (metis split_list distinct.simps(2) distinct_append not_distinct_conv_prefix)
  have firstCall: "(st_live s = None) = False" using assms(1) by simp
  let ?sc1 = "fold (update_chain dl False now) pre (?s0, ?cs)"
  have 1: "same_for c ?s0 (fst ?sc1)" using fold_other[OF ord(2), of "(?s0, ?cs)"] by simp
  obtain s1 cs1 where s1: "?sc1 = (s1, cs1)" by fastforce
  have "update_chain dl False now c ?sc1 = applyChainUpdate dl c old ?new now (s1, cs1)"
    using 1 s1 assms(2-4) by (simp add: update_chain_def same_for_def is_standalone_def resolveUnsafe_def resolved_def)
  then obtain s2 cs2 where s2: "update_chain dl False now c ?sc1 = (s2, cs2)" "applyChainUpdate dl c old ?new now (s1, cs1) = (s2, cs2)"
    by (metis surj_pair)
  note v = applyChainUpdate_view[OF s2(2)]
  have "?U = fst (fold (disable_missing snap) ord2 (fold (update_chain dl False now) post (s2, cs2)))"
    using firstCall s2(1) by (simp add: UpdateLive_def Let_def ord(1) del: not_None_eq)
  moreover have "same_for c s2 (fst (fold (disable_missing snap) ord2 (fold (update_chain dl False now) post (s2, cs2))))"
    using same_for_trans[OF fold_other[OF ord(3), of "(s2, cs2)"] fold_disable] assms(4) by simp
  ultimately have 2: "same_for c s2 ?U" by simp
  show "\<exists>t. st_chains ?U c = Some ((frozen_merge old ?new)\<lparr>ci_last_changed := t\<rparr>)"
    using 2 v(1) by (auto simp: same_for_def)
  show "f \<in> set freeze_fields \<Longrightarrow> st_pending ?U (c, f) = pending_for dl c old ?new now f"
    using 2 v(2) by (simp add: same_for_def)
  show "st_live ?U = Some snap \<and> st_overrides ?U = st_overrides s \<and> st_standalone_base ?U c = st_standalone_base s c"
    using 1 2 v(4-6) s1 by (simp add: same_for_def)
qed

text \<open>C8: The freeze policy. When a live snapshot updates a registry chain that is already known, every identity field (chain id, name,
  network type, prefix, coin type, key algorithm and fee denominations) keeps its value; each one that differs is queued as a
  pending change with the snapshot's value, and no other is pending. Pretty name, endpoints, block time, the enabled flag and the
  sources take the snapshot's value. The fee tokens take it when their denominations are unchanged; when the denominations differ, the whole
  old list stays, so that new gas prices and display units are withheld with them. This holds for every iteration order of the
  maps.\<close>

theorem UpdateLive_freezes:
  assumes "st_live s \<noteq> None" "\<not> is_standalone s c" "st_chains s c = Some old" "snap_chains snap c = Some raw"
    and "distinct ord1" "c \<in> set ord1"
  shows "\<exists>t. st_chains (fst (UpdateLive dl ord1 ord2 now snap s)) c =
             Some ((frozen_merge old (resolved dl s c raw))\<lparr>ci_last_changed := t\<rparr>) \<and>
           frozen_view ((frozen_merge old (resolved dl s c raw))\<lparr>ci_last_changed := t\<rparr>) = frozen_view old \<and>
           (\<forall>f \<in> set freeze_fields.
              st_pending (fst (UpdateLive dl ord1 ord2 now snap s)) (c, f) = pending_for dl c old (resolved dl s c raw) now f)"
proof -
  have "frozen_view (i\<lparr>ci_last_changed := t\<rparr>) = frozen_view i" for i t by (simp add: frozen_view_def)
  then show ?thesis
    using UpdateLive_chain(1)[OF assms] UpdateLive_chain(2)[OF assms] frozen_view_merge by metis
qed

subsection \<open>Acceptance\<close>

lemma accept_step:
  assumes "st_chains s c = Some i" "st_pending s (c, f) = pending_for dl c old new now f" "f \<in> set freeze_fields"
  shows "\<exists>s'. (case Accept c f s of Inl _ \<Rightarrow> s | Inr s' \<Rightarrow> s') = s' \<and> st_chains s' c = Some (take_new dl old new f i) \<and>
     st_pending s' = (st_pending s)((c, f) := None)"
proof -
  have "applyAcceptedField f (fst (snd (fieldValues dl old new f))) i \<noteq> None" using assms(3) by (auto simp: freeze_fields_def)
  then obtain i' where "applyAcceptedField f (fst (snd (fieldValues dl old new f))) i = Some i'" by blast
  then show ?thesis using assms(1,2) by (simp add: Accept_def take_new_def pending_for_def fun_eq_iff)
qed

lemma accept_all_view:
  assumes "st_chains s c = Some i" "\<And>f. f \<in> set fs \<Longrightarrow> st_pending s (c, f) = pending_for dl c old new now f"
    and "set fs \<subseteq> set freeze_fields" "distinct fs"
  shows "st_chains (accept_all c fs s) c = Some (fold (take_new dl old new) fs i) \<and>
    (\<forall>f. st_pending (accept_all c fs s) (c, f) = (if f \<in> set fs then None else st_pending s (c, f)))"
  using assms
proof (induction fs arbitrary: s i)
  case (Cons f fs)
  from accept_step[of s c i f dl old new now] Cons.prems obtain s' where s': "(case Accept c f s of Inl _ \<Rightarrow> s | Inr s' \<Rightarrow> s') = s'"
    "st_chains s' c = Some (take_new dl old new f i)" "st_pending s' = (st_pending s)((c, f) := None)" by auto
  have run: "accept_all c (f # fs) s = accept_all c fs s'" using s'(1) by (simp add: accept_all_def)
  have pend: "\<And>h. h \<in> set fs \<Longrightarrow> st_pending s' (c, h) = pending_for dl c old new now h"
    using Cons.prems s'(3) by auto
  show ?case using Cons.IH[OF s'(2) pend] Cons.prems s'(3) run by auto
qed (simp add: accept_all_def)

lemma take_new_simps:
  "take_new dl old new FieldChainID i = (if ci_chain_id old \<noteq> ci_chain_id new then i\<lparr>ci_chain_id := ci_chain_id new\<rparr> else i)"
  "take_new dl old new FieldChainName i = (if ci_chain_name old \<noteq> ci_chain_name new then i\<lparr>ci_chain_name := ci_chain_name new\<rparr> else i)"
  "take_new dl old new FieldNetworkType i = (if ci_network_type old \<noteq> ci_network_type new then i\<lparr>ci_network_type := ci_network_type new\<rparr> else i)"
  "take_new dl old new FieldBech32Prefix i = (if ci_bech32_prefix old \<noteq> ci_bech32_prefix new then i\<lparr>ci_bech32_prefix := ci_bech32_prefix new\<rparr> else i)"
  "take_new dl old new FieldSlip44 i = (if ci_slip44 old \<noteq> ci_slip44 new then i\<lparr>ci_slip44 := ci_slip44 new\<rparr> else i)"
  "take_new dl old new FieldKeyAlgo i = (if ci_key_algo old \<noteq> ci_key_algo new then i\<lparr>ci_key_algo := ci_key_algo new\<rparr> else i)"
  "take_new dl old new FieldFeeTokensDenom i =
     (if feeTokenDenoms (ci_fee_tokens old) \<noteq> feeTokenDenoms (ci_fee_tokens new) then i\<lparr>ci_fee_tokens := ci_fee_tokens new\<rparr> else i)"
  by (simp_all add: take_new_def field_changed_def)

lemma take_new_all: "fold (take_new dl old new) freeze_fields ((frozen_merge old new)\<lparr>ci_last_changed := t\<rparr>) = new\<lparr>ci_last_changed := t\<rparr>"
  by (cases old; cases new) (simp add: freeze_fields_def take_new_simps frozen_merge_def)

text \<open>Acceptance converges. After a live update, accepting every pending change of a chain gives exactly the information the
  snapshot and the overrides resolve to, and leaves nothing pending for it.\<close>

theorem accept_all_converges:
  assumes "st_live s \<noteq> None" "\<not> is_standalone s c" "st_chains s c = Some old" "snap_chains snap c = Some raw"
    and "distinct ord1" "c \<in> set ord1"
  shows "\<exists>t. st_chains (accept_all c freeze_fields (fst (UpdateLive dl ord1 ord2 now snap s))) c =
             Some ((resolved dl s c raw)\<lparr>ci_last_changed := t\<rparr>) \<and>
           (\<forall>f \<in> set freeze_fields. st_pending (accept_all c freeze_fields (fst (UpdateLive dl ord1 ord2 now snap s))) (c, f) = None)"
proof -
  obtain t where t: "st_chains (fst (UpdateLive dl ord1 ord2 now snap s)) c =
      Some ((frozen_merge old (resolved dl s c raw))\<lparr>ci_last_changed := t\<rparr>)" using UpdateLive_chain(1)[OF assms] by blast
  have "distinct freeze_fields" by (simp add: freeze_fields_def)
  from accept_all_view[OF t UpdateLive_chain(2)[OF assms] order_refl this]
  show ?thesis by (auto simp: take_new_all)
qed

text \<open>C27: Reloading bypasses the freeze. Re-resolving with the very same overrides, as a configuration reload does, applies every frozen
  change of a live update without acceptance, and leaves the pending entries behind.\<close>

theorem SetOverrides_bypasses_freeze:
  assumes "st_live s \<noteq> None" "\<not> is_standalone s c" "st_chains s c = Some old" "snap_chains snap c = Some raw"
    and "distinct ord1" "c \<in> set ord1" "f \<in> set freeze_fields" "field_changed dl old (resolved dl s c raw) f"
    and "distinct ord" "c \<in> set ord"
  shows "let s1 = fst (UpdateLive dl ord1 ord2 now snap s); s2 = SetOverrides dl ord now' (st_overrides s1) s1
         in (\<exists>t. st_chains s2 c = Some ((resolved dl s c raw)\<lparr>ci_last_changed := t\<rparr>)) \<and> st_pending s2 (c, f) \<noteq> None"
proof -
  define s1 where "s1 = fst (UpdateLive dl ord1 ord2 now snap s)"
  note u = UpdateLive_chain(1)[OF assms(1-6), of dl ord2 now, folded s1_def]
    UpdateLive_chain(2)[OF assms(1-6), of _ dl ord2 now, folded s1_def]
    UpdateLive_chain(3)[OF assms(1-6), of dl ord2 now, folded s1_def]
  obtain t0 where t0: "st_chains s1 c = Some ((frozen_merge old (resolved dl s c raw))\<lparr>ci_last_changed := t0\<rparr>)" using u(1) by blast
  obtain pre post where ord: "ord = pre @ c # post" "c \<notin> set pre" "c \<notin> set post"
    using assms(9,10) by (metis split_list distinct.simps(2) distinct_append not_distinct_conv_prefix)
  have other: "same_for c x (reresolve dl now' d x)" if "d \<noteq> c" for d x
    using that by (auto simp: reresolve_def same_for_def Let_def split: option.splits)
  have others: "same_for c x (fold (reresolve dl now') ds x)" if "c \<notin> set ds" for ds x
    using that
  proof (induction ds arbitrary: x)
    case (Cons d ds)
    then show ?case using other[of d x] same_for_trans by (metis fold_simps(2) list.set_intros(1,2))
  qed simp
  let ?x = "fold (reresolve dl now') pre (s1\<lparr>st_overrides := st_overrides s1\<rparr>)"
  have x: "same_for c s1 ?x" using others[OF ord(2), of s1] by simp
  have "\<exists>t. st_chains (reresolve dl now' c ?x) c = Some ((resolved dl s c raw)\<lparr>ci_last_changed := t\<rparr>) \<and>
      st_pending (reresolve dl now' c ?x) (c, f) = st_pending s1 (c, f)"
    using x t0 u(3) assms(2,4)
    by (auto simp: same_for_def reresolve_def is_standalone_def resolveUnsafe_def resolved_def split: option.splits)
  then obtain t where t: "st_chains (reresolve dl now' c ?x) c = Some ((resolved dl s c raw)\<lparr>ci_last_changed := t\<rparr>)"
    "st_pending (reresolve dl now' c ?x) (c, f) = st_pending s1 (c, f)" by blast
  have "same_for c (reresolve dl now' c ?x) (SetOverrides dl ord now' (st_overrides s1) s1)"
    using others[OF ord(3)] by (simp add: SetOverrides_def ord(1))
  then have "(\<exists>t. st_chains (SetOverrides dl ord now' (st_overrides s1) s1) c = Some ((resolved dl s c raw)\<lparr>ci_last_changed := t\<rparr>)) \<and>
      st_pending (SetOverrides dl ord now' (st_overrides s1) s1) (c, f) \<noteq> None"
    using t u(2)[OF assms(7)] assms(8) by (auto simp: same_for_def pending_for_def)
  then show ?thesis by (simp add: Let_def s1_def)
qed


subsection \<open>A concrete update\<close>

lemma ex_store_simps:
  "st_live ex_store \<noteq> None" "\<not> is_standalone ex_store ''hub-1''" "st_overrides ex_store = None"
  "st_chains ex_store ''hub-1'' =
     Some ((rawToInfo ex_dl (ex_raw ''cosmos''))\<lparr>ci_sources := setAll SourceLive, ci_last_changed := 5\<rparr>)"
  "snap_chains (ex_snap p) ''hub-1'' = Some (ex_raw p)"
  by (simp_all add: ex_store_def UpdateLive_def New_store_def ex_snap_def update_chain_def disable_missing_def is_standalone_def
      resolveUnsafe_def with_override_def)

lemma ex_changed:
  "field_changed ex_dl ((rawToInfo ex_dl (ex_raw ''cosmos''))\<lparr>ci_sources := setAll SourceLive, ci_last_changed := 5\<rparr>)
     (resolved ex_dl ex_store ''hub-1'' (ex_raw ''evil'')) FieldBech32Prefix"
  by (simp add: field_changed_def resolved_def ex_store_simps(3) with_override_def rawToInfo_def ex_raw_def)

theorem UpdateLive_freezes_witness:
  "\<exists>i. st_chains (fst (UpdateLive ex_dl [''hub-1''] [''hub-1''] 9 (ex_snap ''evil'') ex_store)) ''hub-1'' = Some i \<and> ci_bech32_prefix i = ''cosmos''"
  using UpdateLive_freezes[OF ex_store_simps(1,2,4) ex_store_simps(5)[of "''evil''"], of "[''hub-1'']" ex_dl "[''hub-1'']" 9]
  by (auto simp: frozen_view_def rawToInfo_def ex_raw_def)

theorem SetOverrides_bypasses_freeze_witness:
  "\<exists>i s2. s2 = SetOverrides ex_dl [''hub-1''] 10 None (fst (UpdateLive ex_dl [''hub-1''] [''hub-1''] 9 (ex_snap ''evil'') ex_store)) \<and>
     st_chains s2 ''hub-1'' = Some i \<and> ci_bech32_prefix i = ''evil'' \<and> st_pending s2 (''hub-1'', FieldBech32Prefix) \<noteq> None"
proof -
  let ?s1 = "fst (UpdateLive ex_dl [''hub-1''] [''hub-1''] 9 (ex_snap ''evil'') ex_store)"
  have ov: "st_overrides ?s1 = None"
    using UpdateLive_chain(3)[OF ex_store_simps(1,2,4) ex_store_simps(5)[of "''evil''"], of "[''hub-1'']"] ex_store_simps(3) by simp
  show ?thesis
    using SetOverrides_bypasses_freeze[OF ex_store_simps(1,2,4) ex_store_simps(5)[of "''evil''"] _ _ _ ex_changed,
        of "[''hub-1'']" "[''hub-1'']" "[''hub-1'']" 9 10]
    by (simp add: Let_def ov freeze_fields_def) (auto simp: resolved_def ex_store_simps(3) with_override_def rawToInfo_def ex_raw_def)
qed

text \<open>An override of the gas prices of a standalone chain outlives its removal: it was written into the shared base.\<close>

lemma standalone_override_persists:
  assumes "st_standalone_base s c = Some base" "ci_chain_id base = c" "st_chains s c = Some old"
  shows "map_option ci_fee_tokens (st_chains (SetOverrides dl [c] t2 None (SetOverrides dl [c] t1 ov s)) c) =
    Some (ci_fee_tokens (with_override dl ov c SourceConfig base))"
  using assms by (simp add: SetOverrides_def reresolve_def Let_def resolveStandalone_def) (simp add: with_override_def)

end
