(* ===== verification/Ibc.thy ===== *)
theory Ibc
  imports Registry "HOL-Library.Multiset"
begin

text \<open>
  \<^verbatim>\<open>pkg/chainregistry/ibc.go\<close> and \<^verbatim>\<open>fetch.go\<close>: channel files, channel selection, chain names and the concurrent fetch of a snapshot.
  An HTTP exchange is a function from the URL to an outcome whose body is the decoded JSON value (\<^const>\<open>None\<close> when decoding fails).
  The goroutines of a fetch send their results on a channel; the order in which they arrive is an argument.
\<close>

record raw_ibc_channel_side =
  ris_channel_id :: string
  ris_port_id :: string

record raw_ibc_channel =
  ric_chain1 :: raw_ibc_channel_side
  ric_chain2 :: raw_ibc_channel_side
  ric_ordering :: string
  ric_version :: string
  ric_status :: string
  ric_preferred :: bool

record raw_ibc_file =
  rif_chain1 :: string
  rif_chain2 :: string
  rif_channels :: "raw_ibc_channel list"

definition ibcPairFilename :: "string \<Rightarrow> string \<Rightarrow> string" where
  "ibcPairFilename a b = (if a > b then b @ ''-'' @ a @ ''.json'' else a @ ''-'' @ b @ ''.json'')"

definition parseIBCFile :: "raw_ibc_file \<Rightarrow> ibc_channel list" where
  "parseIBCFile raw =
     map (\<lambda>ch. \<lparr>ic_chain_name_a = rif_chain1 raw, ic_chain_name_b = rif_chain2 raw,
                ic_channel_a = ris_channel_id (ric_chain1 ch), ic_channel_b = ris_channel_id (ric_chain2 ch),
                ic_port_a = ris_port_id (ric_chain1 ch), ic_port_b = ris_port_id (ric_chain2 ch),
                ic_ordering = ric_ordering ch, ic_version = ric_version ch, ic_status = ric_status ch,
                ic_preferred = ric_preferred ch\<rparr>)
       (filter (\<lambda>ch. ric_version ch = ''ics20-1'') (rif_channels raw))"

text \<open>The loop of \<^verbatim>\<open>SelectChannel\<close>: the live channels seen so far, in order. The result is the channel, if any, and the ambiguity flag.\<close>

fun select_loop :: "string \<Rightarrow> string \<Rightarrow> ibc_channel list \<Rightarrow> ibc_channel list \<Rightarrow> ibc_channel option \<times> bool" where
  "select_loop src dst [] live = (case live of [] \<Rightarrow> (None, False) | c # cs \<Rightarrow> (Some c, cs \<noteq> []))"
| "select_loop src dst (c # cs) live =
     (case ChannelFor c src of
        None \<Rightarrow> select_loop src dst cs live
      | Some (ch, port, peer) \<Rightarrow>
          if peer \<noteq> dst \<or> ic_status c \<noteq> ''live'' then select_loop src dst cs live
          else if ic_preferred c then (Some c, False)
          else select_loop src dst cs (live @ [c]))"

definition SelectChannel :: "ibc_channel list \<Rightarrow> string \<Rightarrow> string \<Rightarrow> ibc_channel option \<times> bool" where
  "SelectChannel channels src dst = select_loop src dst channels []"

text \<open>\<^verbatim>\<open>regexp -\d+$\<close> replaced by the empty string.\<close>

definition ChainNameFromID :: "string \<Rightarrow> string" where
  "ChainNameFromID chainID =
     (let r = rev chainID; rest = dropWhile is_digit r
      in if rest \<noteq> r \<and> rest \<noteq> [] \<and> hd rest = CHR ''-'' then rev (tl rest) else chainID)"

fun name_pairs :: "string list \<Rightarrow> (string \<times> string) list" where
  "name_pairs [] = []"
| "name_pairs (n # ns) = map (Pair n) ns @ name_pairs ns"

definition chainNamePairs :: "string list \<Rightarrow> (string \<times> string) list" where
  "chainNamePairs chainIDs = name_pairs (map ChainNameFromID chainIDs)"

datatype 'b http_outcome = BuildRequestFails | DoFails | Response nat "'b option"

datatype fetch_error = FetchBuild string | FetchDo string | FetchStatus string nat | FetchDecode string

record registry_http =
  rh_chain :: "string \<Rightarrow> raw_chain_info http_outcome"
  rh_ibc :: "string \<Rightarrow> raw_ibc_file http_outcome"

definition fetchIBCPair :: "registry_http \<Rightarrow> string \<Rightarrow> string \<times> string \<Rightarrow> (fetch_error, ibc_channel list) result" where
  "fetchIBCPair h baseURL pair =
     (case pair of (nameA, nameB) \<Rightarrow>
        let what = nameA @ ''-'' @ nameB
        in case rh_ibc h (baseURL @ ''/_IBC/'' @ ibcPairFilename nameA nameB) of
             BuildRequestFails \<Rightarrow> Err (FetchBuild what)
           | DoFails \<Rightarrow> Err (FetchDo what)
           | Response status body \<Rightarrow>
               if status = 404 then Ok []
               else if status \<noteq> 200 then Err (FetchStatus what status)
               else (case body of None \<Rightarrow> Err (FetchDecode what) | Some raw \<Rightarrow> Ok (parseIBCFile raw)))"

definition fetchChain :: "registry_http \<Rightarrow> string \<Rightarrow> string \<Rightarrow> (fetch_error, raw_chain_info) result" where
  "fetchChain h baseURL chainID =
     (case rh_chain h (baseURL @ ''/'' @ ChainNameFromID chainID @ ''/chain.json'') of
        BuildRequestFails \<Rightarrow> Err (FetchBuild chainID)
      | DoFails \<Rightarrow> Err (FetchDo chainID)
      | Response status body \<Rightarrow>
          if status \<noteq> 200 then Err (FetchStatus chainID status)
          else (case body of None \<Rightarrow> Err (FetchDecode chainID) | Some raw \<Rightarrow> Ok raw))"

fun collect_channels ::
    "(fetch_error, ibc_channel list) result list \<Rightarrow> ibc_channel list \<times> fetch_error list \<Rightarrow> ibc_channel list \<times> fetch_error list" where
  "collect_channels [] acc = acc"
| "collect_channels (r # rs) (chs, errs) =
     (case r of Inl e \<Rightarrow> collect_channels rs (chs, errs @ [e]) | Inr cs \<Rightarrow> collect_channels rs (chs @ cs, errs))"

text \<open>\<^verbatim>\<open>arrivals\<close> is the list of pairs in the order their results arrive.\<close>

definition FetchIBCChannels ::
    "registry_http \<Rightarrow> string \<Rightarrow> (string \<times> string) list \<Rightarrow> ibc_channel list \<times> fetch_error list" where
  "FetchIBCChannels h baseURL arrivals = collect_channels (map (fetchIBCPair h baseURL) arrivals) ([], [])"

fun collect_chains ::
    "(string \<times> (fetch_error, raw_chain_info) result) list \<Rightarrow> (string \<rightharpoonup> raw_chain_info) \<times> fetch_error list \<Rightarrow>
     (string \<rightharpoonup> raw_chain_info) \<times> fetch_error list" where
  "collect_chains [] acc = acc"
| "collect_chains ((chainID, r) # rs) (m, errs) =
     (case r of Inl e \<Rightarrow> collect_chains rs (m, errs @ [e]) | Inr raw \<Rightarrow> collect_chains rs (m(chainID \<mapsto> raw), errs))"

definition defaultRegistryBaseURL :: string where
  "defaultRegistryBaseURL = ''https://raw.githubusercontent.com/cosmos/chain-registry/master''"

definition FetchLive ::
    "registry_http \<Rightarrow> string \<Rightarrow> string list \<Rightarrow> (string \<times> string) list \<Rightarrow> (fetch_error list, snapshot) result" where
  "FetchLive h baseURL0 arrivals pairArrivals =
     (let baseURL = (if baseURL0 = '''' then defaultRegistryBaseURL else baseURL0)
      in case collect_chains (map (\<lambda>c. (c, fetchChain h baseURL c)) arrivals) (Map.empty, []) of
           (chs, errs) \<Rightarrow>
             if errs \<noteq> [] then Err errs
             else Ok \<lparr>snap_revision = '''', snap_chains = chs,
                      snap_ibc_channels = fst (FetchIBCChannels h baseURL pairArrivals)\<rparr>)"

text \<open>The candidates: live channels from the source chain to the destination.\<close>

definition live_between :: "string \<Rightarrow> string \<Rightarrow> ibc_channel \<Rightarrow> bool" where
  "live_between src dst c \<longleftrightarrow>
     ic_status c = ''live'' \<and>
     (ic_chain_name_a c = src \<and> ic_chain_name_b c = dst \<or> ic_chain_name_a c \<noteq> src \<and> ic_chain_name_b c = src \<and> ic_chain_name_a c = dst)"

definition errors_of :: "('e, 'a) result list \<Rightarrow> 'e list" where
  "errors_of rs = List.map_filter (case_sum Some (\<lambda>_. None)) rs"

definition values_of :: "('e, 'a) result list \<Rightarrow> 'a list" where
  "values_of rs = List.map_filter (case_sum (\<lambda>_. None) Some) rs"

definition ex_http :: registry_http where
  "ex_http =
     \<lparr>rh_chain = (\<lambda>u. Response 200 (Some (ex_raw ''cosmos''))),
      rh_ibc = (\<lambda>u. Response 404 None)\<rparr>"

subsection \<open>Selection\<close>

lemma select_loop_cons:
  "select_loop src dst (c # cs) live =
     (if \<not> live_between src dst c then select_loop src dst cs live
      else if ic_preferred c then (Some c, False) else select_loop src dst cs (live @ [c]))"
  by (auto simp: ChannelFor_def live_between_def)

lemma select_loop_correct:
  "select_loop src dst cs live =
     (case find (\<lambda>c. live_between src dst c \<and> ic_preferred c) cs of
        Some c \<Rightarrow> (Some c, False)
      | None \<Rightarrow> (case live @ filter (live_between src dst) cs of [] \<Rightarrow> (None, False) | c # rest \<Rightarrow> (Some c, rest \<noteq> [])))"
proof (induction cs arbitrary: live)
  case (Cons c cs)
  show ?case by (subst select_loop_cons) (cases "find (\<lambda>c. live_between src dst c \<and> ic_preferred c) cs"; simp add: Cons.IH)
qed (simp split: list.split)

lemma find_filter: "find P xs = (case filter P xs of [] \<Rightarrow> None | x # _ \<Rightarrow> Some x)"
  by (induction xs) simp_all

text \<open>Channel selection. The chosen channel is the first live preferred channel of the pair; without one it is the first live channel;
  without any the selection fails. The ambiguity flag is set exactly when no live channel is preferred and there are at least two.\<close>

theorem SelectChannel_correct:
  "SelectChannel chs src dst =
     (case find (\<lambda>c. live_between src dst c \<and> ic_preferred c) chs of
        Some c \<Rightarrow> (Some c, False)
      | None \<Rightarrow> (find (live_between src dst) chs, 2 \<le> length (filter (live_between src dst) chs)))"
proof -
  have len: "(2 \<le> length (c # rest)) = (rest \<noteq> [])" for c :: ibc_channel and rest by (cases rest) auto
  show ?thesis
    by (simp add: SelectChannel_def select_loop_correct find_filter[of "live_between src dst"] split: option.split list.split)
      (simp add: Suc_le_eq)
qed

subsection \<open>Names\<close>

text \<open>A pair of chains has one file, whichever is named first.\<close>

lemma ibcPairFilename_commute: "ibcPairFilename a b = ibcPairFilename b a"
  by (cases a b rule: linorder_cases) (auto simp: ibcPairFilename_def)

lemma ChainNameFromID_strips:
  assumes "ds \<noteq> []" "\<forall>d \<in> set ds. is_digit d"
  shows "ChainNameFromID (name @ CHR ''-'' # ds) = name"
proof -
  have minus: "\<not> is_digit (CHR ''-'')" by code_simp
  have "dropWhile is_digit (rev ds @ CHR ''-'' # rev name) = CHR ''-'' # rev name"
    using assms(2) minus by (subst dropWhile_append2) simp_all
  moreover have "rev ds @ CHR ''-'' # rev name \<noteq> CHR ''-'' # rev name" using assms(1) by simp
  ultimately show ?thesis unfolding ChainNameFromID_def by (simp only: Let_def rev.simps rev_append append.simps append_assoc list.sel rev_rev_ident) simp
qed

lemma length_name_pairs: "2 * length (name_pairs ns) = length ns * (length ns - 1)"
proof (induction ns)
  case (Cons n ns)
  then show ?case by (cases "length ns") (simp_all add: algebra_simps)
qed simp

lemma length_chainNamePairs: "length (chainNamePairs ids) = length ids * (length ids - 1) div 2"
  using length_name_pairs[of "map ChainNameFromID ids"] by (simp add: chainNamePairs_def)

subsection \<open>Collecting the results\<close>

lemma errors_of_simps [simp]:
  "errors_of [] = []" "errors_of (Inl e # rs) = e # errors_of rs" "errors_of (Inr v # rs) = errors_of rs"
  by (simp_all add: errors_of_def map_filter_simps)

lemma values_of_simps [simp]:
  "values_of [] = []" "values_of (Inl e # rs) = values_of rs" "values_of (Inr v # rs) = v # values_of rs"
  by (simp_all add: values_of_def map_filter_simps)

lemma collect_channels_result:
  "collect_channels rs (chs, errs) = (chs @ concat (values_of rs), errs @ errors_of rs)"
  by (induction rs arbitrary: chs errs) (auto split: sum.split)

lemma collect_chains_result:
  "snd (collect_chains (map (\<lambda>c. (c, f c)) ids) (m, errs)) = errs @ errors_of (map f ids)"
  "fst (collect_chains (map (\<lambda>c. (c, f c)) ids) (m, errs)) c =
     (if c \<in> set ids \<and> is_ok (f c) then Some (projr (f c)) else m c)"
  by (induction ids arbitrary: m errs) (auto split: sum.split)

lemma mset_map_filter: "mset (List.map_filter f xs) = image_mset the (filter_mset (\<lambda>y. y \<noteq> None) (image_mset f (mset xs)))"
  by (induction xs) (auto simp: map_filter_simps split: option.split)

lemma errors_of_perm: "mset xs = mset ys \<Longrightarrow> mset (errors_of (map f xs)) = mset (errors_of (map f ys))"
  and values_of_perm: "mset xs = mset ys \<Longrightarrow> mset (values_of (map f xs)) = mset (values_of (map f ys))"
  by (simp_all add: errors_of_def values_of_def mset_map_filter)

lemma mset_concat_perm:
  assumes "mset xs = mset ys"
  shows "mset (concat xs) = mset (concat ys)"
proof -
  have "mset (concat zs) = \<Sum>\<^sub># (image_mset mset (mset zs))" for zs :: "'a list list" by (induction zs) auto
  then show ?thesis using assms by simp
qed

lemma errors_of_Nil: "errors_of (map f xs) = [] \<longleftrightarrow> (\<forall>x \<in> set xs. is_ok (f x))"
  by (induction xs) (auto simp: errors_of_def map_filter_simps split: sum.split option.split)

text \<open>C28: A fetch does not depend on timing. Whatever the order in which the concurrent requests finish, the fetch succeeds exactly when
  every chain request succeeds, and then the snapshot holds exactly the requested chains with what the registry served for each, and
  (up to order) every transfer channel of every pair file that could be read; otherwise it reports exactly the failed requests.
  A failing channel file is never fatal.\<close>

theorem FetchLive_order_independent:
  assumes "mset arrivals = mset ids" "mset pairArrivals = mset (chainNamePairs ids)" "baseURL \<noteq> ''''"
  shows "case FetchLive h baseURL arrivals pairArrivals of
      Inl errs \<Rightarrow> errs \<noteq> [] \<and> mset errs = mset (errors_of (map (fetchChain h baseURL) ids))
    | Inr snap \<Rightarrow>
        (\<forall>c \<in> set ids. is_ok (fetchChain h baseURL c)) \<and>
        (\<forall>c. snap_chains snap c = (if c \<in> set ids then Some (projr (fetchChain h baseURL c)) else None)) \<and>
        mset (snap_ibc_channels snap) = mset (concat (values_of (map (fetchIBCPair h baseURL) (chainNamePairs ids))))"
proof -
  let ?f = "fetchChain h baseURL"
  obtain m errs where r: "collect_chains (map (\<lambda>c. (c, ?f c)) arrivals) (Map.empty, []) = (m, errs)" by fastforce
  have errs: "errs = errors_of (map ?f arrivals)" and m: "m c = (if c \<in> set arrivals \<and> is_ok (?f c) then Some (projr (?f c)) else None)" for c
    using collect_chains_result[of ?f arrivals Map.empty "[]"] r by simp_all
  have ids: "set arrivals = set ids" using assms(1) by (metis set_mset_mset)
  have chs: "mset (fst (FetchIBCChannels h baseURL pairArrivals)) =
      mset (concat (values_of (map (fetchIBCPair h baseURL) (chainNamePairs ids))))"
    using mset_concat_perm[OF values_of_perm[OF assms(2)]] by (simp add: FetchIBCChannels_def collect_channels_result)
  show ?thesis
  proof (cases "errs = []")
    case True
    then have "\<forall>c \<in> set ids. is_ok (?f c)" using errs ids by (simp add: errors_of_Nil)
    then show ?thesis using True m ids chs assms(3) by (simp add: FetchLive_def Let_def r)
  next
    case False
    then show ?thesis using errs errors_of_perm[OF assms(1), of ?f] assms(3) by (simp add: FetchLive_def Let_def r)
  qed
qed

theorem FetchLive_order_independent_witness:
  "\<exists>snap. FetchLive ex_http ''u'' [''osmosis-1'', ''hub-1''] [(''hub'', ''osmosis'')] = Inr snap \<and>
     snap_chains snap ''hub-1'' = Some (ex_raw ''cosmos'') \<and> snap_chains snap ''x'' = None"
proof -
  have ok: "fetchChain ex_http ''u'' c = Inr (ex_raw ''cosmos'')" for c by (simp add: fetchChain_def ex_http_def)
  have "mset [(''hub'', ''osmosis'')] = mset (chainNamePairs [''hub-1'', ''osmosis-1''])"
    by code_simp
  with FetchLive_order_independent[of "[''osmosis-1'', ''hub-1'']" "[''hub-1'', ''osmosis-1'']" "[(''hub'', ''osmosis'')]" "''u''" ex_http]
  show ?thesis by (auto simp: ok split: sum.splits)
qed

end
