(* ===== verification/Overrides.thy ===== *)
theory Overrides
  imports Config Registry
begin

text \<open>
  The conversions at the end of \<^verbatim>\<open>internal/config/chains.go\<close>, which turn the operator configuration into registry overrides and
  standalone chains, and what the two components give together: configured values win over registry data, a loaded configuration
  always converts, and live updates never touch a standalone chain.
\<close>

definition block_time_of :: "parse_duration \<Rightarrow> chain_config \<Rightarrow> (config_error, int option) result" where
  "block_time_of pd c =
     (case cc_block_time c of
        None \<Rightarrow> Ok None
      | Some t \<Rightarrow> (case pd t of None \<Rightarrow> Err CfgBlockTime | Some d \<Rightarrow> if d \<le> 0 then Err CfgBlockTime else Ok (Some d)))"

definition override_of :: "chain_config \<Rightarrow> int option \<Rightarrow> chain_override" where
  "override_of c bt =
     \<lparr>co_enabled = cc_enabled c, co_chain_name = cc_chain_name c, co_network_type = cc_network_type c,
      co_key_algo = cc_key_algo c, co_bech32_prefix = cc_bech32_prefix c, co_slip44 = cc_slip44 c,
      co_endpoints = map_option (\<lambda>e. \<lparr>eo_grpc = ec_grpc e, eo_rpc = ec_rpc e, eo_rest = ec_rest e\<rparr>) (cc_endpoints c),
      co_fee_tokens = map (\<lambda>ft. \<lparr>fto_denom = ftc_denom ft, fto_low = ftc_low ft, fto_average = ftc_average ft,
                             fto_high = ftc_high ft\<rparr>) (cc_fee_tokens c),
      co_block_time = bt, co_distributors = cc_distributors c\<rparr>"

fun override_loop :: "parse_duration \<Rightarrow> chain_config list \<Rightarrow> override_set \<Rightarrow> (config_error, override_set) result" where
  "override_loop pd [] ov = Ok ov"
| "override_loop pd (c # cs) ov =
     (if cc_standalone c then override_loop pd cs ov
      else rbind (block_time_of pd c) (\<lambda>bt. override_loop pd cs (ov(cc_chain_id c \<mapsto> override_of c bt))))"

definition ToOverrideSet :: "parse_duration \<Rightarrow> chains_config \<Rightarrow> (config_error, override_set) result" where
  "ToOverrideSet pd cfg = override_loop pd (cfg_chains cfg) Map.empty"

definition derefString :: "string option \<Rightarrow> string" where "derefString p = case_option '''' id p"

definition derefUint32 :: "nat option \<Rightarrow> nat" where "derefUint32 p = case_option 0 id p"

definition parseDecimal :: "decimal_lib \<Rightarrow> string option \<Rightarrow> decimal" where
  "parseDecimal dl p = (case p of None \<Rightarrow> decimal_Zero | Some s \<Rightarrow> (case dl_parse dl s of None \<Rightarrow> decimal_Zero | Some d \<Rightarrow> d))"

text \<open>The fields \<^verbatim>\<open>ToChainInfo\<close> does not set have Go's zero values (\<^verbatim>\<open>SourceLive\<close> is the zero \<^verbatim>\<open>Source\<close>).\<close>

definition ToChainInfo :: "decimal_lib \<Rightarrow> parse_duration \<Rightarrow> chain_config \<Rightarrow> (config_error, chain_info) result" where
  "ToChainInfo dl pd c =
     rbind (block_time_of pd c) (\<lambda>bt.
       Ok \<lparr>ci_chain_id = cc_chain_id c, ci_chain_name = derefString (cc_chain_name c),
           ci_network_type = derefString (cc_network_type c), ci_pretty_name = '''',
           ci_bech32_prefix = derefString (cc_bech32_prefix c), ci_slip44 = derefUint32 (cc_slip44 c),
           ci_key_algo = derefString (cc_key_algo c),
           ci_endpoints = (case cc_endpoints c of
               None \<Rightarrow> \<lparr>eps_grpc = [], eps_rpc = [], eps_rest = []\<rparr>
             | Some e \<Rightarrow> \<lparr>eps_grpc = stringsToEndpoints (slice (ec_grpc e)), eps_rpc = stringsToEndpoints (slice (ec_rpc e)),
                         eps_rest = stringsToEndpoints (slice (ec_rest e))\<rparr>),
           ci_fee_tokens = map (\<lambda>ft. \<lparr>ft_denom = ftc_denom ft, ft_low = parseDecimal dl (ftc_low ft),
               ft_average = parseDecimal dl (ftc_average ft), ft_high = parseDecimal dl (ftc_high ft),
               ft_display = '''', ft_exponent = 0\<rparr>) (cc_fee_tokens c),
           ci_block_time = (case bt of None \<Rightarrow> 0 | Some d \<Rightarrow> d), ci_enabled = IsEnabled c, ci_last_changed = 0,
           ci_sources = setAll SourceLive\<rparr>)"

definition EnabledRegistryChainIDs :: "chains_config \<Rightarrow> string list" where
  "EnabledRegistryChainIDs cfg = map cc_chain_id (filter (\<lambda>c. \<not> cc_standalone c \<and> IsEnabled c) (cfg_chains cfg))"

fun standalone_loop :: "decimal_lib \<Rightarrow> parse_duration \<Rightarrow> chain_config list \<Rightarrow> (config_error, chain_info list) result" where
  "standalone_loop dl pd [] = Ok []"
| "standalone_loop dl pd (c # cs) =
     (if \<not> cc_standalone c then standalone_loop dl pd cs
      else rbind (ToChainInfo dl pd c) (\<lambda>i. rbind (standalone_loop dl pd cs) (\<lambda>is. Ok (i # is))))"

definition ToStandaloneInfos :: "decimal_lib \<Rightarrow> parse_duration \<Rightarrow> chains_config \<Rightarrow> (config_error, chain_info list) result" where
  "ToStandaloneInfos dl pd cfg = standalone_loop dl pd (cfg_chains cfg)"

definition same_but_fees :: "chain_info \<Rightarrow> chain_info \<Rightarrow> bool" where
  "same_but_fees i j \<longleftrightarrow> feeTokenDenoms (ci_fee_tokens i) = feeTokenDenoms (ci_fee_tokens j) \<and>
     i\<lparr>ci_fee_tokens := []\<rparr> = j\<lparr>ci_fee_tokens := []\<rparr>"

text \<open>What an override makes of the plain fields: the configured value where there is one.\<close>

definition configured :: "chain_override \<Rightarrow> chain_info \<Rightarrow> chain_info \<Rightarrow> bool" where
  "configured ov base i \<longleftrightarrow>
     ci_chain_id i = ci_chain_id base \<and> ci_pretty_name i = ci_pretty_name base \<and>
     ci_enabled i = case_option (ci_enabled base) id (co_enabled ov) \<and>
     ci_chain_name i = case_option (ci_chain_name base) id (co_chain_name ov) \<and>
     ci_network_type i = case_option (ci_network_type base) id (co_network_type ov) \<and>
     ci_key_algo i = case_option (ci_key_algo base) id (co_key_algo ov) \<and>
     ci_bech32_prefix i = case_option (ci_bech32_prefix base) id (co_bech32_prefix ov) \<and>
     ci_slip44 i = case_option (ci_slip44 base) id (co_slip44 ov) \<and>
     ci_block_time i = case_option (ci_block_time base) id (co_block_time ov) \<and>
     (let e = co_endpoints ov in
        eps_grpc (ci_endpoints i) = case_option (eps_grpc (ci_endpoints base)) stringsToEndpoints (Option.bind e eo_grpc) \<and>
        eps_rpc (ci_endpoints i) = case_option (eps_rpc (ci_endpoints base)) stringsToEndpoints (Option.bind e eo_rpc) \<and>
        eps_rest (ci_endpoints i) = case_option (eps_rest (ci_endpoints base)) stringsToEndpoints (Option.bind e eo_rest)) \<and>
     feeTokenDenoms (ci_fee_tokens i) = feeTokenDenoms (ci_fee_tokens base)"

definition set_opt :: "'a option \<Rightarrow> ('a \<Rightarrow> chain_info \<Rightarrow> chain_info) \<Rightarrow> chain_info \<Rightarrow> chain_info" where
  "set_opt v f i = (case v of None \<Rightarrow> i | Some x \<Rightarrow> f x i)"

definition live_updates :: "decimal_lib \<Rightarrow> (string list \<times> string list \<times> int \<times> snapshot) list \<Rightarrow> registry_store \<Rightarrow> registry_store" where
  "live_updates dl us s = fold (\<lambda>(ord1, ord2, now, snap) s. fst (UpdateLive dl ord1 ord2 now snap s)) us s"

definition keeps :: "string \<Rightarrow> registry_store \<Rightarrow> registry_store \<Rightarrow> bool" where
  "keeps c s s' \<longleftrightarrow> st_chains s' c = st_chains s c \<and> st_standalone_base s' c = st_standalone_base s c"

subsection \<open>The override of a configured chain\<close>

lemma override_loop_other: "override_loop pd cs ov = Ok ov' \<Longrightarrow> c \<notin> cc_chain_id ` set cs \<Longrightarrow> ov' c = ov c"
  by (induction pd cs ov rule: override_loop.induct) (auto simp: rbind_Ok_iff split: if_splits)

lemma override_loop_get:
  assumes "override_loop pd cs ov = Ok ov'" "c \<in> set cs" "\<not> cc_standalone c" "distinct (map cc_chain_id cs)"
  shows "\<exists>bt. block_time_of pd c = Ok bt \<and> ov' (cc_chain_id c) = Some (override_of c bt)"
  using assms
proof (induction pd cs ov rule: override_loop.induct)
  case (2 pd d cs ov)
  show ?case
  proof (cases "c = d")
    case True
    then have "cc_chain_id d \<notin> cc_chain_id ` set cs" using "2.prems"(4) by simp
    then show ?thesis using True "2.prems" override_loop_other[of pd cs _ ov' "cc_chain_id d"]
      by (auto simp: rbind_Ok_iff)
  next
    case False
    then show ?thesis using 2 by (cases "cc_standalone d") (auto simp: rbind_Ok_iff fun_upd_def)
  qed
qed simp

lemma update_first_token_denoms: "map ft_denom (fst (update_first_token dl ov (fts, s))) = map ft_denom fts"
  by (induction dl ov "(fts, s)" arbitrary: fts s rule: update_first_token.induct) (auto simp: applyFeeToken_def split: prod.splits)

lemma same_but_fees_trans: "same_but_fees i j \<Longrightarrow> same_but_fees j k \<Longrightarrow> same_but_fees i k"
  by (simp add: same_but_fees_def)

lemma applyFeeTokens_same: "same_but_fees (fst (applyFeeTokens dl ovs (i, s))) i"
proof (induction ovs arbitrary: i s)
  case (Cons ov ovs)
  obtain fts s' where u: "update_first_token dl ov (ci_fee_tokens i, src_fee_tokens s) = (fts, s')" by fastforce
  have "same_but_fees (i\<lparr>ci_fee_tokens := fts\<rparr>) i"
    using update_first_token_denoms[of dl ov "ci_fee_tokens i" "src_fee_tokens s"] u by (simp add: same_but_fees_def feeTokenDenoms_def)
  then show ?case using same_but_fees_trans[OF Cons.IH] u by simp
qed (simp add: same_but_fees_def)

lemma same_but_fees_fields:
  assumes "same_but_fees i j"
  shows "ci_chain_id i = ci_chain_id j" "ci_chain_name i = ci_chain_name j" "ci_network_type i = ci_network_type j"
    "ci_pretty_name i = ci_pretty_name j" "ci_bech32_prefix i = ci_bech32_prefix j" "ci_slip44 i = ci_slip44 j"
    "ci_key_algo i = ci_key_algo j" "ci_endpoints i = ci_endpoints j" "ci_block_time i = ci_block_time j"
    "ci_enabled i = ci_enabled j" "feeTokenDenoms (ci_fee_tokens i) = feeTokenDenoms (ci_fee_tokens j)"
  using assms by (cases i; cases j; simp add: same_but_fees_def)+

lemma if_some_simps [simp]: "if_some None f x = x" "if_some (Some y) f x = f y x" by (simp_all add: if_some_def)

lemma applyEndpoints_fields:
  "fst (applyEndpoints ov (i, s)) =
     i\<lparr>ci_endpoints := (let e = ci_endpoints i in
        \<lparr>eps_grpc = case_option (eps_grpc e) stringsToEndpoints (Option.bind ov eo_grpc),
         eps_rpc = case_option (eps_rpc e) stringsToEndpoints (Option.bind ov eo_rpc),
         eps_rest = case_option (eps_rest e) stringsToEndpoints (Option.bind ov eo_rest)\<rparr>)\<rparr>"
  by (cases ov) (auto simp: applyEndpoints_def Let_def if_some_def split: option.splits)

lemma if_some_pair: "if_some v (\<lambda>x (i, s). (f x i, g x s)) (i, s) = (set_opt v f i, case_option s (\<lambda>x. g x s) v)"
  by (cases v) (simp_all add: set_opt_def)

lemma applyOverride_configured: "configured ov base (fst (applyOverride dl ov (base, src)))"
proof -
  define i where "i = set_opt (co_block_time ov) (\<lambda>x i. i\<lparr>ci_block_time := x\<rparr>) (set_opt (co_slip44 ov) (\<lambda>x i. i\<lparr>ci_slip44 := x\<rparr>)
    (set_opt (co_bech32_prefix ov) (\<lambda>x i. i\<lparr>ci_bech32_prefix := x\<rparr>) (set_opt (co_key_algo ov) (\<lambda>x i. i\<lparr>ci_key_algo := x\<rparr>)
    (set_opt (co_network_type ov) (\<lambda>x i. i\<lparr>ci_network_type := x\<rparr>) (set_opt (co_chain_name ov) (\<lambda>x i. i\<lparr>ci_chain_name := x\<rparr>)
    (set_opt (co_enabled ov) (\<lambda>x i. i\<lparr>ci_enabled := x\<rparr>) base))))))"
  obtain s1 where "applyOverride dl ov (base, src) = applyFeeTokens dl (co_fee_tokens ov) (applyEndpoints (co_endpoints ov) (i, s1))"
    unfolding applyOverride_def Let_def if_some_pair i_def by blast
  moreover obtain j s2 where j: "applyEndpoints (co_endpoints ov) (i, s1) = (j, s2)" by fastforce
  ultimately have same: "same_but_fees (fst (applyOverride dl ov (base, src))) j" using applyFeeTokens_same by simp
  have jf: "j = fst (applyEndpoints (co_endpoints ov) (i, s1))" using j by simp
  show ?thesis unfolding configured_def same_but_fees_fields[OF same] jf applyEndpoints_fields Let_def
    unfolding i_def set_opt_def by (simp split: option.split)
qed

text \<open>Configuration wins over the registry. For every chain of the configuration that is not standalone, the overrides built from it give
  every field the operator set (name, network, prefix, coin type, key algorithm, endpoint lists, block time, enabled) exactly that value,
  leave every field the operator did not set as the registry has it, and never change the fee denominations.\<close>

theorem configured_fields_win:
  assumes "ToOverrideSet pd cfg = Ok ovs" "c \<in> set (cfg_chains cfg)" "\<not> cc_standalone c" "distinct (map cc_chain_id (cfg_chains cfg))"
  shows "\<exists>bt. block_time_of pd c = Ok bt \<and> configured (override_of c bt) base (with_override dl (Some ovs) (cc_chain_id c) SourceLive base)"
proof -
  obtain bt where bt: "block_time_of pd c = Ok bt" "ovs (cc_chain_id c) = Some (override_of c bt)"
    using override_loop_get[OF assms(1)[unfolded ToOverrideSet_def] assms(2-4)] by blast
  have "configured (override_of c bt) base (fst (applyOverride dl (override_of c bt) (base, setAll SourceLive)))"
    by (rule applyOverride_configured)
  then have "configured (override_of c bt) base (with_override dl (Some ovs) (cc_chain_id c) SourceLive base)"
    using bt(2) by (cases "applyOverride dl (override_of c bt) (base, setAll SourceLive)") (simp add: with_override_def configured_def)
  then show ?thesis using bt(1) by blast
qed


subsection \<open>Loaded configurations convert\<close>

lemma validateChain_block_time: "validateChain pd i c = Ok () \<Longrightarrow> is_ok (block_time_of pd c)"
  by (auto simp: validateChain_def block_time_of_def positive_duration_def rbind_Ok_iff split: if_splits option.splits)

lemma validate_chains_block_time: "validate_chains pd i cs = Ok cs' \<Longrightarrow> \<forall>c \<in> set cs'. is_ok (block_time_of pd c)"
proof (induction pd i cs arbitrary: cs' rule: validate_chains.induct)
  case (2 pd i c0 cs)
  then show ?case using validateChain_block_time by (auto simp: Let_def rbind_Ok_iff)
qed simp

lemma override_loop_ok: "\<forall>c \<in> set cs. is_ok (block_time_of pd c) \<Longrightarrow> is_ok (override_loop pd cs ov)"
  by (induction pd cs ov rule: override_loop.induct) (auto simp: is_ok_iff)

lemma standalone_loop_ok: "\<forall>c \<in> set cs. is_ok (block_time_of pd c) \<Longrightarrow> is_ok (standalone_loop dl pd cs)"
  by (induction dl pd cs rule: standalone_loop.induct) (auto simp: is_ok_iff ToChainInfo_def)

text \<open>A configuration that loads converts: building the override set and the standalone chains from it cannot fail.\<close>

theorem loaded_config_converts:
  assumes "LoadChains pd parseCIDR loaded = Ok cfg"
  shows "is_ok (ToOverrideSet pd cfg) \<and> is_ok (ToStandaloneInfos dl pd cfg)"
proof -
  from assms obtain i cs where "validate_chains pd i cs = Ok (cfg_chains cfg)"
    by (auto simp: LoadChains_def Let_def rbind_Ok_iff split: option.splits)
  from validate_chains_block_time[OF this] show ?thesis
    by (simp add: ToOverrideSet_def ToStandaloneInfos_def override_loop_ok standalone_loop_ok)
qed

subsection \<open>Standalone chains\<close>

lemma keeps_update_chain:
  assumes "is_standalone s c"
  shows "keeps c s (fst (update_chain dl fc now d (s, cs)))"
proof (cases "d = c")
  case False
  then have "same_for c s (fst (update_chain dl fc now d (s, cs)))" using update_chain_other[of d c "(s, cs)"] by simp
  then show ?thesis by (simp add: keeps_def same_for_def)
qed (use assms in \<open>simp add: update_chain_def keeps_def\<close>)

lemma keeps_disable: "is_standalone s c \<Longrightarrow> keeps c s (fst (disable_missing snap d (s, cs)))"
  by (auto simp: disable_missing_def keeps_def is_standalone_def split: option.splits)

lemma keeps_fold:
  assumes "\<And>d s cs. is_standalone s c \<Longrightarrow> keeps c s (fst (f d (s, cs)))" "is_standalone s c"
  shows "keeps c s (fst (fold f ds (s, cs)))"
  using assms(2)
proof (induction ds arbitrary: s cs)
  case (Cons d ds)
  obtain s' cs' where f: "f d (s, cs) = (s', cs')" by fastforce
  have "keeps c s s'" using assms(1)[OF Cons.prems, of d cs] f by simp
  then show ?case using Cons.IH[of s' cs'] Cons.prems f by (simp add: keeps_def is_standalone_def)
qed (simp add: keeps_def)

lemma UpdateLive_keeps:
  assumes "is_standalone s c"
  shows "keeps c s (fst (UpdateLive dl ord1 ord2 now snap s))"
proof -
  let ?s = "s\<lparr>st_live := Some snap, st_ibc_channels := snap_ibc_channels snap\<rparr>"
  let ?cs = "\<lparr>cs_hot_reloaded = [], cs_warned = [], cs_frozen = [], cs_removed = []\<rparr>"
  obtain s1 cs1 where s1: "fold (update_chain dl (st_live s = None) now) ord1 (?s, ?cs) = (s1, cs1)" by fastforce
  have "is_standalone ?s c" using assms by (simp add: is_standalone_def)
  from keeps_fold[of c "update_chain dl (st_live s = None) now", OF keeps_update_chain this, of ord1 ?cs]
  have k1: "keeps c ?s s1" using s1 by simp
  then have "is_standalone s1 c" using assms by (simp add: keeps_def is_standalone_def)
  from keeps_fold[of c "disable_missing snap", OF keeps_disable this, of ord2 cs1] k1 s1 show ?thesis
    by (simp add: UpdateLive_def Let_def keeps_def)
qed

lemma live_updates_keep: "is_standalone s c \<Longrightarrow> keeps c s (live_updates dl us s)"
proof (induction us arbitrary: s)
  case (Cons u us)
  obtain ord1 ord2 now snap where u: "u = (ord1, ord2, now, snap)" by (cases u) auto
  show ?case using UpdateLive_keeps[OF Cons.prems, of dl ord1 ord2 now snap] Cons.IH[of "fst (UpdateLive dl ord1 ord2 now snap s)"] Cons.prems
    by (simp add: live_updates_def u keeps_def is_standalone_def)
qed (simp add: live_updates_def keeps_def)

lemma standalone_loop_get:
  "standalone_loop dl pd cs = Ok infos \<Longrightarrow> c \<in> set cs \<Longrightarrow> cc_standalone c \<Longrightarrow> \<exists>i \<in> set infos. ToChainInfo dl pd c = Ok i"
  by (induction dl pd cs arbitrary: infos rule: standalone_loop.induct) (auto simp: rbind_Ok_iff split: if_splits)

lemma standalone_loop_ids:
  "standalone_loop dl pd cs = Ok infos \<Longrightarrow> map ci_chain_id infos = map cc_chain_id (filter cc_standalone cs)"
  by (induction dl pd cs arbitrary: infos rule: standalone_loop.induct) (auto simp: rbind_Ok_iff ToChainInfo_def split: if_splits)

lemma override_loop_standalone:
  "override_loop pd cs ov = Ok ov' \<Longrightarrow> (\<And>d. d \<in> set cs \<Longrightarrow> cc_chain_id d = c \<Longrightarrow> cc_standalone d) \<Longrightarrow> ov' c = ov c"
  by (induction pd cs ov rule: override_loop.induct) (auto simp: rbind_Ok_iff split: if_splits)

lemma AddStandalone_overrides: "st_overrides (AddStandalone dl now is s) = st_overrides s"
  by (induction "is" arbitrary: s) (simp_all add: Let_def)

lemma AddStandalone_other: "c \<notin> ci_chain_id ` set is \<Longrightarrow> keeps c s (AddStandalone dl now is s)"
  by (induction "is" arbitrary: s) (auto simp: Let_def keeps_def)

lemma AddStandalone_get:
  assumes "i \<in> set is" "distinct (map ci_chain_id is)"
  shows "st_chains (AddStandalone dl now is s) (ci_chain_id i) = Some ((resolveStandalone dl s i)\<lparr>ci_last_changed := now\<rparr>) \<and>
    is_standalone (AddStandalone dl now is s) (ci_chain_id i)"
  using assms
proof (induction "is" arbitrary: s)
  case (Cons j js)
  have res: "resolveStandalone dl (s\<lparr>st_standalone_base := a, st_chains := b, st_fee_shared := d\<rparr>) i = resolveStandalone dl s i" for a b d
    by (simp add: resolveStandalone_def)
  show ?case
  proof (cases "i = j")
    case True
    then have "ci_chain_id i \<notin> ci_chain_id ` set js" using Cons.prems(2) by simp
    then show ?thesis using AddStandalone_other[of "ci_chain_id i" js _ dl now] True by (simp add: Let_def keeps_def is_standalone_def)
  next
    case False
    then show ?thesis using Cons by (simp add: Let_def res)
  qed
qed simp

text \<open>Standalone chains belong to the operator. A standalone chain of a configuration is resolved to exactly what the configuration says,
  and no sequence of live registry snapshots, not even one that contains or lacks a chain of that id, changes or disables it.\<close>

theorem standalone_untouched:
  assumes "ToOverrideSet pd cfg = Ok ovs" "ToStandaloneInfos dl pd cfg = Ok infos"
    and "c \<in> set (cfg_chains cfg)" "cc_standalone c" "distinct (map cc_chain_id (cfg_chains cfg))"
  shows "\<exists>i. ToChainInfo dl pd c = Ok i \<and>
     st_chains (live_updates dl us (AddStandalone dl now infos (New_store (Some ovs)))) (cc_chain_id c) =
       Some (i\<lparr>ci_sources := setAll SourceConfig, ci_last_changed := now\<rparr>)"
proof -
  let ?s = "AddStandalone dl now infos (New_store (Some ovs))"
  have loop: "standalone_loop dl pd (cfg_chains cfg) = Ok infos" using assms(2) by (simp add: ToStandaloneInfos_def)
  obtain i where i: "i \<in> set infos" "ToChainInfo dl pd c = Ok i" using standalone_loop_get[OF loop assms(3,4)] by blast
  have id: "ci_chain_id i = cc_chain_id c" using i(2) by (auto simp: ToChainInfo_def rbind_Ok_iff)
  have dist: "distinct (map ci_chain_id infos)"
    unfolding standalone_loop_ids[OF loop] using assms(5) by (rule distinct_map_filter)
  have ov: "ovs (cc_chain_id c) = None"
    using override_loop_standalone[OF assms(1)[unfolded ToOverrideSet_def], of "cc_chain_id c"] assms(3-5)
    by (metis distinct_map inj_onD)
  have "st_chains ?s (cc_chain_id c) = Some (i\<lparr>ci_sources := setAll SourceConfig, ci_last_changed := now\<rparr>)" "is_standalone ?s (cc_chain_id c)"
    using AddStandalone_get[OF i(1) dist, of dl now "New_store (Some ovs)"] id ov
    by (simp_all add: resolveStandalone_def with_override_def New_store_def)
  then show ?thesis using live_updates_keep[of ?s "cc_chain_id c" dl us] i(2) by (simp add: keeps_def)
qed



end
