(* ===== verification/Txerr.thy ===== *)
theory Txerr
  imports Coins
begin

text \<open>
  \<^verbatim>\<open>internal/tx/errors.go\<close>. A Go error is the list of sentinels that \<^verbatim>\<open>errors.Is\<close> finds in its chain, together with its text and the code of the gRPC status it carries, if any (\<^verbatim>\<open>14\<close> is \<^verbatim>\<open>codes.Unavailable\<close>, \<^verbatim>\<open>5\<close> \<^verbatim>\<open>codes.NotFound\<close>).
\<close>

datatype tx_sentinel =
    ErrAccountNotFound | ErrSequenceMismatch | ErrInsufficientFee | ErrInsufficientGas | ErrInsufficientFunds
  | ErrChainUnreachable | ErrBroadcastTimeout | ErrUnknownAccountType | ErrNoEndpointAvailable | errRESTUnavailable

record tx_error =
  te_chain :: "tx_sentinel list"
  te_text :: string
  te_grpc :: "nat option"

fun sentinel_text :: "tx_sentinel \<Rightarrow> string" where
  "sentinel_text ErrAccountNotFound = ''tx: account not found''"
| "sentinel_text ErrSequenceMismatch = ''tx: sequence mismatch''"
| "sentinel_text ErrInsufficientFee = ''tx: insufficient fee''"
| "sentinel_text ErrInsufficientGas = ''tx: insufficient gas''"
| "sentinel_text ErrInsufficientFunds = ''tx: insufficient funds''"
| "sentinel_text ErrChainUnreachable = ''tx: chain unreachable''"
| "sentinel_text ErrBroadcastTimeout = ''tx: broadcast timeout''"
| "sentinel_text ErrUnknownAccountType = ''tx: unknown account type''"
| "sentinel_text ErrNoEndpointAvailable = ''tx: no endpoint available''"
| "sentinel_text errRESTUnavailable = ''tx: REST endpoint unavailable''"

definition sentinel :: "tx_sentinel \<Rightarrow> tx_error" where
  "sentinel s = \<lparr>te_chain = [s], te_text = sentinel_text s, te_grpc = None\<rparr>"

definition errors_Is :: "tx_error \<Rightarrow> tx_sentinel \<Rightarrow> bool" where "errors_Is e s \<longleftrightarrow> s \<in> set (te_chain e)"

text \<open>\<^verbatim>\<open>fmt.Errorf\<close> with a prefix and \<^verbatim>\<open>%w\<close> at the end, and with a text only.\<close>

definition wrap :: "string \<Rightarrow> tx_error \<Rightarrow> tx_error" where
  "wrap prefix e = e\<lparr>te_text := prefix @ te_text e\<rparr>"

definition plain_error :: "string \<Rightarrow> tx_error" where "plain_error t = \<lparr>te_chain = [], te_text = t, te_grpc = None\<rparr>"

definition abciCodeInsufficientFunds :: nat where "abciCodeInsufficientFunds = 5"
definition abciCodeOutOfGas :: nat where "abciCodeOutOfGas = 11"
definition abciCodeInsufficientFee :: nat where "abciCodeInsufficientFee = 13"
definition abciCodeWrongSequence :: nat where "abciCodeWrongSequence = 32"

definition IsSequenceMismatch :: "tx_error \<Rightarrow> bool" where
  "IsSequenceMismatch e \<longleftrightarrow> errors_Is e ErrSequenceMismatch \<or> contains (te_text e) ''account sequence mismatch''"

definition IsInsufficientFee :: "tx_error \<Rightarrow> bool" where
  "IsInsufficientFee e \<longleftrightarrow> errors_Is e ErrInsufficientFee"

definition classifyCodeAndLog :: "nat \<Rightarrow> string \<Rightarrow> tx_error" where
  "classifyCodeAndLog code rawLog =
     (if code = abciCodeInsufficientFunds then sentinel ErrInsufficientFunds
      else if code = abciCodeOutOfGas then sentinel ErrInsufficientGas
      else if code = abciCodeInsufficientFee then sentinel ErrInsufficientFee
      else if code = abciCodeWrongSequence
           then \<lparr>te_chain = [ErrSequenceMismatch], te_text = sentinel_text ErrSequenceMismatch @ '': '' @ rawLog, te_grpc = None\<rparr>
      else plain_error (''tx: chain error code '' @ show_nat code @ '': '' @ rawLog))"

lemma IsSequenceMismatch_wrap: "errors_Is e ErrSequenceMismatch \<Longrightarrow> IsSequenceMismatch (wrap p e)"
  by (simp add: IsSequenceMismatch_def errors_Is_def wrap_def)

lemma IsInsufficientFee_wrap [simp]: "IsInsufficientFee (wrap p e) = IsInsufficientFee e"
  by (simp add: IsInsufficientFee_def errors_Is_def wrap_def)

text \<open>A code 32 is a sequence mismatch and a code 13 an insufficient fee, whatever the log says; the sentinel codes are never a mismatch.\<close>

lemma classify_codes:
  "IsSequenceMismatch (classifyCodeAndLog 32 rawLog)"
  "IsInsufficientFee (classifyCodeAndLog code rawLog) \<longleftrightarrow> code = 13"
  "code \<in> {5, 11, 13} \<Longrightarrow> \<not> IsSequenceMismatch (classifyCodeAndLog code rawLog)"
proof -
  show "IsSequenceMismatch (classifyCodeAndLog 32 rawLog)"
    by (simp add: IsSequenceMismatch_def classifyCodeAndLog_def errors_Is_def abciCodeInsufficientFunds_def abciCodeOutOfGas_def
        abciCodeInsufficientFee_def abciCodeWrongSequence_def)
  show "IsInsufficientFee (classifyCodeAndLog code rawLog) \<longleftrightarrow> code = 13"
    by (simp add: IsInsufficientFee_def classifyCodeAndLog_def errors_Is_def abciCodeInsufficientFunds_def abciCodeOutOfGas_def
        abciCodeInsufficientFee_def abciCodeWrongSequence_def sentinel_def plain_error_def)
  have "\<not> contains (sentinel_text s) ''account sequence mismatch''" for s by (cases s) (simp_all add: has_prefix_def)
  then show "code \<in> {5, 11, 13} \<Longrightarrow> \<not> IsSequenceMismatch (classifyCodeAndLog code rawLog)"
    by (auto simp: IsSequenceMismatch_def classifyCodeAndLog_def errors_Is_def abciCodeInsufficientFunds_def abciCodeOutOfGas_def
        abciCodeInsufficientFee_def abciCodeWrongSequence_def sentinel_def has_prefix_def)
qed

end
