(* ===== verification/Endpoint.thy ===== *)
theory Endpoint
  imports Prelude
begin

text \<open>
  \<^verbatim>\<open>internal/tx/endpoint.go\<close>: the ordered pool of node URLs with health flags, and the probe loop of \<^verbatim>\<open>internal/chain/health.go\<close> (a TCP
  dial is an argument). The locale \<^verbatim>\<open>health_pool\<close> is what the transaction client relies on: the pool behaves as an ordered list of URLs
  with a set of unhealthy ones. It is interpreted on the pool of the code.
\<close>

record endpoint_entry =
  ee_url :: string
  ee_healthy :: bool

type_synonym endpoint_pool = "endpoint_entry list"

definition NewEndpointPool :: "string list \<Rightarrow> endpoint_pool" where
  "NewEndpointPool urls = map (\<lambda>u. \<lparr>ee_url = u, ee_healthy = True\<rparr>) urls"

fun Next :: "endpoint_pool \<Rightarrow> string option" where
  "Next [] = None"
| "Next (e # es) = (if ee_healthy e then Some (ee_url e) else Next es)"

fun set_health :: "bool \<Rightarrow> string \<Rightarrow> endpoint_pool \<Rightarrow> endpoint_pool" where
  "set_health h url [] = []"
| "set_health h url (e # es) = (if ee_url e = url then e\<lparr>ee_healthy := h\<rparr> # es else e # set_health h url es)"

definition MarkUnhealthy_endpoint :: "string \<Rightarrow> endpoint_pool \<Rightarrow> endpoint_pool" where
  "MarkUnhealthy_endpoint url p = set_health False url p"

definition MarkHealthy_endpoint :: "string \<Rightarrow> endpoint_pool \<Rightarrow> endpoint_pool" where
  "MarkHealthy_endpoint url p = set_health True url p"

definition Unhealthy :: "endpoint_pool \<Rightarrow> string list" where
  "Unhealthy p = map ee_url (filter (\<lambda>e. \<not> ee_healthy e) p)"

definition has_suffix :: "string \<Rightarrow> string \<Rightarrow> bool" where
  "has_suffix s p \<longleftrightarrow> length p \<le> length s \<and> drop (length s - length p) s = p"

definition endpointIsTLS :: "string \<Rightarrow> bool" where "endpointIsTLS url = has_suffix url '':443''"

text \<open>One tick of the probe loop: \<^verbatim>\<open>Unhealthy\<close> is a snapshot, each URL that answers is restored.\<close>

definition probe_tick :: "(string \<Rightarrow> bool) \<Rightarrow> endpoint_pool \<Rightarrow> endpoint_pool" where
  "probe_tick dial p = fold (\<lambda>url q. if dial url then MarkHealthy_endpoint url q else q) (Unhealthy p) p"

definition pool_urls :: "endpoint_pool \<Rightarrow> string list" where "pool_urls p = map ee_url p"

definition down :: "endpoint_pool \<Rightarrow> string set" where "down p = {ee_url e |e. e \<in> set p \<and> \<not> ee_healthy e}"

definition endpoint_inv :: "endpoint_pool \<Rightarrow> bool" where "endpoint_inv p \<longleftrightarrow> distinct (pool_urls p)"

subsection \<open>The abstract pool\<close>

locale health_pool =
  fixes urls :: "'p \<Rightarrow> string list"
    and bad :: "'p \<Rightarrow> string set"
    and inv :: "'p \<Rightarrow> bool"
    and pick :: "'p \<Rightarrow> string option"
    and fail :: "string \<Rightarrow> 'p \<Rightarrow> 'p"
    and heal :: "string \<Rightarrow> 'p \<Rightarrow> 'p"
  assumes bad_sub: "bad p \<subseteq> set (urls p)"
    and pick_first: "inv p \<Longrightarrow> pick p = find (\<lambda>u. u \<notin> bad p) (urls p)"
    and fail_urls: "urls (fail u p) = urls p"
    and fail_bad: "inv p \<Longrightarrow> bad (fail u p) = bad p \<union> ({u} \<inter> set (urls p))"
    and fail_inv: "inv p \<Longrightarrow> inv (fail u p)"
    and heal_urls: "urls (heal u p) = urls p"
    and heal_bad: "inv p \<Longrightarrow> bad (heal u p) = bad p - {u}"
    and heal_inv: "inv p \<Longrightarrow> inv (heal u p)"
begin

lemma pick_None: "inv p \<Longrightarrow> pick p = None \<longleftrightarrow> bad p = set (urls p)"
  using bad_sub[of p] by (auto simp: pick_first find_None_iff)

lemma pick_healthy: "inv p \<Longrightarrow> pick p = Some u \<Longrightarrow> u \<in> set (urls p) \<and> u \<notin> bad p"
  by (auto simp: pick_first find_Some_iff)

text \<open>Failing over always leaves the endpoint that failed.\<close>

lemma pick_after_fail: "inv p \<Longrightarrow> u \<in> set (urls p) \<Longrightarrow> pick (fail u p) \<noteq> Some u"
  using pick_healthy[OF fail_inv, of p u u] by (auto simp: fail_bad fail_urls)

lemma fold_fail_inv: "inv p \<Longrightarrow> inv (fold fail us p)"
  by (induction us arbitrary: p) (simp_all add: fail_inv)

lemma fold_fail_urls: "urls (fold fail us p) = urls p"
  by (induction us arbitrary: p) (simp_all add: fail_urls)

lemma fold_fail_bad: "inv p \<Longrightarrow> bad (fold fail us p) = bad p \<union> (set us \<inter> set (urls p))"
  by (induction us arbitrary: p) (auto simp: fail_bad fail_inv fail_urls)

text \<open>A pool is exhausted exactly when every URL has failed since it last healed.\<close>

lemma exhausted_iff: "inv p \<Longrightarrow> bad p = {} \<Longrightarrow> pick (fold fail us p) = None \<longleftrightarrow> set (urls p) \<subseteq> set us"
  by (auto simp: pick_None fold_fail_inv fold_fail_bad fold_fail_urls)

lemma fold_heal: "inv p \<Longrightarrow> inv (fold heal us p) \<and> urls (fold heal us p) = urls p \<and> bad (fold heal us p) = bad p - set us"
  by (induction us arbitrary: p) (auto simp: heal_bad heal_inv heal_urls)

end

lemma set_health_urls: "pool_urls (set_health h u p) = pool_urls p"
  by (induction h u p rule: set_health.induct) (auto simp: pool_urls_def)

lemma set_health_down:
  "distinct (pool_urls p) \<Longrightarrow> down (set_health h u p) = (if h then down p - {u} else down p \<union> ({u} \<inter> set (pool_urls p)))"
proof (induction h u p rule: set_health.induct)
  case (2 h u e es)
  have d: "down (e # es) = (if ee_healthy e then down es else insert (ee_url e) (down es))" for e es by (auto simp: down_def)
  have "down es \<subseteq> set (pool_urls es)" by (auto simp: down_def pool_urls_def)
  then have "ee_url e \<notin> down es" using "2.prems" by (auto simp: pool_urls_def)
  then show ?case using 2 by (auto simp: d pool_urls_def)
qed (simp add: down_def pool_urls_def)

lemma Next_first: "distinct (pool_urls p) \<Longrightarrow> Next p = find (\<lambda>u. u \<notin> down p) (pool_urls p)"
proof (induction p rule: Next.induct)
  case (2 e es)
  have d: "down (e # es) = (if ee_healthy e then down es else insert (ee_url e) (down es))" by (auto simp: down_def)
  have sub: "down es \<subseteq> set (pool_urls es)" by (auto simp: down_def pool_urls_def)
  have "find (\<lambda>u. u \<notin> down (e # es)) (pool_urls es) = find (\<lambda>u. u \<notin> down es) (pool_urls es)"
    using "2.prems" by (intro find_cong) (auto simp: d pool_urls_def image_iff)
  then show ?case using 2 sub by (auto simp: d pool_urls_def)
qed (simp add: pool_urls_def)

interpretation endpoints: health_pool pool_urls down endpoint_inv Next MarkUnhealthy_endpoint MarkHealthy_endpoint
  by unfold_locales
    (auto simp: down_def pool_urls_def endpoint_inv_def Next_first MarkUnhealthy_endpoint_def MarkHealthy_endpoint_def
      set_health_urls[unfolded pool_urls_def] set_health_down[unfolded down_def pool_urls_def])



lemma NewEndpointPool_abs: "pool_urls (NewEndpointPool urls) = urls" "down (NewEndpointPool urls) = {}"
  by (auto simp: NewEndpointPool_def pool_urls_def down_def comp_def)

lemma Unhealthy_set: "set (Unhealthy p) = down p"
  by (auto simp: Unhealthy_def down_def)

lemma probe_tick_heals: "probe_tick dial p = fold MarkHealthy_endpoint (filter dial (Unhealthy p)) p"
proof -
  have "fold (\<lambda>url q. if dial url then MarkHealthy_endpoint url q else q) us q = fold MarkHealthy_endpoint (filter dial us) q" for us q
    by (induction us arbitrary: q) simp_all
  then show ?thesis by (simp add: probe_tick_def)
qed

text \<open>Endpoint selection and recovery. For distinct URLs the pool hands out the first one, in configured order, that has not failed
  since it was last restored; it gives up exactly when all have failed; and one probe tick restores exactly the failed endpoints that
  answer the dial.\<close>

theorem endpoint_failover:
  assumes "distinct urls"
  shows "Next (fold MarkUnhealthy_endpoint failed (NewEndpointPool urls)) = find (\<lambda>u. u \<notin> set failed) urls \<and>
    (Next (fold MarkUnhealthy_endpoint failed (NewEndpointPool urls)) = None \<longleftrightarrow> set urls \<subseteq> set failed) \<and>
    Next (probe_tick dial (fold MarkUnhealthy_endpoint failed (NewEndpointPool urls))) = find (\<lambda>u. u \<notin> set failed \<or> dial u) urls"
proof -
  let ?p = "NewEndpointPool urls" and ?q = "fold MarkUnhealthy_endpoint failed (NewEndpointPool urls)"
  have inv: "endpoint_inv ?p" using assms by (simp add: endpoint_inv_def NewEndpointPool_abs)
  note inv' = endpoints.fold_fail_inv[OF inv, of failed]
  have q: "pool_urls ?q = urls" "down ?q = set failed \<inter> set urls"
    using endpoints.fold_fail_urls endpoints.fold_fail_bad[OF inv] by (simp_all add: NewEndpointPool_abs)
  have first: "Next ?q = find (\<lambda>u. u \<notin> set failed) urls"
    unfolding endpoints.pick_first[OF inv'] q by (rule find_cong) auto
  note h = endpoints.fold_heal[OF inv', of "filter dial (Unhealthy ?q)"]
  have r: "pool_urls (probe_tick dial ?q) = urls" "down (probe_tick dial ?q) = {u \<in> set failed \<inter> set urls. \<not> dial u}"
    using h q by (auto simp: probe_tick_heals Unhealthy_set)
  have "Next (probe_tick dial ?q) = find (\<lambda>u. u \<notin> down (probe_tick dial ?q)) urls"
    using endpoints.pick_first[of "probe_tick dial ?q"] h r(1) by (simp add: probe_tick_heals)
  also have "\<dots> = find (\<lambda>u. u \<notin> set failed \<or> dial u) urls" unfolding r by (rule find_cong) auto
  finally have last: "Next (probe_tick dial ?q) = find (\<lambda>u. u \<notin> set failed \<or> dial u) urls" .
  show ?thesis
    using first endpoints.exhausted_iff[OF inv, of failed] last by (simp add: NewEndpointPool_abs)
qed

end
