(* ===== verification/Chain.thy ===== *)
theory Chain
  imports Batch Txerr Endpoint Overrides "HOL-Library.Multiset"
begin

text \<open>
  \<^verbatim>\<open>internal/chain/chain.go\<close> and \<^verbatim>\<open>internal/chain/refill.go\<close>: an active chain, how it is built from its configuration, the batch flush with its
  fallback from multi-send to single sends, suspension, and the refill of distributor accounts.

  The transaction client (the interface \<^verbatim>\<open>txBroadcaster\<close>) is the environment: every call may get any answer. The flush function runs
  concurrently for different distributors over shared atomics, so it is a machine \<^verbatim>\<open>flush_step\<close> that performs one client call at a
  time; \<^verbatim>\<open>fa_step\<close> interleaves requests, the goroutines of the windows, flushes in flight and the operator's resume. Failing to parse
  a balance leaves a \<^verbatim>\<open>big.Int\<close> undefined in Go: \<^verbatim>\<open>junk\<close> is its value. Metrics and logging are left out.
\<close>

datatype chain_error = ErrChainSuspended | ErrSyncMode | ErrBatch batch_error

record chain =
  ch_info :: chain_info
  ch_drip :: drip_policy
  ch_client :: bool
  ch_endpoint_pool :: "endpoint_pool option"
  ch_pool :: "pool option"
  ch_holder_addr :: string
  ch_distributor_addrs :: "string list"
  ch_refill_threshold :: coin
  ch_refill_interval :: int
  ch_ibc_timeout :: int
  ch_ibc_drips :: "ibc_drip_config list"
  ch_multi_disabled :: bool
  ch_suspended :: bool
  ch_suspend_reason :: "string option"
  ch_send_fail_streak :: int
  ch_multi_fail_streak :: int

definition multiSendDisableThreshold :: int where "multiSendDisableThreshold = 3"
definition suspendThreshold :: int where "suspendThreshold = 5"

datatype threshold_error = ThrCoin coin_error | ThrUnset | ThrAmount string

definition resolveRefillThreshold :: "string \<Rightarrow> string \<Rightarrow> (threshold_error, coin) result" where
  "resolveRefillThreshold threshold dripAnonymous =
     (if threshold \<noteq> '''' then (case ParseCoin threshold of Inl e \<Rightarrow> Err (ThrCoin e) | Inr c \<Rightarrow> Ok c)
      else if dripAnonymous = '''' then Err ThrUnset
      else case ParseCoin dripAnonymous of
             Inl e \<Rightarrow> Err (ThrCoin e)
           | Inr c \<Rightarrow>
               (case set_string (coin_amount c) of
                  None \<Rightarrow> Err (ThrAmount (coin_amount c))
                | Some n \<Rightarrow> Ok \<lparr>coin_denom = coin_denom c, coin_amount = show_int (n * 10)\<rparr>))"

datatype new_chain_error =
    NcClient tx_error | NcConfig config_error | NcHolder tx_error | NcDistributor nat tx_error | NcThreshold threshold_error

fun distributor_addrs :: "(nat \<Rightarrow> (tx_error, string) result) \<Rightarrow> nat list \<Rightarrow> (new_chain_error, string list) result" where
  "distributor_addrs addressForKey [] = Ok []"
| "distributor_addrs addressForKey (k # ks) =
     (case addressForKey k of
        Inl e \<Rightarrow> Err (NcDistributor k e)
      | Inr a \<Rightarrow> rbind (distributor_addrs addressForKey ks) (\<lambda>as. Ok (a # as)))"

text \<open>\<^verbatim>\<open>txNew\<close> is \<^verbatim>\<open>tx.New\<close> (\<^const>\<open>None\<close> on success) and \<^verbatim>\<open>addressForKey\<close> its \<^verbatim>\<open>AddressForKey\<close>.\<close>

definition newChain ::
    "parse_duration \<Rightarrow> (chain_info \<Rightarrow> nat list \<Rightarrow> tx_error option) \<Rightarrow> (nat \<Rightarrow> (tx_error, string) result) \<Rightarrow>
     chain_info \<Rightarrow> drip_policy \<Rightarrow> chain_config \<Rightarrow> (new_chain_error, chain) result" where
  "newChain pd txNew addressForKey info drip cfg =
     (let ibcTimeout = case_option 0 id (pd (ibc_timeout (cc_ibc cfg)));
          hasEndpoints = (eps_grpc (ci_endpoints info) \<noteq> [] \<or> eps_rest (ci_endpoints info) \<noteq> []);
          base = \<lparr>ch_info = info, ch_drip = drip, ch_client = False, ch_endpoint_pool = None, ch_pool = None,
                  ch_holder_addr = '''', ch_distributor_addrs = [], ch_refill_threshold = \<lparr>coin_denom = '''', coin_amount = ''''\<rparr>,
                  ch_refill_interval = 0, ch_ibc_timeout = ibcTimeout, ch_ibc_drips = ibc_drips (cc_ibc cfg),
                  ch_multi_disabled = False, ch_suspended = False, ch_suspend_reason = None,
                  ch_send_fail_streak = 0, ch_multi_fail_streak = 0\<rparr>
      in if dp_anonymous drip = '''' \<and> \<not> hasEndpoints then Ok base
         else
           let epPool = (if eps_grpc (ci_endpoints info) \<noteq> []
                         then Some (NewEndpointPool (map ept_url (eps_grpc (ci_endpoints info)))) else None);
               n = (if dp_anonymous drip \<noteq> '''' then nat (DistributorCount cfg) else 0);
               withClient = base\<lparr>ch_client := True, ch_endpoint_pool := epPool\<rparr>
           in case txNew info [0..<n + 1] of
                Some e \<Rightarrow> Err (NcClient e)
              | None \<Rightarrow>
                  if dp_anonymous drip = '''' then Ok withClient
                  else case BatchWindowDuration pd cfg of
                    Inl e \<Rightarrow> Err (NcConfig e)
                  | Inr batchDur \<Rightarrow>
                      (case addressForKey 0 of
                         Inl e \<Rightarrow> Err (NcHolder e)
                       | Inr holder \<Rightarrow>
                           rbind (distributor_addrs addressForKey [1..<n + 1]) (\<lambda>addrs.
                             case resolveRefillThreshold (cc_refill_threshold cfg) (dp_anonymous drip) of
                               Inl e \<Rightarrow> Err (NcThreshold e)
                             | Inr thr \<Rightarrow>
                                 (case RefillIntervalOrDefault pd cfg of
                                    Inl e \<Rightarrow> Err (NcConfig e)
                                  | Inr interval \<Rightarrow>
                                      Ok (withClient\<lparr>ch_holder_addr := holder, ch_distributor_addrs := addrs,
                                            ch_refill_threshold := thr, ch_refill_interval := interval,
                                            ch_pool := (if batchDur > 0
                                              then Some (NewPool n (nat (MaxRecipientsPerBatchOrDefault cfg)) (nat (MaxQueueDepthOrDefault cfg)))
                                              else None)\<rparr>)))))"

definition Chain_Pour :: "batch_request \<Rightarrow> chain \<Rightarrow> (chain_error, unit) result \<times> chain" where
  "Chain_Pour req c =
     (if ch_suspended c then (Err ErrChainSuspended, c)
      else case ch_pool c of
             None \<Rightarrow> (Err ErrSyncMode, c)
           | Some p \<Rightarrow>
               (case Route req p of
                  (Inl e, _) \<Rightarrow> (Err (ErrBatch e), c)
                | (Inr _, p') \<Rightarrow> (Ok (), c\<lparr>ch_pool := Some p'\<rparr>)))"

definition Suspend :: "string \<Rightarrow> chain \<Rightarrow> chain" where
  "Suspend reason c = c\<lparr>ch_suspend_reason := Some reason, ch_suspended := True\<rparr>"

definition Resume :: "chain \<Rightarrow> chain" where
  "Resume c = c\<lparr>ch_suspended := False, ch_send_fail_streak := 0, ch_multi_fail_streak := 0\<rparr>"

record distributor_state =
  ds_key_index :: nat
  ds_address :: string
  ds_balance :: string
  ds_queue_depth :: nat
  ds_status :: dist_status

text \<open>\<^verbatim>\<open>balance\<close> is the answer of the live query for each address, \<^const>\<open>None\<close> when it fails.\<close>

definition DistributorStates :: "(string \<Rightarrow> string \<Rightarrow> string option) \<Rightarrow> chain \<Rightarrow> distributor_state list" where
  "DistributorStates balance c =
     (let ds = (case ch_pool c of None \<Rightarrow> [] | Some p \<Rightarrow> All_distributors p)
      in map (\<lambda>i. let addr = ch_distributor_addrs c ! i in
               \<lparr>ds_key_index = i + 1, ds_address = addr,
                ds_balance = case_option '''' id (balance addr (coin_denom (ch_refill_threshold c))),
                ds_queue_depth = (if i < length ds then Depth (d_window (ds ! i)) else 0),
                ds_status = (if i < length ds then dist_Status (ds ! i) else StatusHealthy)\<rparr>)
           [0..<length (ch_distributor_addrs c)])"

record chain_status =
  cst_suspended :: bool
  cst_suspend_reason :: string
  cst_multi_disabled :: bool
  cst_send_fail_streak :: int
  cst_multi_fail_streak :: int

definition ChainStatus :: "chain \<Rightarrow> chain_status" where
  "ChainStatus c =
     \<lparr>cst_suspended = ch_suspended c, cst_suspend_reason = case_option '''' id (ch_suspend_reason c),
      cst_multi_disabled = ch_multi_disabled c, cst_send_fail_streak = ch_send_fail_streak c,
      cst_multi_fail_streak = ch_multi_fail_streak c\<rparr>"

datatype client_call = CallMulti batch_send_request | CallSend send_request

text \<open>Where a flush stands: before its first test, before the first or second multi-send, or in the split loop, with whether a
  multi-send was attempted, the key indices of the healthy distributors read at its start, and the index of the next request.\<close>

datatype flush_pc = FlushStart | FlushMulti bool | FlushSplit bool "nat list" nat | FlushDone

record flush =
  fl_key :: nat
  fl_reqs :: "batch_request list"
  fl_pc :: flush_pc

datatype flush_error = FlushSuspended | FlushTx tx_error

type_synonym delivery = "nat \<times> (flush_error, string) result"

definition sendErrAll :: "batch_request list \<Rightarrow> flush_error \<Rightarrow> delivery list" where
  "sendErrAll reqs e = map (\<lambda>r. (bq_id r, Err e)) reqs"

definition flush_outputs :: "batch_request list \<Rightarrow> send_output list" where
  "flush_outputs reqs = map (\<lambda>r. \<lparr>so_to_address = bq_to_address r, so_coins = bq_coins r\<rparr>) reqs"

definition enter_split :: "chain \<Rightarrow> bool \<Rightarrow> flush_pc" where
  "enter_split c attempted = FlushSplit attempted (case ch_pool c of None \<Rightarrow> [] | Some p \<Rightarrow> map d_key_index (Healthy p)) 0"

definition fail_send :: "nat \<Rightarrow> tx_error \<Rightarrow> chain \<Rightarrow> chain" where
  "fail_send ki e c =
     (let streak = ch_send_fail_streak c + 1;
          c1 = c\<lparr>ch_send_fail_streak := streak\<rparr>;
          c2 = (if streak \<ge> suspendThreshold then Suspend (''send streak '' @ show_int streak @ '': '' @ te_text e) c1 else c1)
      in c2\<lparr>ch_pool := map_option (MarkRecovering ki) (ch_pool c2)\<rparr>)"

definition finish_split :: "bool \<Rightarrow> chain \<Rightarrow> chain" where
  "finish_split attempted c =
     (let c1 = (if attempted
                then let streak = ch_multi_fail_streak c + 1
                     in c\<lparr>ch_multi_fail_streak := streak,
                          ch_multi_disabled := (streak \<ge> multiSendDisableThreshold \<or> ch_multi_disabled c)\<rparr>
                else c)
      in c1\<lparr>ch_send_fail_streak := 0\<rparr>)"

text \<open>One step of a flush: at most one client call, whose answer is \<^verbatim>\<open>ans\<close>; the call made and the results delivered are returned.\<close>

definition flush_step ::
    "(tx_error, string) result \<Rightarrow> chain \<Rightarrow> flush \<Rightarrow> chain \<times> flush \<times> client_call option \<times> delivery list" where
  "flush_step ans c f =
     (case fl_pc f of
        FlushStart \<Rightarrow>
          if ch_suspended c then (c, f\<lparr>fl_pc := FlushDone\<rparr>, None, sendErrAll (fl_reqs f) FlushSuspended)
          else if \<not> ch_multi_disabled c then (c, f\<lparr>fl_pc := FlushMulti False\<rparr>, None, [])
          else (c, f\<lparr>fl_pc := enter_split c False\<rparr>, None, [])
      | FlushMulti second \<Rightarrow>
          let call = CallMulti \<lparr>bsr_key_index = fl_key f, bsr_outputs = flush_outputs (fl_reqs f)\<rparr>
          in (case ans of
                Inr txHash \<Rightarrow>
                  (c\<lparr>ch_send_fail_streak := 0, ch_multi_fail_streak := 0\<rparr>, f\<lparr>fl_pc := FlushDone\<rparr>, Some call,
                   map (\<lambda>r. (bq_id r, Ok txHash)) (fl_reqs f))
              | Inl e \<Rightarrow>
                  if \<not> second \<and> (IsSequenceMismatch e \<or> IsInsufficientFee e)
                  then (c, f\<lparr>fl_pc := FlushMulti True\<rparr>, Some call, [])
                  else (c, f\<lparr>fl_pc := enter_split c True\<rparr>, Some call, []))
      | FlushSplit attempted healthy i \<Rightarrow>
          if i \<ge> length (fl_reqs f) then (finish_split attempted c, f\<lparr>fl_pc := FlushDone\<rparr>, None, [])
          else
            let r = fl_reqs f ! i;
                ki = (if healthy \<noteq> [] then healthy ! (i mod length healthy) else fl_key f);
                call = CallSend \<lparr>sr_key_index = ki, sr_to_address = bq_to_address r, sr_coins = bq_coins r\<rparr>
            in (case ans of
                  Inr txHash \<Rightarrow> (c, f\<lparr>fl_pc := FlushSplit attempted healthy (Suc i)\<rparr>, Some call, [(bq_id r, Ok txHash)])
                | Inl e \<Rightarrow> (fail_send ki e c, f\<lparr>fl_pc := FlushDone\<rparr>, Some call, sendErrAll (drop i (fl_reqs f)) (FlushTx e)))
      | FlushDone \<Rightarrow> (c, f, None, []))"

text \<open>A flush on its own, from its start to its end, with the answers of the client in call order.\<close>

fun run_flush ::
    "nat \<Rightarrow> (tx_error, string) result list \<Rightarrow> chain \<Rightarrow> flush \<Rightarrow> chain \<times> flush \<times> client_call list \<times> delivery list" where
  "run_flush 0 answers c f = (c, f, [], [])"
| "run_flush (Suc n) answers c f =
     (case flush_step (case answers of [] \<Rightarrow> Err (sentinel ErrChainUnreachable) | a # _ \<Rightarrow> a) c f of
        (c1, f1, call, ds) \<Rightarrow>
          (case run_flush n (if call = None then answers else tl answers) c1 f1 of
             (c2, f2, calls, ds') \<Rightarrow> (c2, f2, (case call of None \<Rightarrow> [] | Some x \<Rightarrow> [x]) @ calls, ds @ ds')))"

definition big_int :: "(string \<Rightarrow> int) \<Rightarrow> string \<Rightarrow> int" where
  "big_int junk s = (case set_string s of Some n \<Rightarrow> n | None \<Rightarrow> junk s)"

definition refillAmount :: "(string \<Rightarrow> int) \<Rightarrow> string \<Rightarrow> string \<Rightarrow> string \<times> bool" where
  "refillAmount junk balanceAmt thresholdAmt =
     (let bal = big_int junk balanceAmt; thr = big_int junk thresholdAmt
      in if bal \<ge> thr then ('''', False) else (show_int (thr * 10 - bal), True))"

datatype refill_error = RefillQuery tx_error | RefillSend nat tx_error | RefillIndex nat

text \<open>The transaction sent, if any, and the result.\<close>

definition refillOne ::
    "(string \<Rightarrow> int) \<Rightarrow> (string \<Rightarrow> string \<Rightarrow> (tx_error, coin) result) \<Rightarrow> (send_request \<Rightarrow> (tx_error, string) result) \<Rightarrow>
     chain \<Rightarrow> nat \<Rightarrow> string \<Rightarrow> send_request option \<times> (refill_error, unit) result" where
  "refillOne junk queryBalance send c keyIndex addr =
     (case queryBalance addr (coin_denom (ch_refill_threshold c)) of
        Inl e \<Rightarrow> (None, Err (RefillQuery e))
      | Inr bal \<Rightarrow>
          (case refillAmount junk (coin_amount bal) (coin_amount (ch_refill_threshold c)) of
             (topUp, needed) \<Rightarrow>
               if \<not> needed then (None, Ok ())
               else let req = \<lparr>sr_key_index = 0, sr_to_address = addr,
                               sr_coins = [\<lparr>coin_denom = coin_denom (ch_refill_threshold c), coin_amount = topUp\<rparr>]\<rparr>
                    in (Some req, (case send req of Inl e \<Rightarrow> Err (RefillSend keyIndex e) | Inr _ \<Rightarrow> Ok ()))))"

definition RefillNow ::
    "(string \<Rightarrow> int) \<Rightarrow> (string \<Rightarrow> string \<Rightarrow> (tx_error, coin) result) \<Rightarrow> (send_request \<Rightarrow> (tx_error, string) result) \<Rightarrow>
     chain \<Rightarrow> nat \<Rightarrow> send_request option \<times> (refill_error, unit) result" where
  "RefillNow junk queryBalance send c keyIndex =
     (if keyIndex < 1 \<or> keyIndex > length (ch_distributor_addrs c) then (None, Err (RefillIndex keyIndex))
      else refillOne junk queryBalance send c keyIndex (ch_distributor_addrs c ! (keyIndex - 1)))"

text \<open>One pass over the distributors; an error of one does not stop the others.\<close>

definition refillCheck ::
    "(string \<Rightarrow> int) \<Rightarrow> (string \<Rightarrow> string \<Rightarrow> (tx_error, coin) result) \<Rightarrow> (send_request \<Rightarrow> (tx_error, string) result) \<Rightarrow>
     chain \<Rightarrow> (send_request option \<times> (refill_error, unit) result) list" where
  "refillCheck junk queryBalance send c =
     map (\<lambda>i. refillOne junk queryBalance send c (i + 1) (ch_distributor_addrs c ! i)) [0..<length (ch_distributor_addrs c)]"

subsection \<open>Refilling\<close>

text \<open>The steps of one flush when other activity may change the chain arbitrarily between them: each step sees any chain and any answer.\<close>

definition flush_steps ::
    "((tx_error, string) result \<times> chain) list \<Rightarrow> flush \<Rightarrow> flush \<times> client_call list \<times> delivery list" where
  "flush_steps xs f =
     fold (\<lambda>(ans, c) (f, calls, ds). case flush_step ans c f of
             (_, f', call, ds') \<Rightarrow> (f', calls @ (case call of None \<Rightarrow> [] | Some x \<Rightarrow> [x]), ds @ ds')) xs (f, [], [])"

definition flush_wf :: "flush \<Rightarrow> bool" where
  "flush_wf f \<longleftrightarrow> (case fl_pc f of FlushSplit _ _ i \<Rightarrow> i \<le> length (fl_reqs f) | _ \<Rightarrow> True)"

definition undelivered :: "flush \<Rightarrow> batch_request list" where
  "undelivered f = (case fl_pc f of FlushDone \<Rightarrow> [] | FlushSplit _ _ i \<Rightarrow> drop i (fl_reqs f) | _ \<Rightarrow> fl_reqs f)"

definition flush_measure :: "flush \<Rightarrow> nat" where
  "flush_measure f =
     (case fl_pc f of
        FlushStart \<Rightarrow> length (fl_reqs f) + 4
      | FlushMulti second \<Rightarrow> length (fl_reqs f) + (if second then 2 else 3)
      | FlushSplit _ _ i \<Rightarrow> length (fl_reqs f) - i + 1
      | FlushDone \<Rightarrow> 0)"

definition multi_call :: "flush \<Rightarrow> client_call" where
  "multi_call f = CallMulti \<lparr>bsr_key_index = fl_key f, bsr_outputs = flush_outputs (fl_reqs f)\<rparr>"

definition pays :: "client_call \<Rightarrow> batch_request \<Rightarrow> bool" where
  "pays call r = (case call of CallSend q \<Rightarrow> sr_to_address q = bq_to_address r \<and> sr_coins q = bq_coins r | CallMulti _ \<Rightarrow> False)"

text \<open>What has been sent when the flush stands at a given point: the batch at most twice as a multi-send, then each request of a
  prefix of the batch once.\<close>

definition calls_ok :: "flush \<Rightarrow> client_call list \<Rightarrow> bool" where
  "calls_ok f calls \<longleftrightarrow>
     (\<exists>k sends. calls = replicate k (multi_call f) @ sends \<and> k \<le> 2 \<and> length sends \<le> length (fl_reqs f) \<and>
        list_all2 pays sends (take (length sends) (fl_reqs f)) \<and>
        (case fl_pc f of
           FlushStart \<Rightarrow> k = 0 \<and> sends = []
         | FlushMulti second \<Rightarrow> k = (if second then 1 else 0) \<and> sends = []
         | FlushSplit _ _ i \<Rightarrow> length sends = i
         | FlushDone \<Rightarrow> True))"

record faucet =
  fa_chain :: chain
  fa_flights :: "flush list"
  fa_calls :: "client_call list"
  fa_results :: "delivery list"
  fa_accepted :: "batch_request list"

definition replace_window :: "nat \<Rightarrow> window \<Rightarrow> chain \<Rightarrow> chain" where
  "replace_window i w c = c\<lparr>ch_pool := map_option (\<lambda>p. p[i := (p ! i)\<lparr>d_window := w\<rparr>]) (ch_pool c)\<rparr>"

text \<open>
  \<^verbatim>\<open>take_batch\<close> is the goroutine of one window handing a batch to the flush function: it waits for that function to return before it
  takes the next one, and it may or may not have been woken by the flush signal. \<^verbatim>\<open>advance\<close> is a step of any flush in flight.
\<close>

inductive fa_step :: "faucet \<Rightarrow> faucet \<Rightarrow> bool" where
  pour: "Chain_Pour req (fa_chain s) = (Inr u, c) \<Longrightarrow>
     fa_step s (s\<lparr>fa_chain := c, fa_accepted := fa_accepted s @ [req]\<rparr>)"
| refuse: "Chain_Pour req (fa_chain s) = (Inl e, c) \<Longrightarrow> fa_step s (s\<lparr>fa_chain := c\<rparr>)"
| take_batch: "ch_pool (fa_chain s) = Some p \<Longrightarrow> i < length p \<Longrightarrow>
     \<forall>f \<in> set (fa_flights s). fl_key f = d_key_index (p ! i) \<longrightarrow> fl_pc f = FlushDone \<Longrightarrow>
     doFlush (d_window (p ! i)) = (batch, w) \<Longrightarrow> batch \<noteq> [] \<Longrightarrow> (b \<longrightarrow> w_flush_now w) \<Longrightarrow>
     fa_step s (s\<lparr>fa_chain := replace_window i (w\<lparr>w_flush_now := b\<rparr>) (fa_chain s),
                  fa_flights := fa_flights s @ [\<lparr>fl_key = d_key_index (p ! i), fl_reqs = batch, fl_pc = FlushStart\<rparr>]\<rparr>)"
| advance: "j < length (fa_flights s) \<Longrightarrow> flush_step ans (fa_chain s) (fa_flights s ! j) = (c, f, call, ds) \<Longrightarrow>
     fa_step s (s\<lparr>fa_chain := c, fa_flights := (fa_flights s)[j := f],
                  fa_calls := fa_calls s @ (case call of None \<Rightarrow> [] | Some x \<Rightarrow> [x]), fa_results := fa_results s @ ds\<rparr>)"
| resume: "fa_step s (s\<lparr>fa_chain := Resume (fa_chain s)\<rparr>)"

definition fa_init :: "chain \<Rightarrow> faucet" where
  "fa_init c = \<lparr>fa_chain = c, fa_flights = [], fa_calls = [], fa_results = [], fa_accepted = []\<rparr>"

definition pool_of :: "chain \<Rightarrow> pool" where "pool_of c = (case ch_pool c of None \<Rightarrow> [] | Some p \<Rightarrow> p)"

definition queued :: "pool \<Rightarrow> nat multiset" where
  "queued p = (\<Sum>d \<leftarrow> p. mset (map bq_id (w_queue (d_window d))))"

definition in_flight :: "flush list \<Rightarrow> nat multiset" where
  "in_flight fs = (\<Sum>f \<leftarrow> fs. mset (map bq_id (undelivered f)))"

text \<open>Nothing is lost and nothing is answered twice: every accepted request is in a queue, in a flight or answered.\<close>

definition fa_inv :: "faucet \<Rightarrow> bool" where
  "fa_inv s \<longleftrightarrow>
     mset (map bq_id (fa_accepted s)) = queued (pool_of (fa_chain s)) + in_flight (fa_flights s) + mset (map fst (fa_results s)) \<and>
     list_all flush_wf (fa_flights s)"

definition streaks_ok :: "chain \<Rightarrow> bool" where
  "streaks_ok c \<longleftrightarrow> 0 \<le> ch_send_fail_streak c \<and> 0 \<le> ch_multi_fail_streak c \<and>
     (\<not> ch_suspended c \<longrightarrow> ch_send_fail_streak c < suspendThreshold) \<and>
     (\<not> ch_multi_disabled c \<longrightarrow> ch_multi_fail_streak c < multiSendDisableThreshold)"

definition no_healthy :: "chain \<Rightarrow> bool" where
  "no_healthy c \<longleftrightarrow> (\<exists>p. ch_pool c = Some p \<and> Healthy p = [])"

text \<open>What a built chain satisfies.\<close>

definition chain_ready :: "drip_policy \<Rightarrow> chain_config \<Rightarrow> chain \<Rightarrow> bool" where
  "chain_ready drip cfg c \<longleftrightarrow>
     streaks_ok c \<and> \<not> ch_suspended c \<and> \<not> ch_multi_disabled c \<and> 0 < ch_ibc_timeout c \<and>
     (dp_anonymous drip = '''' \<longrightarrow> ch_pool c = None \<and> ch_distributor_addrs c = []) \<and>
     (dp_anonymous drip \<noteq> '''' \<longrightarrow>
        ch_client c \<and> length (ch_distributor_addrs c) = nat (DistributorCount cfg) \<and> all_digits (coin_amount (ch_refill_threshold c)) \<and>
        0 < ch_refill_interval c \<and>
        (case ch_pool c of
           None \<Rightarrow> True
         | Some p \<Rightarrow> length p = nat (DistributorCount cfg) \<and> Healthy p = p \<and> queued p = {#}))"

definition refill_for :: "chain \<Rightarrow> (string \<Rightarrow> nat) \<Rightarrow> string \<Rightarrow> send_request option" where
  "refill_for c bal a =
     (let t = ch_refill_threshold c; thr = digits_val (coin_amount t)
      in if bal a < thr
         then Some \<lparr>sr_key_index = 0, sr_to_address = a,
                    sr_coins = [\<lparr>coin_denom = coin_denom t, coin_amount = show_nat (10 * thr - bal a)\<rparr>]\<rparr>
         else None)"

definition received :: "send_request option \<Rightarrow> nat" where
  "received r = (case r of None \<Rightarrow> 0 | Some q \<Rightarrow> (\<Sum>co \<leftarrow> sr_coins q. digits_val (coin_amount co)))"

definition demo_drip :: drip_policy where
  "demo_drip = \<lparr>dp_anonymous = ''1000uosmo'', dp_signed = '''', dp_max_per_address_per_day = ''5000uosmo'', dp_memo = ''''\<rparr>"

definition build_demo :: "chain_config \<Rightarrow> (new_chain_error, chain) result" where
  "build_demo cfg = newChain sample_duration (\<lambda>_ _. None) (\<lambda>k. Ok (''addr'' @ show_nat k)) (rawToInfo ex_dl (ex_raw ''cosmos'')) demo_drip cfg"

definition demo_chain :: chain where "demo_chain = projr (build_demo (sample_chain\<lparr>cc_distributors := 1\<rparr>))"

definition demo_flush :: flush where "demo_flush = \<lparr>fl_key = 1, fl_reqs = [sample_req 0], fl_pc = FlushStart\<rparr>"

definition demo_pool :: "batch_request list \<Rightarrow> pool" where
  "demo_pool q = [\<lparr>d_key_index = 1, d_window = \<lparr>w_max_recipients = 25, w_capacity = 500, w_queue = q, w_flush_now = False\<rparr>,
     d_status = StatusHealthy\<rparr>]"

text \<open>One request from acceptance to its result.\<close>

definition demo1 :: faucet where
  "demo1 = (fa_init demo_chain)\<lparr>fa_chain := demo_chain\<lparr>ch_pool := Some (demo_pool [sample_req 0])\<rparr>, fa_accepted := [sample_req 0]\<rparr>"
definition demo2 :: faucet where
  "demo2 = demo1\<lparr>fa_chain := demo_chain, fa_flights := [demo_flush]\<rparr>"
definition demo3 :: faucet where
  "demo3 = demo2\<lparr>fa_flights := [demo_flush\<lparr>fl_pc := FlushMulti False\<rparr>]\<rparr>"
definition demo4 :: faucet where
  "demo4 = demo3\<lparr>fa_chain := demo_chain\<lparr>ch_send_fail_streak := 0, ch_multi_fail_streak := 0\<rparr>, fa_flights := [demo_flush\<lparr>fl_pc := FlushDone\<rparr>],
     fa_calls := [multi_call demo_flush], fa_results := [(0, Ok ''h'')]\<rparr>"

definition demo_failing :: faucet where
  "demo_failing = demo2\<lparr>fa_flights := [demo_flush\<lparr>fl_pc := FlushSplit False [1] 0\<rparr>]\<rparr>"

definition demo_failed :: faucet where
  "demo_failed = demo_failing\<lparr>fa_chain := fail_send 1 (sentinel ErrBroadcastTimeout) demo_chain, fa_flights := [demo_flush\<lparr>fl_pc := FlushDone\<rparr>],
     fa_calls := [CallSend \<lparr>sr_key_index = 1, sr_to_address = ''osmo1x'', sr_coins = []\<rparr>],
     fa_results := [(0, Err (FlushTx (sentinel ErrBroadcastTimeout)))]\<rparr>"

subsection \<open>A flush under any interleaving\<close>

lemma flush_step_wf: "flush_step ans c f = (c', f', call, ds) \<Longrightarrow> flush_wf f \<Longrightarrow> flush_wf f'"
  by (auto simp: flush_step_def flush_wf_def enter_split_def Let_def split: flush_pc.splits if_splits sum.splits)

lemma flush_step_reqs: "flush_step ans c f = (c', f', call, ds) \<Longrightarrow> fl_reqs f' = fl_reqs f \<and> fl_key f' = fl_key f"
  by (auto simp: flush_step_def Let_def split: flush_pc.splits if_splits sum.splits)

lemma flush_step_delivers:
  "flush_step ans c f = (c', f', call, ds) \<Longrightarrow> flush_wf f \<Longrightarrow>
   map bq_id (undelivered f) = map fst ds @ map bq_id (undelivered f')"
  by (auto simp: flush_step_def flush_wf_def undelivered_def enter_split_def sendErrAll_def Let_def comp_def
      Cons_nth_drop_Suc[symmetric] split: flush_pc.splits if_splits sum.splits)

lemma flush_step_measure:
  "flush_step ans c f = (c', f', call, ds) \<Longrightarrow> fl_pc f \<noteq> FlushDone \<Longrightarrow> flush_measure f' < flush_measure f"
  by (auto simp: flush_step_def flush_measure_def enter_split_def Let_def split: flush_pc.splits if_splits sum.splits)

lemma flush_step_done: "fl_pc f = FlushDone \<Longrightarrow> flush_step ans c f = (c, f, None, [])"
  by (simp add: flush_step_def)

lemma flush_steps_Nil [simp]: "flush_steps [] f = (f, [], [])" by (simp add: flush_steps_def)

lemma flush_steps_snoc:
  "flush_steps (xs @ [(ans, c)]) f =
     (case flush_steps xs f of (f1, calls, ds) \<Rightarrow>
        case flush_step ans c f1 of (_, f2, call, ds') \<Rightarrow> (f2, calls @ (case call of None \<Rightarrow> [] | Some x \<Rightarrow> [x]), ds @ ds'))"
  by (simp add: flush_steps_def split: prod.split)

lemma calls_ok_step:
  assumes ok: "calls_ok f calls" and step: "flush_step ans c f = (c', f', call, ds)"
  shows "calls_ok f' (calls @ (case call of None \<Rightarrow> [] | Some x \<Rightarrow> [x]))"
proof -
  have same: "multi_call f' = multi_call f" "fl_reqs f' = fl_reqs f" using flush_step_reqs[OF step] by (simp_all add: multi_call_def)
  from ok obtain k sends where h: "calls = replicate k (multi_call f) @ sends" "k \<le> 2" "length sends \<le> length (fl_reqs f)"
    "list_all2 pays sends (take (length sends) (fl_reqs f))" and pc: "case fl_pc f of
           FlushStart \<Rightarrow> k = 0 \<and> sends = []
         | FlushMulti second \<Rightarrow> k = (if second then 1 else 0) \<and> sends = []
         | FlushSplit _ _ i \<Rightarrow> length sends = i
         | FlushDone \<Rightarrow> True" by (auto simp: calls_ok_def)
  show ?thesis
  proof (cases "fl_pc f")
    case FlushStart
    then show ?thesis using step h pc same unfolding calls_ok_def
      by (intro exI[of _ 0] exI[of _ "[]"]) (auto simp: flush_step_def enter_split_def split: if_splits)
  next
    case (FlushMulti second)
    then have "call = Some (multi_call f)" and pc': "fl_pc f' = FlushMulti True \<and> \<not> second \<or> fl_pc f' = FlushDone \<or> (\<exists>h. fl_pc f' = FlushSplit True h 0)"
      using step by (auto simp: flush_step_def multi_call_def enter_split_def Let_def split: sum.splits if_splits)
    then show ?thesis using h pc same FlushMulti unfolding calls_ok_def
      by (intro exI[of _ "Suc k"] exI[of _ "[]"]) (auto simp: replicate_append_same)
  next
    case (FlushSplit att hl i)
    show ?thesis
    proof (cases "i < length (fl_reqs f)")
      case True
      then obtain q where q: "call = Some q" "pays q (fl_reqs f ! i)"
        and pc': "fl_pc f' = FlushDone \<or> fl_pc f' = FlushSplit att hl (Suc i)"
        using step FlushSplit by (auto simp: flush_step_def pays_def Let_def split: sum.splits)
      show ?thesis using h pc same FlushSplit True q pc' unfolding calls_ok_def
        by (intro exI[of _ k] exI[of _ "sends @ [q]"])
          (auto simp: take_Suc_conv_app_nth intro!: list_all2_appendI)
    next
      case False
      then have "call = None" "fl_pc f' = FlushDone" using step FlushSplit by (auto simp: flush_step_def)
      then show ?thesis using h same unfolding calls_ok_def by (intro exI[of _ k] exI[of _ sends]) simp
    qed
  next
    case FlushDone
    then show ?thesis using step ok by (simp add: flush_step_done)
  qed
qed

lemma flush_steps_inv:
  assumes "flush_wf f" "calls_ok f []"
  shows "case flush_steps xs f of (f', calls, ds) \<Rightarrow>
     flush_wf f' \<and> fl_reqs f' = fl_reqs f \<and> fl_key f' = fl_key f \<and> calls_ok f' calls \<and>
     map bq_id (undelivered f) = map fst ds @ map bq_id (undelivered f') \<and>
     (fl_pc f' = FlushDone \<or> flush_measure f' + length xs \<le> flush_measure f)"
proof (induction xs rule: rev_induct)
  case Nil
  then show ?case using assms by simp
next
  case (snoc x xs)
  obtain ans c where x: "x = (ans, c)" by fastforce
  obtain f1 calls1 ds1 where r: "flush_steps xs f = (f1, calls1, ds1)" by (metis prod_cases3)
  obtain c2 f2 call ds2 where st: "flush_step ans c f1 = (c2, f2, call, ds2)" by (metis prod_cases4)
  have "fl_pc f2 = FlushDone \<or> flush_measure f2 + length (xs @ [x]) \<le> flush_measure f"
    using snoc.IH r flush_step_measure[OF st] flush_step_done[of f1 ans c] st by (cases "fl_pc f1 = FlushDone") auto
  then show ?case using snoc.IH r st flush_step_wf[OF st] flush_step_reqs[OF st] flush_step_delivers[OF st] calls_ok_step[OF _ st]
    by (simp add: flush_steps_snoc x)
qed

text \<open>C10: A flush answers every request exactly once, in order, whatever the node and the other goroutines do. After at most four steps
  more than the batch has requests it has ended; the results delivered are one per request, in batch order; and what it broadcast
  is the whole batch at most twice as a multi-send, followed by single sends to a prefix of the batch, each request once. So no
  request is broadcast more than three times.\<close>

theorem flush_any_interleaving:
  assumes "fl_pc f = FlushStart" "length xs \<ge> length (fl_reqs f) + 4"
  shows "case flush_steps xs f of (f', calls, ds) \<Rightarrow>
     fl_pc f' = FlushDone \<and> map fst ds = map bq_id (fl_reqs f) \<and>
     (\<exists>k sends. calls = replicate k (multi_call f) @ sends \<and> k \<le> 2 \<and> length sends \<le> length (fl_reqs f) \<and>
        list_all2 pays sends (take (length sends) (fl_reqs f)))"
proof -
  have wf: "flush_wf f" "calls_ok f []" using assms(1) by (auto simp: flush_wf_def calls_ok_def)
  obtain f' calls ds where r: "flush_steps xs f = (f', calls, ds)" by (metis prod_cases3)
  from flush_steps_inv[OF wf, of xs] r have h: "fl_reqs f' = fl_reqs f" "fl_key f' = fl_key f" "calls_ok f' calls"
    "map bq_id (undelivered f) = map fst ds @ map bq_id (undelivered f')"
    "fl_pc f' = FlushDone \<or> flush_measure f' + length xs \<le> flush_measure f" by auto
  have d: "fl_pc f' = FlushDone"
  proof (rule ccontr)
    assume nd: "fl_pc f' \<noteq> FlushDone"
    then have "0 < flush_measure f'" by (auto simp: flush_measure_def split: flush_pc.splits)
    then show False using h(5) nd assms by (simp add: flush_measure_def)
  qed
  then have "map fst ds = map bq_id (fl_reqs f)" using h(4) assms(1) by (simp add: undelivered_def)
  then show ?thesis using r d h(1,2,3) by (auto simp: calls_ok_def multi_call_def)
qed

subsection \<open>The running chain\<close>

inductive_cases fa_stepE: "fa_step s s'"

lemma sum_list_update_mset:
  fixes g :: "'a \<Rightarrow> nat multiset"
  assumes "i < length xs"
  shows "sum_list (map g (xs[i := x])) + g (xs ! i) = sum_list (map g xs) + g x"
  using assms
proof (induction xs arbitrary: i)
  case (Cons y ys)
  show ?case
  proof (cases i)
    case (Suc k)
    then show ?thesis using Cons.IH[of k] Cons.prems by (simp add: add.assoc)
  qed (simp add: ac_simps)
qed simp

lemma set_status_windows: "map d_window (set_status k st p) = map d_window p" "map d_key_index (set_status k st p) = map d_key_index p"
  by (induction k st p rule: set_status.induct) auto

lemma queued_windows: "map d_window p = map d_window q \<Longrightarrow> queued p = queued q"
proof -
  have "queued r = sum_list (map (\<lambda>w. mset (map bq_id (w_queue w))) (map d_window r))" for r by (simp add: queued_def comp_def)
  then show "map d_window p = map d_window q \<Longrightarrow> queued p = queued q" by (simp only:)
qed

lemma Route_Ok_queued:
  assumes "Route req p = (Inr u, p')"
  shows "queued p' = add_mset (bq_id req) (queued p)" "length p' = length p" "map d_key_index p' = map d_key_index p"
proof -
  from assms obtain i best w where b: "select_best p 0 None = Some (i, best)" "Enqueue req (d_window best) = Ok w"
    "p' = p[i := best\<lparr>d_window := w\<rparr>]" by (auto simp: Route_def split: option.splits sum.splits prod.splits)
  have i: "i < length p" "p ! i = best" using select_best_0[of p] b(1) by (auto simp: is_best_def)
  have "queued p' + mset (map bq_id (w_queue (d_window best))) = queued p + mset (map bq_id (w_queue w))"
    using sum_list_update_mset[OF i(1), of "\<lambda>d. mset (map bq_id (w_queue (d_window d)))" "best\<lparr>d_window := w\<rparr>"] i(2)
    by (simp add: queued_def b(3))
  then show "queued p' = add_mset (bq_id req) (queued p)" using Enqueue_Ok(1)[OF b(2)] by simp
  show "length p' = length p" using b(3) by simp
  show "map d_key_index p' = map d_key_index p" using i b(3)
    by (metis distributor.select_convs(1) distributor.surjective distributor.update_convs(2) list_update_id map_update)
qed

lemma flush_step_windows:
  assumes "flush_step ans c f = (c', f', call, ds)"
  shows "map d_window (pool_of c') = map d_window (pool_of c)"
proof -
  have "map d_window (pool_of (fail_send ki e c)) = map d_window (pool_of c)" for ki e
    by (cases "ch_pool c") (simp_all add: fail_send_def Let_def Suspend_def pool_of_def MarkRecovering_def set_status_windows)
  moreover have "pool_of (finish_split a c) = pool_of c" for a by (simp add: finish_split_def Let_def pool_of_def)
  ultimately show ?thesis using assms
    by (auto simp: flush_step_def Let_def pool_of_def split: flush_pc.splits if_splits sum.splits)
qed

lemma fa_inv_step: "fa_step s s' \<Longrightarrow> fa_inv s \<Longrightarrow> fa_inv s'"
proof (induction rule: fa_step.induct)
  case (pour req s u c)
  then obtain p p' where "ch_pool (fa_chain s) = Some p" "Route req p = (Inr (), p')" "c = (fa_chain s)\<lparr>ch_pool := Some p'\<rparr>"
    by (auto simp: Chain_Pour_def split: if_splits option.splits sum.splits prod.splits)
  then show ?case using pour Route_Ok_queued(1)[of req p "()" p'] by (simp add: fa_inv_def pool_of_def)
next
  case (refuse req s e c)
  then have "c = fa_chain s" by (auto simp: Chain_Pour_def split: if_splits option.splits sum.splits prod.splits)
  then show ?case using refuse by (simp add: fa_inv_def)
next
  case (take_batch s p i batch w b)
  let ?d = "p ! i"
  have w: "batch @ w_queue w = w_queue (d_window ?d)" using take_batch(4) by (auto simp: doFlush_take_drop)
  have "queued (p[i := ?d\<lparr>d_window := w\<lparr>w_flush_now := b\<rparr>\<rparr>]) + mset (map bq_id (w_queue (d_window ?d))) = queued p + mset (map bq_id (w_queue w))"
    using sum_list_update_mset[OF take_batch(2), of "\<lambda>d. mset (map bq_id (w_queue (d_window d)))" "?d\<lparr>d_window := w\<lparr>w_flush_now := b\<rparr>\<rparr>"]
    by (simp add: queued_def)
  then have "queued p = queued (p[i := ?d\<lparr>d_window := w\<lparr>w_flush_now := b\<rparr>\<rparr>]) + mset (map bq_id batch)"
    unfolding w[symmetric] by simp
  then show ?case using take_batch(1,7)
    by (simp add: fa_inv_def pool_of_def replace_window_def in_flight_def undelivered_def flush_wf_def ac_simps)
next
  case (advance j s ans c f call ds)
  let ?f = "fa_flights s ! j"
  have wf: "flush_wf ?f" using advance(1,3) by (simp add: fa_inv_def list_all_length)
  have q: "queued (pool_of c) = queued (pool_of (fa_chain s))" using flush_step_windows[OF advance(2)] by (rule queued_windows)
  have "in_flight ((fa_flights s)[j := f]) + mset (map bq_id (undelivered ?f)) = in_flight (fa_flights s) + mset (map bq_id (undelivered f))"
    unfolding in_flight_def using sum_list_update_mset[OF advance(1)] by simp
  moreover have "mset (map bq_id (undelivered ?f)) = mset (map fst ds) + mset (map bq_id (undelivered f))"
    using flush_step_delivers[OF advance(2) wf] by (metis mset_append)
  ultimately have "in_flight (fa_flights s) = in_flight ((fa_flights s)[j := f]) + mset (map fst ds)" by (simp add: ac_simps)
  then show ?case using advance(3) q flush_step_wf[OF advance(2) wf]
    by (simp add: fa_inv_def list_all_iff ac_simps) (metis insert_iff set_update_subset_insert subsetD)
next
  case (resume s)
  then show ?case by (simp add: fa_inv_def Resume_def pool_of_def)
qed

lemma fa_inv_reachable:
  assumes "fa_step\<^sup>*\<^sup>* (fa_init c) s" "queued (pool_of c) = {#}"
  shows "fa_inv s"
  using assms(1)
proof (induction rule: rtranclp_induct)
  case base
  then show ?case using assms(2) by (simp add: fa_inv_def fa_init_def in_flight_def)
next
  case (step y z)
  then show ?case using fa_inv_step by blast
qed

lemma mset_sub_distinct: "mset xs \<subseteq># mset ys \<Longrightarrow> distinct ys \<Longrightarrow> distinct xs"
proof -
  assume a: "mset xs \<subseteq># mset ys" "distinct ys"
  have "count (mset xs) x \<le> 1" for x
    using mset_subset_eq_count[OF a(1), of x] a(2) by (metis distinct_count_atmost_1 le_trans order_refl zero_le_one)
  then show ?thesis by (metis (no_types) distinct_count_atmost_1 One_nat_def le_Suc_eq le_zero_eq count_mset_0_iff)
qed

text \<open>C9: One result per request. In every reachable state of a running chain, for every interleaving of requests, windows, flushes and
  resumes and all node behaviour, the accepted requests are, counted with multiplicity, exactly those waiting in a queue, those of a flush
  in flight not answered yet, and those answered. With distinct requests, none is answered twice, and once queues and flights are empty
  all have been answered.\<close>

theorem one_result_per_request:
  assumes "fa_step\<^sup>*\<^sup>* (fa_init c) s" "queued (pool_of c) = {#}" "distinct (map bq_id (fa_accepted s))"
  shows "mset (map bq_id (fa_accepted s)) = queued (pool_of (fa_chain s)) + in_flight (fa_flights s) + mset (map fst (fa_results s)) \<and>
     distinct (map fst (fa_results s)) \<and> set (map fst (fa_results s)) \<subseteq> set (map bq_id (fa_accepted s)) \<and>
     (queued (pool_of (fa_chain s)) = {#} \<and> in_flight (fa_flights s) = {#} \<longrightarrow>
        mset (map fst (fa_results s)) = mset (map bq_id (fa_accepted s)))"
proof -
  from fa_inv_reachable[OF assms(1,2)]
  have eq: "mset (map bq_id (fa_accepted s)) = queued (pool_of (fa_chain s)) + in_flight (fa_flights s) + mset (map fst (fa_results s))"
    by (simp add: fa_inv_def)
  then have sub: "mset (map fst (fa_results s)) \<subseteq># mset (map bq_id (fa_accepted s))" by simp
  have "distinct (map fst (fa_results s))" using mset_sub_distinct[OF sub assms(3)] .
  moreover have "set (map fst (fa_results s)) \<subseteq> set (map bq_id (fa_accepted s))" using sub by (metis set_mset_mono set_mset_mset)
  ultimately show ?thesis using eq by simp
qed

subsection \<open>Suspension\<close>

lemma flush_step_streaks: "flush_step ans c f = (c', f', call, ds) \<Longrightarrow> streaks_ok c \<Longrightarrow> streaks_ok c'"
  by (auto simp: flush_step_def streaks_ok_def fail_send_def finish_split_def Suspend_def suspendThreshold_def
      multiSendDisableThreshold_def Let_def split: flush_pc.splits if_splits sum.splits)

lemma Chain_Pour_streaks: "Chain_Pour req c = (r, c') \<Longrightarrow> streaks_ok c' = streaks_ok c"
  by (auto simp: Chain_Pour_def streaks_ok_def split: if_splits option.splits sum.splits prod.splits)

lemma streaks_step: "fa_step s s' \<Longrightarrow> streaks_ok (fa_chain s) \<Longrightarrow> streaks_ok (fa_chain s')"
proof (induction rule: fa_step.induct)
  case (pour req s u c)
  then show ?case using Chain_Pour_streaks by simp
next
  case (refuse req s e c)
  then show ?case using Chain_Pour_streaks by simp
next
  case (advance j s ans c f call ds)
  then show ?case using flush_step_streaks by simp
qed (simp_all add: streaks_ok_def replace_window_def Resume_def suspendThreshold_def multiSendDisableThreshold_def)

text \<open>Suspension. In every reachable state a chain that is not suspended has seen fewer than five consecutive failed sends, and one
  whose multi-send is enabled fewer than three consecutive failed multi-sends; a suspended chain refuses every new request, and a
  flush that starts while it is suspended answers every request of its batch with the suspension error without calling the node.\<close>

theorem suspension_invariant:
  assumes "fa_step\<^sup>*\<^sup>* (fa_init c) s" "streaks_ok c"
  shows "(\<not> ch_suspended (fa_chain s) \<longrightarrow> ch_send_fail_streak (fa_chain s) < 5) \<and>
     (\<not> ch_multi_disabled (fa_chain s) \<longrightarrow> ch_multi_fail_streak (fa_chain s) < 3) \<and>
     (ch_suspended (fa_chain s) \<longrightarrow>
        (\<forall>req. Chain_Pour req (fa_chain s) = (Err ErrChainSuspended, fa_chain s)) \<and>
        (\<forall>ans f. fl_pc f = FlushStart \<longrightarrow>
           flush_step ans (fa_chain s) f =
             (fa_chain s, f\<lparr>fl_pc := FlushDone\<rparr>, None, map (\<lambda>r. (bq_id r, Err FlushSuspended)) (fl_reqs f))))"
proof -
  have "streaks_ok (fa_chain s)"
    using assms(1) by (induction rule: rtranclp_induct) (simp_all add: assms(2) fa_init_def streaks_step)
  then show ?thesis
    by (simp add: streaks_ok_def suspendThreshold_def multiSendDisableThreshold_def Chain_Pour_def flush_step_def sendErrAll_def)
qed

subsection \<open>Recovery\<close>

lemma Healthy_set_recovering: "Healthy p = [] \<Longrightarrow> Healthy (MarkRecovering k p) = []"
proof -
  have "d \<in> set (set_status k StatusRecovering p) \<Longrightarrow> d_status d = StatusHealthy \<Longrightarrow> d \<in> set p" for d
    by (induction k StatusRecovering p rule: set_status.induct) (auto split: if_splits)
  then show "Healthy p = [] \<Longrightarrow> Healthy (MarkRecovering k p) = []"
    by (auto simp: Healthy_def MarkRecovering_def filter_empty_conv)
qed

lemma select_best_none: "Healthy p = [] \<Longrightarrow> select_best p i None = None"
  by (induction p arbitrary: i) (auto simp: Healthy_def split: if_splits)

lemma Pour_no_healthy:
  assumes "no_healthy c"
  shows "Chain_Pour req c = (Err (if ch_suspended c then ErrChainSuspended else ErrBatch ErrNoHealthyDistributor), c)"
  using assms select_best_none by (auto simp: no_healthy_def Chain_Pour_def Route_def)

lemma flush_step_no_healthy: "flush_step ans c f = (c', f', call, ds) \<Longrightarrow> no_healthy c \<Longrightarrow> no_healthy c'"
  by (auto simp: flush_step_def no_healthy_def fail_send_def finish_split_def Suspend_def Let_def Healthy_set_recovering
      split: flush_pc.splits if_splits sum.splits)

lemma no_healthy_step: "fa_step s s' \<Longrightarrow> no_healthy (fa_chain s) \<Longrightarrow> no_healthy (fa_chain s')"
proof (induction rule: fa_step.induct)
  case (take_batch s p i batch w b)
  then have "Healthy (p[i := (p ! i)\<lparr>d_window := w\<lparr>w_flush_now := b\<rparr>\<rparr>]) = []"
    by (auto simp: no_healthy_def Healthy_def filter_empty_conv dest!: set_update_subset_insert[THEN subsetD])
  then show ?case using take_batch by (simp add: no_healthy_def replace_window_def)
next
  case (advance j s ans c f call ds)
  then show ?case using flush_step_no_healthy by simp
qed (simp_all add: Pour_no_healthy, simp add: no_healthy_def Resume_def)

lemma no_healthy_forever: "fa_step\<^sup>*\<^sup>* s s' \<Longrightarrow> no_healthy (fa_chain s) \<Longrightarrow> no_healthy (fa_chain s')"
  by (induction rule: rtranclp_induct) (auto intro: no_healthy_step)

text \<open>C29: A distributor never recovers. With one distributor (the default), a single failed send marks it as recovering, and nothing the
  running chain does ever clears that mark: in every later state, whatever happens and however often the operator resumes the
  chain, every request is refused.\<close>

theorem single_distributor_never_recovers:
  assumes "ch_pool (fa_chain s) = Some [d]" "j < length (fa_flights s)" "fl_key (fa_flights s ! j) = d_key_index d"
    and "fl_pc (fa_flights s ! j) = FlushSplit attempted healthy i" "i < length (fl_reqs (fa_flights s ! j))"
    and "set healthy \<subseteq> {d_key_index d}"
    and "flush_step (Inl e) (fa_chain s) (fa_flights s ! j) = (c, f, call, ds)"
    and "fa_step\<^sup>*\<^sup>* (s\<lparr>fa_chain := c, fa_flights := (fa_flights s)[j := f],
           fa_calls := fa_calls s @ (case call of None \<Rightarrow> [] | Some x \<Rightarrow> [x]), fa_results := fa_results s @ ds\<rparr>) s'"
  shows "\<exists>err. Chain_Pour req (fa_chain s') = (Err err, fa_chain s') \<and> err \<in> {ErrChainSuspended, ErrBatch ErrNoHealthyDistributor}"
proof -
  let ?ki = "if healthy \<noteq> [] then healthy ! (i mod length healthy) else fl_key (fa_flights s ! j)"
  have ki: "?ki = d_key_index d"
  proof (cases "healthy = []")
    case False
    then have "i mod length healthy < length healthy" by simp
    from nth_mem[OF this] assms(6) have "healthy ! (i mod length healthy) = d_key_index d" by blast
    then show ?thesis using False by simp
  qed (simp add: assms(3))
  have "c = fail_send ?ki e (fa_chain s)" using assms(4,5,7) by (simp add: flush_step_def Let_def)
  then have "no_healthy c" using assms(1) unfolding ki
    by (simp add: no_healthy_def fail_send_def Let_def Suspend_def MarkRecovering_def Healthy_def)
  then have "no_healthy (fa_chain s')" using no_healthy_forever[OF assms(8)] by simp
  from Pour_no_healthy[OF this, of req] show ?thesis by simp
qed

text \<open>Multi-send, once disabled, stays disabled: resuming does not clear the flag.\<close>

lemma multi_disabled_step: "fa_step s s' \<Longrightarrow> ch_multi_disabled (fa_chain s) \<Longrightarrow> ch_multi_disabled (fa_chain s')"
proof (induction rule: fa_step.induct)
  case (advance j s ans c f call ds)
  then show ?case
    by (auto simp: flush_step_def fail_send_def finish_split_def Suspend_def Let_def split: flush_pc.splits if_splits sum.splits)
qed (auto simp: Chain_Pour_def replace_window_def Resume_def split: if_splits option.splits sum.splits prod.splits)

lemma multi_disabled_forever: "fa_step\<^sup>*\<^sup>* s s' \<Longrightarrow> ch_multi_disabled (fa_chain s) \<Longrightarrow> ch_multi_disabled (fa_chain s')"
  by (induction rule: rtranclp_induct) (auto intro: multi_disabled_step)

subsection \<open>Construction\<close>

lemma LoadChains_chain_ok:
  "LoadChains pd parseCIDR loaded = Ok cfg \<Longrightarrow> c \<in> set (cfg_chains cfg) \<Longrightarrow> chain_ok pd c"
  by (auto simp: LoadChains_def Let_def rbind_Ok_iff validate_chains_iff list_all_iff split: option.splits)

lemma distributor_addrs_cases:
  "case distributor_addrs a ks of Inl err \<Rightarrow> \<exists>k e. err = NcDistributor k e | Inr as \<Rightarrow> length as = length ks"
  by (induction a ks rule: distributor_addrs.induct) (auto split: sum.splits)

lemma resolveRefillThreshold_ok:
  assumes "is_ok (ParseCoin drip)" "drip \<noteq> ''''" "thr \<noteq> '''' \<Longrightarrow> is_ok (ParseCoin thr)"
  shows "\<exists>c. resolveRefillThreshold thr drip = Ok c \<and> all_digits (coin_amount c)"
proof (cases "thr = ''''")
  case True
  obtain c where c: "ParseCoin drip = Ok c" using assms(1) by (auto simp: is_ok_iff)
  then have d: "all_digits (coin_amount c)" using ParseCoin_coin_ok[OF c] by (simp add: coin_ok_def)
  then show ?thesis using True assms(2) c by (simp add: resolveRefillThreshold_def set_string_digits show_int_nonneg)
next
  case False
  then obtain c where c: "ParseCoin thr = Ok c" using assms(3) by (auto simp: is_ok_iff)
  then show ?thesis using False ParseCoin_coin_ok[OF c] by (simp add: resolveRefillThreshold_def coin_ok_def)
qed

lemma NewPool_facts: "length (NewPool n m q) = n" "Healthy (NewPool n m q) = NewPool n m q" "queued (NewPool n m q) = {#}"
  by (simp_all add: NewPool_def Healthy_def filter_map comp_def queued_def NewWindow_def)

text \<open>Building a chain. For an enabled chain of a configuration that loads, construction can fail only in the transaction client or in
  key derivation; and a chain that is built starts neither suspended nor degraded, with as many healthy, empty distributors as
  configured, a numeric refill threshold, a positive refill interval and a positive transfer timeout.\<close>

theorem newChain_loaded:
  assumes "LoadChains pd parseCIDR loaded = Ok cfg" "c \<in> set (cfg_chains cfg)" "IsEnabled c"
    and "dp_anonymous drip = dc_anonymous (cc_drip c)"
  shows "case newChain pd txNew addressForKey info drip c of
      Inl err \<Rightarrow> (\<exists>e. err = NcClient e) \<or> (\<exists>e. err = NcHolder e) \<or> (\<exists>k e. err = NcDistributor k e)
    | Inr ch \<Rightarrow> chain_ready drip c ch"
proof -
  have ok: "drip_parses c" "durations_ok pd c" "counts_ok c"
    using LoadChains_chain_ok[OF assms(1,2)] assms(3) by (simp_all add: chain_ok_def IsEnabled_def)
  note d = durations_resolve[OF ok(2)]
  obtain t where t: "pd (ibc_timeout (cc_ibc c)) = Some t" "0 < t" using d(3) by blast
  obtain bd where bd: "BatchWindowDuration pd c = Ok bd" using d(1) by (auto simp: is_ok_iff)
  obtain ri where ri: "RefillIntervalOrDefault pd c = Ok ri" using d(2) by (auto simp: is_ok_iff)
  have ripos: "0 < ri" using ri by (auto simp: RefillIntervalOrDefault_def sec_def split: if_splits option.splits)
  note flags = chain_ready_def streaks_ok_def suspendThreshold_def multiSendDisableThreshold_def
  show ?thesis
  proof (cases "dp_anonymous drip = ''''")
    case True
    then show ?thesis using t by (auto simp: newChain_def Let_def flags split: option.splits)
  next
    case False
    then obtain thr where thr: "resolveRefillThreshold (cc_refill_threshold c) (dp_anonymous drip) = Ok thr" "all_digits (coin_amount thr)"
      using resolveRefillThreshold_ok[of "dp_anonymous drip" "cc_refill_threshold c"] ok(1,3) assms(4) by (auto simp: drip_parses_def counts_ok_def)
    let ?n = "nat (DistributorCount c)"
    note addrs = distributor_addrs_cases[where a = addressForKey and ks = "[1..<?n + 1]"]
    show ?thesis
    proof (cases "txNew info [0..<?n + 1]"; cases "addressForKey 0"; cases "distributor_addrs addressForKey [1..<?n + 1]")
      fix holder as
      assume h: "txNew info [0..<?n + 1] = None" "addressForKey 0 = Inr holder" "distributor_addrs addressForKey [1..<?n + 1] = Inr as"
      have "length as = ?n" using addrs h(3) by simp
      then show ?thesis using False t bd ri ripos thr h
        by (simp add: newChain_def Let_def flags NewPool_facts del: upt_Suc)
    qed (use False bd addrs in \<open>simp_all add: newChain_def Let_def del: upt_Suc\<close>)
  qed
qed

subsection \<open>Refill\<close>

lemma big_int_digits: "all_digits s \<Longrightarrow> big_int junk s = int (digits_val s)"
  by (simp add: big_int_def set_string_digits)

lemma refillAmount_digits:
  assumes "all_digits b" "all_digits t"
  shows "refillAmount junk b t =
    (if digits_val b < digits_val t then (show_nat (10 * digits_val t - digits_val b), True) else ('''', False))"
proof -
  have "digits_val b < digits_val t \<Longrightarrow> show_int (int (digits_val t) * 10 - int (digits_val b)) = show_nat (10 * digits_val t - digits_val b)"
    by (simp add: show_int_nonneg nat_diff_distrib' nat_mult_distrib mult.commute)
  then show ?thesis using assms by (auto simp: refillAmount_def Let_def big_int_digits)
qed

lemma refillCheck_requests:
  assumes "all_digits (coin_amount (ch_refill_threshold c))"
    and "\<And>a. qb a (coin_denom (ch_refill_threshold c)) = Ok \<lparr>coin_denom = coin_denom (ch_refill_threshold c), coin_amount = show_nat (bal a)\<rparr>"
  shows "map fst (refillCheck junk qb send c) = map (refill_for c bal) (ch_distributor_addrs c)"
  by (rule nth_equalityI) (auto simp: refillCheck_def refillOne_def assms refillAmount_digits refill_for_def Let_def)

text \<open>Refills. When the balances can be read, a refill pass sends, from the holder account, exactly to the distributors below the
  threshold and exactly what is missing to ten times the threshold; with those sends credited every distributor holds at least the
  threshold and the next pass sends nothing.\<close>

theorem refill_tops_up:
  assumes "all_digits (coin_amount (ch_refill_threshold c))"
    and "\<And>a. qb a (coin_denom (ch_refill_threshold c)) = Ok \<lparr>coin_denom = coin_denom (ch_refill_threshold c), coin_amount = show_nat (bal a)\<rparr>"
    and "\<And>a. qb' a (coin_denom (ch_refill_threshold c)) =
           Ok \<lparr>coin_denom = coin_denom (ch_refill_threshold c), coin_amount = show_nat (bal a + received (refill_for c bal a))\<rparr>"
  shows "map fst (refillCheck junk qb send c) = map (refill_for c bal) (ch_distributor_addrs c) \<and>
     (\<forall>a. bal a + received (refill_for c bal a) =
        (if bal a < digits_val (coin_amount (ch_refill_threshold c)) then 10 * digits_val (coin_amount (ch_refill_threshold c)) else bal a)) \<and>
     map fst (refillCheck junk qb' send c) = map (\<lambda>_. None) (ch_distributor_addrs c)"
proof -
  have after: "bal a + received (refill_for c bal a) =
      (if bal a < digits_val (coin_amount (ch_refill_threshold c)) then 10 * digits_val (coin_amount (ch_refill_threshold c)) else bal a)" for a
    by (simp add: refill_for_def received_def Let_def)
  have "map fst (refillCheck junk qb' send c) = map (refill_for c (\<lambda>a. bal a + received (refill_for c bal a))) (ch_distributor_addrs c)"
    by (rule refillCheck_requests) (use assms in auto)
  also have "\<dots> = map (\<lambda>_. None) (ch_distributor_addrs c)"
    by (rule map_cong) (simp_all add: after, simp add: refill_for_def Let_def)
  finally show ?thesis using refillCheck_requests[of c qb bal, OF assms(1,2)] after by auto
qed

subsection \<open>A concrete chain\<close>

lemma demo_threshold: "resolveRefillThreshold '''' ''1000uosmo'' = Ok \<lparr>coin_denom = ''uosmo'', coin_amount = ''10000''\<rparr>"
proof -
  have "ParseCoin ''1000uosmo'' = Ok \<lparr>coin_denom = ''uosmo'', coin_amount = ''1000''\<rparr>" by code_simp
  moreover have "all_digits ''1000''" by code_simp
  moreover have "digits_val ''1000'' = 1000" by (simp add: digits_val_def digit_val_def code_of_def)
  ultimately show ?thesis
    by (simp add: resolveRefillThreshold_def set_string_digits show_int_def show_nat.simps digit_char_def) (simp add: char_of_def bit_Suc_0_iff)
qed

lemma demo_chain_facts:
  "ch_pool demo_chain = Some (demo_pool [])" "streaks_ok demo_chain" "\<not> ch_suspended demo_chain" "\<not> ch_multi_disabled demo_chain"
  "ch_distributor_addrs demo_chain = [''addr'' @ show_nat 1]"
  "ch_refill_threshold demo_chain = \<lparr>coin_denom = ''uosmo'', coin_amount = ''10000''\<rparr>"
  by (simp_all add: demo_chain_def build_demo_def newChain_def Let_def demo_drip_def sample_chain_def DistributorCount_def
      BatchWindowDuration_def RefillIntervalOrDefault_def sec_def demo_threshold demo_pool_def NewPool_def NewWindow_def
      MaxRecipientsPerBatchOrDefault_def MaxQueueDepthOrDefault_def DefaultMaxRecipientsPerBatch_def DefaultMaxQueueDepth_def
      streaks_ok_def suspendThreshold_def multiSendDisableThreshold_def)

theorem flush_any_interleaving_witness:
  "case flush_steps (replicate 5 (Ok ''h'', demo_chain)) demo_flush of (f', calls, ds) \<Rightarrow> fl_pc f' = FlushDone \<and> map fst ds = [0]"
  using flush_any_interleaving[of demo_flush "replicate 5 (Ok ''h'', demo_chain)"]
  by (auto simp: demo_flush_def sample_req_def split: prod.splits)

lemma demo_run: "fa_step\<^sup>*\<^sup>* (fa_init demo_chain) demo4"
proof -
  have "Chain_Pour (sample_req 0) demo_chain = (Ok (), demo_chain\<lparr>ch_pool := Some (demo_pool [sample_req 0])\<rparr>)"
    by (simp add: Chain_Pour_def demo_chain_facts Route_def demo_pool_def Enqueue_def Let_def)
  from fa_step.pour[of "sample_req 0" "fa_init demo_chain", OF _ ] this
  have 1: "fa_step (fa_init demo_chain) demo1" by (simp add: fa_init_def demo1_def)
  have "fa_step demo1 (demo1\<lparr>fa_chain := replace_window 0 (d_window (demo_pool [] ! 0)\<lparr>w_flush_now := False\<rparr>) (fa_chain demo1),
      fa_flights := fa_flights demo1 @ [\<lparr>fl_key = d_key_index (demo_pool [sample_req 0] ! 0), fl_reqs = [sample_req 0], fl_pc = FlushStart\<rparr>]\<rparr>)"
    by (rule fa_step.take_batch) (simp_all add: demo1_def fa_init_def demo_pool_def doFlush_take_drop)
  moreover have "demo_chain\<lparr>ch_pool := Some (demo_pool [])\<rparr> = demo_chain" by (simp add: demo_chain_facts(1)[symmetric])
  ultimately have 2: "fa_step demo1 demo2"
    by (simp add: demo1_def demo2_def fa_init_def replace_window_def demo_pool_def demo_flush_def)
  have 3: "fa_step demo2 demo3"
    using fa_step.advance[of 0 demo2 "Ok ''h''" demo_chain "demo_flush\<lparr>fl_pc := FlushMulti False\<rparr>" None "[]"]
    by (simp add: demo2_def demo1_def demo3_def fa_init_def flush_step_def demo_flush_def demo_chain_facts)
  have 4: "fa_step demo3 demo4"
    using fa_step.advance[of 0 demo3 "Ok ''h''" "demo_chain\<lparr>ch_send_fail_streak := 0, ch_multi_fail_streak := 0\<rparr>"
        "demo_flush\<lparr>fl_pc := FlushDone\<rparr>" "Some (multi_call demo_flush)" "[(0, Ok ''h'')]"]
    by (simp add: demo4_def demo3_def demo2_def demo1_def fa_init_def flush_step_def demo_flush_def multi_call_def sample_req_def)
  show ?thesis using 1 2 3 4 by (meson rtranclp.rtrancl_into_rtrancl rtranclp.rtrancl_refl)
qed

lemma demo_queue_empty: "queued (pool_of demo_chain) = {#}"
  by (simp add: pool_of_def demo_chain_facts queued_def demo_pool_def)

theorem one_result_per_request_witness:
  "distinct (map fst (fa_results demo4)) \<and> mset (map fst (fa_results demo4)) = {#0#}"
proof -
  have "queued (pool_of (fa_chain demo4)) = {#}" "in_flight (fa_flights demo4) = {#}"
    using demo_queue_empty by (simp_all add: demo4_def pool_of_def in_flight_def undelivered_def)
  then show ?thesis
    using one_result_per_request[OF demo_run demo_queue_empty]
    by (simp add: demo4_def demo3_def demo2_def demo1_def sample_req_def)
qed

theorem single_distributor_never_recovers_witness:
  "\<exists>err. Chain_Pour (sample_req 1) (Resume (fail_send 1 (sentinel ErrBroadcastTimeout) demo_chain)) =
     (Err err, Resume (fail_send 1 (sentinel ErrBroadcastTimeout) demo_chain))"
proof -
  have step: "fa_step demo_failed (demo_failed\<lparr>fa_chain := Resume (fa_chain demo_failed)\<rparr>)" by (rule fa_step.resume)
  have after: "demo_failed = demo_failing\<lparr>fa_chain := fail_send 1 (sentinel ErrBroadcastTimeout) demo_chain,
      fa_flights := (fa_flights demo_failing)[0 := demo_flush\<lparr>fl_pc := FlushDone\<rparr>],
      fa_calls := fa_calls demo_failing @ (case Some (CallSend \<lparr>sr_key_index = 1, sr_to_address = ''osmo1x'', sr_coins = []\<rparr>) of None \<Rightarrow> [] | Some x \<Rightarrow> [x]),
      fa_results := fa_results demo_failing @ [(0, Err (FlushTx (sentinel ErrBroadcastTimeout)))]\<rparr>"
    by (simp add: demo_failed_def demo_failing_def demo2_def demo1_def fa_init_def)
  have "flush_step (Inl (sentinel ErrBroadcastTimeout)) (fa_chain demo_failing) (fa_flights demo_failing ! 0) =
      (fail_send 1 (sentinel ErrBroadcastTimeout) demo_chain, demo_flush\<lparr>fl_pc := FlushDone\<rparr>,
       Some (CallSend \<lparr>sr_key_index = 1, sr_to_address = ''osmo1x'', sr_coins = []\<rparr>), [(0, Err (FlushTx (sentinel ErrBroadcastTimeout)))])"
    by (simp add: flush_step_def demo_failing_def demo2_def demo_flush_def sample_req_def sendErrAll_def)
  from single_distributor_never_recovers[OF _ _ _ _ _ _ this, of "demo_pool [] ! 0" False "[1]" 0 "demo_failed\<lparr>fa_chain := Resume (fa_chain demo_failed)\<rparr>" "sample_req 1"]
    r_into_rtranclp[of fa_step, OF step]
  show ?thesis unfolding after[symmetric]
    by (simp add: demo_failing_def demo2_def demo_chain_facts demo_pool_def demo_flush_def demo_failed_def) blast
qed

end
