(* ===== verification/Transport.thy ===== *)
theory Transport
  imports Txerr Endpoint
begin

text \<open>
  \<^verbatim>\<open>internal/tx/rest.go\<close>, \<^verbatim>\<open>grpc.go\<close>, \<^verbatim>\<open>account.go\<close> and \<^verbatim>\<open>transport.go\<close>: how the answers of a node become results and errors of the transaction
  client. An HTTP exchange is its outcome: a failure of the exchange, or a status with the body text and the decoded JSON value
  (\<^const>\<open>None\<close> when decoding fails). A gRPC call is a status code with its text, or the message. Protobuf decoding is an argument.

  Both transports poll for confirmation in the same loop; \<^verbatim>\<open>waitForConfirmation\<close> runs it over a clock, with fuel. The lemmas show that the
  loop always ends, and that the error classes the client retries on arise exactly where they should.
\<close>

datatype 'b rest_reply = RestFails string | RestReply nat string "'b option"

text \<open>The \<^verbatim>\<open>%w: ...\<close> errors of \<^verbatim>\<open>get\<close> and \<^verbatim>\<open>post\<close>, and of a server error.\<close>

definition rest_unavailable :: "string \<Rightarrow> tx_error" where
  "rest_unavailable t = \<lparr>te_chain = [errRESTUnavailable], te_text = sentinel_text errRESTUnavailable @ '': '' @ t, te_grpc = None\<rparr>"

text \<open>\<^verbatim>\<open>n, _ = strconv.ParseUint(s, 10, 64)\<close> and \<^verbatim>\<open>ParseInt\<close>: 0 for bad syntax, the nearest value out of range.\<close>

definition parse_uint64_lax :: "string \<Rightarrow> int" where
  "parse_uint64_lax s = (if all_digits s then min (int (digits_val s)) max_uint64 else 0)"

definition parse_int64_lax :: "string \<Rightarrow> int" where
  "parse_int64_lax s = (case set_string s of None \<Rightarrow> 0 | Some n \<Rightarrow> max min_int64 (min n max_int64))"

record rest_base_account =
  rba_address :: string
  rba_number :: string
  rba_sequence :: string

record rest_account = rest_base_account +
  ra_base :: "rest_base_account option"

fun trim_right_slash :: "string \<Rightarrow> string" where
  "trim_right_slash s = rev (dropWhile (\<lambda>c. c = CHR ''/'') (rev s))"

definition rest_queryAccount :: "string \<Rightarrow> string \<Rightarrow> rest_account rest_reply \<Rightarrow> (tx_error, account) result" where
  "rest_queryAccount url address reply =
     (case reply of
        RestFails t \<Rightarrow> Err (rest_unavailable t)
      | RestReply status body decoded \<Rightarrow>
          if status = 404 then Err (sentinel ErrAccountNotFound)
          else if status \<ge> 500 then Err (rest_unavailable (''GET '' @ url @ '': status '' @ show_nat status))
          else if status \<noteq> 200
               then Err (plain_error (''tx: query account '' @ address @ '': status '' @ show_nat status @ '': '' @ body))
          else (case decoded of
                  None \<Rightarrow> Err (plain_error (''tx: query account '' @ address @ '': decode: ''))
                | Some src \<Rightarrow>
                    let acc = (case ra_base src of
                          Some b \<Rightarrow> \<lparr>acc_address = rba_address b, acc_number = parse_uint64_lax (rba_number b),
                                     acc_sequence = parse_uint64_lax (rba_sequence b)\<rparr>
                        | None \<Rightarrow> \<lparr>acc_address = address, acc_number = parse_uint64_lax (rba_number src),
                                   acc_sequence = parse_uint64_lax (rba_sequence src)\<rparr>)
                    in Ok (if acc_address acc = '''' then acc\<lparr>acc_address := address\<rparr> else acc)))"

text \<open>The decoded value is the field \<^verbatim>\<open>gas_info.gas_used\<close>.\<close>

definition rest_simulate :: "string rest_reply \<Rightarrow> int" where
  "rest_simulate reply =
     (case reply of
        RestFails _ \<Rightarrow> 0
      | RestReply status body decoded \<Rightarrow>
          if status \<noteq> 200 then 0
          else (case decoded of
                  None \<Rightarrow> 0
                | Some g \<Rightarrow> if g = '''' then 0 else (case parse_uint64 g of None \<Rightarrow> 0 | Some n \<Rightarrow> n)))"

record tx_response =
  txr_code :: nat
  txr_hash :: string
  txr_height :: int
  txr_gas_used :: int
  txr_raw_log :: string

text \<open>The body of the reply to a broadcast, read as an error object (code and message) and as an object with \<^verbatim>\<open>tx_response\<close> (code, hash, log).\<close>

record rest_broadcast_body =
  rbb_error :: "(nat \<times> string) option"
  rbb_tx :: "(nat \<times> string \<times> string) option"

definition rest_broadcastTx :: "string \<Rightarrow> rest_broadcast_body rest_reply \<Rightarrow> (tx_error, string) result" where
  "rest_broadcastTx url reply =
     (case reply of
        RestFails t \<Rightarrow> Err (rest_unavailable t)
      | RestReply status body decoded \<Rightarrow>
          if status \<ge> 500 then Err (rest_unavailable (''POST '' @ url @ '': status '' @ show_nat status))
          else if status \<noteq> 200
               then (case Option.bind decoded rbb_error of
                       Some (code, msg) \<Rightarrow>
                         if code \<noteq> 0 then Err (classifyCodeAndLog code msg)
                         else Err (plain_error (''tx: broadcast: status '' @ show_nat status @ '': '' @ body))
                     | None \<Rightarrow> Err (plain_error (''tx: broadcast: status '' @ show_nat status @ '': '' @ body)))
          else (case Option.bind decoded rbb_tx of
                  None \<Rightarrow> Err (plain_error ''tx: broadcast: decode: '')
                | Some (code, txHash, rawLog) \<Rightarrow>
                    if code \<noteq> 0 then Err (classifyCodeAndLog code rawLog) else Ok txHash))"

datatype poll_result = PollRetry | PollFail tx_error | PollDone broadcast_result

record rest_tx =
  rtx_code :: nat
  rtx_hash :: string
  rtx_height :: string
  rtx_gas_used :: string
  rtx_raw_log :: string

definition rest_poll :: "rest_tx rest_reply \<Rightarrow> poll_result" where
  "rest_poll reply =
     (case reply of
        RestFails _ \<Rightarrow> PollRetry
      | RestReply status body decoded \<Rightarrow>
          if status = 404 then PollRetry
          else if status \<ge> 500 then PollRetry
          else if status \<noteq> 200 then PollFail (plain_error (''tx: confirmation: status '' @ show_nat status @ '': '' @ body))
          else (case decoded of
                  None \<Rightarrow> PollFail (plain_error ''tx: confirmation: decode: '')
                | Some r \<Rightarrow>
                    if rtx_code r \<noteq> 0 then PollFail (classifyCodeAndLog (rtx_code r) (rtx_raw_log r))
                    else PollDone \<lparr>br_tx_hash = rtx_hash r, br_height = parse_int64_lax (rtx_height r),
                                   br_gas_used = parse_uint64_lax (rtx_gas_used r)\<rparr>))"

text \<open>The decoded value is the balance (denomination and amount).\<close>

definition rest_queryBalance :: "string \<Rightarrow> string \<Rightarrow> string \<Rightarrow> coin rest_reply \<Rightarrow> (tx_error, coin) result" where
  "rest_queryBalance url address denom reply =
     (case reply of
        RestFails t \<Rightarrow> Err (rest_unavailable t)
      | RestReply status body decoded \<Rightarrow>
          if status \<ge> 500 then Err (rest_unavailable (''GET '' @ url @ '': status '' @ show_nat status))
          else if status = 404 then Ok \<lparr>coin_denom = denom, coin_amount = ''0''\<rparr>
          else if status \<noteq> 200
               then Err (plain_error (''tx: query balance '' @ address @ ''/'' @ denom @ '': status '' @ show_nat status))
          else (case decoded of
                  None \<Rightarrow> Err (plain_error (''tx: query balance '' @ address @ ''/'' @ denom @ '': decode: ''))
                | Some b \<Rightarrow> if coin_amount b = '''' then Ok \<lparr>coin_denom = denom, coin_amount = ''0''\<rparr> else Ok b))"

datatype 'b grpc_reply = GrpcError nat string | GrpcMessage 'b

definition codes_NotFound :: nat where "codes_NotFound = 5"
definition codes_Unavailable :: nat where "codes_Unavailable = 14"

definition grpc_error :: "string \<Rightarrow> nat \<Rightarrow> string \<Rightarrow> tx_error" where
  "grpc_error prefix code t = \<lparr>te_chain = [], te_text = prefix @ t, te_grpc = Some code\<rparr>"

text \<open>The protobuf decoders: a base account, and the base account inside an Ethermint account (which may lack it).\<close>

record account_codec =
  cd_base :: "byte list \<Rightarrow> account option"
  cd_eth :: "byte list \<Rightarrow> account option option"

definition decodeBaseAccount :: "account_codec \<Rightarrow> byte list \<Rightarrow> (tx_error, account) result" where
  "decodeBaseAccount cd bs =
     (case cd_base cd bs of None \<Rightarrow> Err (plain_error ''tx: decode BaseAccount: '') | Some a \<Rightarrow> Ok a)"

definition decodeEthAccount :: "account_codec \<Rightarrow> byte list \<Rightarrow> (tx_error, account) result" where
  "decodeEthAccount cd bs =
     (case cd_eth cd bs of
        None \<Rightarrow> Err (plain_error ''tx: decode EthAccount: '')
      | Some None \<Rightarrow> Err (plain_error ''tx: EthAccount has no BaseAccount'')
      | Some (Some a) \<Rightarrow> Ok a)"

definition knownAccountDecoders :: "account_codec \<Rightarrow> string \<Rightarrow> (byte list \<Rightarrow> (tx_error, account) result) option" where
  "knownAccountDecoders cd url =
     (if url = ''/cosmos.auth.v1beta1.BaseAccount'' then Some (decodeBaseAccount cd)
      else if url = ''/ethermint.types.v1.EthAccount'' then Some (decodeEthAccount cd)
      else None)"

text \<open>The message is the type URL and the bytes of the account, if present.\<close>

definition queryAccountGRPC :: "account_codec \<Rightarrow> (string \<times> byte list) option grpc_reply \<Rightarrow> (tx_error, account) result" where
  "queryAccountGRPC cd reply =
     (case reply of
        GrpcError code t \<Rightarrow>
          if code = codes_NotFound then Err (sentinel ErrAccountNotFound)
          else Err (grpc_error ''tx: query account: '' code t)
      | GrpcMessage None \<Rightarrow> Err (sentinel ErrAccountNotFound)
      | GrpcMessage (Some (typeUrl, bs)) \<Rightarrow>
          (case knownAccountDecoders cd typeUrl of
             Some dec \<Rightarrow> dec bs
           | None \<Rightarrow> (case decodeBaseAccount cd bs of Inl _ \<Rightarrow> Err (sentinel ErrUnknownAccountType) | Inr a \<Rightarrow> Ok a)))"

text \<open>The message is \<^verbatim>\<open>gas_info.gas_used\<close>, if present.\<close>

definition grpc_simulate :: "int option grpc_reply \<Rightarrow> int" where
  "grpc_simulate reply = (case reply of GrpcMessage (Some g) \<Rightarrow> g | _ \<Rightarrow> 0)"

definition classifyChainError :: "tx_response \<Rightarrow> tx_error" where
  "classifyChainError r = classifyCodeAndLog (txr_code r) (txr_raw_log r)"

definition grpc_broadcastTx :: "tx_response option grpc_reply \<Rightarrow> (tx_error, string) result" where
  "grpc_broadcastTx reply =
     (case reply of
        GrpcError code t \<Rightarrow> Err (grpc_error ''tx: broadcast: '' code t)
      | GrpcMessage None \<Rightarrow> Err (plain_error ''tx: broadcast: nil response'')
      | GrpcMessage (Some r) \<Rightarrow> if txr_code r \<noteq> 0 then Err (classifyChainError r) else Ok (txr_hash r))"

definition grpc_poll :: "tx_response option grpc_reply \<Rightarrow> poll_result" where
  "grpc_poll reply =
     (case reply of
        GrpcError _ _ \<Rightarrow> PollRetry
      | GrpcMessage None \<Rightarrow> PollFail (plain_error ''tx: confirmation: nil tx response'')
      | GrpcMessage (Some r) \<Rightarrow>
          if txr_code r \<noteq> 0 then PollFail (classifyChainError r)
          else PollDone \<lparr>br_tx_hash = txr_hash r, br_height = txr_height r,
                         br_gas_used = (if txr_gas_used r > 0 then txr_gas_used r else 0)\<rparr>)"

definition grpc_queryBalance :: "string \<Rightarrow> string \<Rightarrow> coin option grpc_reply \<Rightarrow> (tx_error, coin) result" where
  "grpc_queryBalance address denom reply =
     (case reply of
        GrpcError code t \<Rightarrow> Err (grpc_error (''tx: query balance '' @ address @ ''/'' @ denom @ '': '') code t)
      | GrpcMessage None \<Rightarrow> Ok \<lparr>coin_denom = denom, coin_amount = ''0''\<rparr>
      | GrpcMessage (Some b) \<Rightarrow> Ok b)"

definition isUnavailable :: "tx_error \<Rightarrow> bool" where
  "isUnavailable e \<longleftrightarrow> errors_Is e errRESTUnavailable \<or> te_grpc e = Some codes_Unavailable"

definition confirmTimeout :: int where "confirmTimeout = 30 * 1000000000"
definition confirmPollInterval :: int where "confirmPollInterval = 2 * 1000000000"

text \<open>
  The polling loop. \<^verbatim>\<open>clock k\<close> is the time at the start of iteration \<^verbatim>\<open>k\<close>, \<^verbatim>\<open>poll k\<close> what its query gives, and \<^verbatim>\<open>sleeps k\<close> is the error of the
  context when it is cancelled during the pause. \<^const>\<open>None\<close> means that the fuel did not suffice.
\<close>

fun wait_loop ::
    "nat \<Rightarrow> int \<Rightarrow> (nat \<Rightarrow> int) \<Rightarrow> (nat \<Rightarrow> poll_result) \<Rightarrow> (nat \<Rightarrow> tx_error option) \<Rightarrow> nat \<Rightarrow> (tx_error, broadcast_result) result option" where
  "wait_loop 0 deadline clock poll sleeps k = None"
| "wait_loop (Suc n) deadline clock poll sleeps k =
     (if clock k > deadline then Some (Err (sentinel ErrBroadcastTimeout))
      else case poll k of
             PollRetry \<Rightarrow> (case sleeps k of
                 Some ctxErr \<Rightarrow> Some (Err ctxErr)
               | None \<Rightarrow> wait_loop n deadline clock poll sleeps (Suc k))
           | PollFail e \<Rightarrow> Some (Err e)
           | PollDone r \<Rightarrow> Some (Ok r))"

definition waitForConfirmation ::
    "nat \<Rightarrow> (nat \<Rightarrow> int) \<Rightarrow> (nat \<Rightarrow> poll_result) \<Rightarrow> (nat \<Rightarrow> tx_error option) \<Rightarrow> (tx_error, broadcast_result) result option" where
  "waitForConfirmation fuel clock poll sleeps = wait_loop fuel (clock 0 + confirmTimeout) clock poll sleeps 0"

subsection \<open>The loop ends\<close>

lemma wait_loop_returns:
  assumes "\<And>k. clock (Suc k) \<ge> clock k + confirmPollInterval" "deadline < clock k + int n * confirmPollInterval"
  shows "\<exists>r. wait_loop (Suc n) deadline clock poll sleeps k = Some r"
  using assms(2)
proof (induction n arbitrary: k)
  case (Suc n)
  then have "deadline < clock (Suc k) + int n * confirmPollInterval"
    using assms(1)[of k] by (simp add: algebra_simps)
  then show ?case using Suc.IH[of "Suc k"] by (simp split: poll_result.split option.split)
qed simp

lemma wait_loop_result:
  "wait_loop n deadline clock poll sleeps k = Some (Inr r) \<Longrightarrow> \<exists>j \<ge> k. poll j = PollDone r \<and> clock j \<le> deadline \<and> (\<forall>i. k \<le> i \<and> i < j \<longrightarrow> poll i = PollRetry)"
proof (induction n arbitrary: k)
  case (Suc n)
  show ?case
  proof (cases "poll k")
    case PollRetry
    then obtain j where "j \<ge> Suc k" "poll j = PollDone r" "clock j \<le> deadline" "\<forall>i. Suc k \<le> i \<and> i < j \<longrightarrow> poll i = PollRetry"
      using Suc by (auto split: if_splits option.splits)
    then show ?thesis using PollRetry by (intro exI[of _ j]) (metis Suc_leI le_neq_implies_less le_SucI Suc_le_lessD less_imp_le)
  qed (use Suc in \<open>auto split: if_splits intro!: exI[of _ k]\<close>)
qed simp

lemma wait_loop_error:
  "wait_loop n deadline clock poll sleeps k = Some (Inl e) \<Longrightarrow>
   e = sentinel ErrBroadcastTimeout \<or> (\<exists>j. sleeps j = Some e) \<or> (\<exists>j. poll j = PollFail e)"
  by (induction n arbitrary: k) (auto split: if_splits option.splits poll_result.splits)


text \<open>C30: Waiting for confirmation always ends. If every pause takes at least the poll interval, seventeen iterations suffice for any node:
  the wait returns a confirmation only if a poll no later than thirty seconds after the start reported it, and otherwise fails with
  the timeout, the error of the cancelled context, or the failure that a poll reported.\<close>

theorem confirmation_terminates:
  assumes "\<And>k. clock (Suc k) \<ge> clock k + confirmPollInterval"
  shows "\<exists>r. waitForConfirmation 17 clock poll sleeps = Some r \<and>
    (case r of
       Inr b \<Rightarrow> \<exists>j. poll j = PollDone b \<and> clock j \<le> clock 0 + confirmTimeout \<and> (\<forall>i < j. poll i = PollRetry)
     | Inl e \<Rightarrow> e = sentinel ErrBroadcastTimeout \<or> (\<exists>j. sleeps j = Some e) \<or> (\<exists>j. poll j = PollFail e))"
proof -
  have "clock 0 + confirmTimeout < clock 0 + int 16 * confirmPollInterval"
    by (simp add: confirmTimeout_def confirmPollInterval_def)
  from wait_loop_returns[OF assms this]
  obtain r where r: "wait_loop 17 (clock 0 + confirmTimeout) clock poll sleeps 0 = Some r" by auto
  show ?thesis
  proof (cases r)
    case (Inl e)
    then have w: "wait_loop 17 (clock 0 + confirmTimeout) clock poll sleeps 0 = Some (Inl e)" using r by simp
    from wait_loop_error[OF w] show ?thesis using w by (simp add: waitForConfirmation_def)
  next
    case (Inr b)
    then have w: "wait_loop 17 (clock 0 + confirmTimeout) clock poll sleeps 0 = Some (Inr b)" using r by simp
    from wait_loop_result[OF w] show ?thesis using r Inr by (intro exI[of _ r]) (auto simp: waitForConfirmation_def)
  qed
qed

theorem confirmation_terminates_witness:
  "waitForConfirmation 17 (\<lambda>k. int k * 2000000000) (\<lambda>_. PollRetry) (\<lambda>_. None) = Some (Err (sentinel ErrBroadcastTimeout))"
proof -
  have "\<And>k. int k * 2000000000 + confirmPollInterval \<le> int (Suc k) * 2000000000" by (simp add: confirmPollInterval_def)
  note t = confirmation_terminates[of "\<lambda>k. int k * 2000000000", OF this, of "\<lambda>_. PollRetry" "\<lambda>_. None"]
  then obtain r where r: "waitForConfirmation 17 (\<lambda>k. int k * 2000000000) (\<lambda>_. PollRetry) (\<lambda>_. None) = Some r" by blast
  show ?thesis using t unfolding r by (cases r) simp_all
qed

subsection \<open>Error classes\<close>

lemma isUnavailable_simps [simp]:
  "isUnavailable (rest_unavailable t)" "\<not> isUnavailable (plain_error t)"
  "isUnavailable (sentinel s) \<longleftrightarrow> s = errRESTUnavailable" "\<not> isUnavailable (classifyCodeAndLog code l)"
  "isUnavailable (grpc_error p code t) \<longleftrightarrow> code = codes_Unavailable"
  by (auto simp: isUnavailable_def rest_unavailable_def plain_error_def sentinel_def classifyCodeAndLog_def grpc_error_def errors_Is_def)

text \<open>A poll never fails with an unavailable error: that would make the client send the transaction again elsewhere.\<close>

lemma poll_fail_available:
  "rest_poll reply = PollFail e \<Longrightarrow> \<not> isUnavailable e"
  "grpc_poll reply' = PollFail e \<Longrightarrow> \<not> isUnavailable e"
  by (auto simp: rest_poll_def grpc_poll_def classifyChainError_def split: rest_reply.splits grpc_reply.splits if_splits option.splits)

lemma wait_error_available:
  assumes "waitForConfirmation fuel clock poll sleeps = Some (Inl e)"
    and "\<And>j e. poll j = PollFail e \<Longrightarrow> \<not> isUnavailable e" "\<And>j e. sleeps j = Some e \<Longrightarrow> \<not> isUnavailable e"
  shows "\<not> isUnavailable e"
  using wait_loop_error[OF assms(1)[unfolded waitForConfirmation_def]] assms(2,3) by auto

text \<open>A node that cannot be reached, or a REST server error, is unavailable on broadcast; a refusal by the chain is not.\<close>

lemma broadcast_unavailable_iff:
  "rest_broadcastTx url reply = Inl e \<Longrightarrow>
     isUnavailable e \<longleftrightarrow> (\<exists>t. reply = RestFails t) \<or> (\<exists>status body d. reply = RestReply status body d \<and> status \<ge> 500)"
  "grpc_broadcastTx reply' = Inl e \<Longrightarrow> isUnavailable e \<longleftrightarrow> (\<exists>t. reply' = GrpcError codes_Unavailable t)"
  by (auto simp: rest_broadcastTx_def grpc_broadcastTx_def classifyChainError_def split: rest_reply.splits grpc_reply.splits if_splits option.splits)

text \<open>An accepted broadcast is one the node answered with code 0.\<close>

lemma broadcast_ok_iff:
  "rest_broadcastTx url reply = Inr h \<longleftrightarrow> (\<exists>body d l. reply = RestReply 200 body (Some d) \<and> rbb_tx d = Some (0, h, l))"
  "grpc_broadcastTx reply' = Inr h \<longleftrightarrow> (\<exists>r. reply' = GrpcMessage (Some r) \<and> txr_code r = 0 \<and> txr_hash r = h)"
  by (auto simp: rest_broadcastTx_def grpc_broadcastTx_def split: rest_reply.splits grpc_reply.splits if_splits option.splits bind_splits)

end
