(* ===== verification/Fee.thy ===== *)
theory Fee
  imports Complex_Main Coins Registry
begin

text \<open>
  \<^verbatim>\<open>internal/tx/fee.go\<close>: gas limit and fee of a transaction. The decimal package is the record \<^verbatim>\<open>decimal_ops\<close>; what the code relies on of it is
  the locale \<^verbatim>\<open>decimal_laws\<close>, by the rational value of a decimal, interpreted on a coefficient and exponent implementation. The gas
  arithmetic is on 64-bit integers, with the conversions of the code written out; \<^verbatim>\<open>junk\<close> is what \<^verbatim>\<open>big.Int.Uint64\<close> gives out of range.
\<close>

record decimal_ops = decimal_lib +
  do_from_int :: "int \<Rightarrow> decimal"
  do_mul :: "decimal \<Rightarrow> decimal \<Rightarrow> decimal"
  do_ceil :: "decimal \<Rightarrow> decimal"
  do_bigint :: "decimal \<Rightarrow> int"

definition big_uint64 :: "(int \<Rightarrow> int) \<Rightarrow> int \<Rightarrow> int" where
  "big_uint64 junk n = (if 0 \<le> n \<and> n \<le> max_uint64 then n else junk n)"

definition defaultBaseGas :: int where "defaultBaseGas = 200000"
definition defaultGasPerOutput :: int where "defaultGasPerOutput = 80000"
definition defaultFeeDenom :: string where "defaultFeeDenom = ''uosmo''"

definition defaultGasPrice :: decimal where "defaultGasPrice = \<lparr>dec_coeff = 25, dec_exp = - 3\<rparr>"
definition gasAdjustTrusted :: decimal where "gasAdjustTrusted = \<lparr>dec_coeff = 13, dec_exp = - 1\<rparr>"
definition gasAdjustCold :: decimal where "gasAdjustCold = \<lparr>dec_coeff = 15, dec_exp = - 1\<rparr>"

datatype fee_error = FeePrice string

definition calcFee :: "decimal_ops \<Rightarrow> int \<Rightarrow> string \<Rightarrow> string \<Rightarrow> (fee_error, coin) result" where
  "calcFee d gasLimit gasPriceStr denom =
     (case dl_parse d gasPriceStr of
        None \<Rightarrow> Err (FeePrice gasPriceStr)
      | Some price \<Rightarrow>
          Ok \<lparr>coin_denom = denom, coin_amount = dl_string d (do_ceil d (do_mul d (do_from_int d (to_int64 gasLimit)) price))\<rparr>)"

text \<open>\<^verbatim>\<open>decimal.NewFromInt(int64(n)).Mul(adj).Ceil().BigInt().Uint64()\<close>.\<close>

definition adjusted_gas :: "decimal_ops \<Rightarrow> (int \<Rightarrow> int) \<Rightarrow> decimal \<Rightarrow> int \<Rightarrow> int" where
  "adjusted_gas d junk adj n =
     big_uint64 junk (do_bigint d (do_ceil d (do_mul d (do_from_int d (to_int64 n)) adj)))"

text \<open>\<^verbatim>\<open>gasUsedRaw\<close> is the answer of the simulation, 0 when it fails; building the placeholder transaction may fail as well (\<^verbatim>\<open>marshalled\<close>).\<close>

definition trySimulate :: "decimal_ops \<Rightarrow> (int \<Rightarrow> int) \<Rightarrow> chain_info \<Rightarrow> bool \<Rightarrow> int \<Rightarrow> estimate option" where
  "trySimulate d junk ch marshalled gasUsedRaw =
     (if \<not> marshalled \<or> gasUsedRaw = 0 then None
      else
        let gas = adjusted_gas d junk gasAdjustCold gasUsedRaw;
            (denom, gasPriceStr) =
              (case ci_fee_tokens ch of
                 [] \<Rightarrow> (defaultFeeDenom, dl_string d defaultGasPrice)
               | ft # _ \<Rightarrow> (ft_denom ft, dl_string d (ft_average ft)))
        in case calcFee d gas gasPriceStr denom of
             Inl _ \<Rightarrow> None
           | Inr fee \<Rightarrow> Some \<lparr>est_gas_limit = gas, est_fee = fee, est_gas_price_amount = gasPriceStr\<rparr>)"

text \<open>\<^verbatim>\<open>cached\<close> is the answer of the gas cache (\<^const>\<open>None\<close> also when there is no cache).\<close>

definition estimateFee ::
    "decimal_ops \<Rightarrow> (int \<Rightarrow> int) \<Rightarrow> chain_info \<Rightarrow> cached_estimate option \<Rightarrow> bool \<Rightarrow> int \<Rightarrow> int \<Rightarrow> (fee_error, estimate) result" where
  "estimateFee d junk ch cached marshalled gasUsedRaw outputCount0 =
     (let outputCount = (if outputCount0 \<le> 0 then 1 else outputCount0);
          fromCache =
            (case cached of
               None \<Rightarrow> None
             | Some c \<Rightarrow>
                 if \<not> IsTrusted c then None
                 else
                   let gas = adjusted_gas d junk gasAdjustTrusted (to_uint64 (ce_base_gas c + to_uint64 (ce_gas_per_output c * outputCount)))
                   in case calcFee d gas (ce_gas_price_amount c) (ce_fee_denom c) of
                        Inl _ \<Rightarrow> None
                      | Inr fee \<Rightarrow> Some \<lparr>est_gas_limit = gas, est_fee = fee, est_gas_price_amount = ce_gas_price_amount c\<rparr>);
          staticGas = adjusted_gas d junk gasAdjustCold (to_uint64 (defaultBaseGas + to_uint64 (defaultGasPerOutput * outputCount)))
      in case fromCache of
           Some e \<Rightarrow> Ok e
         | None \<Rightarrow>
             (case trySimulate d junk ch marshalled gasUsedRaw of
                Some e \<Rightarrow> Ok e
              | None \<Rightarrow>
                  (case (case ci_fee_tokens ch of
                           [] \<Rightarrow> None
                         | ft # _ \<Rightarrow>
                             (case calcFee d staticGas (dl_string d (ft_average ft)) (ft_denom ft) of
                                Inl _ \<Rightarrow> None
                              | Inr fee \<Rightarrow> Some \<lparr>est_gas_limit = staticGas, est_fee = fee, est_gas_price_amount = dl_string d (ft_average ft)\<rparr>)) of
                     Some e \<Rightarrow> Ok e
                   | None \<Rightarrow>
                       (case calcFee d staticGas (dl_string d defaultGasPrice) defaultFeeDenom of
                          Inl err \<Rightarrow> Err err
                        | Inr fee \<Rightarrow> Ok \<lparr>est_gas_limit = staticGas, est_fee = fee, est_gas_price_amount = dl_string d defaultGasPrice\<rparr>))))"

definition dec_val :: "decimal \<Rightarrow> rat" where "dec_val x = of_int (dec_coeff x) * 10 powi dec_exp x"

text \<open>A coefficient and exponent implementation of the operations.\<close>

definition ref_ceil :: "decimal \<Rightarrow> decimal" where
  "ref_ceil x = (if dec_exp x \<ge> 0 then x
                 else \<lparr>dec_coeff = - ((- dec_coeff x) div 10 ^ nat (- dec_exp x)), dec_exp = 0\<rparr>)"

definition ref_bigint :: "decimal \<Rightarrow> int" where
  "ref_bigint x = (if dec_exp x \<ge> 0 then dec_coeff x * 10 ^ nat (dec_exp x) else dec_coeff x div 10 ^ nat (- dec_exp x))"

definition ref_string :: "decimal \<Rightarrow> string" where
  "ref_string x =
     (if dec_exp x \<ge> 0 \<or> dec_coeff x mod 10 ^ nat (- dec_exp x) = 0 then show_int (ref_bigint x)
      else show_int (dec_coeff x) @ CHR ''e'' # show_int (dec_exp x))"

definition ref_parse :: "string \<Rightarrow> decimal option" where
  "ref_parse s =
     (case index_of (CHR ''e'') s of
        None \<Rightarrow> map_option (\<lambda>n. \<lparr>dec_coeff = n, dec_exp = 0\<rparr>) (set_string s)
      | Some i \<Rightarrow>
          (case (set_string (take i s), set_string (drop (Suc i) s)) of
             (Some c, Some e) \<Rightarrow> Some \<lparr>dec_coeff = c, dec_exp = e\<rparr>
           | _ \<Rightarrow> None))"

definition ref_decimal :: decimal_ops where
  "ref_decimal =
     \<lparr>dl_parse = ref_parse, dl_string = ref_string,
      do_from_int = (\<lambda>n. \<lparr>dec_coeff = n, dec_exp = 0\<rparr>),
      do_mul = (\<lambda>a b. \<lparr>dec_coeff = dec_coeff a * dec_coeff b, dec_exp = dec_exp a + dec_exp b\<rparr>),
      do_ceil = ref_ceil, do_bigint = ref_bigint\<rparr>"

text \<open>The gas limit each strategy aims at.\<close>

definition gas_spec :: "decimal_ops \<Rightarrow> cached_estimate option \<Rightarrow> bool \<Rightarrow> int \<Rightarrow> int \<Rightarrow> int" where
  "gas_spec d cached marshalled gasUsed n =
     (case cached of
        Some c \<Rightarrow> if IsTrusted c \<and> dl_parse d (ce_gas_price_amount c) \<noteq> None
                  then \<lceil>of_int (ce_base_gas c + ce_gas_per_output c * n) * (13 / 10 :: rat)\<rceil>
                  else if marshalled \<and> gasUsed \<noteq> 0 then \<lceil>of_int gasUsed * (3 / 2 :: rat)\<rceil>
                  else \<lceil>of_int (200000 + 80000 * n) * (3 / 2 :: rat)\<rceil>
      | None \<Rightarrow> if marshalled \<and> gasUsed \<noteq> 0 then \<lceil>of_int gasUsed * (3 / 2 :: rat)\<rceil>
                else \<lceil>of_int (200000 + 80000 * n) * (3 / 2 :: rat)\<rceil>)"

text \<open>The fee of an estimate is the gas limit times the price it records, rounded up.\<close>

definition fee_for :: "decimal_ops \<Rightarrow> estimate \<Rightarrow> bool" where
  "fee_for d e \<longleftrightarrow>
     (\<exists>p. dl_parse d (est_gas_price_amount e) = Some p \<and>
          coin_amount (est_fee e) = show_int \<lceil>of_int (est_gas_limit e) * dec_val p\<rceil>)"

subsection \<open>Decimals by their value\<close>

locale decimal_laws =
  fixes d :: decimal_ops
  assumes from_int: "dec_val (do_from_int d n) = of_int n"
    and mul: "dec_val (do_mul d a b) = dec_val a * dec_val b"
    and ceil: "dec_val (do_ceil d a) = of_int \<lceil>dec_val a\<rceil>"
    and bigint: "dec_val a = of_int n \<Longrightarrow> do_bigint d a = n"
    and string_int: "dec_val a = of_int n \<Longrightarrow> dl_string d a = show_int n"
    and parse_string: "\<exists>a'. dl_parse d (dl_string d a) = Some a' \<and> dec_val a' = dec_val a"
begin

lemma calcFee_value:
  assumes "dl_parse d price = Some p" "0 \<le> gas" "gas \<le> max_int64"
  shows "calcFee d gas price denom = Ok \<lparr>coin_denom = denom, coin_amount = show_int \<lceil>of_int gas * dec_val p\<rceil>\<rparr>"
proof -
  have "to_int64 gas = gas" using assms(2,3) by (simp add: to_int64_def)
  then show ?thesis using assms(1) string_int[OF ceil] by (simp add: calcFee_def mul from_int)
qed

lemma adjusted_gas_value:
  assumes "0 \<le> n" "n \<le> max_int64" "0 \<le> dec_val adj" "of_int n * dec_val adj \<le> of_int max_uint64"
  shows "adjusted_gas d junk adj n = \<lceil>of_int n * dec_val adj\<rceil>"
proof -
  have "to_int64 n = n" using assms(1,2) by (simp add: to_int64_def)
  then have "do_bigint d (do_ceil d (do_mul d (do_from_int d (to_int64 n)) adj)) = \<lceil>of_int n * dec_val adj\<rceil>"
    using bigint[OF ceil] by (simp add: mul from_int)
  moreover have "\<lceil>of_int n * dec_val adj\<rceil> \<le> max_uint64" using assms(4) by (simp add: ceiling_le_iff)
  moreover have "0 \<le> of_int n * dec_val adj" using assms(1,3) by simp
  ultimately show ?thesis by (simp add: adjusted_gas_def big_uint64_def)
qed

lemma string_parses: "\<exists>p. dl_parse d (dl_string d a) = Some p \<and> dec_val p = dec_val a"
  using parse_string by blast

end

lemma constants_val:
  "dec_val defaultGasPrice = 1 / 40" "dec_val gasAdjustTrusted = 13 / 10" "dec_val gasAdjustCold = 3 / 2"
  by (simp_all add: dec_val_def defaultGasPrice_def gasAdjustTrusted_def gasAdjustCold_def power_int_def power_divide)

lemma e_notin_show_int: "CHR ''e'' \<notin> set (show_int n)"
proof -
  have "CHR ''e'' \<notin> set (show_nat k)" for k
    using show_nat_digits[of k] by (auto simp: list_all_iff is_digit_def code_of_def)
  then show ?thesis by (simp add: show_int_def)
qed

lemma dec_val_int: "dec_exp x \<ge> 0 \<Longrightarrow> dec_val x = of_int (dec_coeff x * 10 ^ nat (dec_exp x))"
  by (simp add: dec_val_def power_int_def)

lemma dec_val_frac: "dec_exp x < 0 \<Longrightarrow> dec_val x = of_int (dec_coeff x) / of_int (10 ^ nat (- dec_exp x))"
  by (simp add: dec_val_def power_int_def power_one_over)

lemma ref_bigint_val:
  assumes "dec_val x = of_int n"
  shows "ref_bigint x = n" "dec_exp x \<ge> 0 \<or> dec_coeff x mod 10 ^ nat (- dec_exp x) = 0"
proof -
  have c: "dec_coeff x = n * 10 ^ nat (- dec_exp x)" if "dec_exp x < 0"
  proof -
    have "of_int (dec_coeff x) = (of_int n * of_int (10 ^ nat (- dec_exp x)) :: rat)"
      using assms that by (simp add: dec_val_frac divide_eq_eq)
    then show ?thesis by (simp only: of_int_mult[symmetric] of_int_eq_iff)
  qed
  have i: "dec_coeff x * 10 ^ nat (dec_exp x) = n" if "dec_exp x \<ge> 0"
    using assms unfolding dec_val_int[OF that] by (simp only: of_int_eq_iff)
  show "ref_bigint x = n" using c i by (cases "dec_exp x \<ge> 0") (simp_all add: ref_bigint_def)
  show "dec_exp x \<ge> 0 \<or> dec_coeff x mod 10 ^ nat (- dec_exp x) = 0" using c by (cases "dec_exp x \<ge> 0") simp_all
qed

lemma ref_parse_string: "\<exists>a'. ref_parse (ref_string a) = Some a' \<and> dec_val a' = dec_val a"
proof (cases "dec_exp a \<ge> 0 \<or> dec_coeff a mod 10 ^ nat (- dec_exp a) = 0")
  case True
  have "dec_val a = of_int (ref_bigint a)"
  proof (cases "dec_exp a \<ge> 0")
    case False
    then have "dec_coeff a mod 10 ^ nat (- dec_exp a) = 0" using True by simp
    then obtain q where "dec_coeff a = 10 ^ nat (- dec_exp a) * q" by (metis mod_0_imp_dvd dvdE)
    then show ?thesis using False by (simp add: ref_bigint_def dec_val_frac)
  qed (simp add: ref_bigint_def dec_val_int)
  moreover have "ref_string a = show_int (ref_bigint a)" using True by (simp add: ref_string_def)
  moreover have "index_of (CHR ''e'') (show_int (ref_bigint a)) = None"
    unfolding index_of_None by (rule e_notin_show_int)
  ultimately show ?thesis by (simp add: ref_parse_def dec_val_def del: index_of_None)
next
  case False
  then have "ref_string a = show_int (dec_coeff a) @ CHR ''e'' # show_int (dec_exp a)" by (simp add: ref_string_def)
  then show ?thesis by (simp add: ref_parse_def index_of_append_notin e_notin_show_int dec_val_def)
qed

lemma ref_ceil_val: "dec_val (ref_ceil a) = of_int \<lceil>dec_val a\<rceil>"
proof (cases "dec_exp a \<ge> 0")
  case True
  then show ?thesis by (simp add: ref_ceil_def dec_val_int del: of_int_mult of_int_power)
next
  case False
  then have "\<lceil>dec_val a\<rceil> = - ((- dec_coeff a) div 10 ^ nat (- dec_exp a))"
    by (simp add: dec_val_frac ceiling_divide_eq_div del: of_int_power)
  then show ?thesis using False by (simp add: ref_ceil_def dec_val_def)
qed

interpretation ref_decimal: decimal_laws ref_decimal
proof
  show "dec_val (do_from_int ref_decimal n) = of_int n" for n by (simp add: ref_decimal_def dec_val_def)
  show "dec_val (do_mul ref_decimal a b) = dec_val a * dec_val b" for a b
    by (simp add: ref_decimal_def dec_val_def power_int_add)
  show "dec_val (do_ceil ref_decimal a) = of_int \<lceil>dec_val a\<rceil>" for a by (simp add: ref_decimal_def ref_ceil_val)
  show "dec_val a = of_int n \<Longrightarrow> do_bigint ref_decimal a = n" for a n by (simp add: ref_decimal_def ref_bigint_val)
  show "dec_val a = of_int n \<Longrightarrow> dl_string ref_decimal a = show_int n" for a n
    using ref_bigint_val[of a n] by (auto simp: ref_decimal_def ref_string_def)
  show "\<exists>a'. dl_parse ref_decimal (dl_string ref_decimal a) = Some a' \<and> dec_val a' = dec_val a" for a
    by (simp add: ref_decimal_def ref_parse_string)
qed


lemma calcFee_None: "dl_parse d s = None \<Longrightarrow> calcFee d g s denom = Err (FeePrice s)"
  by (simp add: calcFee_def)

context decimal_laws
begin

lemma gas_bound:
  assumes "0 \<le> n" "n \<le> 4611686018427387904"
  shows "adjusted_gas d junk gasAdjustTrusted n = \<lceil>of_int n * (13 / 10 :: rat)\<rceil>"
    "adjusted_gas d junk gasAdjustCold n = \<lceil>of_int n * (3 / 2 :: rat)\<rceil>"
    "0 \<le> \<lceil>of_int n * (13 / 10 :: rat)\<rceil>" "\<lceil>of_int n * (13 / 10 :: rat)\<rceil> \<le> max_int64"
    "0 \<le> \<lceil>of_int n * (3 / 2 :: rat)\<rceil>" "\<lceil>of_int n * (3 / 2 :: rat)\<rceil> \<le> max_int64"
proof -
  have "(of_int n :: rat) \<le> of_int 4611686018427387904" "(of_int 0 :: rat) \<le> of_int n"
    using assms by (simp_all only: of_int_le_iff)
  then have n: "of_int n \<le> (4611686018427387904 :: rat)" "(0 :: rat) \<le> of_int n" by simp_all
  have m: "n \<le> max_int64" using assms(2) by simp
  have le: "of_int n * (13 / 10 :: rat) \<le> of_int max_uint64" "of_int n * (3 / 2 :: rat) \<le> of_int max_uint64" using n by simp_all
  have pos: "0 \<le> dec_val gasAdjustTrusted" "0 \<le> dec_val gasAdjustCold" by (simp_all add: constants_val)
  show "adjusted_gas d junk gasAdjustTrusted n = \<lceil>of_int n * (13 / 10 :: rat)\<rceil>"
    using adjusted_gas_value[OF assms(1) m pos(1)] le(1) unfolding constants_val by blast
  show "adjusted_gas d junk gasAdjustCold n = \<lceil>of_int n * (3 / 2 :: rat)\<rceil>"
    using adjusted_gas_value[OF assms(1) m pos(2)] le(2) unfolding constants_val by blast
  show "0 \<le> \<lceil>of_int n * (13 / 10 :: rat)\<rceil>" "0 \<le> \<lceil>of_int n * (3 / 2 :: rat)\<rceil>"
    using n by (simp_all add: order_less_le_trans[of "- 1" 0])
  show "\<lceil>of_int n * (13 / 10 :: rat)\<rceil> \<le> max_int64" "\<lceil>of_int n * (3 / 2 :: rat)\<rceil> \<le> max_int64"
    using n by (simp_all add: ceiling_le_iff)
qed

lemma estimate_of_gas:
  assumes "0 \<le> g" "g \<le> max_int64" "dl_parse d price = Some p"
  shows "\<exists>fee. calcFee d g price denom = Ok fee \<and> fee_for d \<lparr>est_gas_limit = g, est_fee = fee, est_gas_price_amount = price\<rparr>"
  using calcFee_value[OF assms(3,1,2)] assms(3) by (simp add: fee_for_def)

lemma estimateFee_spec:
  assumes "\<And>c. cached = Some c \<Longrightarrow> 0 \<le> ce_base_gas c \<and> 0 \<le> ce_gas_per_output c \<and>
             ce_base_gas c + ce_gas_per_output c * max 1 n \<le> 4611686018427387904"
    and "0 \<le> gasUsed" "gasUsed \<le> 4611686018427387904" "n \<le> 1000000000"
  shows "\<exists>e. estimateFee d junk ch cached marshalled gasUsed n = Ok e \<and>
           est_gas_limit e = gas_spec d cached marshalled gasUsed (max 1 n) \<and> fee_for d e"
proof -
  let ?n = "if n \<le> 0 then 1 else n"
  have nn: "?n = max 1 n" by simp
  let ?static = "200000 + 80000 * max 1 n :: int"
  have st: "0 \<le> ?static" "?static \<le> 4611686018427387904" using assms(4) by auto
  have stw: "to_uint64 (defaultBaseGas + to_uint64 (defaultGasPerOutput * ?n)) = ?static"
    using assms(4) by (simp add: to_uint64_def defaultBaseGas_def defaultGasPerOutput_def max_def)
  note static = gas_bound[OF st] and sim = gas_bound[OF assms(2,3)]
  show ?thesis
  proof (cases "\<exists>c p. cached = Some c \<and> IsTrusted c \<and> dl_parse d (ce_gas_price_amount c) = Some p")
    case True
    then obtain c p where c: "cached = Some c" "IsTrusted c" "dl_parse d (ce_gas_price_amount c) = Some p" by blast
    let ?g = "ce_base_gas c + ce_gas_per_output c * max 1 n"
    have b: "0 \<le> ?g" "?g \<le> 4611686018427387904" using assms(1)[OF c(1)] by simp_all
    have "0 \<le> ce_gas_per_output c * max 1 n" using assms(1)[OF c(1)] by simp
    then have "to_uint64 (ce_base_gas c + to_uint64 (ce_gas_per_output c * ?n)) = ?g"
      unfolding nn using assms(1)[OF c(1)] by (simp add: to_uint64_def)
    then show ?thesis using gas_bound[OF b] estimate_of_gas[OF gas_bound(3,4)[OF b] c(3), of "ce_fee_denom c"] c
      by (auto simp: estimateFee_def Let_def gas_spec_def nn)
  next
    case False
    then have nocache: "(case cached of None \<Rightarrow> None | Some c \<Rightarrow> if \<not> IsTrusted c then None else f c) = None"
      if "\<And>c. dl_parse d (ce_gas_price_amount c) = None \<Longrightarrow> f c = None" for f :: "cached_estimate \<Rightarrow> estimate option"
      using that by (auto split: option.split)
    have spec: "gas_spec d cached marshalled gasUsed (max 1 n) = (if marshalled \<and> gasUsed \<noteq> 0 then \<lceil>of_int gasUsed * (3 / 2 :: rat)\<rceil> else \<lceil>of_int ?static * (3 / 2 :: rat)\<rceil>)"
      using False by (auto simp: gas_spec_def split: option.split)
    obtain p0 where p0: "dl_parse d (dl_string d defaultGasPrice) = Some p0" using string_parses by blast
    obtain pf where pf: "\<And>a. dl_parse d (dl_string d a) = Some (pf a)" using string_parses by metis
    show ?thesis
    proof (cases "marshalled \<and> gasUsed \<noteq> 0")
      case True
      obtain g where g: "adjusted_gas d junk gasAdjustCold gasUsed = g" "\<lceil>of_int gasUsed * (3 / 2 :: rat)\<rceil> = g" "0 \<le> g" "g \<le> max_int64"
        using sim(2,5,6) by blast
      note fee = calcFee_value[OF pf g(3,4)]
      have "\<exists>e. trySimulate d junk ch marshalled gasUsed = Some e \<and> est_gas_limit e = g \<and> fee_for d e"
        using True by (cases "ci_fee_tokens ch") (simp_all add: trySimulate_def g(1) fee fee_for_def pf)
      then show ?thesis unfolding spec g(2) using True by (auto simp: estimateFee_def Let_def nocache calcFee_def)
    next
      case f: False
      then have "trySimulate d junk ch marshalled gasUsed = None" by (auto simp: trySimulate_def)
      obtain g where g: "adjusted_gas d junk gasAdjustCold ?static = g" "\<lceil>of_int ?static * (3 / 2 :: rat)\<rceil> = g" "0 \<le> g" "g \<le> max_int64"
        using static(2,5,6) by blast
      note fee = calcFee_value[OF pf g(3,4)]
      have nosim: "(marshalled \<and> gasUsed \<noteq> 0) = False" using f by simp
      show ?thesis unfolding spec g(2) nosim estimateFee_def Let_def nn stw[unfolded nn] g(1) using \<open>trySimulate d junk ch marshalled gasUsed = None\<close>
        by (cases "ci_fee_tokens ch") (simp_all add: nocache fee fee_for_def pf calcFee_None)
    qed
  qed
qed

end


text \<open>C31: Fee estimation. For any decimal package that computes exact values, fee estimation never fails; the gas limit is 1.3 times the cached
  model for a trusted cache entry whose price parses, otherwise 1.5 times the simulated gas, otherwise 1.5 times the static estimate,
  each rounded up; and the fee is the gas limit times the recorded price, rounded up, so it is never below what the price asks for.
  The gas figures must stay below 2 to the 62, where the 64-bit arithmetic does not wrap.\<close>

theorem estimateFee_correct:
  assumes "decimal_laws d"
    and "\<And>c. cached = Some c \<Longrightarrow> 0 \<le> ce_base_gas c \<and> 0 \<le> ce_gas_per_output c \<and>
           ce_base_gas c + ce_gas_per_output c * max 1 n \<le> 4611686018427387904"
    and "0 \<le> gasUsed" "gasUsed \<le> 4611686018427387904" "n \<le> 1000000000"
  shows "\<exists>e. estimateFee d junk ch cached marshalled gasUsed n = Ok e \<and>
           est_gas_limit e = gas_spec d cached marshalled gasUsed (max 1 n) \<and> fee_for d e"
  by (rule decimal_laws.estimateFee_spec[OF assms(1)]) (use assms in auto)

theorem estimateFee_correct_witness:
  "\<exists>e. estimateFee ref_decimal (\<lambda>_. 0) (rawToInfo ex_dl (ex_raw ''cosmos'')) None True 100000 3 = Ok e \<and>
     est_gas_limit e = 150000"
proof -
  have "\<exists>e. estimateFee ref_decimal (\<lambda>_. 0) (rawToInfo ex_dl (ex_raw ''cosmos'')) None True 100000 3 = Ok e \<and>
     est_gas_limit e = gas_spec ref_decimal None True 100000 (max 1 3) \<and> fee_for ref_decimal e"
    by (rule estimateFee_correct[OF ref_decimal.decimal_laws_axioms]) simp_all
  then show ?thesis by (auto simp: gas_spec_def)
qed

end
