(* ===== verification/Msgs.thy ===== *)
theory Msgs
  imports Coins Txerr
begin

text \<open>
  \<^verbatim>\<open>internal/tx/msg_bank.go\<close>, the messages of \<^verbatim>\<open>transfer.go\<close>, and the assembly of a signed transaction in \<^verbatim>\<open>sign.go\<close>. Messages are values of the
  datatype \<^verbatim>\<open>pb_msg\<close>; protobuf marshalling and signing are arguments (a record of functions that may fail). The input of a multi-send
  is summed in 64-bit integers, as the code does.
\<close>

datatype pb_msg =
    MsgSend string string coins
  | MsgMultiSend string coins "send_output list"
  | MsgTransfer string string coin string string int string

text \<open>A protobuf \<^verbatim>\<open>Any\<close>: type URL and bytes.\<close>

type_synonym pb_any = "string \<times> byte list"

record pb_fee =
  pf_amount :: coins
  pf_gas_limit :: int

record pb_auth_info =
  pai_pub_key :: pb_any
  pai_sequence :: int
  pai_fee :: pb_fee

record pb_sign_doc =
  psd_body :: "byte list"
  psd_auth_info :: "byte list"
  psd_chain_id :: string
  psd_account_number :: int

record pb_tx_raw =
  ptr_body :: "byte list"
  ptr_auth_info :: "byte list"
  ptr_signatures :: "byte list list"

record pb_codec =
  pc_msg :: "pb_msg \<Rightarrow> byte list option"
  pc_body :: "pb_any list \<Rightarrow> byte list option"
  pc_pub_key :: "byte list \<Rightarrow> byte list option"
  pc_auth_info :: "pb_auth_info \<Rightarrow> byte list option"
  pc_sign_doc :: "pb_sign_doc \<Rightarrow> byte list option"
  pc_tx_raw :: "pb_tx_raw \<Rightarrow> byte list option"

definition buildMsgSend :: "pb_codec \<Rightarrow> string \<Rightarrow> string \<Rightarrow> coins \<Rightarrow> (tx_error, pb_any) result" where
  "buildMsgSend pc src dst cs =
     (case pc_msg pc (MsgSend src dst cs) of
        None \<Rightarrow> Err (plain_error ''tx: marshal MsgSend: '')
      | Some b \<Rightarrow> Ok (''/cosmos.bank.v1beta1.MsgSend'', b))"

definition parseCoinAmount :: "string \<Rightarrow> (tx_error, int) result" where
  "parseCoinAmount s =
     (case parse_int64 s of None \<Rightarrow> Err (plain_error (''invalid amount '' @ s)) | Some n \<Rightarrow> Ok n)"

text \<open>The inner loop over the coins of one output and the outer loop; the state is the totals and the denominations in order of appearance.\<close>

fun sum_output_coins :: "coins \<Rightarrow> (string \<rightharpoonup> int) \<times> string list \<Rightarrow> (tx_error, (string \<rightharpoonup> int) \<times> string list) result" where
  "sum_output_coins [] st = Ok st"
| "sum_output_coins (c # cs) (totals, order) =
     (let order' = (if totals (coin_denom c) = None then order @ [coin_denom c] else order)
      in case parseCoinAmount (coin_amount c) of
           Inl e \<Rightarrow> Err (wrap (''tx: buildMsgMultiSend: output coin '' @ coin_denom c @ '': '') e)
         | Inr n \<Rightarrow> sum_output_coins cs (totals(coin_denom c \<mapsto> to_int64 (case_option 0 id (totals (coin_denom c)) + n)), order'))"

fun sum_outputs :: "send_output list \<Rightarrow> (string \<rightharpoonup> int) \<times> string list \<Rightarrow> (tx_error, (string \<rightharpoonup> int) \<times> string list) result" where
  "sum_outputs [] st = Ok st"
| "sum_outputs (out # outs) st = rbind (sum_output_coins (so_coins out) st) (sum_outputs outs)"

definition multi_send_msg :: "string \<Rightarrow> send_output list \<Rightarrow> (tx_error, pb_msg) result" where
  "multi_send_msg src outputs =
     (if outputs = [] then Err (plain_error ''tx: buildMsgMultiSend: outputs must not be empty'')
      else rbind (sum_outputs outputs (Map.empty, [])) (\<lambda>(totals, order).
             Ok (MsgMultiSend src (map (\<lambda>dn. \<lparr>coin_denom = dn, coin_amount = show_int (case_option 0 id (totals dn))\<rparr>) order) outputs)))"

definition buildMsgMultiSend :: "pb_codec \<Rightarrow> string \<Rightarrow> send_output list \<Rightarrow> (tx_error, pb_any) result" where
  "buildMsgMultiSend pc src outputs =
     rbind (multi_send_msg src outputs) (\<lambda>msg.
       case pc_msg pc msg of
         None \<Rightarrow> Err (plain_error ''tx: marshal MsgMultiSend: '')
       | Some b \<Rightarrow> Ok (''/cosmos.bank.v1beta1.MsgMultiSend'', b))"

definition buildMsgTransfer ::
    "pb_codec \<Rightarrow> string \<Rightarrow> string \<Rightarrow> string \<Rightarrow> string \<Rightarrow> coin \<Rightarrow> int \<Rightarrow> string \<Rightarrow> (tx_error, pb_any) result" where
  "buildMsgTransfer pc sender receiver sourcePort sourceChannel token timeoutTimestamp memo =
     (case pc_msg pc (MsgTransfer sourcePort sourceChannel token sender receiver timeoutTimestamp memo) of
        None \<Rightarrow> Err (plain_error ''tx: marshal MsgTransfer: '')
      | Some b \<Rightarrow> Ok (''/ibc.applications.transfer.v1.MsgTransfer'', b))"

record abci_event =
  ev_type :: string
  ev_attributes :: "(string \<times> string) list"

fun attr_sequence :: "(string \<times> string) list \<Rightarrow> int option" where
  "attr_sequence [] = None"
| "attr_sequence ((k, v) # as) =
     (if k = ''packet_sequence''
      then (case parse_uint64 v of Some n \<Rightarrow> Some n | None \<Rightarrow> attr_sequence as)
      else attr_sequence as)"

fun event_sequence :: "abci_event list \<Rightarrow> int option" where
  "event_sequence [] = None"
| "event_sequence (ev # evs) =
     (if ev_type ev \<noteq> ''send_packet'' then event_sequence evs
      else case attr_sequence (ev_attributes ev) of Some n \<Rightarrow> Some n | None \<Rightarrow> event_sequence evs)"

fun log_sequence :: "abci_event list list \<Rightarrow> int option" where
  "log_sequence [] = None"
| "log_sequence (l # ls) = (case event_sequence l of Some n \<Rightarrow> Some n | None \<Rightarrow> log_sequence ls)"

definition extractPacketSequence :: "abci_event list list \<Rightarrow> int" where
  "extractPacketSequence logs = case_option 0 id (log_sequence logs)"

text \<open>\<^verbatim>\<open>sign\<close> is \<^verbatim>\<open>privKey.Sign\<close> and \<^verbatim>\<open>pubKey\<close> the public key bytes.\<close>

definition buildTxRaw ::
    "pb_codec \<Rightarrow> (byte list \<Rightarrow> (tx_error, byte list) result) \<Rightarrow> byte list \<Rightarrow> account \<Rightarrow> pb_any list \<Rightarrow> estimate \<Rightarrow> string \<Rightarrow>
     (tx_error, pb_tx_raw) result" where
  "buildTxRaw pc sign pubKey acc msgs est chainID =
     (case pc_body pc msgs of
        None \<Rightarrow> Err (plain_error ''tx: marshal TxBody: '')
      | Some bodyBytes \<Rightarrow>
          (case pc_pub_key pc pubKey of
             None \<Rightarrow> Err (plain_error ''tx: marshal secp256k1 PubKey: '')
           | Some pubKeyBytes \<Rightarrow>
               (case pc_auth_info pc
                       \<lparr>pai_pub_key = (''/cosmos.crypto.secp256k1.PubKey'', pubKeyBytes), pai_sequence = acc_sequence acc,
                        pai_fee = \<lparr>pf_amount = [est_fee est], pf_gas_limit = est_gas_limit est\<rparr>\<rparr> of
                  None \<Rightarrow> Err (plain_error ''tx: marshal AuthInfo: '')
                | Some authInfoBytes \<Rightarrow>
                    (case pc_sign_doc pc \<lparr>psd_body = bodyBytes, psd_auth_info = authInfoBytes, psd_chain_id = chainID,
                                          psd_account_number = acc_number acc\<rparr> of
                       None \<Rightarrow> Err (plain_error ''tx: marshal SignDoc: '')
                     | Some signDocBytes \<Rightarrow>
                         (case sign signDocBytes of
                            Inl e \<Rightarrow> Err (wrap ''tx: sign: '' e)
                          | Inr sig \<Rightarrow> Ok \<lparr>ptr_body = bodyBytes, ptr_auth_info = authInfoBytes, ptr_signatures = [sig]\<rparr>)))))"

text \<open>The exact total of one denomination over the outputs, and the denominations in order of first appearance.\<close>

definition output_coins :: "send_output list \<Rightarrow> coins" where "output_coins os = concat (map so_coins os)"

definition exact_total :: "coins \<Rightarrow> string \<Rightarrow> int" where
  "exact_total cs dn = (\<Sum>c \<leftarrow> filter (\<lambda>c. coin_denom c = dn) cs. case_option 0 id (parse_int64 (coin_amount c)))"

definition first_denoms :: "coins \<Rightarrow> string list" where "first_denoms cs = rev (remdups (rev (map coin_denom cs)))"

definition amounts_parse :: "coins \<Rightarrow> bool" where "amounts_parse cs \<longleftrightarrow> (\<forall>c \<in> set cs. parse_int64 (coin_amount c) \<noteq> None)"

definition totals_of :: "coins \<Rightarrow> string \<rightharpoonup> int" where
  "totals_of cs = (\<lambda>dn. if dn \<in> coin_denom ` set cs then Some (to_int64 (exact_total cs dn)) else None)"

definition big_outputs :: "send_output list" where
  "big_outputs = replicate 2 \<lparr>so_to_address = ''a'', so_coins = [\<lparr>coin_denom = ''aevmos'', coin_amount = ''5000000000000000000''\<rparr>]\<rparr>"

subsection \<open>The input of a multi-send\<close>

lemma sum_outputs_coins: "sum_outputs os st = sum_output_coins (output_coins os) st"
proof -
  have app: "sum_output_coins (as @ bs) st = rbind (sum_output_coins as st) (sum_output_coins bs)" for as bs st
    by (induction as st rule: sum_output_coins.induct) (auto simp: Let_def split: sum.split)
  show ?thesis
  proof (induction os arbitrary: st)
    case (Cons out outs)
    then have "sum_outputs outs = sum_output_coins (concat (map so_coins outs))" by (simp add: fun_eq_iff output_coins_def)
    then show ?case by (simp add: output_coins_def app)
  qed (simp add: output_coins_def)
qed

lemma first_denoms_snoc: "first_denoms (cs @ [c]) = (if coin_denom c \<in> coin_denom ` set cs then first_denoms cs else first_denoms cs @ [coin_denom c])"
  by (simp add: first_denoms_def)

lemma set_first_denoms: "set (first_denoms cs) = coin_denom ` set cs" by (simp add: first_denoms_def)

lemma distinct_first_denoms: "distinct (first_denoms cs)" by (simp add: first_denoms_def)

lemma totals_of_snoc:
  assumes "parse_int64 (coin_amount c) = Some n"
  shows "(totals_of cs)(coin_denom c \<mapsto> to_int64 (case_option 0 id (totals_of cs (coin_denom c)) + n)) = totals_of (cs @ [c])"
proof -
  have "exact_total cs dn = 0" if "dn \<notin> coin_denom ` set cs" for dn
  proof -
    have "filter (\<lambda>c. coin_denom c = dn) cs = []" using that by (auto simp: filter_empty_conv)
    then show ?thesis by (simp add: exact_total_def)
  qed
  then show ?thesis using assms
    by (auto simp: fun_eq_iff totals_of_def exact_total_def to_int64_add)
qed

lemma sum_output_coins_ok:
  "amounts_parse cs \<Longrightarrow> sum_output_coins cs (totals_of pre, first_denoms pre) = Ok (totals_of (pre @ cs), first_denoms (pre @ cs))"
proof (induction cs arbitrary: pre)
  case (Cons c cs)
  then obtain n where n: "parse_int64 (coin_amount c) = Some n" by (auto simp: amounts_parse_def)
  have "sum_output_coins (c # cs) (totals_of pre, first_denoms pre) = sum_output_coins cs (totals_of (pre @ [c]), first_denoms (pre @ [c]))"
    using n totals_of_snoc[OF n, of pre]
    by (simp add: parseCoinAmount_def Let_def first_denoms_snoc) (simp add: totals_of_def)
  then show ?case using Cons.IH[of "pre @ [c]"] Cons.prems by (simp add: amounts_parse_def)
qed simp

lemma sum_output_coins_fails: "\<not> amounts_parse cs \<Longrightarrow> \<not> is_ok (sum_output_coins cs st)"
proof (induction cs arbitrary: st)
  case (Cons c cs)
  then show ?case by (cases st) (auto simp: amounts_parse_def parseCoinAmount_def Let_def split: option.split)
qed (simp add: amounts_parse_def)

text \<open>C32: The input of a multi-send. Building the message succeeds exactly when there are outputs and every amount is a 64-bit number. Its single
  input lists each denomination once, in order of first appearance, with the sum of the outputs reduced to a signed 64-bit number:
  the exact sum when it fits, and otherwise an amount the outputs do not add up to.\<close>

theorem multi_send_input:
  "(is_ok (multi_send_msg src outputs) \<longleftrightarrow> outputs \<noteq> [] \<and> amounts_parse (output_coins outputs)) \<and>
   (\<forall>msg. multi_send_msg src outputs = Ok msg \<longrightarrow>
      (\<exists>input. msg = MsgMultiSend src input outputs \<and> map coin_denom input = first_denoms (output_coins outputs) \<and>
         (\<forall>c \<in> set input. coin_amount c = show_int (to_int64 (exact_total (output_coins outputs) (coin_denom c))) \<and>
            (set_string (coin_amount c) = Some (exact_total (output_coins outputs) (coin_denom c)) \<longleftrightarrow>
             in_int64 (exact_total (output_coins outputs) (coin_denom c))))))"
proof -
  let ?cs = "output_coins outputs"
  have init: "(Map.empty, []) = (totals_of [], first_denoms [])" by (simp add: totals_of_def first_denoms_def)
  show ?thesis
  proof (cases "outputs \<noteq> [] \<and> amounts_parse ?cs")
    case True
    then have m: "multi_send_msg src outputs =
        Ok (MsgMultiSend src (map (\<lambda>dn. \<lparr>coin_denom = dn, coin_amount = show_int (case_option 0 id (totals_of ?cs dn))\<rparr>) (first_denoms ?cs)) outputs)"
      unfolding multi_send_msg_def sum_outputs_coins init by (simp add: sum_output_coins_ok[of ?cs "[]", simplified])
    then show ?thesis using True
      by (auto simp: comp_def set_first_denoms totals_of_def to_int64_id)
  next
    case False
    then have "\<not> is_ok (multi_send_msg src outputs)"
      using sum_output_coins_fails[of ?cs "(Map.empty, [])"]
      by (auto simp: multi_send_msg_def sum_outputs_coins is_ok_iff rbind_Ok_iff)
    then show ?thesis using False by (auto simp: is_ok_iff)
  qed
qed

lemma attr_sequence_first: "attr_sequence as = map_option (\<lambda>a. the (parse_uint64 (snd a))) (find (\<lambda>a. fst a = ''packet_sequence'' \<and> parse_uint64 (snd a) \<noteq> None) as)"
  by (induction as rule: attr_sequence.induct) (auto split: option.split)

text \<open>The packet sequence is a 64-bit number, and 0 without a send event that carries one.\<close>

lemma extractPacketSequence_range: "0 \<le> extractPacketSequence logs \<and> extractPacketSequence logs \<le> max_uint64"
proof -
  have a: "attr_sequence as = Some n \<Longrightarrow> 0 \<le> n \<and> n \<le> max_uint64" for as n
    by (induction as rule: attr_sequence.induct) (auto simp: parse_uint64_def split: if_splits option.splits)
  have e: "event_sequence evs = Some n \<Longrightarrow> 0 \<le> n \<and> n \<le> max_uint64" for evs n
    by (induction evs) (auto dest: a split: if_splits option.splits)
  have "log_sequence logs = Some n \<Longrightarrow> 0 \<le> n \<and> n \<le> max_uint64" for n
    by (induction logs) (auto dest: e split: option.splits)
  then show ?thesis by (cases "log_sequence logs") (auto simp: extractPacketSequence_def)
qed

text \<open>What a signed transaction commits to: the messages, the queried sequence, the estimated fee and the account number.\<close>

lemma buildTxRaw_signs:
  assumes "buildTxRaw pc sign pubKey acc msgs est chainID = Ok raw"
  shows "pc_body pc msgs = Some (ptr_body raw) \<and>
    (\<exists>pk. pc_auth_info pc \<lparr>pai_pub_key = (''/cosmos.crypto.secp256k1.PubKey'', pk), pai_sequence = acc_sequence acc,
       pai_fee = \<lparr>pf_amount = [est_fee est], pf_gas_limit = est_gas_limit est\<rparr>\<rparr> = Some (ptr_auth_info raw)) \<and>
    (\<exists>doc sig. pc_sign_doc pc \<lparr>psd_body = ptr_body raw, psd_auth_info = ptr_auth_info raw, psd_chain_id = chainID,
       psd_account_number = acc_number acc\<rparr> = Some doc \<and> sign doc = Ok sig \<and> ptr_signatures raw = [sig])"
  using assms by (auto simp: buildTxRaw_def split: option.splits sum.splits)


theorem multi_send_input_witness:
  "\<exists>input. multi_send_msg ''f'' big_outputs = Ok (MsgMultiSend ''f'' input big_outputs) \<and>
     map coin_denom input = [''aevmos''] \<and> (\<forall>c \<in> set input. set_string (coin_amount c) \<noteq> Some 10000000000000000000)"
proof -
  have p: "parse_int64 ''5000000000000000000'' = Some 5000000000000000000"
    by (simp add: parse_int64_def set_string_def all_digits_def is_digit_def code_of_def digits_val_def digit_val_def in_int64_def)
  have ok: "outputs_ok" if "outputs_ok = (big_outputs \<noteq> [] \<and> amounts_parse (output_coins big_outputs))" for outputs_ok
    using that by (simp add: big_outputs_def amounts_parse_def output_coins_def p numeral_2_eq_2)
  have t: "exact_total (output_coins big_outputs) ''aevmos'' = 10000000000000000000" "first_denoms (output_coins big_outputs) = [''aevmos'']"
    by (simp_all add: big_outputs_def output_coins_def exact_total_def first_denoms_def p numeral_2_eq_2)
  have "is_ok (multi_send_msg ''f'' big_outputs)" using multi_send_input[of "''f''" big_outputs] ok by blast
  then obtain msg where m: "multi_send_msg ''f'' big_outputs = Ok msg" by (auto simp: is_ok_iff)
  with multi_send_input[of "''f''" big_outputs] obtain input where i: "msg = MsgMultiSend ''f'' input big_outputs" "map coin_denom input = [''aevmos'']"
    "\<forall>c \<in> set input. set_string (coin_amount c) = Some (exact_total (output_coins big_outputs) (coin_denom c)) \<longleftrightarrow>
             in_int64 (exact_total (output_coins big_outputs) (coin_denom c))" unfolding t(2) by blast
  have "coin_denom c = ''aevmos''" if "c \<in> set input" for c using i(2) that by (cases input) auto
  then show ?thesis using m i t(1) by (auto simp: in_int64_def)
qed

end
