(* ===== verification/Client.thy ===== *)
theory Client
  imports Fee Msgs Transport Bech32
begin

text \<open>
  \<^verbatim>\<open>internal/tx/client.go\<close> and \<^verbatim>\<open>BuildAndBroadcastTransfer\<close> of \<^verbatim>\<open>transfer.go\<close>: the send pipeline with its two retry loops and the failover between
  endpoints. The node is the environment: \<^verbatim>\<open>env k\<close> holds the answers for the \<^verbatim>\<open>k\<close>-th attempt of a send. Every attempt is recorded with the
  endpoint it used, what it broadcast, and its result, so that the lemmas can speak about what was sent.
\<close>

text \<open>A derived private key is its public key and what signing gives; \<^verbatim>\<open>cachedKeys\<close> maps an index to it.\<close>

record priv_key =
  pk_pub :: "byte list"
  pk_sign :: "byte list \<Rightarrow> (tx_error, byte list) result"

record client =
  cl_chain :: chain_info
  cl_active :: string
  cl_open :: bool
  cl_grpc_pool :: "endpoint_pool option"
  cl_rest_pool :: "endpoint_pool option"
  cl_using_rest :: bool
  cl_keys :: "nat \<rightharpoonup> priv_key"

text \<open>\<^verbatim>\<open>newRESTTransport\<close> trims slashes off the URL; \<^verbatim>\<open>endpointURL\<close> gives back the trimmed one.\<close>

definition newRESTTransport :: "string \<Rightarrow> string" where "newRESTTransport url = trim_right_slash url"

fun derive_keys :: "(nat \<Rightarrow> (tx_error, priv_key) result) \<Rightarrow> nat list \<Rightarrow> (nat \<rightharpoonup> priv_key) \<Rightarrow> (tx_error, nat \<rightharpoonup> priv_key) result" where
  "derive_keys derive [] keys = Ok keys"
| "derive_keys derive (i # is) keys =
     (case derive i of
        Inl e \<Rightarrow> Err (wrap (''tx: derive key index '' @ show_nat i @ '': '') e)
      | Inr k \<Rightarrow> derive_keys derive is (keys(i \<mapsto> k)))"

definition tx_New ::
    "(nat \<Rightarrow> (tx_error, priv_key) result) \<Rightarrow> (string \<Rightarrow> tx_error option) \<Rightarrow> chain_info \<Rightarrow> nat list \<Rightarrow> endpoint_pool option \<Rightarrow>
     (tx_error, client) result" where
  "tx_New derive dial ch keyIndices optPool =
     (let grpc = eps_grpc (ci_endpoints ch); rest = eps_rest (ci_endpoints ch)
      in if grpc = [] \<and> rest = []
         then Err (plain_error (''tx: chain '' @ ci_chain_id ch @ '': no gRPC or REST endpoints configured''))
         else case derive_keys derive keyIndices Map.empty of
                Inl e \<Rightarrow> Err e
              | Inr keys \<Rightarrow>
                  let grpcPool0 = (if grpc \<noteq> [] then Some (NewEndpointPool (map ept_url grpc)) else None);
                      grpcPool = (case optPool of Some p \<Rightarrow> Some p | None \<Rightarrow> grpcPool0);
                      restPool = (if rest \<noteq> [] then Some (NewEndpointPool (map ept_url rest)) else None);
                      mk = (\<lambda>active usingREST. \<lparr>cl_chain = ch, cl_active = active, cl_open = True, cl_grpc_pool = grpcPool,
                              cl_rest_pool = restPool, cl_using_rest = usingREST, cl_keys = keys\<rparr>)
                  in case grpcPool of
                       Some p \<Rightarrow>
                         (case Next p of
                            None \<Rightarrow> Err (sentinel ErrNoEndpointAvailable)
                          | Some url \<Rightarrow>
                              (case dial url of
                                 Some e \<Rightarrow> Err (wrap (''tx: dial '' @ url @ '': '') e)
                               | None \<Rightarrow> Ok (mk url False)))
                     | None \<Rightarrow>
                         (case restPool of
                            None \<Rightarrow> Err (sentinel ErrNoEndpointAvailable)
                          | Some p \<Rightarrow>
                              (case Next p of
                                 None \<Rightarrow> Err (sentinel ErrNoEndpointAvailable)
                               | Some url \<Rightarrow> Ok (mk (newRESTTransport url) True))))"

definition client_Close :: "client \<Rightarrow> client" where "client_Close c = c\<lparr>cl_open := False\<rparr>"

text \<open>
  The interface \<^verbatim>\<open>transport\<close> as the calls of one attempt with their results, and its two implementations. \<^verbatim>\<open>ctx.Err()\<close> is one of the two errors of
  the package \<^verbatim>\<open>context\<close>; the clock advances by the poll interval and an arbitrary delay on each round of the confirmation loop.
\<close>

datatype ctx_error = CtxCanceled | CtxDeadlineExceeded

fun ctx_Err :: "ctx_error \<Rightarrow> tx_error" where
  "ctx_Err CtxCanceled = plain_error ''context canceled''"
| "ctx_Err CtxDeadlineExceeded = plain_error ''context deadline exceeded''"

record wait_env =
  we_start :: int
  we_delay :: "nat \<Rightarrow> nat"
  we_ctx :: "nat \<Rightarrow> ctx_error option"

definition wait_clock :: "wait_env \<Rightarrow> nat \<Rightarrow> int" where
  "wait_clock w k = we_start w + (\<Sum>i<k. confirmPollInterval + int (we_delay w i))"

record transport_calls =
  tc_account :: "(tx_error, account) result"
  tc_simulate :: int
  tc_broadcast :: "(tx_error, string) result"
  tc_confirm :: "(tx_error, broadcast_result) result"

definition confirm_with :: "wait_env \<Rightarrow> (nat \<Rightarrow> poll_result) \<Rightarrow> (tx_error, broadcast_result) result" where
  "confirm_with w poll =
     (case waitForConfirmation 17 (wait_clock w) poll (\<lambda>k. map_option ctx_Err (we_ctx w k)) of
        Some r \<Rightarrow> r
      | None \<Rightarrow> Err (plain_error ''confirmation loop still running''))"

record rest_node =
  rn_account :: "rest_account rest_reply"
  rn_simulate :: "string rest_reply"
  rn_broadcast :: "rest_broadcast_body rest_reply"
  rn_poll :: "nat \<Rightarrow> rest_tx rest_reply"
  rn_wait :: wait_env

record grpc_node =
  gn_codec :: account_codec
  gn_account :: "(string \<times> byte list) option grpc_reply"
  gn_simulate :: "int option grpc_reply"
  gn_broadcast :: "tx_response option grpc_reply"
  gn_poll :: "nat \<Rightarrow> tx_response option grpc_reply"
  gn_wait :: wait_env

definition restTransport :: "string \<Rightarrow> string \<Rightarrow> rest_node \<Rightarrow> transport_calls" where
  "restTransport url address n =
     \<lparr>tc_account = rest_queryAccount (url @ ''/cosmos/auth/v1beta1/accounts/'' @ address) address (rn_account n), tc_simulate = rest_simulate (rn_simulate n),
      tc_broadcast = rest_broadcastTx (url @ ''/cosmos/tx/v1beta1/txs'') (rn_broadcast n), tc_confirm = confirm_with (rn_wait n) (\<lambda>k. rest_poll (rn_poll n k))\<rparr>"

definition grpcTransport :: "grpc_node \<Rightarrow> transport_calls" where
  "grpcTransport n =
     \<lparr>tc_account = queryAccountGRPC (gn_codec n) (gn_account n), tc_simulate = grpc_simulate (gn_simulate n),
      tc_broadcast = grpc_broadcastTx (gn_broadcast n), tc_confirm = confirm_with (gn_wait n) (\<lambda>k. grpc_poll (gn_poll n k))\<rparr>"

record attempt_env =
  ae_cached :: "cached_estimate option"
  ae_marshalled :: bool
  ae_rest :: rest_node
  ae_grpc :: grpc_node
  ae_sleep :: "ctx_error option"
  ae_dial :: "string \<Rightarrow> tx_error option"

text \<open>What the pipeline is given besides the answers: the decimal package, the codec, whether there is a gas cache.\<close>

record send_ctx =
  sx_dec :: decimal_ops
  sx_junk :: "int \<Rightarrow> int"
  sx_codec :: pb_codec
  sx_has_cache :: bool

text \<open>One send: key, sender address, messages, message type and number of outputs.\<close>

record send_job =
  sj_key :: priv_key
  sj_address :: string
  sj_msgs :: "pb_any list"
  sj_type :: string
  sj_outputs :: int

datatype tx_event =
    EvSent pb_tx_raw "(tx_error, string) result"
  | EvConfirm string "(tx_error, broadcast_result) result"
  | EvRecordSuccess string int int string string
  | EvRecordFailure string string

record attempt =
  at_url :: string
  at_events :: "tx_event list"
  at_result :: "(tx_error, broadcast_result) result"

definition active_calls :: "client \<Rightarrow> string \<Rightarrow> attempt_env \<Rightarrow> transport_calls" where
  "active_calls c address e =
     (if cl_using_rest c then restTransport (cl_active c) address (ae_rest e) else grpcTransport (ae_grpc e))"

definition failure_reason :: "tx_error \<Rightarrow> string" where
  "failure_reason e =
     (if IsInsufficientFee e then ''insufficient_fee''
      else if errors_Is e ErrInsufficientGas then ''out_of_gas'' else ''broadcast_error'')"

definition recordFailure :: "send_ctx \<Rightarrow> string \<Rightarrow> tx_error \<Rightarrow> tx_event list" where
  "recordFailure sx msgType e = (if sx_has_cache sx then [EvRecordFailure msgType (failure_reason e)] else [])"

definition recordSuccess :: "send_ctx \<Rightarrow> string \<Rightarrow> int \<Rightarrow> int \<Rightarrow> estimate \<Rightarrow> tx_event list" where
  "recordSuccess sx msgType gasUsed outputCount est =
     (if \<not> sx_has_cache sx \<or> gasUsed = 0 then []
      else [EvRecordSuccess msgType gasUsed outputCount (coin_denom (est_fee est)) (est_gas_price_amount est)])"

text \<open>The pipeline of \<^verbatim>\<open>attemptSend\<close>: the events in order and the result.\<close>

definition attempt_pipeline :: "send_ctx \<Rightarrow> client \<Rightarrow> send_job \<Rightarrow> attempt_env \<Rightarrow> tx_event list \<times> (tx_error, broadcast_result) result" where
  "attempt_pipeline sx c j e =
     (let t = active_calls c (sj_address j) e
      in case estimateFee (sx_dec sx) (sx_junk sx) (cl_chain c) (if sx_has_cache sx then ae_cached e else None) (ae_marshalled e)
                (tc_simulate t) (sj_outputs j) of
           Inl (FeePrice p) \<Rightarrow> ([], Err (plain_error (''tx: static fee fallback: tx: parse gas price '' @ p)))
         | Inr est \<Rightarrow>
             (case tc_account t of
                Inl er \<Rightarrow> ([], Err er)
              | Inr acc \<Rightarrow>
                  (case buildTxRaw (sx_codec sx) (pk_sign (sj_key j)) (pk_pub (sj_key j)) acc (sj_msgs j) est (ci_chain_id (cl_chain c)) of
                     Inl er \<Rightarrow> ([], Err er)
                   | Inr raw \<Rightarrow>
                       (case pc_tx_raw (sx_codec sx) raw of
                          None \<Rightarrow>
                            let er = plain_error ''tx: marshal TxRaw: '' in (recordFailure sx (sj_type j) er, Err er)
                        | Some _ \<Rightarrow>
                            (case tc_broadcast t of
                               Inl er \<Rightarrow> (EvSent raw (Inl er) # recordFailure sx (sj_type j) er, Err er)
                             | Inr txHash \<Rightarrow>
                                 (case tc_confirm t of
                                    Inl er \<Rightarrow> ([EvSent raw (Inr txHash), EvConfirm txHash (Inl er)], Err er)
                                  | Inr r \<Rightarrow>
                                      (EvSent raw (Inr txHash) # EvConfirm txHash (Inr r) #
                                          recordSuccess sx (sj_type j) (br_gas_used r) (sj_outputs j) est, Ok r)))))))"

definition attemptSend :: "send_ctx \<Rightarrow> client \<Rightarrow> send_job \<Rightarrow> attempt_env \<Rightarrow> attempt" where
  "attemptSend sx c j e =
     (case attempt_pipeline sx c j e of (evs, r) \<Rightarrow> \<lparr>at_url = cl_active c, at_events = evs, at_result = r\<rparr>)"

definition active_pool :: "client \<Rightarrow> endpoint_pool option" where
  "active_pool c = (if cl_using_rest c then cl_rest_pool c else cl_grpc_pool c)"

definition mark_active :: "client \<Rightarrow> client" where
  "mark_active c =
     (if cl_using_rest c
      then c\<lparr>cl_rest_pool := map_option (MarkUnhealthy_endpoint (cl_active c)) (cl_rest_pool c)\<rparr>
      else c\<lparr>cl_grpc_pool := map_option (MarkUnhealthy_endpoint (cl_active c)) (cl_grpc_pool c)\<rparr>)"

text \<open>After an unavailable attempt: the error when there is no way on, and the client either way. A failed dial leaves the closed connection active.\<close>

definition fail_over :: "(string \<Rightarrow> tx_error option) \<Rightarrow> client \<Rightarrow> tx_error option \<times> client" where
  "fail_over dial c0 =
     (let c = mark_active c0;
          nextURL = Option.bind (active_pool c) Next;
          nextREST = (if nextURL = None \<and> \<not> cl_using_rest c then Option.bind (cl_rest_pool c) Next else None)
      in case nextREST of
           Some url \<Rightarrow> (None, c\<lparr>cl_active := newRESTTransport url, cl_open := True, cl_using_rest := True\<rparr>)
         | None \<Rightarrow>
             (case nextURL of
                None \<Rightarrow> (Some (sentinel ErrNoEndpointAvailable), c)
              | Some url \<Rightarrow>
                  if cl_using_rest c then (None, c\<lparr>cl_active := newRESTTransport url, cl_open := True\<rparr>)
                  else (case dial url of
                          Some e \<Rightarrow> (Some (wrap (''tx: failover dial '' @ url @ '': '') e), c\<lparr>cl_open := False\<rparr>)
                        | None \<Rightarrow> (None, c\<lparr>cl_active := url, cl_open := True\<rparr>))))"

text \<open>\<^verbatim>\<open>tries\<close> counts the iterations left, \<^verbatim>\<open>k\<close> the attempts made by the send so far.\<close>

fun failover_loop ::
    "nat \<Rightarrow> send_ctx \<Rightarrow> send_job \<Rightarrow> (nat \<Rightarrow> attempt_env) \<Rightarrow> nat \<Rightarrow> client \<Rightarrow>
     (tx_error, broadcast_result) result \<times> attempt list \<times> client" where
  "failover_loop 0 sx j env k c = (Err (sentinel ErrNoEndpointAvailable), [], c)"
| "failover_loop (Suc tries) sx j env k c =
     (let a = attemptSend sx c j (env k)
      in case at_result a of
           Inr r \<Rightarrow> (Ok r, [a], c)
         | Inl e \<Rightarrow>
             if \<not> isUnavailable e then (Err e, [a], c)
             else case fail_over (ae_dial (env k)) c of
                    (Some er, c') \<Rightarrow> (Err er, [a], c')
                  | (None, c') \<Rightarrow>
                      (case failover_loop tries sx j env (Suc k) c' of
                         (r, as, c'') \<Rightarrow> (r, a # as, c'')))"

definition attemptSendWithFailover ::
    "send_ctx \<Rightarrow> send_job \<Rightarrow> (nat \<Rightarrow> attempt_env) \<Rightarrow> nat \<Rightarrow> client \<Rightarrow> (tx_error, broadcast_result) result \<times> attempt list \<times> client" where
  "attemptSendWithFailover = failover_loop 2"

definition maxSequenceRetries :: nat where "maxSequenceRetries = 3"

text \<open>\<^verbatim>\<open>retries\<close> is the number of retries left; the pause before a retry may be cut short by the context.\<close>

fun retry_loop ::
    "nat \<Rightarrow> send_ctx \<Rightarrow> send_job \<Rightarrow> (nat \<Rightarrow> attempt_env) \<Rightarrow> nat \<Rightarrow> client \<Rightarrow>
     (tx_error, broadcast_result) result \<times> attempt list \<times> client" where
  "retry_loop retries sx j env k c =
     (case attemptSendWithFailover sx j env k c of
        (Inr r, as, c1) \<Rightarrow> (Ok r, as, c1)
      | (Inl e, as, c1) \<Rightarrow>
          if \<not> IsSequenceMismatch e then (Err e, as, c1)
          else
            (case retries of
               0 \<Rightarrow> (Err e, as, c1)
             | Suc n \<Rightarrow>
                 (case ae_sleep (env (k + length as - 1)) of
                    Some ctxErr \<Rightarrow> (Err (ctx_Err ctxErr), as, c1)
                  | None \<Rightarrow>
                      (case retry_loop n sx j env (k + length as) c1 of
                         (r, as', c2) \<Rightarrow> (r, as @ as', c2)))))"

definition doSend ::
    "send_ctx \<Rightarrow> send_job \<Rightarrow> (nat \<Rightarrow> attempt_env) \<Rightarrow> client \<Rightarrow> (tx_error, broadcast_result) result \<times> attempt list \<times> client" where
  "doSend sx j env c = retry_loop maxSequenceRetries sx j env 0 c"

definition not_pre_derived :: "nat \<Rightarrow> tx_error" where
  "not_pre_derived i = plain_error (''tx: key index '' @ show_nat i @ '' not pre-derived'')"

definition AddressForKey :: "(byte list \<Rightarrow> byte list) \<Rightarrow> client \<Rightarrow> nat \<Rightarrow> (tx_error, string) result" where
  "AddressForKey hash160 c keyIndex =
     (case cl_keys c keyIndex of
        None \<Rightarrow> Err (not_pre_derived keyIndex)
      | Some k \<Rightarrow>
          (case keys_AddressFromPubKey hash160 (pk_pub k) (ci_bech32_prefix (cl_chain c)) of
             Inl _ \<Rightarrow> Err (plain_error ''bech32'')
           | Inr a \<Rightarrow> Ok a))"

text \<open>The common start of the three sends: look up the key, derive the sender's address, build the message, send.\<close>

definition send_with ::
    "(byte list \<Rightarrow> byte list) \<Rightarrow> send_ctx \<Rightarrow> nat \<Rightarrow> (string \<Rightarrow> (tx_error, pb_any) result) \<Rightarrow> string \<Rightarrow> int \<Rightarrow> (nat \<Rightarrow> attempt_env) \<Rightarrow>
     client \<Rightarrow> (tx_error, broadcast_result) result \<times> attempt list \<times> client" where
  "send_with hash160 sx keyIndex build msgType outputCount env c =
     (case cl_keys c keyIndex of
        None \<Rightarrow> (Err (not_pre_derived keyIndex), [], c)
      | Some k \<Rightarrow>
          (case keys_AddressFromPubKey hash160 (pk_pub k) (ci_bech32_prefix (cl_chain c)) of
             Inl _ \<Rightarrow> (Err (plain_error ''tx: derive address: ''), [], c)
           | Inr fromAddr \<Rightarrow>
               (case build fromAddr of
                  Inl e \<Rightarrow> (Err e, [], c)
                | Inr msgAny \<Rightarrow>
                    doSend sx \<lparr>sj_key = k, sj_address = fromAddr, sj_msgs = [msgAny], sj_type = msgType, sj_outputs = outputCount\<rparr> env c)))"

definition BuildAndBroadcast ::
    "(byte list \<Rightarrow> byte list) \<Rightarrow> send_ctx \<Rightarrow> send_request \<Rightarrow> (nat \<Rightarrow> attempt_env) \<Rightarrow> client \<Rightarrow>
     (tx_error, broadcast_result) result \<times> attempt list \<times> client" where
  "BuildAndBroadcast hash160 sx req env c =
     send_with hash160 sx (sr_key_index req)
       (\<lambda>fromAddr. buildMsgSend (sx_codec sx) fromAddr (sr_to_address req) (sr_coins req)) MsgTypeSend 1 env c"

definition BuildAndBroadcastMulti ::
    "(byte list \<Rightarrow> byte list) \<Rightarrow> send_ctx \<Rightarrow> batch_send_request \<Rightarrow> (nat \<Rightarrow> attempt_env) \<Rightarrow> client \<Rightarrow>
     (tx_error, broadcast_result) result \<times> attempt list \<times> client" where
  "BuildAndBroadcastMulti hash160 sx req env c =
     (if bsr_outputs req = [] then (Err (plain_error ''tx: BuildAndBroadcastMulti: outputs must not be empty''), [], c)
      else send_with hash160 sx (bsr_key_index req)
             (\<lambda>fromAddr. buildMsgMultiSend (sx_codec sx) fromAddr (bsr_outputs req)) MsgTypeMultiSend (int (length (bsr_outputs req))) env c)"

text \<open>\<^verbatim>\<open>fetchPacketSequence\<close>: the reply is the logs of the transaction response, if present.\<close>

definition fetchPacketSequence :: "client \<Rightarrow> abci_event list list option grpc_reply \<Rightarrow> int" where
  "fetchPacketSequence c reply =
     (if cl_using_rest c then 0
      else case reply of GrpcMessage (Some logs) \<Rightarrow> extractPacketSequence logs | _ \<Rightarrow> 0)"

definition BuildAndBroadcastTransfer ::
    "(byte list \<Rightarrow> byte list) \<Rightarrow> send_ctx \<Rightarrow> transfer_request \<Rightarrow> (nat \<Rightarrow> attempt_env) \<Rightarrow> abci_event list list option grpc_reply \<Rightarrow>
     client \<Rightarrow> (tx_error, transfer_result) result \<times> attempt list \<times> client" where
  "BuildAndBroadcastTransfer hash160 sx req env getTx c =
     (case send_with hash160 sx (tr_key_index req)
             (\<lambda>fromAddr. buildMsgTransfer (sx_codec sx) fromAddr (tr_receiver_address req) (tr_source_port req) (tr_source_channel req)
                (tr_token req) (tr_timeout_timestamp req) (tr_memo req)) MsgTypeTransfer 1 env c of
        (Inl e, as, c') \<Rightarrow> (Err e, as, c')
      | (Inr base, as, c') \<Rightarrow>
          (Ok \<lparr>tres_tx_hash = br_tx_hash base, tres_height = br_height base, tres_gas_used = br_gas_used base,
               tres_packet_sequence = fetchPacketSequence c' getTx\<rparr>, as, c'))"

text \<open>The balance query of the active transport.\<close>

definition client_QueryBalance :: "client \<Rightarrow> string \<Rightarrow> string \<Rightarrow> coin rest_reply \<Rightarrow> coin option grpc_reply \<Rightarrow> (tx_error, coin) result" where
  "client_QueryBalance c address denom rest grpc =
     (if cl_using_rest c
      then rest_queryBalance (cl_active c @ ''/cosmos/bank/v1beta1/balances/'' @ address @ ''/by_denom?denom='' @ denom) address denom rest
      else grpc_queryBalance address denom grpc)"

text \<open>An attempt whose broadcast the node accepted.\<close>

definition accepted :: "attempt \<Rightarrow> bool" where
  "accepted a \<longleftrightarrow> list_ex (\<lambda>ev. case ev of EvSent _ (Inr _) \<Rightarrow> True | _ \<Rightarrow> False) (at_events a)"

definition retryable :: "tx_error \<Rightarrow> bool" where "retryable e \<longleftrightarrow> isUnavailable e \<or> IsSequenceMismatch e"

definition ends_in_slash :: "string \<Rightarrow> bool" where "ends_in_slash url \<longleftrightarrow> has_suffix url ''/''"

definition ex_info :: chain_info where
  "ex_info =
     \<lparr>ci_chain_id = ''hub-1'', ci_chain_name = ''hub'', ci_network_type = ''testnet'', ci_pretty_name = ''Hub'', ci_bech32_prefix = ''cosmos'',
      ci_slip44 = 118, ci_key_algo = ''secp256k1'', ci_endpoints = \<lparr>eps_grpc = [], eps_rpc = [], eps_rest = []\<rparr>, ci_fee_tokens = [], ci_block_time = 0, ci_enabled = True, ci_last_changed = 0, ci_sources = setAll SourceLive\<rparr>"

text \<open>What holds of every attempt: a result means an accepted broadcast, and an accepted one never ends in an unavailable error.\<close>

definition attempt_ok :: "attempt \<Rightarrow> bool" where
  "attempt_ok a \<longleftrightarrow> (case at_result a of Inl e \<Rightarrow> accepted a \<longrightarrow> \<not> isUnavailable e | Inr _ \<Rightarrow> accepted a)"

subsection \<open>Failover and retry\<close>

declare retry_loop.simps [simp del]

subsection \<open>The operations of the client\<close>

definition demo_reply :: tx_response where
  "demo_reply = \<lparr>txr_code = 0, txr_hash = ''AB'', txr_height = 7, txr_gas_used = 9, txr_raw_log = ''''\<rparr>"

definition demo_wait :: wait_env where "demo_wait = \<lparr>we_start = 0, we_delay = (\<lambda>_. 0), we_ctx = (\<lambda>_. None)\<rparr>"

definition demo_rest :: rest_node where
  "demo_rest = \<lparr>rn_account = RestFails '''', rn_simulate = RestFails '''', rn_broadcast = RestFails '''', rn_poll = (\<lambda>_. RestFails ''''), rn_wait = demo_wait\<rparr>"

definition demo_grpc :: "tx_response option grpc_reply \<Rightarrow> grpc_node" where
  "demo_grpc reply =
     \<lparr>gn_codec = \<lparr>cd_base = (\<lambda>_. Some \<lparr>acc_address = ''a'', acc_number = 1, acc_sequence = 2\<rparr>), cd_eth = (\<lambda>_. None)\<rparr>,
      gn_account = GrpcMessage (Some (''/cosmos.auth.v1beta1.BaseAccount'', [])), gn_simulate = GrpcMessage (Some 8), gn_broadcast = reply,
      gn_poll = (\<lambda>k. if k = 0 then GrpcError codes_NotFound '''' else GrpcMessage (Some demo_reply)), gn_wait = demo_wait\<rparr>"

text \<open>The first endpoint is unavailable when the transaction is broadcast, the second accepts it.\<close>

definition demo_env :: "nat \<Rightarrow> attempt_env" where
  "demo_env k =
     \<lparr>ae_cached = None, ae_marshalled = True, ae_rest = demo_rest,
      ae_grpc = demo_grpc (if k = 0 then GrpcError codes_Unavailable '''' else GrpcMessage (Some demo_reply)), ae_sleep = None, ae_dial = (\<lambda>_. None)\<rparr>"

definition demo_ctx :: send_ctx where
  "demo_ctx =
     \<lparr>sx_dec = ref_decimal, sx_junk = (\<lambda>_. 0),
      sx_codec = \<lparr>pc_msg = (\<lambda>_. Some []), pc_body = (\<lambda>_. Some []), pc_pub_key = (\<lambda>_. Some []), pc_auth_info = (\<lambda>_. Some []),
                  pc_sign_doc = (\<lambda>_. Some []), pc_tx_raw = (\<lambda>_. Some [])\<rparr>, sx_has_cache = False\<rparr>"

definition demo_job :: send_job where
  "demo_job = \<lparr>sj_key = \<lparr>pk_pub = [], pk_sign = (\<lambda>_. Ok [])\<rparr>, sj_address = ''a'', sj_msgs = [], sj_type = MsgTypeSend, sj_outputs = 1\<rparr>"

definition demo_client :: client where
  "demo_client =
     \<lparr>cl_chain = ex_info, cl_active = ''a:1'', cl_open = True, cl_grpc_pool = Some (NewEndpointPool [''a:1'', ''b:2'']), cl_rest_pool = None,
      cl_using_rest = False, cl_keys = Map.empty\<rparr>"

subsection \<open>The contract of a transport\<close>

text \<open>
  What the send pipeline relies on: an error of the confirmation is never of the class that makes the client send again through another
  endpoint, and the wait always returns. Both transports keep it.
\<close>

locale transport_contract =
  fixes calls :: "'n \<Rightarrow> transport_calls"
  assumes confirm_available: "tc_confirm (calls n) = Inl e \<Longrightarrow> \<not> isUnavailable e"
begin

lemma no_failover_after_acceptance:
  "tc_broadcast (calls n) = Inr h \<Longrightarrow> tc_confirm (calls n) = r \<Longrightarrow> case r of Inl e \<Rightarrow> \<not> isUnavailable e | Inr _ \<Rightarrow> True"
  by (auto dest: confirm_available split: sum.split)

end

lemma ctx_Err_available: "\<not> isUnavailable (ctx_Err x)" by (cases x) simp_all

lemma ctx_Err_no_mismatch: "\<not> IsSequenceMismatch (ctx_Err x)"
  by (cases x) (simp_all add: IsSequenceMismatch_def errors_Is_def plain_error_def has_prefix_def)

lemma wait_clock_step: "wait_clock w (Suc k) \<ge> wait_clock w k + confirmPollInterval"
  by (simp add: wait_clock_def)

lemma confirm_with_returns: "waitForConfirmation 17 (wait_clock w) poll sleeps \<noteq> None"
proof -
  have "wait_clock w 0 + confirmTimeout < wait_clock w 0 + int 16 * confirmPollInterval"
    by (simp add: confirmTimeout_def confirmPollInterval_def)
  from wait_loop_returns[of "wait_clock w", OF wait_clock_step this, of poll sleeps]
  show ?thesis by (auto simp: waitForConfirmation_def)
qed

lemma confirm_with_available:
  assumes "confirm_with w poll = Inl e" "\<And>k e. poll k = PollFail e \<Longrightarrow> \<not> isUnavailable e"
  shows "\<not> isUnavailable e"
proof -
  have "waitForConfirmation 17 (wait_clock w) poll (\<lambda>k. map_option ctx_Err (we_ctx w k)) = Some (Inl e)"
    using assms(1) confirm_with_returns[of w poll "\<lambda>k. map_option ctx_Err (we_ctx w k)"]
    by (auto simp: confirm_with_def split: option.splits)
  from wait_error_available[OF this] assms(2) ctx_Err_available show ?thesis by (auto split: option.splits)
qed

interpretation rest: transport_contract "restTransport url address"
  by unfold_locales (simp add: restTransport_def, erule confirm_with_available, rule poll_fail_available)

interpretation grpc: transport_contract grpcTransport
  by unfold_locales (simp add: grpcTransport_def, erule confirm_with_available, rule poll_fail_available)

lemma active_confirm_available: "tc_confirm (active_calls c address e) = Inl er \<Longrightarrow> \<not> isUnavailable er"
  by (auto simp: active_calls_def rest.confirm_available grpc.confirm_available split: if_splits)

subsection \<open>What an attempt shows\<close>

lemma accepted_iff: "accepted a \<longleftrightarrow> (\<exists>raw h. EvSent raw (Inr h) \<in> set (at_events a))"
proof -
  have "(case ev of EvSent _ (Inr _) \<Rightarrow> True | _ \<Rightarrow> False) \<longleftrightarrow> (\<exists>raw h. ev = EvSent raw (Inr h))" for ev
    by (auto split: tx_event.split sum.split)
  then show ?thesis by (auto simp: accepted_def list_ex_iff)
qed

lemma no_EvSent_in_records [simp]: "EvSent raw r \<notin> set (recordFailure sx t e)"
  by (simp add: recordFailure_def)

text \<open>Before the node accepted the broadcast the pipeline can only fail; afterwards its result is that of the confirmation.\<close>

lemma pipeline_cases:
  assumes "attempt_pipeline sx c j e = (evs, r)"
  shows "((\<forall>raw h. EvSent raw (Inr h) \<notin> set evs) \<and> isl r) \<or>
    (\<exists>raw h. EvSent raw (Inr h) \<in> set evs \<and> r = tc_confirm (active_calls c (sj_address j) e))"
proof -
  let ?t = "active_calls c (sj_address j) e"
  obtain est where est: "estimateFee (sx_dec sx) (sx_junk sx) (cl_chain c) (if sx_has_cache sx then ae_cached e else None) (ae_marshalled e)
      (tc_simulate ?t) (sj_outputs j) = est" by blast
  show ?thesis
  proof (cases "\<exists>x acc raw bs h. est = Inr x \<and> tc_account ?t = Inr acc \<and>
      buildTxRaw (sx_codec sx) (pk_sign (sj_key j)) (pk_pub (sj_key j)) acc (sj_msgs j) x (ci_chain_id (cl_chain c)) = Inr raw \<and>
      pc_tx_raw (sx_codec sx) raw = Some bs \<and> tc_broadcast ?t = Inr h")
    case True
    then show ?thesis using assms unfolding attempt_pipeline_def Let_def est
      by (intro disjI2, cases "tc_confirm ?t") fastforce+
  next
    case False
    then show ?thesis using assms unfolding attempt_pipeline_def Let_def est
      by (cases est; cases "tc_account ?t"; cases "tc_broadcast ?t") (auto split: fee_error.splits sum.splits option.splits)
  qed
qed

lemma attemptSend_ok: "attempt_ok (attemptSend sx c j e)"
proof -
  obtain evs r where p: "attempt_pipeline sx c j e = (evs, r)" by fastforce
  from pipeline_cases[OF p] active_confirm_available[of c "sj_address j" e] show ?thesis
    by (auto simp: p attemptSend_def attempt_ok_def accepted_iff isl_def split: sum.split)
qed

lemma failover_loop_length: "failover_loop n sx j env k c = (r, as, c') \<Longrightarrow> length as \<le> n \<and> (n > 0 \<longrightarrow> as \<noteq> [])"
  by (induction n arbitrary: k c r as c') (fastforce simp: Let_def split: sum.splits if_splits prod.splits option.splits)+

lemma failover_loop_ok: "failover_loop n sx j env k c = (r, as, c') \<Longrightarrow> a \<in> set as \<Longrightarrow> attempt_ok a"
  by (induction n arbitrary: k c r as c')
    (fastforce simp: Let_def attemptSend_ok split: sum.splits if_splits prod.splits option.splits)+

lemma failover_loop_butlast:
  "failover_loop n sx j env k c = (r, as, c') \<Longrightarrow> a \<in> set (butlast as) \<Longrightarrow> \<exists>e. at_result a = Inl e \<and> isUnavailable e"
  by (induction n arbitrary: k c r as c')
    (fastforce simp: Let_def split: sum.splits if_splits prod.splits option.splits)+

text \<open>The result is that of the last attempt, or an error after the last attempt was unavailable.\<close>

lemma failover_loop_last:
  "failover_loop n sx j env k c = (r, as, c') \<Longrightarrow> as \<noteq> [] \<Longrightarrow>
   at_result (last as) = r \<or> (\<exists>e er. at_result (last as) = Inl e \<and> isUnavailable e \<and> r = Inl er)"
proof (induction n arbitrary: k c r as c')
  case (Suc n)
  let ?a = "attemptSend sx c j (env k)"
  show ?case
  proof (cases "\<exists>e c1. at_result ?a = Inl e \<and> isUnavailable e \<and> fail_over (ae_dial (env k)) c = (None, c1)")
    case False
    then show ?thesis using Suc.prems by (auto simp: Let_def split: sum.splits if_splits prod.splits option.splits)
  next
    case True
    then obtain e c1 where t: "at_result ?a = Inl e" "isUnavailable e" "fail_over (ae_dial (env k)) c = (None, c1)" by blast
    obtain r2 as2 c2 where l: "failover_loop n sx j env (Suc k) c1 = (r2, as2, c2)" by (metis prod_cases3)
    then have p: "r = r2" "as = ?a # as2" using Suc.prems t by (auto simp: Let_def)
    show ?thesis
    proof (cases "as2 = []")
      case True
      then have "n = 0" using failover_loop_length[OF l] by auto
      then show ?thesis using l p t True by auto
    next
      case False
      then show ?thesis using Suc.IH[OF l] p by simp
    qed
  qed
qed simp

lemma set_butlast_append: "bs \<noteq> [] \<Longrightarrow> set (butlast (as @ bs)) = set as \<union> set (butlast bs)"
  by (simp add: butlast_append)

text \<open>One round of the outer loop: it ends there with the attempts of the failover loop, or goes on after a sequence mismatch.\<close>

lemma retry_round:
  assumes "retry_loop n sx j env k c = (r, as, c')" "failover_loop 2 sx j env k c = (r1, as1, c1)"
  shows "(as = as1 \<and> (r = r1 \<or> isl r1 \<and> isl r)) \<or>
    (\<exists>e m as2. r1 = Inl e \<and> IsSequenceMismatch e \<and> n = Suc m \<and> retry_loop m sx j env (k + length as1) c1 = (r, as2, c') \<and> as = as1 @ as2)"
proof (cases r1)
  case (Inr b)
  then show ?thesis using assms by (simp add: retry_loop.simps[of n] attemptSendWithFailover_def isl_def)
next
  case (Inl e)
  obtain r2 as2 c2 where l: "retry_loop (n - 1) sx j env (k + length as1) c1 = (r2, as2, c2)" by (metis prod_cases3)
  show ?thesis using assms Inl l
    by (cases n) (auto simp: retry_loop.simps[of 0] retry_loop.simps[of "Suc _"] attemptSendWithFailover_def split: if_splits option.splits)
qed

lemma retry_loop_facts:
  assumes "retry_loop n sx j env k c = (r, as, c')"
  shows "as \<noteq> [] \<and> length as \<le> 2 * (n + 1) \<and> (\<forall>a \<in> set as. attempt_ok a) \<and>
    (\<forall>a \<in> set (butlast as). \<exists>e. at_result a = Inl e \<and> retryable e) \<and>
    (\<forall>b. r = Inr b \<longleftrightarrow> at_result (last as) = Inr b)"
  using assms
proof (induction n arbitrary: k c r as c' rule: less_induct)
  case (less n)
  obtain r1 as1 c1 where f: "failover_loop 2 sx j env k c = (r1, as1, c1)" by (metis prod_cases3)
  have len: "length as1 \<le> 2" "as1 \<noteq> []" using failover_loop_length[OF f] by auto
  note ok = failover_loop_ok[OF f] and bl = failover_loop_butlast[OF f] and la = failover_loop_last[OF f len(2)]
  from retry_round[OF less.prems f] show ?case
  proof (elim disjE exE conjE)
    assume "as = as1" "r = r1"
    then show ?case using len ok bl la by (auto simp: retryable_def)
  next
    assume "as = as1" "isl r1" "isl r"
    then show ?case using len ok bl la by (auto simp: retryable_def isl_def)
  next
    fix e m as2
    assume e: "r1 = Inl e" "IsSequenceMismatch e" and n: "n = Suc m"
      and l: "retry_loop m sx j env (k + length as1) c1 = (r, as2, c')" and as: "as = as1 @ as2"
    note ih = less.IH[OF _ l, unfolded n, simplified]
    have ne: "as2 \<noteq> []" using ih by blast
    have "\<exists>e. at_result a = Inl e \<and> retryable e" if "a \<in> set as1" for a
    proof (cases "a = last as1")
      case True
      then show ?thesis using la e by (auto simp: retryable_def)
    next
      case False
      then have "a \<in> set (butlast as1)" using that len(2) by (metis append_butlast_last_id in_set_conv_decomp Un_iff set_append set_ConsD empty_iff list.set(1))
      then show ?thesis using bl by (auto simp: retryable_def)
    qed
    then have "\<forall>a \<in> set (butlast as). \<exists>e. at_result a = Inl e \<and> retryable e"
      using ih unfolding as set_butlast_append[OF ne] by blast
    then show ?case using len ih ok n by (simp add: as ne) blast
  qed
qed

text \<open>C5: A send never pays twice on its own account. Whatever the nodes answer, a send makes between one and eight attempts and returns; it
  succeeds exactly when its last attempt was confirmed. An attempt is followed by another one only after an unavailable endpoint or a
  sequence mismatch, and after a broadcast that a node accepted only when the confirmation itself reported the mismatch.\<close>

theorem doSend_no_double_payment:
  "case doSend sx j env c of (r, as, c') \<Rightarrow>
     1 \<le> length as \<and> length as \<le> 8 \<and> (\<forall>b. r = Inr b \<longleftrightarrow> at_result (last as) = Inr b) \<and> (is_ok r \<longrightarrow> accepted (last as)) \<and>
     (\<forall>a \<in> set (butlast as). \<exists>e. at_result a = Inl e \<and> (isUnavailable e \<or> IsSequenceMismatch e) \<and>
        (accepted a \<longrightarrow> \<not> isUnavailable e \<and> IsSequenceMismatch e))"
proof -
  obtain r as c' where d: "doSend sx j env c = (r, as, c')" by (metis prod_cases3)
  note f = retry_loop_facts[OF d[unfolded doSend_def]]
  have "(accepted a \<longrightarrow> \<not> isUnavailable e \<and> IsSequenceMismatch e)"
    if "a \<in> set (butlast as)" "at_result a = Inl e" "retryable e" for a e
    using f that in_set_butlastD[OF that(1)] by (auto simp: attempt_ok_def retryable_def)
  then have "\<forall>a \<in> set (butlast as). \<exists>e. at_result a = Inl e \<and> (isUnavailable e \<or> IsSequenceMismatch e) \<and>
        (accepted a \<longrightarrow> \<not> isUnavailable e \<and> IsSequenceMismatch e)"
    using f unfolding retryable_def by blast
  moreover have "is_ok r \<longrightarrow> accepted (last as)" using f last_in_set[of as] by (fastforce simp: is_ok_iff attempt_ok_def)
  moreover have "length as \<le> 8" using f by (simp add: maxSequenceRetries_def)
  ultimately show ?thesis using f by (simp add: d Suc_le_eq)
qed

lemma demo_sends: "map (\<lambda>a. (at_url a, accepted a)) (fst (snd (doSend demo_ctx demo_job demo_env demo_client))) = [(''a:1'', False), (''b:2'', True)]"
  by code_simp

theorem doSend_no_double_payment_witness:
  "case doSend demo_ctx demo_job demo_env demo_client of (r, as, c') \<Rightarrow>
     map (\<lambda>a. (at_url a, accepted a)) as = [(''a:1'', False), (''b:2'', True)] \<and> length as \<le> 8 \<and>
     (\<forall>a \<in> set (butlast as). \<exists>e. at_result a = Inl e \<and> (isUnavailable e \<or> IsSequenceMismatch e))"
proof -
  obtain r as c' where d: "doSend demo_ctx demo_job demo_env demo_client = (r, as, c')" by (metis prod_cases3)
  show ?thesis using doSend_no_double_payment[of demo_ctx demo_job demo_env demo_client] demo_sends unfolding d by auto
qed

subsection \<open>Failover between REST endpoints\<close>

lemma trim_right_slash_id: "trim_right_slash url = url \<longleftrightarrow> \<not> ends_in_slash url"
proof (cases url rule: rev_cases)
  case (snoc ys y)
  have "length (dropWhile P xs) \<le> length xs" for P and xs :: "'a list" by (rule length_dropWhile_le)
  then have "rev (dropWhile (\<lambda>c. c = CHR ''/'') (rev ys)) \<noteq> ys @ [z]" for z
    by (metis length_append_singleton length_rev not_less_eq_eq order_refl)
  then show ?thesis using snoc by (auto simp: ends_in_slash_def has_suffix_def)
qed (simp add: ends_in_slash_def has_suffix_def)

lemma set_health_other: "u \<notin> set (pool_urls p) \<Longrightarrow> set_health h u p = p"
  by (induction h u p rule: set_health.induct) (auto simp: pool_urls_def)

lemma fail_over_rest:
  assumes "cl_using_rest c" "cl_rest_pool c = Some p"
  shows "fail_over dial c =
    (case Next (MarkUnhealthy_endpoint (cl_active c) p) of
       None \<Rightarrow> (Some (sentinel ErrNoEndpointAvailable), mark_active c)
     | Some url \<Rightarrow> (None, (mark_active c)\<lparr>cl_active := newRESTTransport url, cl_open := True\<rparr>))"
  using assms by (simp add: fail_over_def mark_active_def active_pool_def Let_def split: option.split)

lemma rest_failover_cases:
  assumes "cl_using_rest c" "cl_rest_pool c = Some p" "endpoint_inv p" "Next p = Some url" "cl_active c = newRESTTransport url"
  shows "(\<forall>u \<in> set (pool_urls p). \<not> ends_in_slash u) \<Longrightarrow>
      (case fail_over dial c of
         (Some e, c') \<Rightarrow> e = sentinel ErrNoEndpointAvailable \<and> down p \<union> {url} = set (pool_urls p)
       | (None, c') \<Rightarrow> cl_active c' \<in> set (pool_urls p) - down p - {url} \<and> cl_open c')"
    and "ends_in_slash url \<Longrightarrow> trim_right_slash url \<notin> set (pool_urls p) \<Longrightarrow> fail_over dial c = (None, c\<lparr>cl_open := True\<rparr>)"
proof -
  have url: "url \<in> set (pool_urls p)" using endpoints.pick_healthy[OF assms(3,4)] by simp
  let ?q = "MarkUnhealthy_endpoint url p"
  note inv = endpoints.fail_inv[OF assms(3), of url] and bad = endpoints.fail_bad[OF assms(3), of url]
  show "case fail_over dial c of
         (Some e, c') \<Rightarrow> e = sentinel ErrNoEndpointAvailable \<and> down p \<union> {url} = set (pool_urls p)
       | (None, c') \<Rightarrow> cl_active c' \<in> set (pool_urls p) - down p - {url} \<and> cl_open c'"
    if plain: "\<forall>u \<in> set (pool_urls p). \<not> ends_in_slash u"
  proof -
    have trim: "newRESTTransport u = u" if "u \<in> set (pool_urls p)" for u
      using plain that by (simp add: newRESTTransport_def trim_right_slash_id del: trim_right_slash.simps)
    note f = fail_over_rest[OF assms(1,2), of dial, unfolded assms(5) trim[OF url]]
    show ?thesis
    proof (cases "Next ?q")
      case None
      then show ?thesis using endpoints.pick_None[OF inv] bad url by (auto simp: f endpoints.fail_urls)
    next
      case (Some u)
      then show ?thesis using endpoints.pick_healthy[OF inv Some] bad url trim by (auto simp: f endpoints.fail_urls)
    qed
  qed
  show "fail_over dial c = (None, c\<lparr>cl_open := True\<rparr>)" if "ends_in_slash url" "trim_right_slash url \<notin> set (pool_urls p)"
  proof -
    have "MarkUnhealthy_endpoint (cl_active c) p = p"
      using that(2) set_health_other[of "trim_right_slash url" p False]
      by (simp add: assms(5) newRESTTransport_def MarkUnhealthy_endpoint_def del: trim_right_slash.simps)
    then show ?thesis using assms fail_over_rest[OF assms(1,2), of dial] by (simp add: mark_active_def)
  qed
qed

text \<open>Failover between REST endpoints depends on how the URL is written. A client on the first healthy URL of its pool, none of whose URLs
  ends in a slash, either moves to a URL that has not failed or reports that there is none. With a slash at the end of the URL (and
  the trimmed URL not in the pool) the failed endpoint is not marked, and failing over leads back to the same endpoint.\<close>

theorem rest_failover:
  assumes "cl_using_rest c" "cl_rest_pool c = Some p" "endpoint_inv p" "Next p = Some url" "cl_active c = newRESTTransport url"
  shows "((\<forall>u \<in> set (pool_urls p). \<not> ends_in_slash u) \<longrightarrow>
      (case fail_over dial c of
         (Some e, c') \<Rightarrow> e = sentinel ErrNoEndpointAvailable \<and> down p \<union> {url} = set (pool_urls p)
       | (None, c') \<Rightarrow> cl_active c' \<in> set (pool_urls p) - down p - {url} \<and> cl_open c')) \<and>
    (ends_in_slash url \<and> trim_right_slash url \<notin> set (pool_urls p) \<longrightarrow> fail_over dial c = (None, c\<lparr>cl_open := True\<rparr>))"
  by (intro conjI impI rest_failover_cases[OF assms]) simp_all

end
