(* ===== verification/Gascache.thy ===== *)
theory Gascache
  imports Fee Overrides
begin

text \<open>
  \<^verbatim>\<open>internal/gascache\<close>: the table of learned gas figures and prices (\<^verbatim>\<open>cache.go\<close>), the hourly decay of the prices (\<^verbatim>\<open>decay.go\<close>), and
  \<^verbatim>\<open>lowGasPriceFn\<close> of \<^verbatim>\<open>cmd/pour/main.go\<close>. The table is a map from chain ids to rows; each SQL statement is one update, which a failing database
  leaves undone. Integer expressions of SQLite are exact within 64 bits; \<^verbatim>\<open>ovf\<close> stands for what it computes beyond.

  The lemmas show what a trusted entry rests on, that averages stay within the recorded figures (so that \<^verbatim>\<open>ovf\<close> never
  matters for gas below 2 to the 58), that the decay respects its floor, and that nothing but a successful send raises a price.
\<close>

record gas_row =
  gr_base_gas :: int
  gr_gas_per_output :: int
  gr_fee_denom :: string
  gr_gas_price :: string
  gr_sample_count :: int
  gr_last_updated :: int
  gr_failure_reason :: "string option"
  gr_failure_at :: "int option"
  gr_decay_at :: "int option"
  gr_ms_gas :: int
  gr_ms_count :: int

type_synonym gas_table = "string \<rightharpoonup> gas_row"

datatype gc_error = GcInvalidPrice string | GcRecordSuccess | GcRead | GcReset | GcRecordFailure | GcDecayQuery | GcDecayUpdate string

definition Lookup :: "bool \<Rightarrow> gas_table \<Rightarrow> string \<Rightarrow> string \<Rightarrow> cached_estimate option" where
  "Lookup fault tbl chainID msgType =
     (if fault then None
      else if msgType = MsgTypeMultiSend
      then (case tbl chainID of
              None \<Rightarrow> None
            | Some row \<Rightarrow>
                if gr_ms_count row > 0
                then Some \<lparr>ce_base_gas = 0, ce_gas_per_output = gr_ms_gas row, ce_fee_denom = gr_fee_denom row,
                           ce_gas_price_amount = gr_gas_price row, ce_sample_count = gr_ms_count row\<rparr>
                else None)
      else map_option (\<lambda>row. \<lparr>ce_base_gas = gr_base_gas row, ce_gas_per_output = gr_gas_per_output row, ce_fee_denom = gr_fee_denom row,
                              ce_gas_price_amount = gr_gas_price row, ce_sample_count = gr_sample_count row\<rparr>) (tbl chainID))"

text \<open>\<^verbatim>\<open>(old * MIN(count, 20) + new) / (MIN(count, 20) + 1)\<close>.\<close>

definition sql_average :: "(int \<Rightarrow> int \<Rightarrow> int \<Rightarrow> int) \<Rightarrow> int \<Rightarrow> int \<Rightarrow> int \<Rightarrow> int" where
  "sql_average ovf old count new =
     (let n = min count 20
      in if in_int64 (old * n) \<and> in_int64 (old * n + new) then (old * n + new) div (n + 1) else ovf old count new)"

definition insert_send :: "int \<Rightarrow> int \<Rightarrow> string \<Rightarrow> string \<Rightarrow> gas_row" where
  "insert_send now gas denom price =
     \<lparr>gr_base_gas = gas, gr_gas_per_output = 0, gr_fee_denom = denom, gr_gas_price = price, gr_sample_count = 1, gr_last_updated = now,
      gr_failure_reason = None, gr_failure_at = None, gr_decay_at = None, gr_ms_gas = 0, gr_ms_count = 0\<rparr>"

definition insert_multi :: "int \<Rightarrow> int \<Rightarrow> string \<Rightarrow> string \<Rightarrow> gas_row" where
  "insert_multi now gpo denom price =
     \<lparr>gr_base_gas = 0, gr_gas_per_output = 0, gr_fee_denom = denom, gr_gas_price = price, gr_sample_count = 0, gr_last_updated = now,
      gr_failure_reason = None, gr_failure_at = None, gr_decay_at = None, gr_ms_gas = gpo, gr_ms_count = 1\<rparr>"

definition per_output :: "int \<Rightarrow> int \<Rightarrow> int" where
  "per_output gasUsed outputCount = (if outputCount > 0 then gasUsed div outputCount else gasUsed)"

text \<open>The driver refuses an unsigned argument beyond the signed range.\<close>

definition RecordSuccess ::
    "decimal_ops \<Rightarrow> (int \<Rightarrow> int \<Rightarrow> int \<Rightarrow> int) \<Rightarrow> bool \<Rightarrow> int \<Rightarrow> string \<Rightarrow> string \<Rightarrow> int \<Rightarrow> int \<Rightarrow> string \<Rightarrow> string \<Rightarrow> gas_table \<Rightarrow>
     gc_error option \<times> gas_table" where
  "RecordSuccess d ovf fault now chainID msgType gasUsed outputCount feeDenom gasPriceAmount tbl =
     (case dl_parse d gasPriceAmount of
        None \<Rightarrow> (Some (GcInvalidPrice gasPriceAmount), tbl)
      | Some price \<Rightarrow>
          let normalized = dl_string d price;
              arg = (if msgType = MsgTypeMultiSend then per_output gasUsed outputCount else gasUsed)
          in if fault \<or> arg > max_int64 then (Some GcRecordSuccess, tbl)
             else if msgType = MsgTypeMultiSend
             then (None, tbl(chainID \<mapsto>
                     (case tbl chainID of
                        None \<Rightarrow> insert_multi now arg feeDenom normalized
                      | Some row \<Rightarrow> row\<lparr>gr_ms_gas := sql_average ovf (gr_ms_gas row) (gr_ms_count row) arg, gr_ms_count := gr_ms_count row + 1,
                                        gr_fee_denom := feeDenom, gr_gas_price := normalized, gr_last_updated := now\<rparr>)))
             else (None, tbl(chainID \<mapsto>
                     (case tbl chainID of
                        None \<Rightarrow> insert_send now arg feeDenom normalized
                      | Some row \<Rightarrow> row\<lparr>gr_base_gas := sql_average ovf (gr_base_gas row) (gr_sample_count row) arg,
                                        gr_fee_denom := feeDenom, gr_gas_price := normalized, gr_sample_count := gr_sample_count row + 1,
                                        gr_last_updated := now\<rparr>))))"

definition gc_Read :: "bool \<Rightarrow> gas_table \<Rightarrow> string \<Rightarrow> (gc_error, gas_row option) result" where
  "gc_Read fault tbl chainID = (if fault then Err GcRead else Ok (tbl chainID))"

definition gc_Reset :: "bool \<Rightarrow> string \<Rightarrow> gas_table \<Rightarrow> gc_error option \<times> gas_table" where
  "gc_Reset fault chainID tbl = (if fault then (Some GcReset, tbl) else (None, tbl(chainID := None)))"

definition RecordFailure :: "bool \<Rightarrow> int \<Rightarrow> string \<Rightarrow> string \<Rightarrow> gas_table \<Rightarrow> gc_error option \<times> gas_table" where
  "RecordFailure fault now chainID reason tbl =
     (if fault then (Some GcRecordFailure, tbl)
      else (None, tbl(chainID := map_option (\<lambda>row. row\<lparr>gr_failure_reason := Some reason, gr_failure_at := Some now\<rparr>) (tbl chainID))))"

definition decayMultiplierWithFloor :: decimal where "decayMultiplierWithFloor = \<lparr>dec_coeff = 9, dec_exp = - 1\<rparr>"
definition decayMultiplierWithoutFloor :: decimal where "decayMultiplierWithoutFloor = \<lparr>dec_coeff = 95, dec_exp = - 2\<rparr>"

text \<open>\<^verbatim>\<open>lt\<close> is \<^verbatim>\<open>LessThan\<close> of the decimal package.\<close>

definition decay_target :: "decimal_ops \<Rightarrow> (decimal \<Rightarrow> decimal \<Rightarrow> bool) \<Rightarrow> string option \<Rightarrow> decimal \<Rightarrow> decimal" where
  "decay_target d lt lowPrice current =
     (case Option.bind lowPrice (dl_parse d) of
        Some floorDec \<Rightarrow>
          let candidate = do_mul d current decayMultiplierWithFloor
          in if lt candidate floorDec then floorDec else candidate
      | None \<Rightarrow> do_mul d current decayMultiplierWithoutFloor)"

definition decay_update :: "decimal_ops \<Rightarrow> int \<Rightarrow> string \<Rightarrow> decimal \<Rightarrow> gas_table \<Rightarrow> gas_table" where
  "decay_update d now chainID target tbl =
     tbl(chainID := map_option (\<lambda>row. row\<lparr>gr_gas_price := dl_string d target, gr_decay_at := Some now\<rparr>) (tbl chainID))"

text \<open>One pass over the rows that the query returned; an update that fails ends it.\<close>

fun decay_rows ::
    "decimal_ops \<Rightarrow> (decimal \<Rightarrow> decimal \<Rightarrow> bool) \<Rightarrow> (string \<Rightarrow> bool) \<Rightarrow> int \<Rightarrow> (string \<Rightarrow> string option) \<Rightarrow> (string \<times> string) list \<Rightarrow>
     gas_table \<Rightarrow> gc_error option \<times> gas_table" where
  "decay_rows d lt fault now floors [] tbl = (None, tbl)"
| "decay_rows d lt fault now floors ((chainID, gasPriceAmount) # rows) tbl =
     (case dl_parse d gasPriceAmount of
        None \<Rightarrow> decay_rows d lt fault now floors rows tbl
      | Some current \<Rightarrow>
          let target = decay_target d lt (floors chainID) current
          in if \<not> lt target current then decay_rows d lt fault now floors rows tbl
             else if fault chainID then (Some (GcDecayUpdate chainID), tbl)
             else decay_rows d lt fault now floors rows (decay_update d now chainID target tbl))"

text \<open>\<^verbatim>\<open>order\<close> lists the chain ids in the order of the rows.\<close>

definition runDecay ::
    "decimal_ops \<Rightarrow> (decimal \<Rightarrow> decimal \<Rightarrow> bool) \<Rightarrow> bool \<Rightarrow> (string \<Rightarrow> bool) \<Rightarrow> int \<Rightarrow> (string \<Rightarrow> string option) \<Rightarrow> string list \<Rightarrow>
     gas_table \<Rightarrow> gc_error option \<times> gas_table" where
  "runDecay d lt queryFault fault now floors order tbl =
     (if queryFault then (Some GcDecayQuery, tbl)
      else decay_rows d lt fault now floors
             (List.map_filter (\<lambda>c. map_option (\<lambda>row. (c, gr_gas_price row)) (tbl c)) order) tbl)"

text \<open>\<^verbatim>\<open>lowGasPriceFn\<close>: the floors come from the fee tokens of the configuration, not from the registry.\<close>

fun low_price_loop :: "decimal_lib \<Rightarrow> parse_duration \<Rightarrow> chain_config list \<Rightarrow> (string \<rightharpoonup> string) \<Rightarrow> (config_error, string \<rightharpoonup> string) result" where
  "low_price_loop dl pd [] m = Ok m"
| "low_price_loop dl pd (c # cs) m =
     rbind (ToChainInfo dl pd c) (\<lambda>info.
       low_price_loop dl pd cs
         (case ci_fee_tokens info of
            [] \<Rightarrow> m
          | ft # _ \<Rightarrow> if dec_coeff (ft_low ft) \<noteq> 0 then m(cc_chain_id c \<mapsto> dl_string dl (ft_low ft)) else m))"

definition lowGasPriceFn :: "decimal_lib \<Rightarrow> parse_duration \<Rightarrow> chains_config \<Rightarrow> (config_error, string \<Rightarrow> string option) result" where
  "lowGasPriceFn dl pd cfg =
     rbind (low_price_loop dl pd (cfg_chains cfg) Map.empty) (\<lambda>m.
       Ok (\<lambda>chainID. case m chainID of None \<Rightarrow> None | Some v \<Rightarrow> if v \<noteq> '''' then Some v else None))"

text \<open>The operations as a run over the table. A success carries message type, gas, number of outputs, denomination and price.\<close>

datatype gc_op =
    GSuccess bool int string string int int string string
  | GFailure bool int string string
  | GDecay bool "string \<Rightarrow> bool" int "string list"
  | GReset bool string

fun gc_apply ::
    "decimal_ops \<Rightarrow> (decimal \<Rightarrow> decimal \<Rightarrow> bool) \<Rightarrow> (int \<Rightarrow> int \<Rightarrow> int \<Rightarrow> int) \<Rightarrow> (string \<Rightarrow> string option) \<Rightarrow> gc_op \<Rightarrow> gas_table \<Rightarrow> gas_table" where
  "gc_apply d lt ovf floors (GSuccess fault now c t gas n denom price) tbl = snd (RecordSuccess d ovf fault now c t gas n denom price tbl)"
| "gc_apply d lt ovf floors (GFailure fault now c reason) tbl = snd (RecordFailure fault now c reason tbl)"
| "gc_apply d lt ovf floors (GDecay queryFault fault now order) tbl = snd (runDecay d lt queryFault fault now floors order tbl)"
| "gc_apply d lt ovf floors (GReset fault c) tbl = snd (gc_Reset fault c tbl)"

definition gc_run where
  "gc_run d lt ovf floors ops tbl = fold (gc_apply d lt ovf floors) ops tbl"

text \<open>The gas figures recorded for a chain since its last reset: of the multi-sends (\<^verbatim>\<open>multi\<close>), or of all other messages.\<close>

fun sample_step :: "decimal_ops \<Rightarrow> bool \<Rightarrow> string \<Rightarrow> gc_op \<Rightarrow> int list \<Rightarrow> int list" where
  "sample_step d multi chain (GSuccess fault now c t gas n denom price) xs =
     (let arg = (if multi then per_output gas n else gas)
      in if c = chain \<and> (t = MsgTypeMultiSend) = multi \<and> \<not> fault \<and> arg \<le> max_int64 \<and> dl_parse d price \<noteq> None then xs @ [arg] else xs)"
| "sample_step d multi chain (GReset fault c) xs = (if c = chain \<and> \<not> fault then [] else xs)"
| "sample_step d multi chain _ xs = xs"

definition samples :: "decimal_ops \<Rightarrow> bool \<Rightarrow> string \<Rightarrow> gc_op list \<Rightarrow> int list" where
  "samples d multi chain ops = fold (sample_step d multi chain) ops []"

text \<open>Gas figures for which the averages stay exact: up to 2 to the 58.\<close>

abbreviation exact_gas :: int where "exact_gas \<equiv> 288230376151711744"

fun op_moderate :: "gc_op \<Rightarrow> bool" where
  "op_moderate (GSuccess fault now c t gas n denom price) \<longleftrightarrow> 0 \<le> gas \<and> gas \<le> exact_gas"
| "op_moderate _ \<longleftrightarrow> True"

definition between :: "int \<Rightarrow> int list \<Rightarrow> bool" where
  "between x xs \<longleftrightarrow> Min (set xs) \<le> x \<and> x \<le> Max (set xs)"

text \<open>A failed send or a decay pass, in which each chain has one row.\<close>

fun is_failure_or_decay :: "gc_op \<Rightarrow> bool" where
  "is_failure_or_decay (GFailure _ _ _ _) \<longleftrightarrow> True"
| "is_failure_or_decay (GDecay _ _ _ order) \<longleftrightarrow> distinct order"
| "is_failure_or_decay _ \<longleftrightarrow> False"

text \<open>Two rows with the same learned gas.\<close>

definition same_gas :: "gas_row \<Rightarrow> gas_row \<Rightarrow> bool" where
  "same_gas r q \<longleftrightarrow> gr_base_gas r = gr_base_gas q \<and> gr_gas_per_output r = gr_gas_per_output q \<and> gr_sample_count r = gr_sample_count q \<and>
     gr_ms_gas r = gr_ms_gas q \<and> gr_ms_count r = gr_ms_count q \<and> gr_fee_denom r = gr_fee_denom q"

text \<open>The invariant of a row against the figures recorded since the last reset.\<close>

fun row_inv :: "int list \<Rightarrow> int list \<Rightarrow> gas_row option \<Rightarrow> bool" where
  "row_inv xs ms None \<longleftrightarrow> xs = [] \<and> ms = []"
| "row_inv xs ms (Some row) \<longleftrightarrow>
     gr_sample_count row = int (length xs) \<and> gr_ms_count row = int (length ms) \<and> gr_gas_per_output row = 0 \<and>
     (xs \<noteq> [] \<longrightarrow> between (gr_base_gas row) xs) \<and> (ms \<noteq> [] \<longrightarrow> between (gr_ms_gas row) ms)"

definition moderate :: "int list \<Rightarrow> bool" where "moderate xs \<longleftrightarrow> (\<forall>x \<in> set xs. 0 \<le> x \<and> x \<le> exact_gas)"

text \<open>The value of the price in a row, if it parses.\<close>

definition row_price :: "decimal_ops \<Rightarrow> gas_row \<Rightarrow> rat option" where
  "row_price d row = map_option dec_val (dl_parse d (gr_gas_price row))"

text \<open>What the decay makes of one row: nothing, or the target price when it is lower.\<close>

definition decayed :: "decimal_ops \<Rightarrow> string option \<Rightarrow> gas_row option \<Rightarrow> gas_row option \<Rightarrow> bool" where
  "decayed d lowPrice x y \<longleftrightarrow>
     (case (x, y) of
        (Some r, Some q) \<Rightarrow>
          same_gas r q \<and>
          (case row_price d r of
             None \<Rightarrow> row_price d q = None
           | Some v \<Rightarrow> \<exists>w. row_price d q = Some w \<and> w \<le> v \<and>
               (\<forall>f fl. lowPrice = Some f \<longrightarrow> dl_parse d f = Some fl \<longrightarrow> dec_val fl \<le> v \<longrightarrow> dec_val fl \<le> w))
      | (None, None) \<Rightarrow> True
      | _ \<Rightarrow> False)"

definition dec_lt :: "decimal \<Rightarrow> decimal \<Rightarrow> bool" where
  "dec_lt a b \<longleftrightarrow>
     (let m = min (dec_exp a) (dec_exp b)
      in dec_coeff a * 10 ^ nat (dec_exp a - m) < dec_coeff b * 10 ^ nat (dec_exp b - m))"

definition low_entry :: gas_table where
  "low_entry = [''c'' \<mapsto> (insert_send 0 100000 ''uosmo'' ''1'')\<lparr>gr_sample_count := 5\<rparr>]"

subsection \<open>Averages\<close>

lemma average_bounds:
  fixes old new n lo hi :: int
  assumes "0 \<le> n" "lo \<le> old \<or> n = 0" "old \<le> hi \<or> n = 0" "lo \<le> new" "new \<le> hi"
  shows "lo \<le> (old * n + new) div (n + 1)" "(old * n + new) div (n + 1) \<le> hi"
proof -
  have "lo * n \<le> old * n" "old * n \<le> hi * n" using assms(1-3) by (auto intro: mult_right_mono)
  then have "lo * (n + 1) \<le> old * n + new" "old * n + new \<le> hi * (n + 1)" using assms(4,5) by (simp_all add: algebra_simps)
  then have "lo * (n + 1) div (n + 1) \<le> (old * n + new) div (n + 1)" "(old * n + new) div (n + 1) \<le> hi * (n + 1) div (n + 1)"
    using assms(1) by (simp_all only: zdiv_mono1 add_nonneg_pos zero_less_one)
  then show "lo \<le> (old * n + new) div (n + 1)" "(old * n + new) div (n + 1) \<le> hi" using assms(1) by simp_all
qed

lemma between_average:
  assumes "\<forall>x \<in> set xs. 0 \<le> x \<and> x \<le> exact_gas" "xs \<noteq> [] \<longrightarrow> between old xs" "0 \<le> new" "new \<le> exact_gas"
  shows "between (sql_average ovf old (int (length xs)) new) (xs @ [new])"
proof -
  let ?n = "min (int (length xs)) 20"
  have n: "0 \<le> ?n" "?n \<le> 20" "xs = [] \<longleftrightarrow> ?n = 0" by (auto simp: min_def split: if_splits)
  have old: "0 \<le> old \<and> old \<le> exact_gas" if "xs \<noteq> []"
  proof -
    have "0 \<le> Min (set xs)" "Max (set xs) \<le> exact_gas" using assms(1) that by simp_all
    moreover have "Min (set xs) \<le> old" "old \<le> Max (set xs)" using assms(2) that by (simp_all add: between_def)
    ultimately show ?thesis by linarith
  qed
  have range: "0 \<le> old * ?n" "old * ?n \<le> exact_gas * 20"
  proof -
    show "0 \<le> old * ?n" using old n by (cases "xs = []") simp_all
    show "old * ?n \<le> exact_gas * 20"
    proof (cases "xs = []")
      case False
      then have "old \<le> exact_gas" "0 \<le> old" using old by simp_all
      then show ?thesis using n by (intro mult_mono) simp_all
    qed simp
  qed
  have "in_int64 (old * ?n) \<and> in_int64 (old * ?n + new)" using range assms(3,4) by (simp add: in_int64_def)
  then have avg: "sql_average ovf old (int (length xs)) new = (old * ?n + new) div (?n + 1)" by (simp add: sql_average_def Let_def)
  have new: "Min (set (xs @ [new])) \<le> new" "new \<le> Max (set (xs @ [new]))" by simp_all
  have "Min (set (xs @ [new])) \<le> old \<and> old \<le> Max (set (xs @ [new]))" if "xs \<noteq> []"
    using assms(2) that by (auto simp: between_def min_le_iff_disj le_max_iff_disj)
  then have "Min (set (xs @ [new])) \<le> old \<or> ?n = 0" "old \<le> Max (set (xs @ [new])) \<or> ?n = 0" using n(3) by blast+
  from average_bounds[OF n(1) this new] show ?thesis by (simp only: between_def avg)
qed

subsection \<open>What the operations keep\<close>

lemma same_gas_refl [simp]: "rel_option same_gas x x" by (cases x) (simp_all add: same_gas_def)

lemma same_gas_trans: "rel_option same_gas x y \<Longrightarrow> rel_option same_gas y z \<Longrightarrow> rel_option same_gas x z"
  by (cases x; cases y; cases z) (simp_all add: same_gas_def)

lemma decay_update_same: "rel_option same_gas (tbl c) (decay_update d now chainID target tbl c)"
  by (cases "tbl chainID") (simp_all add: decay_update_def same_gas_def)

lemma decay_rows_same: "rel_option same_gas (tbl c) (snd (decay_rows d lt fault now floors rows tbl) c)"
proof (induction rows arbitrary: tbl)
  case (Cons r rows)
  obtain chainID price where r: "r = (chainID, price)" by fastforce
  show ?case
    using Cons.IH[of tbl] same_gas_trans[OF decay_update_same Cons.IH] by (auto simp: r Let_def split: option.split)
qed simp

lemma runDecay_same: "rel_option same_gas (tbl c) (snd (runDecay d lt qf fault now floors order tbl) c)"
  by (simp add: runDecay_def decay_rows_same)

lemma RecordFailure_same: "rel_option same_gas (tbl c) (snd (RecordFailure fault now chain reason tbl) c)"
  by (cases "tbl chain") (simp_all add: RecordFailure_def same_gas_def)

lemma row_inv_same: "rel_option same_gas x y \<Longrightarrow> row_inv xs ms x \<Longrightarrow> row_inv xs ms y"
  by (cases x; cases y) (auto simp: same_gas_def)

lemma per_output_range:
  assumes "0 \<le> gas" "gas \<le> exact_gas"
  shows "0 \<le> per_output gas n" "per_output gas n \<le> exact_gas"
proof -
  have "gas div n \<le> gas" if "n > 0" using assms(1) that
    by (metis div_by_1 zdiv_mono2 int_one_le_iff_zero_less zero_less_one)
  then show "0 \<le> per_output gas n" "per_output gas n \<le> exact_gas"
    using assms by (auto simp: per_output_def pos_imp_zdiv_nonneg_iff intro: order_trans)
qed

lemma row_inv_step:
  assumes "moderate (sample_step d False c op xs)" "moderate (sample_step d True c op ms)" "op_moderate op" "moderate xs" "moderate ms"
    and inv: "row_inv xs ms (tbl c)"
  shows "row_inv (sample_step d False c op xs) (sample_step d True c op ms) (gc_apply d lt ovf floors op tbl c)"
proof (cases op)
  case (GSuccess fault now chain t gas n denom price)
  have gas: "0 \<le> gas" "gas \<le> exact_gas" using assms(3) GSuccess by simp_all
  note po = per_output_range[OF gas, of n]
  have small: "gas \<le> max_int64" "per_output gas n \<le> max_int64" using gas po by simp_all
  note av = between_average[OF assms(4)[unfolded moderate_def], of _ gas ovf]
    and avm = between_average[OF assms(5)[unfolded moderate_def], of _ "per_output gas n" ovf]
  have one: "between x [x]" for x by (simp add: between_def)
  show ?thesis
  proof (cases "chain = c \<and> \<not> fault \<and> dl_parse d price \<noteq> None")
    case False
    then show ?thesis using inv GSuccess by (auto simp: RecordSuccess_def Let_def split: option.split)
  next
    case True
    then obtain p where p: "dl_parse d price = Some p" by auto
    show ?thesis using inv True p small gas po av avm one
      by (cases "tbl c"; cases "t = MsgTypeMultiSend")
        (auto simp: GSuccess RecordSuccess_def Let_def insert_send_def insert_multi_def)
  qed
next
  case (GFailure fault now chain reason)
  then show ?thesis using row_inv_same[OF RecordFailure_same[of tbl c] inv] by simp
next
  case (GDecay qf fault now order)
  then show ?thesis using row_inv_same[OF runDecay_same[of tbl c] inv] by simp
next
  case (GReset fault chain)
  then show ?thesis using inv by (auto simp: gc_Reset_def)
qed

lemma sample_step_moderate: "op_moderate op \<Longrightarrow> moderate xs \<Longrightarrow> moderate (sample_step d multi c op xs)"
  by (cases op) (auto simp: moderate_def Let_def per_output_range)

lemma samples_snoc: "samples d multi c (ops @ [op]) = sample_step d multi c op (samples d multi c ops)"
  by (simp add: samples_def)

lemma gc_run_snoc: "gc_run d lt ovf floors (ops @ [op]) tbl = gc_apply d lt ovf floors op (gc_run d lt ovf floors ops tbl)"
  by (simp add: gc_run_def)

lemma samples_moderate: "(\<forall>op \<in> set ops. op_moderate op) \<Longrightarrow> moderate (samples d multi c ops)"
  by (induction ops rule: rev_induct) (simp_all add: samples_snoc sample_step_moderate, simp add: samples_def moderate_def)

lemma gc_run_inv:
  "(\<forall>op \<in> set ops. op_moderate op) \<Longrightarrow> row_inv (samples d False c ops) (samples d True c ops) (gc_run d lt ovf floors ops Map.empty c)"
proof (induction ops rule: rev_induct)
  case (snoc op ops)
  then show ?case unfolding samples_snoc gc_run_snoc
    by (intro row_inv_step) (simp_all add: samples_moderate sample_step_moderate)
qed (simp add: samples_def gc_run_def)

text \<open>What a cached gas estimate rests on. After any sequence of recorded sends, failures, decays, resets and database failures, with gas
  figures up to 2 to the 58, an entry exists for a message type exactly when a figure was recorded since the last reset (for other messages than
  multi-sends the row may also exist with no sample). Its sample count is the number of those figures, so that a trusted entry rests on at least five,
  and the gas it predicts for one output lies between the smallest and the largest of them.\<close>

theorem cached_gas_sound:
  assumes "\<forall>op \<in> set ops. op_moderate op"
    and "Lookup False (gc_run d lt ovf floors ops Map.empty) chain msgType = Some e"
  shows "let xs = samples d (msgType = MsgTypeMultiSend) chain ops
    in ce_sample_count e = int (length xs) \<and> (IsTrusted e \<longrightarrow> length xs \<ge> 5) \<and>
       (xs \<noteq> [] \<longrightarrow> between (ce_base_gas e + ce_gas_per_output e) xs)"
proof -
  obtain row where row: "gc_run d lt ovf floors ops Map.empty chain = Some row"
    using assms(2) by (auto simp: Lookup_def split: if_splits option.splits)
  have "row_inv (samples d False chain ops) (samples d True chain ops) (Some row)"
    using gc_run_inv[OF assms(1), of d chain lt ovf floors] row by simp
  then show ?thesis using assms(2) row
    by (auto simp: Lookup_def Let_def IsTrusted_def split: if_splits)
qed

subsection \<open>Prices\<close>

lemma decay_constants: "dec_val decayMultiplierWithFloor = 9 / 10" "dec_val decayMultiplierWithoutFloor = 19 / 20"
  by (simp_all add: dec_val_def decayMultiplierWithFloor_def decayMultiplierWithoutFloor_def power_int_def power_one_over)

text \<open>The comparison of the decimal package compares values.\<close>

locale decimal_order = decimal_laws d for d :: decimal_ops +
  fixes lt :: "decimal \<Rightarrow> decimal \<Rightarrow> bool"
  assumes lt_val: "lt a b \<longleftrightarrow> dec_val a < dec_val b"
begin

lemma decay_target_floor:
  assumes "dl_parse d f = Some fl"
  shows "dec_val (decay_target d lt (Some f) cur) = max (dec_val fl) (dec_val cur * (9 / 10))"
  using assms by (auto simp: decay_target_def Let_def lt_val mul decay_constants max_def)

lemma decay_target_free:
  assumes "Option.bind lowPrice (dl_parse d) = None"
  shows "dec_val (decay_target d lt lowPrice cur) = dec_val cur * (19 / 20)"
  using assms by (simp add: decay_target_def mul decay_constants)

end

lemma decayed_refl [simp]: "decayed d lowPrice x x"
  by (cases x) (auto simp: decayed_def same_gas_def split: option.split)

lemma decayed_trans: "decayed d lowPrice x y \<Longrightarrow> decayed d lowPrice y z \<Longrightarrow> decayed d lowPrice x z"
  by (cases x; cases y; cases z) (fastforce simp: decayed_def same_gas_def split: option.splits)+

context decimal_order
begin

lemma decay_update_decayed:
  assumes "dl_parse d price = Some cur" "lt (decay_target d lt (floors chain) cur) cur" "\<And>row. tbl chain = Some row \<Longrightarrow> gr_gas_price row = price"
  shows "decayed d (floors c) (tbl c) (decay_update d now chain (decay_target d lt (floors chain) cur) tbl c)"
proof (cases "c = chain \<and> tbl c \<noteq> None")
  case False
  then show ?thesis by (cases "tbl c") (auto simp: decay_update_def)
next
  case True
  then obtain row where row: "tbl c = Some row" by blast
  let ?t = "decay_target d lt (floors chain) cur"
  obtain t' where t': "dl_parse d (dl_string d ?t) = Some t'" "dec_val t' = dec_val ?t" using string_parses by blast
  have "row_price d row = Some (dec_val cur)" using assms(1,3) row True by (simp add: row_price_def)
  moreover have "dec_val fl \<le> dec_val ?t" if "floors c = Some f" "dl_parse d f = Some fl" for f fl
    using decay_target_floor[OF that(2), of cur] that True by simp
  ultimately show ?thesis using True row t' assms(2)
    by (auto simp: decay_update_def decayed_def row_price_def same_gas_def lt_val)
qed

lemma decay_rows_decayed:
  assumes "distinct (map fst rows)" "\<And>c p row. (c, p) \<in> set rows \<Longrightarrow> tbl c = Some row \<Longrightarrow> gr_gas_price row = p"
  shows "decayed d (floors c) (tbl c) (snd (decay_rows d lt fault now floors rows tbl) c)"
  using assms
proof (induction rows arbitrary: tbl)
  case (Cons r rows)
  obtain chain price where r: "r = (chain, price)" by fastforce
  have IH: "decayed d (floors c) (tbl c) (snd (decay_rows d lt fault now floors rows tbl) c)"
    by (rule Cons.IH) (use Cons.prems in auto)
  show ?case
  proof (cases "\<exists>cur. dl_parse d price = Some cur \<and> lt (decay_target d lt (floors chain) cur) cur \<and> \<not> fault chain")
    case False
    then show ?thesis using IH by (auto simp: r Let_def split: option.split)
  next
    case True
    then obtain cur where cur: "dl_parse d price = Some cur" "lt (decay_target d lt (floors chain) cur) cur" "\<not> fault chain" by blast
    let ?tbl = "decay_update d now chain (decay_target d lt (floors chain) cur) tbl"
    have "decayed d (floors c) (tbl c) (?tbl c)"
      by (rule decay_update_decayed[of price cur floors chain tbl, OF cur(1,2)]) (use Cons.prems(2)[of chain price] r in auto)
    moreover have "decayed d (floors c) (?tbl c) (snd (decay_rows d lt fault now floors rows ?tbl) c)"
    proof (rule Cons.IH)
      show "distinct (map fst rows)" using Cons.prems(1) by simp
      fix c' p row
      assume "(c', p) \<in> set rows" "?tbl c' = Some row"
      moreover have "c' \<noteq> chain" using Cons.prems(1) calculation(1) by (force simp: r)
      ultimately show "gr_gas_price row = p" using Cons.prems(2)[of c' p row] by (simp add: decay_update_def)
    qed
    ultimately show ?thesis using cur decayed_trans by (simp add: r Let_def)
  qed
qed simp

lemma runDecay_decayed:
  assumes "distinct order"
  shows "decayed d (floors c) (tbl c) (snd (runDecay d lt qf fault now floors order tbl) c)"
proof -
  let ?f = "\<lambda>c. map_option (\<lambda>row. (c, gr_gas_price row)) (tbl c)"
  have "map fst (List.map_filter ?f order) = filter (\<lambda>c. tbl c \<noteq> None) order"
    by (induction order) (auto simp: List.map_filter_simps split: option.split)
  then have "distinct (map fst (List.map_filter ?f order))" using assms by simp
  moreover have "(c', p) \<in> set (List.map_filter ?f order) \<Longrightarrow> tbl c' = Some row \<Longrightarrow> gr_gas_price row = p" for c' p row
    by (auto simp: List.map_filter_def)
  ultimately show ?thesis using decay_rows_decayed by (simp add: runDecay_def)
qed

lemma failure_or_decay_decayed:
  assumes "is_failure_or_decay op"
  shows "decayed d (floors c) (tbl c) (gc_apply d lt ovf floors op tbl c)"
proof (cases op)
  case (GFailure fault now chain reason)
  then show ?thesis
    by (cases "tbl chain") (auto simp: RecordFailure_def decayed_def same_gas_def row_price_def split: option.split)
qed (use assms runDecay_decayed[of _ floors c tbl] in auto)

lemma run_decayed:
  assumes "\<forall>op \<in> set ops. is_failure_or_decay op"
  shows "decayed d (floors c) (tbl c) (gc_run d lt ovf floors ops tbl c)"
  using assms
proof (induction ops rule: rev_induct)
  case (snoc op ops)
  then show ?case unfolding gc_run_snoc using decayed_trans failure_or_decay_decayed by auto
qed (simp add: gc_run_def)

lemma Lookup_decayed:
  assumes "decayed d lowPrice (tbl c) (tbl' c)" "Lookup False tbl c t = Some e0" "dl_parse d (ce_gas_price_amount e0) = Some p0"
  shows "\<exists>e p. Lookup False tbl' c t = Some e \<and> ce_base_gas e = ce_base_gas e0 \<and> ce_gas_per_output e = ce_gas_per_output e0 \<and>
    ce_sample_count e = ce_sample_count e0 \<and> dl_parse d (ce_gas_price_amount e) = Some p \<and> dec_val p \<le> dec_val p0"
proof -
  obtain r where r: "tbl c = Some r" using assms(2) by (auto simp: Lookup_def split: if_splits option.splits)
  obtain q where q: "tbl' c = Some q" "same_gas r q" using assms(1) r by (cases "tbl' c") (auto simp: decayed_def)
  have "ce_gas_price_amount e0 = gr_gas_price r" using assms(2) r by (auto simp: Lookup_def split: if_splits)
  then have "row_price d r = Some (dec_val p0)" using assms(3) by (simp add: row_price_def)
  then obtain p where "dl_parse d (gr_gas_price q) = Some p" "dec_val p \<le> dec_val p0"
    using assms(1) r q by (auto simp: decayed_def row_price_def)
  then show ?thesis using assms(2) r q by (auto simp: Lookup_def same_gas_def split: if_splits)
qed

end

lemma dec_val_shift: "m \<le> dec_exp (a :: decimal) \<Longrightarrow> dec_val a = of_int (dec_coeff a * 10 ^ nat (dec_exp a - m)) * 10 powi m"
  by (simp add: dec_val_def power_int_add[symmetric] flip: power_int_of_nat)

interpretation ref_order: decimal_order ref_decimal dec_lt
proof
  fix a b :: decimal
  let ?m = "min (dec_exp a) (dec_exp b)"
  have "dec_val a < dec_val b \<longleftrightarrow> dec_coeff a * 10 ^ nat (dec_exp a - ?m) < dec_coeff b * 10 ^ nat (dec_exp b - ?m)"
    unfolding dec_val_shift[of ?m a, OF min.cobounded1] dec_val_shift[of ?m b, OF min.cobounded2]
    by (simp del: of_int_mult of_int_power add: mult_less_cancel_right_pos)
  then show "dec_lt a b \<longleftrightarrow> dec_val a < dec_val b" by (simp add: dec_lt_def Let_def)
qed

text \<open>C33: A cached gas price never recovers by itself. While sends of a chain only fail, whatever the reasons, and whatever decay passes run and
  floors are configured, a trusted cache entry stays trusted with the same gas figures and a price that is never higher: every
  later estimate uses it, without simulating, and offers at most the fee that its price gave before.\<close>

theorem low_price_never_recovers:
  assumes "decimal_order d lt" "\<forall>op \<in> set ops. is_failure_or_decay op"
    and "Lookup False tbl c t = Some e0" "IsTrusted e0" "dl_parse d (ce_gas_price_amount e0) = Some p0"
    and "0 \<le> ce_base_gas e0" "0 \<le> ce_gas_per_output e0" "ce_base_gas e0 + ce_gas_per_output e0 * max 1 n \<le> 4611686018427387904"
    and "0 \<le> gasUsed" "gasUsed \<le> 4611686018427387904" "n \<le> 1000000000"
  shows "\<exists>est fee. estimateFee d junk ch (Lookup False (gc_run d lt ovf floors ops tbl) c t) marshalled gasUsed n = Ok est \<and>
    est_gas_limit est = \<lceil>of_int (ce_base_gas e0 + ce_gas_per_output e0 * max 1 n) * (13 / 10 :: rat)\<rceil> \<and>
    coin_amount (est_fee est) = show_int fee \<and> fee \<le> \<lceil>of_int (est_gas_limit est) * dec_val p0\<rceil>"
proof -
  have L: "decimal_laws d" using assms(1) by (simp add: decimal_order_def)
  note dec = decimal_order.run_decayed[OF assms(1,2), of floors c tbl ovf]
  obtain e p where e: "Lookup False (gc_run d lt ovf floors ops tbl) c t = Some e" "ce_base_gas e = ce_base_gas e0"
      "ce_gas_per_output e = ce_gas_per_output e0" "ce_sample_count e = ce_sample_count e0"
      "dl_parse d (ce_gas_price_amount e) = Some p" "dec_val p \<le> dec_val p0"
    using decimal_order.Lookup_decayed[where tbl' = "gc_run d lt ovf floors ops tbl", OF assms(1) dec assms(3,5)] by blast
  have tr: "IsTrusted e" using assms(4) e(4) by (simp add: IsTrusted_def)
  let ?g = "ce_base_gas e0 + ce_gas_per_output e0 * max 1 n"
  have g: "0 \<le> ?g" using assms(6,7) by simp
  note gas = decimal_laws.gas_bound[OF L g assms(8)]
  have w: "to_uint64 (ce_base_gas e0 + to_uint64 (ce_gas_per_output e0 * max 1 n)) = ?g"
  proof -
    have "0 \<le> ce_gas_per_output e0 * max 1 n" using assms(7) by simp
    then show ?thesis using assms(6,8) by (simp add: to_uint64_def)
  qed
  have nn: "(if n \<le> 0 then 1 else n) = max 1 n" by simp
  obtain lim where lim: "adjusted_gas d junk gasAdjustTrusted ?g = lim" "\<lceil>of_int ?g * (13 / 10 :: rat)\<rceil> = lim" "0 \<le> lim" "lim \<le> max_int64"
    using gas(1,3,4) by blast
  note fee = decimal_laws.calcFee_value[OF L e(5) lim(3,4), of "ce_fee_denom e"]
  have "of_int lim * dec_val p \<le> of_int lim * dec_val p0" using lim(3) e(6) by (intro mult_left_mono) simp_all
  then have le: "\<lceil>of_int lim * dec_val p\<rceil> \<le> \<lceil>of_int lim * dec_val p0\<rceil>" by (rule ceiling_mono)
  have "estimateFee d junk ch (Lookup False (gc_run d lt ovf floors ops tbl) c t) marshalled gasUsed n =
      Ok \<lparr>est_gas_limit = lim, est_fee = \<lparr>coin_denom = ce_fee_denom e, coin_amount = show_int \<lceil>of_int lim * dec_val p\<rceil>\<rparr>,
          est_gas_price_amount = ce_gas_price_amount e\<rparr>"
    using tr unfolding estimateFee_def Let_def nn e(1) by (simp add: e(2,3) w lim(1) fee)
  then obtain est where "estimateFee d junk ch (Lookup False (gc_run d lt ovf floors ops tbl) c t) marshalled gasUsed n = Ok est"
      "est_gas_limit est = lim" "coin_amount (est_fee est) = show_int \<lceil>of_int lim * dec_val p\<rceil>" by simp
  then show ?thesis unfolding lim(2) using le by (intro exI[of _ est] exI[of _ "\<lceil>of_int lim * dec_val p\<rceil>"]) simp
qed

theorem low_price_never_recovers_witness:
  "\<exists>est fee. estimateFee ref_decimal (\<lambda>_. 0) (rawToInfo ex_dl (ex_raw ''cosmos''))
      (Lookup False (gc_run ref_decimal dec_lt (\<lambda>_ _ _. 0) (\<lambda>_. None) [GFailure False 1 ''c'' ''insufficient_fee'', GDecay False (\<lambda>_. False) 2 [''c'']]
         low_entry) ''c'' MsgTypeSend) True 500000 1 = Ok est \<and>
    est_gas_limit est = 130000 \<and> coin_amount (est_fee est) = show_int fee \<and> fee \<le> 130000"
proof -
  have p: "dl_parse ref_decimal ''1'' = Some \<lparr>dec_coeff = 1, dec_exp = 0\<rparr>" by code_simp
  have t: "MsgTypeSend \<noteq> MsgTypeMultiSend" by (simp add: MsgTypeSend_def MsgTypeMultiSend_def)
  let ?e = "\<lparr>ce_base_gas = 100000, ce_gas_per_output = 0, ce_fee_denom = ''uosmo'', ce_gas_price_amount = ''1'', ce_sample_count = 5\<rparr>"
  have l: "Lookup False low_entry ''c'' MsgTypeSend = Some ?e" using t by (simp add: Lookup_def low_entry_def insert_send_def)
  have "\<exists>est fee. estimateFee ref_decimal (\<lambda>_. 0) (rawToInfo ex_dl (ex_raw ''cosmos''))
      (Lookup False (gc_run ref_decimal dec_lt (\<lambda>_ _ _. 0) (\<lambda>_. None) [GFailure False 1 ''c'' ''insufficient_fee'', GDecay False (\<lambda>_. False) 2 [''c'']]
         low_entry) ''c'' MsgTypeSend) True 500000 1 = Ok est \<and>
    est_gas_limit est = \<lceil>of_int (ce_base_gas ?e + ce_gas_per_output ?e * max 1 1) * (13 / 10 :: rat)\<rceil> \<and>
    coin_amount (est_fee est) = show_int fee \<and> fee \<le> \<lceil>of_int (est_gas_limit est) * dec_val \<lparr>dec_coeff = 1, dec_exp = 0\<rparr>\<rceil>"
    by (rule low_price_never_recovers[OF ref_order.decimal_order_axioms _ l]) (simp_all add: IsTrusted_def p)
  then show ?thesis by (auto simp: dec_val_def)
qed

end
