(* ===== verification/Manager.thy ===== *)
theory Manager
  imports Chain Ibc Gascache
begin

text \<open>
  \<^verbatim>\<open>internal/chain/manager.go\<close>, \<^verbatim>\<open>source.go\<close> and \<^verbatim>\<open>devnet_watcher.go\<close>: the manager owns the registry store and the active chains, and reconciles them after
  every change. The mutex makes each reconcile atomic. A managed chain carries two flags: whether its connection has been closed and
  whether its goroutines were started; the entries of \<^verbatim>\<open>m.chains\<close> and of the map under construction are the same objects, so that what
  the code does to one is done to the other here. Opening a connection and deriving addresses are arguments, and so are the
  iteration orders of Go's maps and the arrival orders of the fetch (\<^verbatim>\<open>round\<close>).
\<close>

record managed =
  mc_chain :: chain
  mc_closed :: bool
  mc_started :: bool

record manager =
  mg_store :: registry_store
  mg_drips :: "string \<rightharpoonup> drip_policy"
  mg_cfgs :: "string \<rightharpoonup> chain_config"
  mg_registry_ids :: "string list"
  mg_base_url :: string
  mg_chains :: "string \<rightharpoonup> managed"
  mg_last_fetched :: "int option"
  mg_started :: bool

record manager_env =
  me_dl :: decimal_lib
  me_duration :: parse_duration
  me_tx_new :: "chain_info \<Rightarrow> nat list \<Rightarrow> tx_error option"
  me_address :: "string \<Rightarrow> nat \<Rightarrow> (tx_error, string) result"
  me_http :: registry_http
  me_now :: int

text \<open>The orders of one operation: keys of the store, of the snapshot, of the enabled chains, and arrivals.\<close>

record round =
  rd_store :: "string list"
  rd_snapshot :: "string list"
  rd_enabled :: "string list"
  rd_arrivals :: "string list"
  rd_pairs :: "(string \<times> string) list"

datatype manager_error =
    MgConfig config_error | MgFetch "fetch_error list" | MgChain string new_chain_error | MgNotFound string | MgNotActive string
  | MgNoClient string | MgPour chain_error | MgTransfer tx_error

definition zero_drip :: drip_policy where
  "zero_drip = \<lparr>dp_anonymous = '''', dp_signed = '''', dp_max_per_address_per_day = '''', dp_memo = ''''\<rparr>"

definition zero_config :: chain_config where
  "zero_config = \<lparr>cc_chain_id = '''', cc_standalone = False, cc_enabled = None, cc_chain_name = None, cc_network_type = None,
     cc_key_algo = None, cc_bech32_prefix = None, cc_slip44 = None, cc_endpoints = None, cc_fee_tokens = [], cc_block_time = None,
     cc_drip = \<lparr>dc_anonymous = '''', dc_signed = '''', dc_max_per_address_per_day = '''', dc_memo = ''''\<rparr>,
     cc_distributors = 0, cc_batch_window = '''', cc_max_recipients_per_batch = 0, cc_max_queue_depth = 0,
     cc_refill_threshold = '''', cc_refill_interval = '''', cc_ibc = \<lparr>ibc_timeout = '''', ibc_drips = []\<rparr>\<rparr>"

definition dripFor :: "manager \<Rightarrow> string \<Rightarrow> drip_policy" where
  "dripFor m chainID = (case mg_drips m chainID of None \<Rightarrow> zero_drip | Some d \<Rightarrow> d)"

definition cfgFor :: "manager \<Rightarrow> string \<Rightarrow> chain_config" where
  "cfgFor m chainID = (case mg_cfgs m chainID of None \<Rightarrow> zero_config | Some c \<Rightarrow> c)"

definition buildDripMap :: "chains_config \<Rightarrow> string \<rightharpoonup> drip_policy" where
  "buildDripMap cfg =
     fold (\<lambda>c m. m(cc_chain_id c \<mapsto>
       \<lparr>dp_anonymous = dc_anonymous (cc_drip c), dp_signed = dc_signed (cc_drip c),
        dp_max_per_address_per_day = dc_max_per_address_per_day (cc_drip c), dp_memo = dc_memo (cc_drip c)\<rparr>)) (cfg_chains cfg) Map.empty"

definition buildChainCfgMap :: "chains_config \<Rightarrow> string \<rightharpoonup> chain_config" where
  "buildChainCfgMap cfg = fold (\<lambda>c m. m(cc_chain_id c \<mapsto> c)) (cfg_chains cfg) Map.empty"

definition close_chain :: "managed \<Rightarrow> managed" where "close_chain c = c\<lparr>mc_closed := True\<rparr>"

definition refresh_chain :: "chain_info \<Rightarrow> drip_policy \<Rightarrow> managed \<Rightarrow> managed" where
  "refresh_chain info drip c = c\<lparr>mc_chain := (mc_chain c)\<lparr>ch_info := info, ch_drip := drip\<rparr>\<rparr>"

definition build_chain :: "manager_env \<Rightarrow> manager \<Rightarrow> string \<Rightarrow> chain_info \<Rightarrow> (new_chain_error, chain) result" where
  "build_chain env m chainID info = newChain (me_duration env) (me_tx_new env) (me_address env chainID) info (dripFor m chainID) (cfgFor m chainID)"

definition enabled_infos :: "string list \<Rightarrow> registry_store \<Rightarrow> string \<rightharpoonup> chain_info" where
  "enabled_infos order s =
     fold (\<lambda>info m. if ci_enabled info then m(ci_chain_id info \<mapsto> info) else m) (List_chains order s) Map.empty"

definition close_disabled :: "(string \<rightharpoonup> chain_info) \<Rightarrow> manager \<Rightarrow> manager" where
  "close_disabled enabled m =
     m\<lparr>mg_chains := (\<lambda>chainID. map_option (\<lambda>c. if enabled chainID = None then close_chain c else c) (mg_chains m chainID))\<rparr>"

fun reconcile_loop ::
    "manager_env \<Rightarrow> (string \<rightharpoonup> chain_info) \<Rightarrow> string list \<Rightarrow> manager \<Rightarrow> (string \<rightharpoonup> managed) \<Rightarrow> (manager_error, unit) result \<times> manager" where
  "reconcile_loop env enabled [] m active = (Ok (), m\<lparr>mg_chains := active\<rparr>)"
| "reconcile_loop env enabled (chainID # ids) m active =
     (case enabled chainID of
        None \<Rightarrow> reconcile_loop env enabled ids m active
      | Some info \<Rightarrow>
          (case mg_chains m chainID of
             Some c \<Rightarrow>
               let c' = refresh_chain info (dripFor m chainID) c
               in reconcile_loop env enabled ids (m\<lparr>mg_chains := (mg_chains m)(chainID \<mapsto> c')\<rparr>) (active(chainID \<mapsto> c'))
           | None \<Rightarrow>
               (case build_chain env m chainID info of
                  Inl e \<Rightarrow>
                    (Err (MgChain chainID e),
                     m\<lparr>mg_chains := (\<lambda>i. map_option (\<lambda>c. if active i = None then c else close_chain c) (mg_chains m i))\<rparr>)
                | Inr c \<Rightarrow>
                    reconcile_loop env enabled ids m
                      (active(chainID \<mapsto> \<lparr>mc_chain = c, mc_closed = False, mc_started = mg_started m\<rparr>)))))"

definition reconcile :: "manager_env \<Rightarrow> round \<Rightarrow> manager \<Rightarrow> (manager_error, unit) result \<times> manager" where
  "reconcile env rd m =
     (let enabled = enabled_infos (rd_store rd) (mg_store m)
      in reconcile_loop env enabled (rd_enabled rd) (close_disabled enabled m) Map.empty)"

definition closeAll :: "manager \<Rightarrow> manager" where "closeAll m = m\<lparr>mg_chains := Map.empty\<rparr>"

definition manager_New :: "manager_env \<Rightarrow> round \<Rightarrow> chains_config \<Rightarrow> (manager_error, manager) result" where
  "manager_New env rd cfg =
     (case ToOverrideSet (me_duration env) cfg of
        Inl e \<Rightarrow> Err (MgConfig e)
      | Inr ov \<Rightarrow>
          (case ToStandaloneInfos (me_dl env) (me_duration env) cfg of
             Inl e \<Rightarrow> Err (MgConfig e)
           | Inr standalones \<Rightarrow>
               let s0 = AddStandalone (me_dl env) (me_now env) standalones (New_store (Some ov));
                   ids = EnabledRegistryChainIDs cfg;
                   mk = (\<lambda>s fetched. \<lparr>mg_store = s, mg_drips = buildDripMap cfg, mg_cfgs = buildChainCfgMap cfg, mg_registry_ids = ids,
                          mg_base_url = rc_base_url (cfg_registry cfg), mg_chains = Map.empty, mg_last_fetched = fetched, mg_started = False\<rparr>);
                   finish = (\<lambda>m. case reconcile env rd m of (Inl e, _) \<Rightarrow> Err e | (Inr _, m') \<Rightarrow> Ok m')
               in if ids = [] then finish (mk s0 None)
                  else case FetchLive (me_http env) (rc_base_url (cfg_registry cfg)) (rd_arrivals rd) (rd_pairs rd) of
                         Inl es \<Rightarrow> Err (MgFetch es)
                       | Inr snap \<Rightarrow>
                           finish (mk (fst (UpdateLive (me_dl env) (rd_snapshot rd) (rd_store rd) (me_now env) snap s0)) (Some (me_now env)))))"

definition manager_Start :: "manager \<Rightarrow> manager" where
  "manager_Start m = m\<lparr>mg_started := True, mg_chains := map_option (\<lambda>c. c\<lparr>mc_started := True\<rparr>) \<circ> mg_chains m\<rparr>"

definition manager_Pour :: "string \<Rightarrow> batch_request \<Rightarrow> manager \<Rightarrow> (manager_error, unit) result \<times> manager" where
  "manager_Pour chainID req m =
     (case mg_chains m chainID of
        None \<Rightarrow> (Err (MgNotFound chainID), m)
      | Some c \<Rightarrow>
          (case Chain_Pour req (mc_chain c) of
             (Inl e, ch) \<Rightarrow> (Err (MgPour e), m\<lparr>mg_chains := (mg_chains m)(chainID \<mapsto> c\<lparr>mc_chain := ch\<rparr>)\<rparr>)
           | (Inr _, ch) \<Rightarrow> (Ok (), m\<lparr>mg_chains := (mg_chains m)(chainID \<mapsto> c\<lparr>mc_chain := ch\<rparr>)\<rparr>)))"

definition GetChain :: "manager \<Rightarrow> string \<Rightarrow> managed option" where "GetChain m chainID = mg_chains m chainID"

record chain_snapshot =
  snp_info :: chain_info
  snp_drip :: drip_policy
  snp_ibc_timeout :: int
  snp_ibc_drips :: "ibc_drip_config list"

definition snapshot_of :: "managed \<Rightarrow> chain_snapshot" where
  "snapshot_of c =
     \<lparr>snp_info = ch_info (mc_chain c), snp_drip = ch_drip (mc_chain c), snp_ibc_timeout = ch_ibc_timeout (mc_chain c),
      snp_ibc_drips = ch_ibc_drips (mc_chain c)\<rparr>"

definition GetActive :: "manager \<Rightarrow> string \<Rightarrow> chain_snapshot option" where
  "GetActive m chainID = map_option snapshot_of (mg_chains m chainID)"

text \<open>\<^verbatim>\<open>order\<close> is the iteration order of \<^verbatim>\<open>m.chains\<close>.\<close>

definition ListActive :: "string list \<Rightarrow> manager \<Rightarrow> chain_snapshot list" where
  "ListActive order m = sort_key (\<lambda>s. ci_chain_id (snp_info s)) (List.map_filter (GetActive m) order)"

definition PendingFrozenCount :: "(string \<times> field) list \<Rightarrow> manager \<Rightarrow> nat" where
  "PendingFrozenCount order m = length (Pending order (mg_store m))"

text \<open>The client of an active chain: \<^const>\<open>None\<close> for a chain that only receives IBC transfers.\<close>

definition Clients :: "manager \<Rightarrow> string \<rightharpoonup> bool" where
  "Clients m chainID = map_option (\<lambda>c. ch_client (mc_chain c)) (mg_chains m chainID)"

text \<open>\<^verbatim>\<open>send\<close> is \<^verbatim>\<open>BuildAndBroadcastTransfer\<close> of the client of the source chain.\<close>

definition IBCTransfer ::
    "(transfer_request \<Rightarrow> (tx_error, transfer_result) result) \<Rightarrow> manager \<Rightarrow> string \<Rightarrow> transfer_request \<Rightarrow> (manager_error, transfer_result) result" where
  "IBCTransfer send m sourceChainID req =
     (case mg_chains m sourceChainID of
        None \<Rightarrow> Err (MgNotActive sourceChainID)
      | Some src \<Rightarrow>
          if \<not> ch_client (mc_chain src) then Err (MgNoClient sourceChainID)
          else (case send req of Inl e \<Rightarrow> Err (MgTransfer e) | Inr r \<Rightarrow> Ok r))"

definition Refresh :: "manager_env \<Rightarrow> round \<Rightarrow> manager \<Rightarrow> (manager_error, change_set option) result \<times> manager" where
  "Refresh env rd m =
     (if mg_registry_ids m = [] then (Ok None, m)
      else case FetchLive (me_http env) (mg_base_url m) (rd_arrivals rd) (rd_pairs rd) of
             Inl es \<Rightarrow> (Err (MgFetch es), m)
           | Inr snap \<Rightarrow>
               (case UpdateLive (me_dl env) (rd_snapshot rd) (rd_store rd) (me_now env) snap (mg_store m) of
                  (s, cs) \<Rightarrow>
                    (case reconcile env rd (m\<lparr>mg_store := s, mg_last_fetched := Some (me_now env)\<rparr>) of
                       (Inl e, m') \<Rightarrow> (Err e, m')
                     | (Inr _, m') \<Rightarrow> (Ok (Some cs), m'))))"

definition Reload :: "manager_env \<Rightarrow> round \<Rightarrow> chains_config \<Rightarrow> manager \<Rightarrow> (manager_error, unit) result \<times> manager" where
  "Reload env rd cfg m =
     (case ToOverrideSet (me_duration env) cfg of
        Inl e \<Rightarrow> (Err (MgConfig e), m)
      | Inr ov \<Rightarrow>
          reconcile env rd
            (m\<lparr>mg_drips := buildDripMap cfg, mg_cfgs := buildChainCfgMap cfg,
               mg_store := SetOverrides (me_dl env) (rd_store rd) (me_now env) (Some ov) (mg_store m)\<rparr>))"

text \<open>One turn of \<^verbatim>\<open>refreshLoop\<close> after the ticker fired: the index of the back-off and the manager; the error is only logged.\<close>

definition refreshBackoff :: "int list" where
  "refreshBackoff = map (\<lambda>n. n * 60 * 1000000000) [1, 5, 15, 30, 60]"

definition backoff_delay :: "nat \<Rightarrow> int" where
  "backoff_delay i = refreshBackoff ! min i (length refreshBackoff - 1)"

definition refresh_tick :: "manager_env \<Rightarrow> round \<Rightarrow> nat \<times> manager \<Rightarrow> nat \<times> manager" where
  "refresh_tick env rd st =
     (case st of (backoffIdx, m) \<Rightarrow>
        case FetchLive (me_http env) (mg_base_url m) (rd_arrivals rd) (rd_pairs rd) of
          Inl _ \<Rightarrow> (backoffIdx + 1, m)
        | Inr snap \<Rightarrow>
            (0, snd (reconcile env rd
                  (m\<lparr>mg_store := fst (UpdateLive (me_dl env) (rd_snapshot rd) (rd_store rd) (me_now env) snap (mg_store m))\<rparr>))))"

text \<open>\<^verbatim>\<open>devnet_watcher.go\<close>: the reply to \<^verbatim>\<open>/status\<close> is the text of the height, if the body decodes.\<close>

definition fetchBlockHeight :: "string http_outcome \<Rightarrow> int option" where
  "fetchBlockHeight reply =
     (case reply of
        BuildRequestFails \<Rightarrow> None
      | DoFails \<Rightarrow> None
      | Response status body \<Rightarrow> if status \<noteq> 200 then None else Option.bind body parse_int64)"

definition resetChain :: "manager_env \<Rightarrow> bool \<Rightarrow> string \<Rightarrow> manager \<times> gas_table \<Rightarrow> manager \<times> gas_table" where
  "resetChain env fault chainID st =
     (case st of (m, gas) \<Rightarrow>
        case mg_chains m chainID of
          None \<Rightarrow> (m, gas)
        | Some c \<Rightarrow>
            (case newChain (me_duration env) (me_tx_new env) (me_address env chainID) (ch_info (mc_chain c)) (ch_drip (mc_chain c)) (cfgFor m chainID) of
               Inl _ \<Rightarrow> (m\<lparr>mg_chains := (mg_chains m)(chainID \<mapsto> close_chain c)\<rparr>, gas)
             | Inr fresh \<Rightarrow>
                 (m\<lparr>mg_chains := (mg_chains m)(chainID \<mapsto> \<lparr>mc_chain = fresh, mc_closed = False, mc_started = mg_started m\<rparr>)\<rparr>,
                  snd (gc_Reset fault chainID gas))))"

record watcher =
  w_prev :: int
  w_manager :: manager
  w_gas :: gas_table

definition watch_tick :: "string \<Rightarrow> manager_env \<Rightarrow> bool \<Rightarrow> string http_outcome \<Rightarrow> watcher \<Rightarrow> watcher" where
  "watch_tick chainID env fault reply w =
     (case fetchBlockHeight reply of
        None \<Rightarrow> w
      | Some h \<Rightarrow>
          if w_prev w \<ge> 0 \<and> h < w_prev w
          then (case resetChain env fault chainID (w_manager w, w_gas w) of (m, gas) \<Rightarrow> \<lparr>w_prev = h, w_manager = m, w_gas = gas\<rparr>)
          else w\<lparr>w_prev := h\<rparr>)"

text \<open>The orders of a round are orders of the store at hand: its keys are its chains' own ids, \<^verbatim>\<open>List\<close> visits all of them, and the loop
  visits each enabled one once.\<close>

definition orders_fit :: "round \<Rightarrow> registry_store \<Rightarrow> bool" where
  "orders_fit rd s \<longleftrightarrow>
     (\<forall>i info. st_chains s i = Some info \<longrightarrow> ci_chain_id info = i) \<and> dom (st_chains s) \<subseteq> set (rd_store rd) \<and>
     distinct (rd_enabled rd) \<and> set (rd_enabled rd) = {i. \<exists>info. st_chains s i = Some info \<and> ci_enabled info}"

text \<open>What a reconcile makes of the chains, as a function: a chain that stays keeps its object with new information and drip.\<close>

definition reconciled :: "manager_env \<Rightarrow> manager \<Rightarrow> (string \<rightharpoonup> chain_info) \<Rightarrow> string \<rightharpoonup> managed" where
  "reconciled env m enabled chainID =
     (case enabled chainID of
        None \<Rightarrow> None
      | Some info \<Rightarrow>
          (case mg_chains m chainID of
             Some c \<Rightarrow> Some (refresh_chain info (dripFor m chainID) c)
           | None \<Rightarrow>
               (case build_chain env m chainID info of
                  Inl _ \<Rightarrow> None
                | Inr c \<Rightarrow> Some \<lparr>mc_chain = c, mc_closed = False, mc_started = mg_started m\<rparr>)))"

definition builds :: "manager_env \<Rightarrow> manager \<Rightarrow> (string \<rightharpoonup> chain_info) \<Rightarrow> string \<Rightarrow> bool" where
  "builds env m enabled chainID \<longleftrightarrow>
     (case enabled chainID of None \<Rightarrow> True | Some info \<Rightarrow> mg_chains m chainID = None \<longrightarrow> is_ok (build_chain env m chainID info))"

definition after_prefix :: "manager_env \<Rightarrow> manager \<Rightarrow> (string \<rightharpoonup> chain_info) \<Rightarrow> string list \<Rightarrow> manager" where
  "after_prefix env m enabled ids =
     m\<lparr>mg_chains := (\<lambda>i. if i \<in> set ids \<and> enabled i \<noteq> None \<and> mg_chains m i \<noteq> None then reconciled env m enabled i else mg_chains m i)\<rparr>"

definition active_prefix where
  "active_prefix env m enabled ids active = (\<lambda>i. if i \<in> set ids \<and> enabled i \<noteq> None then reconciled env m enabled i else active i)"

inductive mgr_step :: "manager \<Rightarrow> manager \<Rightarrow> bool" where
  step_refresh: "mgr_step m (snd (Refresh env rd m))"
| step_reload: "mgr_step m (snd (Reload env rd cfg m))"
| step_tick: "mgr_step m (snd (refresh_tick env rd (i, m)))"
| step_pour: "mgr_step m (snd (manager_Pour chainID req m))"

text \<open>Steps during which a chain stays active.\<close>

inductive run_keeping :: "string \<Rightarrow> manager \<Rightarrow> manager \<Rightarrow> bool" for a where
  keep_refl: "run_keeping a m m"
| keep_step: "run_keeping a m m1 \<Longrightarrow> mgr_step m1 m2 \<Longrightarrow> mg_chains m2 a \<noteq> None \<Longrightarrow> run_keeping a m m2"

definition demo_info :: "string \<Rightarrow> chain_info" where
  "demo_info chainID = (rawToInfo ex_dl (ex_raw ''cosmos''))\<lparr>ci_chain_id := chainID, ci_enabled := True,
     ci_endpoints := \<lparr>eps_grpc = [\<lparr>ept_url = chainID @ '':9090'', ept_provider = ''''\<rparr>], eps_rpc = [], eps_rest = []\<rparr>\<rparr>"

definition demo_store :: registry_store where
  "demo_store = (New_store None)\<lparr>st_chains := [''hub-1'' \<mapsto> demo_info ''hub-1'', ''dead-1'' \<mapsto> demo_info ''dead-1'']\<rparr>"

definition demo_menv :: "bool \<Rightarrow> manager_env" where
  "demo_menv works =
     \<lparr>me_dl = ex_dl, me_duration = sample_duration,
      me_tx_new = (\<lambda>info ks. if ci_chain_id info = ''dead-1'' \<and> \<not> works then Some (plain_error ''dial'') else None),
      me_address = (\<lambda>c i. Ok ''addr''), me_http = ex_http, me_now = 0\<rparr>"

definition demo_manager :: manager where
  "demo_manager =
     \<lparr>mg_store = demo_store, mg_drips = Map.empty, mg_cfgs = Map.empty, mg_registry_ids = [], mg_base_url = '''',
      mg_chains = [''hub-1'' \<mapsto> \<lparr>mc_chain = projr (newChain sample_duration (\<lambda>_ _. None) (\<lambda>_. Ok ''addr'') (demo_info ''hub-1'') zero_drip zero_config),
                              mc_closed = False, mc_started = True\<rparr>],
      mg_last_fetched = None, mg_started = True\<rparr>"

definition demo_round :: round where
  "demo_round = \<lparr>rd_store = [''hub-1'', ''dead-1''], rd_snapshot = [], rd_enabled = [''hub-1'', ''dead-1''], rd_arrivals = [], rd_pairs = []\<rparr>"

inductive_cases mgr_stepE: "mgr_step m m'"

subsection \<open>Reconcile\<close>

lemma manager_chains_frame [simp]:
  "dripFor (m\<lparr>mg_chains := x\<rparr>) = dripFor m" "cfgFor (m\<lparr>mg_chains := x\<rparr>) = cfgFor m"
  "build_chain env (m\<lparr>mg_chains := x\<rparr>) = build_chain env m"
  by (simp_all add: fun_eq_iff dripFor_def cfgFor_def build_chain_def)

lemma manager_chains_cong: "(\<And>i. x i = y i) \<Longrightarrow> m\<lparr>mg_chains := x\<rparr> = m\<lparr>mg_chains := y\<rparr>"
  by presburger

lemma manager_chains_eta [simp]: "m\<lparr>mg_chains := mg_chains m\<rparr> = m" by simp

lemma loop_prefix:
  assumes "distinct pre" "\<forall>i \<in> set pre. builds env m enabled i"
  shows "reconcile_loop env enabled (pre @ rest) m active =
    reconcile_loop env enabled rest (after_prefix env m enabled pre) (active_prefix env m enabled pre active)"
  using assms
proof (induction pre arbitrary: m active)
  case (Cons x pre)
  then have x: "x \<notin> set pre" "builds env m enabled x" "distinct pre" by simp_all
  show ?case
  proof (cases "enabled x")
    case None
    have "after_prefix env m enabled (x # pre) = after_prefix env m enabled pre"
      unfolding after_prefix_def using None by (intro manager_chains_cong) auto
    moreover have "active_prefix env m enabled (x # pre) active = active_prefix env m enabled pre active"
      using None by (auto simp: active_prefix_def fun_eq_iff)
    ultimately show ?thesis using None Cons by simp
  next
    case (Some info)
    show ?thesis
    proof (cases "mg_chains m x")
      case (Some c)
      let ?c = "refresh_chain info (dripFor m x) c" and ?m = "m\<lparr>mg_chains := (mg_chains m)(x \<mapsto> refresh_chain info (dripFor m x) c)\<rparr>"
      have r: "reconciled env ?m enabled i = reconciled env m enabled i" if "i \<noteq> x" for i
        using that by (auto simp: reconciled_def split: option.split sum.split)
      have rx: "reconciled env m enabled x = Some ?c" using \<open>enabled x = Some info\<close> Some by (simp add: reconciled_def)
      have "\<forall>i \<in> set pre. builds env ?m enabled i" using Cons.prems(2) x(1) by (auto simp: builds_def split: option.split)
      note IH = Cons.IH[OF x(3) this, of "active(x \<mapsto> ?c)"]
      have "reconcile_loop env enabled ((x # pre) @ rest) m active = reconcile_loop env enabled (pre @ rest) ?m (active(x \<mapsto> ?c))"
        using \<open>enabled x = Some info\<close> Some by (simp add: Let_def)
      moreover note IH
      moreover have "after_prefix env ?m enabled pre = after_prefix env m enabled (x # pre)"
        by (rule manager.equality) (use x(1) r rx \<open>enabled x = Some info\<close> Some in \<open>auto simp: after_prefix_def fun_eq_iff\<close>)
      moreover have "active_prefix env ?m enabled pre (active(x \<mapsto> ?c)) = active_prefix env m enabled (x # pre) active"
        using x(1) r rx \<open>enabled x = Some info\<close> by (auto simp: active_prefix_def fun_eq_iff)
      ultimately show ?thesis by presburger
    next
      case None
      then obtain c where c: "build_chain env m x info = Inr c" using x(2) \<open>enabled x = Some info\<close> by (auto simp: builds_def is_ok_iff)
      let ?c = "\<lparr>mc_chain = c, mc_closed = False, mc_started = mg_started m\<rparr>"
      have rx: "reconciled env m enabled x = Some ?c" using \<open>enabled x = Some info\<close> None c by (simp add: reconciled_def)
      have "\<forall>i \<in> set pre. builds env m enabled i" using Cons.prems(2) by simp
      note IH = Cons.IH[OF x(3) this, of "active(x \<mapsto> ?c)"]
      have "reconcile_loop env enabled ((x # pre) @ rest) m active = reconcile_loop env enabled (pre @ rest) m (active(x \<mapsto> ?c))"
        using \<open>enabled x = Some info\<close> None c by simp
      moreover note IH
      moreover have "after_prefix env m enabled pre = after_prefix env m enabled (x # pre)"
        unfolding after_prefix_def using None by (intro manager_chains_cong) auto
      moreover have "active_prefix env m enabled pre (active(x \<mapsto> ?c)) = active_prefix env m enabled (x # pre) active"
        using x(1) rx \<open>enabled x = Some info\<close> by (auto simp: active_prefix_def fun_eq_iff)
      ultimately show ?thesis by presburger
    qed
  qed
qed (simp add: after_prefix_def active_prefix_def)

lemma loop_fails:
  assumes "enabled x = Some info" "mg_chains m x = None" "build_chain env m x info = Inl e"
  shows "reconcile_loop env enabled (x # ids) m active =
    (Err (MgChain x e), m\<lparr>mg_chains := (\<lambda>i. map_option (\<lambda>c. if active i = None then c else close_chain c) (mg_chains m i))\<rparr>)"
  using assms by simp

lemma close_disabled_enabled: "enabled i \<noteq> None \<Longrightarrow> mg_chains (close_disabled enabled m) i = mg_chains m i"
  by (cases "mg_chains m i") (auto simp: close_disabled_def)

lemma close_disabled_frame [simp]:
  "dripFor (close_disabled enabled m) = dripFor m" "build_chain env (close_disabled enabled m) = build_chain env m"
  "mg_started (close_disabled enabled m) = mg_started m"
  by (simp_all add: close_disabled_def)

lemma reconciled_close_disabled: "reconciled env (close_disabled enabled m) enabled = reconciled env m enabled"
  by (auto simp: fun_eq_iff reconciled_def close_disabled_enabled split: option.split sum.split)

lemma builds_close_disabled: "builds env (close_disabled enabled m) enabled i = builds env m enabled i"
  by (cases "enabled i") (simp_all add: builds_def close_disabled_enabled)

text \<open>Reconcile is independent of the iteration order: it succeeds when every enabled chain that is not yet active can be built.\<close>

lemma reconcile_reconciled:
  assumes "distinct (rd_enabled rd)" "set (rd_enabled rd) = dom (enabled_infos (rd_store rd) (mg_store m))"
  shows "(is_ok (fst (reconcile env rd m)) \<longleftrightarrow>
      (\<forall>i info. enabled_infos (rd_store rd) (mg_store m) i = Some info \<longrightarrow> mg_chains m i = None \<longrightarrow> is_ok (build_chain env m i info))) \<and>
    (is_ok (fst (reconcile env rd m)) \<longrightarrow>
      snd (reconcile env rd m) = m\<lparr>mg_chains := reconciled env m (enabled_infos (rd_store rd) (mg_store m))\<rparr>)"
proof -
  define enabled where "enabled = enabled_infos (rd_store rd) (mg_store m)"
  let ?m = "close_disabled enabled m"
  have rec: "reconcile env rd m = reconcile_loop env enabled (rd_enabled rd @ []) ?m Map.empty"
    by (simp add: reconcile_def enabled_def Let_def)
  have ok: "reconcile env rd m = (Ok (), m\<lparr>mg_chains := reconciled env m enabled\<rparr>)" if b: "\<forall>i \<in> set (rd_enabled rd). builds env m enabled i"
  proof -
    have "active_prefix env ?m enabled (rd_enabled rd) Map.empty = reconciled env m enabled"
      using assms(2) by (auto simp: active_prefix_def fun_eq_iff reconciled_close_disabled enabled_def[symmetric] reconciled_def dom_def)
    then show ?thesis
      unfolding rec using loop_prefix[OF assms(1), of env ?m enabled "[]" Map.empty] b
      by (simp add: builds_close_disabled) (simp add: after_prefix_def close_disabled_def)
  qed
  have fail: "\<not> is_ok (fst (reconcile env rd m))" if nb: "\<not> (\<forall>i \<in> set (rd_enabled rd). builds env m enabled i)"
  proof -
    obtain pre x post where sp: "rd_enabled rd = pre @ x # post" "\<forall>i \<in> set pre. builds env m enabled i" "\<not> builds env m enabled x"
      using split_list_first_prop[of "rd_enabled rd" "\<lambda>i. \<not> builds env m enabled i"] nb by blast
    then obtain info e where x: "enabled x = Some info" "mg_chains m x = None" "build_chain env m x info = Inl e"
      by (cases "enabled x") (auto simp: builds_def is_ok_iff split: sum.splits, metis sum.exhaust)
    have d: "distinct pre" "x \<notin> set pre" using assms(1) sp(1) by simp_all
    have "mg_chains (after_prefix env ?m enabled pre) x = None" using x d by (simp add: after_prefix_def close_disabled_enabled)
    then show ?thesis
      unfolding rec sp(1) append_assoc append_Cons using loop_prefix[OF d(1), of env ?m enabled "x # post" Map.empty] sp(2) x
      by (simp add: builds_close_disabled loop_fails after_prefix_def)
  qed
  have iff: "(\<forall>i \<in> set (rd_enabled rd). builds env m enabled i) \<longleftrightarrow>
      (\<forall>i info. enabled i = Some info \<longrightarrow> mg_chains m i = None \<longrightarrow> is_ok (build_chain env m i info))"
    using assms(2) by (auto simp: builds_def enabled_def[symmetric] split: option.split)
  have "is_ok (fst (reconcile env rd m)) \<longleftrightarrow> (\<forall>i \<in> set (rd_enabled rd). builds env m enabled i)"
    using ok fail by (fastforce simp: is_ok_iff)
  moreover have "is_ok (fst (reconcile env rd m)) \<longrightarrow> snd (reconcile env rd m) = m\<lparr>mg_chains := reconciled env m enabled\<rparr>"
    using ok fail by (metis snd_conv)
  ultimately show ?thesis using iff by (simp add: enabled_def)
qed

text \<open>The enabled chains are those the store has enabled, when the store knows its chains by their own ids.\<close>

lemma enabled_infos_store:
  assumes "\<And>i info. st_chains s i = Some info \<Longrightarrow> ci_chain_id info = i" "dom (st_chains s) \<subseteq> set order"
  shows "enabled_infos order s i = (case st_chains s i of None \<Rightarrow> None | Some info \<Rightarrow> if ci_enabled info then Some info else None)"
proof -
  have f: "fold (\<lambda>info m. if ci_enabled info then m(ci_chain_id info \<mapsto> info) else m) xs m i =
      (case find (\<lambda>info. ci_chain_id info = i \<and> ci_enabled info) (rev xs) of None \<Rightarrow> m i | Some info \<Rightarrow> Some info)" for xs m
    by (induction xs rule: rev_induct) auto
  have mem: "info \<in> set (List_chains order s) \<longleftrightarrow> (\<exists>j. st_chains s j = Some info)" for info
    using assms(2) by (force simp: List_chains_def List.map_filter_def)
  show ?thesis
  proof (cases "\<exists>info. st_chains s i = Some info \<and> ci_enabled info")
    case True
    then obtain info where info: "st_chains s i = Some info" "ci_enabled info" by blast
    have "info \<in> set (rev (List_chains order s))" using mem info by auto
    moreover have "x = info" if "x \<in> set (rev (List_chains order s))" "ci_chain_id x = i" for x
      using that mem assms(1) info by auto
    moreover have "x \<in> set xs \<and> P x" if "find P xs = Some x" for P x and xs :: "chain_info list"
      using that by (auto simp: find_Some_iff)
    ultimately have "find (\<lambda>info. ci_chain_id info = i \<and> ci_enabled info) (rev (List_chains order s)) = Some info"
      using assms(1)[OF info(1)] info(2)
      by (cases "find (\<lambda>info. ci_chain_id info = i \<and> ci_enabled info) (rev (List_chains order s))") (fastforce simp: find_None_iff)+
    then show ?thesis using info by (simp add: enabled_infos_def f)
  next
    case False
    then have "find (\<lambda>info. ci_chain_id info = i \<and> ci_enabled info) (rev (List_chains order s)) = None"
      using mem assms(1) by (auto simp: find_None_iff)
    then show ?thesis using False by (auto simp: enabled_infos_def f split: option.split)
  qed
qed

lemma orders_fit_enabled:
  assumes "orders_fit rd s"
  shows "enabled_infos (rd_store rd) s i = (case st_chains s i of None \<Rightarrow> None | Some info \<Rightarrow> if ci_enabled info then Some info else None)"
    and "set (rd_enabled rd) = dom (enabled_infos (rd_store rd) s)" "distinct (rd_enabled rd)"
proof -
  show e: "enabled_infos (rd_store rd) s i = (case st_chains s i of None \<Rightarrow> None | Some info \<Rightarrow> if ci_enabled info then Some info else None)" for i
    using assms by (intro enabled_infos_store) (auto simp: orders_fit_def)
  show "set (rd_enabled rd) = dom (enabled_infos (rd_store rd) s)" "distinct (rd_enabled rd)"
    using assms by (auto simp: orders_fit_def dom_def e split: option.splits if_splits)
qed

text \<open>C34: Reconcile is correct and independent of iteration order. It succeeds exactly when every chain that the registry store has enabled and that is
  not yet active can be built from the store's information and the configured drip and chain settings. Then a chain is active exactly when
  the store has it enabled. A chain that was active keeps everything it had (queues, failure streaks, suspension, connection) except
  its information, which becomes that of the store, and its drip, which becomes the configured one or the empty one; a new chain is
  the one built, open, and started if the manager is. Nothing else of the manager changes.\<close>

theorem reconcile_correct:
  assumes "orders_fit rd (mg_store m)"
  shows "(is_ok (fst (reconcile env rd m)) \<longleftrightarrow>
      (\<forall>i info. st_chains (mg_store m) i = Some info \<and> ci_enabled info \<and> mg_chains m i = None \<longrightarrow>
         is_ok (newChain (me_duration env) (me_tx_new env) (me_address env i) info
           (case_option zero_drip id (mg_drips m i)) (case_option zero_config id (mg_cfgs m i))))) \<and>
    (\<forall>m'. reconcile env rd m = (Ok (), m') \<longrightarrow> m' = m\<lparr>mg_chains := mg_chains m'\<rparr> \<and>
      (\<forall>i. mg_chains m' i \<noteq> None \<longleftrightarrow> (\<exists>info. st_chains (mg_store m) i = Some info \<and> ci_enabled info)) \<and>
      (\<forall>i info. st_chains (mg_store m) i = Some info \<and> ci_enabled info \<longrightarrow>
         (case mg_chains m i of
            Some c \<Rightarrow> mg_chains m' i = Some (c\<lparr>mc_chain := (mc_chain c)\<lparr>ch_info := info, ch_drip := case_option zero_drip id (mg_drips m i)\<rparr>\<rparr>)
          | None \<Rightarrow> \<exists>c. newChain (me_duration env) (me_tx_new env) (me_address env i) info
                (case_option zero_drip id (mg_drips m i)) (case_option zero_config id (mg_cfgs m i)) = Ok c \<and>
              mg_chains m' i = Some \<lparr>mc_chain = c, mc_closed = False, mc_started = mg_started m\<rparr>)))"
proof -
  let ?new = "\<lambda>i info. newChain (me_duration env) (me_tx_new env) (me_address env i) info (case_option zero_drip id (mg_drips m i))
    (case_option zero_config id (mg_cfgs m i))"
  note f = orders_fit_enabled[OF assms]
  have en: "enabled_infos (rd_store rd) (mg_store m) i = Some info \<longleftrightarrow> st_chains (mg_store m) i = Some info \<and> ci_enabled info" for i info
    by (auto simp: f(1) split: option.splits if_splits)
  have b: "build_chain env m i info = ?new i info" for i info by (simp add: build_chain_def dripFor_def cfgFor_def split: option.split)
  note r = reconcile_reconciled[OF f(3,2), of env]
  have ok: "is_ok (fst (reconcile env rd m)) \<longleftrightarrow>
      (\<forall>i info. st_chains (mg_store m) i = Some info \<and> ci_enabled info \<and> mg_chains m i = None \<longrightarrow> is_ok (?new i info))"
    using r by (auto simp: en b)
  have rec: "mg_chains m' i = reconciled env m (enabled_infos (rd_store rd) (mg_store m)) i" "m' = m\<lparr>mg_chains := mg_chains m'\<rparr>"
    "\<And>info. st_chains (mg_store m) i = Some info \<Longrightarrow> ci_enabled info \<Longrightarrow> mg_chains m i = None \<Longrightarrow> is_ok (?new i info)"
    if "reconcile env rd m = (Ok (), m')" for m' i
    using r ok that by auto
  have out: "mg_chains m' i = None" if "reconcile env rd m = (Ok (), m')" "enabled_infos (rd_store rd) (mg_store m) i = None" for m' i
    using rec(1)[OF that(1), of i] that(2) by (simp add: reconciled_def)
  have inn: "case mg_chains m i of
        Some c \<Rightarrow> mg_chains m' i = Some (c\<lparr>mc_chain := (mc_chain c)\<lparr>ch_info := info, ch_drip := case_option zero_drip id (mg_drips m i)\<rparr>\<rparr>)
      | None \<Rightarrow> \<exists>c. ?new i info = Ok c \<and> mg_chains m' i = Some \<lparr>mc_chain = c, mc_closed = False, mc_started = mg_started m\<rparr>"
    if "reconcile env rd m = (Ok (), m')" "st_chains (mg_store m) i = Some info" "ci_enabled info" for m' i info
    using rec(1,3)[OF that(1), of i] that(2,3)
    by (cases "mg_chains m i") (auto simp: en reconciled_def b refresh_chain_def dripFor_def is_ok_iff split: option.splits)
  have act: "mg_chains m' i \<noteq> None \<longleftrightarrow> (\<exists>info. st_chains (mg_store m) i = Some info \<and> ci_enabled info)" if "reconcile env rd m = (Ok (), m')" for m' i
    using out[OF that, of i] inn[OF that, of i] en[of i] by (cases "enabled_infos (rd_store rd) (mg_store m) i") (auto split: option.splits)
  show ?thesis using ok rec(2) inn act by blast
qed

subsection \<open>A chain that was closed stays closed\<close>

lemma reconcile_loop_closed:
  assumes "mg_chains m a = Some c" "mc_closed c" "\<And>c'. active a = Some c' \<Longrightarrow> mc_closed c'"
    and "mg_chains (snd (reconcile_loop env enabled ids m active)) a = Some c''"
  shows "mc_closed c''"
  using assms
proof (induction ids arbitrary: m active c)
  case (Cons x ids)
  show ?case
  proof (cases "enabled x")
    case None
    then show ?thesis using Cons.IH[OF Cons.prems(1-3)] Cons.prems(4) by simp
  next
    case (Some info)
    show ?thesis
    proof (cases "mg_chains m x")
      case (Some d)
      let ?d = "refresh_chain info (dripFor m x) d"
      have "mc_closed ?d = mc_closed d" by (simp add: refresh_chain_def)
      let ?m = "m\<lparr>mg_chains := (mg_chains m)(x \<mapsto> ?d)\<rparr>"
      from \<open>mc_closed ?d = mc_closed d\<close> obtain e where e: "mg_chains ?m a = Some e" "mc_closed e"
        using Cons.prems(1,2) Some by (cases "a = x") auto
      have act: "mc_closed c'" if "(active(x \<mapsto> ?d)) a = Some c'" for c'
        using that Cons.prems(1-3) Some \<open>mc_closed ?d = mc_closed d\<close> by (cases "a = x") auto
      have "mg_chains (snd (reconcile_loop env enabled ids ?m (active(x \<mapsto> ?d)))) a = Some c''"
        using Cons.prems(4) \<open>enabled x = Some info\<close> Some by (simp add: Let_def)
      from Cons.IH[OF e act this] show ?thesis .
    next
      case None
      then have ax: "a \<noteq> x" using Cons.prems(1) by auto
      show ?thesis
      proof (cases "build_chain env m x info")
        case (Inl e)
        then show ?thesis using Cons.prems \<open>enabled x = Some info\<close> None by (auto simp: close_chain_def split: if_splits)
      next
        case (Inr d)
        let ?act = "active(x \<mapsto> \<lparr>mc_chain = d, mc_closed = False, mc_started = mg_started m\<rparr>)"
        have act: "mc_closed c'" if "?act a = Some c'" for c' using that Cons.prems(3) ax by simp
        have "mg_chains (snd (reconcile_loop env enabled ids m ?act)) a = Some c''"
          using Cons.prems(4) \<open>enabled x = Some info\<close> None Inr by simp
        from Cons.IH[OF Cons.prems(1,2) act this] show ?thesis .
      qed
    qed
  qed
qed simp

lemma reconcile_closed:
  assumes "mg_chains m a = Some c" "mc_closed c" "mg_chains (snd (reconcile env rd m)) a = Some c'"
  shows "mc_closed c'"
proof -
  let ?en = "enabled_infos (rd_store rd) (mg_store m)"
  obtain d where "mg_chains (close_disabled ?en m) a = Some d" "mc_closed d"
    using assms(1,2) by (simp add: close_disabled_def close_chain_def)
  from reconcile_loop_closed[OF this, of Map.empty] show ?thesis using assms(3) by (simp add: reconcile_def Let_def)
qed

lemma reconcile_closed_pair:
  "reconcile env rd m = (r, m') \<Longrightarrow> mg_chains m a = Some c \<Longrightarrow> mc_closed c \<Longrightarrow> mg_chains m' a = Some c' \<Longrightarrow> mc_closed c'"
  using reconcile_closed[of m a c env rd c'] by simp

lemma mgr_step_closed:
  assumes "mgr_step m m'" "mg_chains m a = Some c" "mc_closed c" "mg_chains m' a = Some c'"
  shows "mc_closed c'"
  using assms(1)
proof (rule mgr_stepE)
  fix env rd
  assume "m' = snd (Refresh env rd m)"
  then show ?thesis using assms(2-4)
    by (auto simp: Refresh_def dest: reconcile_closed_pair split: if_splits sum.splits prod.splits)
next
  fix env rd cfg
  assume "m' = snd (Reload env rd cfg m)"
  then show ?thesis using assms(2-4)
    by (auto simp: Reload_def dest!: reconcile_closed[rotated 2] split: sum.splits)
next
  fix env rd i
  assume "m' = snd (refresh_tick env rd (i, m))"
  then show ?thesis using assms(2-4)
    by (auto simp: refresh_tick_def dest!: reconcile_closed[rotated 2] split: sum.splits)
next
  fix chainID req
  assume "m' = snd (manager_Pour chainID req m)"
  then show ?thesis using assms(2-4) by (auto simp: manager_Pour_def split: option.splits prod.splits sum.splits if_splits)
qed

lemma run_keeping_closed:
  assumes "run_keeping a m m'" "mg_chains m a = Some c" "mc_closed c"
  shows "\<exists>c'. mg_chains m' a = Some c' \<and> mc_closed c'"
  using assms
proof (induction rule: run_keeping.induct)
  case (keep_step m m1 m2)
  then obtain c1 where "mg_chains m1 a = Some c1" "mc_closed c1" by blast
  then show ?case using mgr_step_closed[OF keep_step(2)] keep_step(3) by auto
qed simp

text \<open>C35: A failed reconcile closes chains that keep being served. When a newly enabled chain cannot be built, every active chain that was
  processed before it has its connection closed but stays in the map of active chains; and as long as it stays enabled, no later refresh, reload or
  request reopens it.\<close>

theorem failed_reconcile_closes_chains:
  assumes "rd_enabled rd = pre @ bad # post" "distinct (rd_enabled rd)" "a \<in> set pre"
    and "enabled_infos (rd_store rd) (mg_store m) a = Some info" "mg_chains m a = Some c"
    and "\<forall>i \<in> set pre. builds env m (enabled_infos (rd_store rd) (mg_store m)) i"
    and "enabled_infos (rd_store rd) (mg_store m) bad = Some badInfo" "mg_chains m bad = None" "build_chain env m bad badInfo = Inl e"
  shows "fst (reconcile env rd m) = Err (MgChain bad e) \<and>
    GetActive (snd (reconcile env rd m)) a = Some (snapshot_of (refresh_chain info (dripFor m a) c)) \<and>
    (\<forall>m'. run_keeping a (snd (reconcile env rd m)) m' \<longrightarrow> (\<exists>c'. mg_chains m' a = Some c' \<and> mc_closed c'))"
proof -
  define enabled where "enabled = enabled_infos (rd_store rd) (mg_store m)"
  note A = assms(4,6,7)[folded enabled_def]
  let ?m = "close_disabled enabled m"
  have d: "distinct pre" "bad \<notin> set pre" using assms(1,2) by simp_all
  let ?p = "after_prefix env ?m enabled pre" and ?act = "active_prefix env ?m enabled pre Map.empty"
  have bad: "mg_chains ?p bad = None" "build_chain env ?p bad badInfo = Inl e"
    using assms(8,9) A(3) d by (simp_all add: after_prefix_def close_disabled_enabled)
  have rec: "reconcile env rd m = (Err (MgChain bad e),
      ?p\<lparr>mg_chains := (\<lambda>i. map_option (\<lambda>c. if ?act i = None then c else close_chain c) (mg_chains ?p i))\<rparr>)"
    using loop_prefix[OF d(1), of env ?m enabled "bad # post" Map.empty] A(2) loop_fails[where enabled = enabled and x = bad and m = ?p and env = env, OF A(3) bad]
    by (simp add: reconcile_def Let_def enabled_def[symmetric] assms(1) builds_close_disabled)
  have ra: "reconciled env ?m enabled a = Some (refresh_chain info (dripFor m a) c)"
    unfolding reconciled_close_disabled using A(1) assms(5) by (simp add: reconciled_def)
  have "mg_chains ?p a = Some (refresh_chain info (dripFor m a) c)" "?act a \<noteq> None"
    using ra A(1) assms(3,5) by (simp_all add: after_prefix_def active_prefix_def close_disabled_enabled)
  then have ca: "mg_chains (snd (reconcile env rd m)) a = Some (close_chain (refresh_chain info (dripFor m a) c))" by (auto simp: rec)
  have "mc_closed (close_chain x)" "snapshot_of (close_chain x) = snapshot_of x" for x by (simp_all add: close_chain_def snapshot_of_def)
  moreover have "fst (reconcile env rd m) = Err (MgChain bad e)" by (simp add: rec)
  moreover have "\<exists>c'. mg_chains m' a = Some c' \<and> mc_closed c'" if "run_keeping a (snd (reconcile env rd m)) m'" for m'
    by (rule run_keeping_closed[OF that ca]) (simp add: close_chain_def)
  ultimately show ?thesis using ca by (simp add: GetActive_def)
qed

subsection \<open>The refresh loop and the watcher\<close>

lemma reconcile_loop_frame:
  "mg_last_fetched (snd (reconcile_loop env enabled ids m active)) = mg_last_fetched m \<and>
   mg_store (snd (reconcile_loop env enabled ids m active)) = mg_store m"
  by (induction ids arbitrary: m active) (simp_all add: Let_def split: option.split sum.split)

lemma reconcile_frame: "mg_last_fetched (snd (reconcile env rd m)) = mg_last_fetched m" "mg_store (snd (reconcile env rd m)) = mg_store m"
  using reconcile_loop_frame by (simp_all add: reconcile_def Let_def close_disabled_def)

text \<open>The periodic refresh never moves the time of the last fetch: only \<^verbatim>\<open>New\<close> and the operator's refresh do.\<close>

lemma refresh_tick_last_fetched: "mg_last_fetched (snd (refresh_tick env rd (i, m))) = mg_last_fetched m"
  by (auto simp: refresh_tick_def reconcile_frame split: sum.split)

lemma Refresh_last_fetched:
  assumes "fst (Refresh env rd m) = Ok (Some cs)"
  shows "mg_last_fetched (snd (Refresh env rd m)) = Some (me_now env)"
proof -
  have "mg_last_fetched m' = Some (me_now env)" if "reconcile env rd (m\<lparr>mg_store := x, mg_last_fetched := Some (me_now env)\<rparr>) = (r, m')" for x r m'
    using reconcile_frame(1)[of env rd "m\<lparr>mg_store := x, mg_last_fetched := Some (me_now env)\<rparr>"] that by simp
  then show ?thesis using assms by (auto simp: Refresh_def split: if_splits sum.splits prod.splits)
qed

text \<open>The back-off is between a minute and an hour.\<close>

lemma backoff_delay_range: "60 * 1000000000 \<le> backoff_delay i \<and> backoff_delay i \<le> 3600 * 1000000000"
  by (auto simp: backoff_delay_def refreshBackoff_def nth_Cons min_def split: nat.split)

text \<open>A chain is rebuilt only when the height falls, and then starts unsuspended with an empty gas cache entry.\<close>

lemma watch_tick_quiet:
  assumes "\<And>h. fetchBlockHeight reply = Some h \<Longrightarrow> w_prev w < 0 \<or> h \<ge> w_prev w"
  shows "w_manager (watch_tick chainID env fault reply w) = w_manager w" "w_gas (watch_tick chainID env fault reply w) = w_gas w"
  using assms by (auto simp: watch_tick_def split: option.split)

lemma newChain_unsuspended: "newChain pd tn adr info drip cfg = Ok c \<Longrightarrow> \<not> ch_suspended c \<and> ch_info c = info \<and> ch_drip c = drip"
  by (auto simp: newChain_def Let_def rbind_def split: if_splits option.splits sum.splits)

lemma watch_tick_reset:
  assumes "fetchBlockHeight reply = Some h" "0 \<le> w_prev w" "h < w_prev w" "mg_chains (w_manager w) chainID = Some c"
    and "newChain (me_duration env) (me_tx_new env) (me_address env chainID) (ch_info (mc_chain c)) (ch_drip (mc_chain c)) (cfgFor (w_manager w) chainID) = Ok fresh"
  shows "\<exists>c'. mg_chains (w_manager (watch_tick chainID env False reply w)) chainID = Some c' \<and> \<not> mc_closed c' \<and> \<not> ch_suspended (mc_chain c') \<and>
    w_gas (watch_tick chainID env False reply w) chainID = None"
  using assms newChain_unsuspended[OF assms(5)] by (simp add: watch_tick_def resetChain_def gc_Reset_def)

lemma demo_enabled: "enabled_infos [''hub-1'', ''dead-1''] demo_store = [''hub-1'' \<mapsto> demo_info ''hub-1'', ''dead-1'' \<mapsto> demo_info ''dead-1'']"
proof
  fix i
  have "ci_chain_id info = i" if "st_chains demo_store i = Some info" for i info
    using that by (auto simp: demo_store_def New_store_def demo_info_def split: if_splits)
  moreover have "dom (st_chains demo_store) \<subseteq> set [''hub-1'', ''dead-1'']"
    by (auto simp: demo_store_def New_store_def)
  ultimately show "enabled_infos [''hub-1'', ''dead-1''] demo_store i = [''hub-1'' \<mapsto> demo_info ''hub-1'', ''dead-1'' \<mapsto> demo_info ''dead-1''] i"
    using enabled_infos_store[of demo_store "[''hub-1'', ''dead-1'']" i]
    by (simp add: demo_store_def New_store_def demo_info_def)
qed

lemma demo_build: "build_chain (demo_menv works) demo_manager ''dead-1'' (demo_info ''dead-1'') =
    (if works then newChain sample_duration (me_tx_new (demo_menv True)) (\<lambda>_. Ok ''addr'') (demo_info ''dead-1'') zero_drip zero_config
     else Err (NcClient (plain_error ''dial'')))"
  by (simp add: build_chain_def newChain_def dripFor_def cfgFor_def demo_manager_def demo_menv_def demo_info_def zero_drip_def Let_def)

lemma demo_orders: "orders_fit demo_round (mg_store demo_manager)"
  by (auto simp: orders_fit_def demo_round_def demo_manager_def demo_store_def New_store_def demo_info_def split: if_splits)

theorem reconcile_correct_witness:
  "\<exists>m' c. reconcile (demo_menv True) demo_round demo_manager = (Ok (), m') \<and> mg_chains m' ''dead-1'' = Some c \<and> ch_info (mc_chain c) = demo_info ''dead-1'' \<and>
     mc_started c \<and> (\<exists>c. mg_chains m' ''hub-1'' = Some c \<and> ch_drip (mc_chain c) = zero_drip) \<and> mg_chains m' ''other-1'' = None"
proof -
  have s: "st_chains (mg_store demo_manager) = [''hub-1'' \<mapsto> demo_info ''hub-1'', ''dead-1'' \<mapsto> demo_info ''dead-1'']"
    by (simp add: demo_manager_def demo_store_def New_store_def)
  have e: "ci_enabled (demo_info i)" for i by (simp add: demo_info_def)
  have n: "is_ok (newChain (me_duration (demo_menv True)) (me_tx_new (demo_menv True)) (me_address (demo_menv True) ''dead-1'') (demo_info ''dead-1'') zero_drip zero_config)"
    by (simp add: newChain_def demo_menv_def demo_info_def zero_drip_def Let_def)
  have maps: "mg_drips demo_manager = Map.empty" "mg_cfgs demo_manager = Map.empty" "mg_started demo_manager" "mg_chains demo_manager ''dead-1'' = None"
    "mg_chains demo_manager ''hub-1'' \<noteq> None"
    by (simp_all add: demo_manager_def)
  note r = reconcile_correct[OF demo_orders, of "demo_menv True", unfolded s maps(1,2) option.case]
  have "is_ok (fst (reconcile (demo_menv True) demo_round demo_manager))"
    using conjunct1[OF r] n maps(5) by (auto split: if_splits)
  then obtain m' where m': "reconcile (demo_menv True) demo_round demo_manager = (Ok (), m')" by (cases "reconcile (demo_menv True) demo_round demo_manager") (auto simp: is_ok_iff)
  note q = conjunct2[OF r, rule_format, OF m']
  have "mg_chains m' ''other-1'' = None" using q[THEN conjunct2, THEN conjunct1, rule_format, of "''other-1''"] by auto
  moreover obtain c where "newChain (me_duration (demo_menv True)) (me_tx_new (demo_menv True)) (me_address (demo_menv True) ''dead-1'') (demo_info ''dead-1'') zero_drip zero_config = Ok c"
      "mg_chains m' ''dead-1'' = Some \<lparr>mc_chain = c, mc_closed = False, mc_started = True\<rparr>"
    using q[THEN conjunct2, THEN conjunct2, rule_format, of "''dead-1''" "demo_info ''dead-1''"] e maps(3,4) by auto
  moreover from this(1) have "ch_info c = demo_info ''dead-1''"
    by (auto simp: newChain_def demo_menv_def demo_info_def zero_drip_def Let_def)
  moreover have "\<exists>c. mg_chains m' ''hub-1'' = Some c \<and> ch_drip (mc_chain c) = zero_drip"
    using q[THEN conjunct2, THEN conjunct2, rule_format, of "''hub-1''" "demo_info ''hub-1''"] e maps(5) by auto
  ultimately show ?thesis using m' by auto
qed

theorem failed_reconcile_closes_chains_witness:
  "fst (reconcile (demo_menv False) demo_round demo_manager) = Err (MgChain ''dead-1'' (NcClient (plain_error ''dial''))) \<and>
   GetActive (snd (reconcile (demo_menv False) demo_round demo_manager)) ''hub-1'' \<noteq> None \<and>
   (\<exists>c. mg_chains (snd (reconcile (demo_menv False) demo_round demo_manager)) ''hub-1'' = Some c \<and> mc_closed c)"
proof -
  have s: "enabled_infos (rd_store demo_round) (mg_store demo_manager) = [''hub-1'' \<mapsto> demo_info ''hub-1'', ''dead-1'' \<mapsto> demo_info ''dead-1'']"
    using demo_enabled by (simp add: demo_round_def demo_manager_def)
  obtain c where c: "mg_chains demo_manager ''hub-1'' = Some c" by (simp add: demo_manager_def)
  have "fst (reconcile (demo_menv False) demo_round demo_manager) = Err (MgChain ''dead-1'' (NcClient (plain_error ''dial''))) \<and>
    GetActive (snd (reconcile (demo_menv False) demo_round demo_manager)) ''hub-1'' =
      Some (snapshot_of (refresh_chain (demo_info ''hub-1'') (dripFor demo_manager ''hub-1'') c)) \<and>
    (\<forall>m'. run_keeping ''hub-1'' (snd (reconcile (demo_menv False) demo_round demo_manager)) m' \<longrightarrow> (\<exists>c'. mg_chains m' ''hub-1'' = Some c' \<and> mc_closed c'))"
    by (rule failed_reconcile_closes_chains[where pre = "[''hub-1'']" and post = "[]" and badInfo = "demo_info ''dead-1''"])
      (use c in \<open>simp_all add: s demo_build builds_def, simp_all add: demo_round_def demo_manager_def\<close>)
  then show ?thesis using run_keeping.keep_refl by fastforce
qed

end
