(* ===== verification/Handlers.thy ===== *)
theory Handlers
  imports Gate Manager
begin

text \<open>
  \<^verbatim>\<open>internal/http/handlers\<close> and \<^verbatim>\<open>internal/store/drips.go\<close>: the REST endpoints, above all \<^verbatim>\<open>POST /v1/pour\<close>, which ties the gate, the manager, the clients
  and the audit log together. A handler is a function of the request and the state that gives the response, the calls it paid with and the
  new state. Coins leave through three calls only, to the batch pool, to the broadcaster and to the IBC transfer; each is made by one function
  here, which makes the call and logs the very request it made it with, so that what was paid is read from these requests.
  The answers of the client, database failures and clocks are in \<^verbatim>\<open>handler_env\<close>; metrics and logging are left out.

  The lemmas show that coins leave only for admitted requests and that the daily cap therefore bounds what is paid out.
\<close>

record drip_record =
  dr_chain_id :: string
  dr_address :: string
  dr_coins :: string
  dr_requester_ip :: string
  dr_tx_hash :: string
  dr_status :: string
  dr_mechanism :: string
  dr_requested_at :: int
  dr_completed_at :: int

text \<open>The table \<^verbatim>\<open>drips\<close>: rows are only appended and updated, so the id of a row is its position.\<close>

type_synonym drip_table = "drip_record list"

datatype store_error = StoreRecordDrip | StoreUpdateDrip

definition RecordDrip :: "bool \<Rightarrow> drip_record \<Rightarrow> drip_table \<Rightarrow> (store_error, nat) result \<times> drip_table" where
  "RecordDrip fault d0 tbl =
     (let d = (if dr_mechanism d0 = '''' then d0\<lparr>dr_mechanism := ''anonymous''\<rparr> else d0)
      in if fault then (Err StoreRecordDrip, tbl) else (Ok (length tbl + 1), tbl @ [d]))"

definition UpdateDrip :: "bool \<Rightarrow> nat \<Rightarrow> string \<Rightarrow> string \<Rightarrow> int \<Rightarrow> drip_table \<Rightarrow> (store_error, unit) result \<times> drip_table" where
  "UpdateDrip fault dripID status txHash completedAt tbl =
     (if fault then (Err StoreUpdateDrip, tbl)
      else (Ok (), if 1 \<le> dripID \<and> dripID \<le> length tbl
                   then tbl[dripID - 1 := (tbl ! (dripID - 1))\<lparr>dr_status := status, dr_tx_hash := txHash, dr_completed_at := completedAt\<rparr>]
                   else tbl))"

definition StatusQueued :: string where "StatusQueued = ''queued''"
definition StatusConfirmed :: string where "StatusConfirmed = ''confirmed''"
definition StatusFailed :: string where "StatusFailed = ''failed''"

record pour_response =
  prs_drip_id :: nat
  prs_status :: string
  prs_amount :: string
  prs_mechanism :: string
  prs_tx_hash :: string

text \<open>Bodies that carry the text of an error hold the error.\<close>

datatype resp_body = BodyError string | BodyAddress validate_error | BodyGate gate_error | BodyPour pour_response

record http_response =
  rs_status :: nat
  rs_retry_after :: "int option"
  rs_body :: resp_body

definition writeJSON :: "nat \<Rightarrow> resp_body \<Rightarrow> http_response" where
  "writeJSON status b = \<lparr>rs_status = status, rs_retry_after = None, rs_body = b\<rparr>"

definition writeError :: "nat \<Rightarrow> string \<Rightarrow> http_response" where
  "writeError status msg = writeJSON status (BodyError msg)"

text \<open>A call that hands coins over, with the chain it is made on and the request it is made with; its recipient and its coins.\<close>

datatype coin_call = CallQueue string batch_request | CallBroadcast string send_request | CallTransfer string transfer_request

fun call_recipient :: "coin_call \<Rightarrow> string" where
  "call_recipient (CallQueue _ q) = bq_to_address q"
| "call_recipient (CallBroadcast _ q) = sr_to_address q"
| "call_recipient (CallTransfer _ q) = tr_receiver_address q"

fun call_coins :: "coin_call \<Rightarrow> coins" where
  "call_coins (CallQueue _ q) = bq_coins q"
| "call_coins (CallBroadcast _ q) = sr_coins q"
| "call_coins (CallTransfer _ q) = [tr_token q]"

record handler_env =
  he_gate :: gate_env
  he_pourer :: bool
  he_broadcasters :: "string list"
  he_broadcast :: "string \<Rightarrow> send_request \<Rightarrow> (tx_error, broadcast_result) result"
  he_transfer :: "transfer_request \<Rightarrow> (tx_error, transfer_result) result"
  he_record_fault :: bool
  he_request_id :: nat

record handler_state =
  hs_gate :: gate_state
  hs_manager :: manager
  hs_drips :: drip_table

type_synonym pour_outcome = "http_response \<times> coin_call list \<times> handler_state"

definition mechanism_name :: "mechanism \<Rightarrow> string" where
  "mechanism_name m =
     (case m of MechanismAPIKey \<Rightarrow> ''api_key'' | MechanismSigned \<Rightarrow> ''signed'' | MechanismPoW \<Rightarrow> ''pow'' | MechanismAnonymous \<Rightarrow> ''anonymous'')"

definition handlers_extractIP :: "string \<Rightarrow> string" where
  "handlers_extractIP remoteAddr = (case split_host_port remoteAddr of None \<Rightarrow> remoteAddr | Some host \<Rightarrow> host)"

definition findIBCDrip :: "ibc_drip_config list \<Rightarrow> string \<Rightarrow> ibc_drip_config option" where
  "findIBCDrip drips denom =
     find (\<lambda>d. case ParseCoin (idc_anonymous d) of Inl _ \<Rightarrow> False | Inr c \<Rightarrow> coin_denom c = denom) drips"

datatype context_error = CtxAnonymous coin_error | CtxMaxPerDay coin_error | CtxSigned coin_error

definition no_coin :: coin where "no_coin = \<lparr>coin_denom = '''', coin_amount = ''''\<rparr>"

definition buildChainContext :: "chain_snapshot \<Rightarrow> (context_error, chain_context) result" where
  "buildChainContext snap =
     (case ParseCoin (dp_anonymous (snp_drip snap)) of
        Inl e \<Rightarrow> Err (CtxAnonymous e)
      | Inr anonCoin \<Rightarrow>
          (case ParseCoin (dp_max_per_address_per_day (snp_drip snap)) of
             Inl e \<Rightarrow> Err (CtxMaxPerDay e)
           | Inr maxPerDay \<Rightarrow>
               (case (if dp_signed (snp_drip snap) \<noteq> '''' then ParseCoin (dp_signed (snp_drip snap)) else Ok no_coin) of
                  Inl e \<Rightarrow> Err (CtxSigned e)
                | Inr signedCoin \<Rightarrow>
                    Ok \<lparr>cx_chain_id = ci_chain_id (snp_info snap), cx_key_algo = ci_key_algo (snp_info snap), cx_drip_anonymous = anonCoin,
                        cx_drip_signed = signedCoin, cx_max_per_day = maxPerDay\<rparr>)))"

definition buildChainContextIBC :: "chain_snapshot \<Rightarrow> ibc_drip_config \<Rightarrow> (context_error, chain_context) result" where
  "buildChainContextIBC snap ibcDrip =
     (case ParseCoin (idc_anonymous ibcDrip) of
        Inl e \<Rightarrow> Err (CtxAnonymous e)
      | Inr anonCoin \<Rightarrow>
          (case ParseCoin (idc_max_per_address_per_day ibcDrip) of
             Inl e \<Rightarrow> Err (CtxMaxPerDay e)
           | Inr maxPerDay \<Rightarrow>
               Ok \<lparr>cx_chain_id = ci_chain_id (snp_info snap), cx_key_algo = ci_key_algo (snp_info snap), cx_drip_anonymous = anonCoin,
                   cx_drip_signed = no_coin, cx_max_per_day = maxPerDay\<rparr>))"

text \<open>\<^verbatim>\<open>max(1, int(rl.RetryAfter.Seconds()))\<close>: \<^verbatim>\<open>int\<close> truncates, which for negative durations only matters below the maximum.\<close>

definition handleAdmitError :: "gate_error \<Rightarrow> http_response" where
  "handleAdmitError err =
     (case err of
        GateLimiter (RateLimitExceeded retryAfter) \<Rightarrow>
          \<lparr>rs_status = 429, rs_retry_after = Some (max 1 (retryAfter sdiv second)), rs_body = BodyGate err\<rparr>
      | ErrUnauthenticated \<Rightarrow> writeJSON 401 (BodyGate err)
      | ErrForbidden \<Rightarrow> writeJSON 403 (BodyGate err)
      | GatePredicateFailed _ \<Rightarrow> writeJSON 403 (BodyGate err)
      | ErrPoWRequired \<Rightarrow> writeJSON 400 (BodyGate err)
      | ErrBadPoW \<Rightarrow> writeJSON 400 (BodyGate err)
      | ErrNonceRequired \<Rightarrow> writeJSON 400 (BodyGate err)
      | ErrBadNonce \<Rightarrow> writeJSON 400 (BodyGate err)
      | ErrBadSignature \<Rightarrow> writeJSON 400 (BodyGate err)
      | _ \<Rightarrow> writeError 500 ''admission check failed'')"

definition coin_text :: "coin \<Rightarrow> string" where "coin_text c = coin_amount c @ coin_denom c"

text \<open>The call \<^verbatim>\<open>RecordDrip\<close> of a handler: a failure is logged, and the id is then 0.\<close>

definition log_drip :: "handler_env \<Rightarrow> drip_record \<Rightarrow> handler_state \<Rightarrow> nat \<times> handler_state" where
  "log_drip e d st =
     (case RecordDrip (he_record_fault e) d (hs_drips st) of
        (Inl _, tbl) \<Rightarrow> (0, st\<lparr>hs_drips := tbl\<rparr>)
      | (Inr dripID, tbl) \<Rightarrow> (dripID, st\<lparr>hs_drips := tbl\<rparr>))"

text \<open>\<^verbatim>\<open>h.pourer.Pour\<close>: the request is in the pool when there is no error.\<close>

definition queue_coins :: "string \<Rightarrow> batch_request \<Rightarrow> handler_state \<Rightarrow> (manager_error, unit) result \<times> coin_call list \<times> handler_state" where
  "queue_coins chainID req st =
     (case manager_Pour chainID req (hs_manager st) of
        (r, m) \<Rightarrow> (r, if is_ok r then [CallQueue chainID req] else [], st\<lparr>hs_manager := m\<rparr>))"

text \<open>\<^const>\<open>None\<close> stands for the result \<^verbatim>\<open>false\<close>: the caller goes on with the synchronous path.\<close>

definition tryPoolRoute ::
    "handler_env \<Rightarrow> string \<Rightarrow> string \<Rightarrow> coin \<Rightarrow> string \<Rightarrow> string \<Rightarrow> int \<Rightarrow> handler_state \<Rightarrow> pour_outcome option" where
  "tryPoolRoute e chainID address dripCoin ip mechanism now st0 =
     (case queue_coins chainID \<lparr>bq_id = he_request_id e, bq_to_address = address, bq_coins = [dripCoin]\<rparr> st0 of
        (Inr _, calls, st1) \<Rightarrow>
          let (dripID, st) = log_drip e \<lparr>dr_chain_id = chainID, dr_address = address, dr_coins = coin_text dripCoin, dr_requester_ip = ip,
                               dr_tx_hash = '''', dr_status = StatusQueued, dr_mechanism = mechanism, dr_requested_at = now,
                               dr_completed_at = 0\<rparr> st1
          in Some (writeJSON 202 (BodyPour \<lparr>prs_drip_id = dripID, prs_status = StatusQueued, prs_amount = coin_text dripCoin,
                     prs_mechanism = mechanism, prs_tx_hash = ''''\<rparr>),
                   calls, st)
      | (Inl err, calls, st1) \<Rightarrow>
          (case err of
             MgPour ErrSyncMode \<Rightarrow> None
           | MgPour ErrChainSuspended \<Rightarrow> Some (writeError 503 ''chain is suspended'', calls, st1)
           | _ \<Rightarrow> Some (writeError 503 ''faucet busy: try again shortly'', calls, st1)))"

text \<open>\<^verbatim>\<open>dynamicBroadcaster.BuildAndBroadcast\<close> of \<^verbatim>\<open>cmd/pour/main.go\<close>: the client is looked up at the time of the call.\<close>

definition dynamic_broadcast ::
    "handler_env \<Rightarrow> manager \<Rightarrow> string \<Rightarrow> send_request \<Rightarrow> (tx_error, broadcast_result) result" where
  "dynamic_broadcast e m chainID req =
     (case GetChain m chainID of
        None \<Rightarrow> Err (plain_error (''chain '' @ quoted chainID @ '': not found''))
      | Some c \<Rightarrow>
          if \<not> ch_client (mc_chain c) then Err (plain_error (''chain '' @ quoted chainID @ '': no tx client (IBC-destination chain)''))
          else he_broadcast e chainID req)"

definition broadcast_coins ::
    "handler_env \<Rightarrow> manager \<Rightarrow> string \<Rightarrow> send_request \<Rightarrow> (tx_error, broadcast_result) result \<times> coin_call list" where
  "broadcast_coins e m chainID req = (dynamic_broadcast e m chainID req, [CallBroadcast chainID req])"

definition transfer_coins ::
    "handler_env \<Rightarrow> manager \<Rightarrow> string \<Rightarrow> transfer_request \<Rightarrow> (manager_error, transfer_result) result \<times> coin_call list" where
  "transfer_coins e m sourceChainID req = (IBCTransfer (he_transfer e) m sourceChainID req, [CallTransfer sourceChainID req])"

definition pourSync ::
    "handler_env \<Rightarrow> string \<Rightarrow> string \<Rightarrow> coin \<Rightarrow> string \<Rightarrow> string \<Rightarrow> int \<Rightarrow> handler_state \<Rightarrow> pour_outcome" where
  "pourSync e chainID address dripCoin ip mechanism now st0 =
     (if chainID \<notin> set (he_broadcasters e) then (writeError 503 ''chain broadcaster not available'', [], st0)
      else
        (case broadcast_coins e (hs_manager st0) chainID \<lparr>sr_key_index = 0, sr_to_address = address, sr_coins = [dripCoin]\<rparr> of
             (Inl _, calls) \<Rightarrow> (writeError 500 ''broadcast failed'', calls, st0)
           | (Inr result, calls) \<Rightarrow>
               let (dripID, st) = log_drip e \<lparr>dr_chain_id = chainID, dr_address = address, dr_coins = coin_text dripCoin, dr_requester_ip = ip,
                                    dr_tx_hash = br_tx_hash result, dr_status = StatusConfirmed, dr_mechanism = mechanism,
                                    dr_requested_at = now, dr_completed_at = now\<rparr> st0
               in (writeJSON 200 (BodyPour \<lparr>prs_drip_id = dripID, prs_status = StatusConfirmed, prs_amount = coin_text dripCoin,
                     prs_mechanism = mechanism, prs_tx_hash = br_tx_hash result\<rparr>), calls, st)))"

definition pourIBC ::
    "handler_env \<Rightarrow> http_request \<Rightarrow> chain_snapshot \<Rightarrow> string \<Rightarrow> decision \<Rightarrow> ibc_drip_config \<Rightarrow> handler_state \<Rightarrow> pour_outcome" where
  "pourIBC e r destSnap address d ibcDrip st0 =
     (let chainID = ci_chain_id (snp_info destSnap); dripCoin = dec_drip_coin d; now = ge_now (he_gate e)
      in case GetActive (hs_manager st0) (idc_source_chain_id ibcDrip) of
           None \<Rightarrow> (writeError 503 ''source chain not active'', [], st0)
         | Some srcSnap \<Rightarrow>
             let srcName = ci_chain_name (snp_info srcSnap); dstName = ci_chain_name (snp_info destSnap)
             in case SelectChannel (ChannelsFor (mg_store (hs_manager st0)) srcName) srcName dstName of
                  (None, _) \<Rightarrow> (writeError 503 ''no IBC channel to destination chain'', [], st0)
                | (Some ch, _) \<Rightarrow>
                    let (channelID, portID) = (case ChannelFor ch srcName of None \<Rightarrow> ('''', '''') | Some (c, p, _) \<Rightarrow> (c, p));
                        req = \<lparr>tr_key_index = 0, tr_source_port = portID, tr_source_channel = channelID, tr_token = dripCoin,
                               tr_receiver_address = address,
                               tr_timeout_timestamp = to_uint64 (ge_now_ns (he_gate e) + snp_ibc_timeout destSnap), tr_memo = ''''\<rparr>
                    in case transfer_coins e (hs_manager st0) (idc_source_chain_id ibcDrip) req of
                         (Inl _, calls) \<Rightarrow> (writeError 502 ''IBC transfer failed'', calls, st0)
                       | (Inr result, calls) \<Rightarrow>
                           let (dripID, st) = log_drip e \<lparr>dr_chain_id = chainID, dr_address = address, dr_coins = coin_text dripCoin,
                                                dr_requester_ip = handlers_extractIP (hr_remote_addr r), dr_tx_hash = tres_tx_hash result,
                                                dr_status = StatusConfirmed, dr_mechanism = ''ibc'', dr_requested_at = now,
                                                dr_completed_at = now\<rparr> st0
                           in (writeJSON 200 (BodyPour \<lparr>prs_drip_id = dripID, prs_status = StatusConfirmed, prs_amount = coin_text dripCoin,
                                 prs_mechanism = ''ibc'', prs_tx_hash = tres_tx_hash result\<rparr>), calls, st))"

definition admitAndServeIBC ::
    "handler_env \<Rightarrow> http_request \<Rightarrow> pour_request \<Rightarrow> chain_snapshot \<Rightarrow> ibc_drip_config \<Rightarrow> handler_state \<Rightarrow> pour_outcome" where
  "admitAndServeIBC e r req snap ibcDrip st =
     (case buildChainContextIBC snap ibcDrip of
        Inl _ \<Rightarrow> (writeError 500 ''invalid drip config'', [], st)
      | Inr cx \<Rightarrow>
          (case Admit (he_gate e) r req cx (hs_gate st) of
             (Inl err, g) \<Rightarrow> (handleAdmitError err, [], st\<lparr>hs_gate := g\<rparr>)
           | (Inr d, g) \<Rightarrow> pourIBC e r snap (pr_address req) d ibcDrip (st\<lparr>hs_gate := g\<rparr>)))"

text \<open>What follows an admission of the native drip.\<close>

definition serve_native ::
    "handler_env \<Rightarrow> http_request \<Rightarrow> pour_request \<Rightarrow> decision \<Rightarrow> handler_state \<Rightarrow> pour_outcome" where
  "serve_native e r req d st =
     (let ip = handlers_extractIP (hr_remote_addr r); mechanism = mechanism_name (dec_mechanism d); now = ge_now (he_gate e);
          sync = pourSync e (pr_chain_id req) (pr_address req) (dec_drip_coin d) ip mechanism now st
      in if he_pourer e
         then (case tryPoolRoute e (pr_chain_id req) (pr_address req) (dec_drip_coin d) ip mechanism now st of
                 Some outcome \<Rightarrow> outcome
               | None \<Rightarrow> sync)
         else sync)"

text \<open>\<^verbatim>\<open>body\<close> is the decoded request, \<^const>\<open>None\<close> when it does not decode.\<close>

definition Pour :: "handler_env \<Rightarrow> http_request \<Rightarrow> pour_request option \<Rightarrow> handler_state \<Rightarrow> pour_outcome" where
  "Pour e r body st =
     (case body of
        None \<Rightarrow> (writeError 400 ''invalid JSON'', [], st)
      | Some req \<Rightarrow>
          (case GetActive (hs_manager st) (pr_chain_id req) of
             None \<Rightarrow> (writeError 404 ''chain not found or not enabled'', [], st)
           | Some snap \<Rightarrow>
               (case ValidateAddress (pr_address req) (ci_bech32_prefix (snp_info snap)) of
                  Inl err \<Rightarrow> (writeJSON 400 (BodyAddress err), [], st)
                | Inr _ \<Rightarrow>
                    if pr_denom req \<noteq> '''' then
                      (case findIBCDrip (snp_ibc_drips snap) (pr_denom req) of
                         None \<Rightarrow> (writeError 400 ''no IBC drip configured for denom'', [], st)
                       | Some ibcDrip \<Rightarrow> admitAndServeIBC e r req snap ibcDrip st)
                    else if dp_anonymous (snp_drip snap) = '''' then
                      (case snp_ibc_drips snap of
                         [ibcDrip] \<Rightarrow> admitAndServeIBC e r req snap ibcDrip st
                       | _ \<Rightarrow> (writeError 400 ''chain has no native drip; specify denom for IBC drip'', [], st))
                    else
                      (case buildChainContext snap of
                         Inl _ \<Rightarrow> (writeError 500 ''invalid drip config'', [], st)
                       | Inr cx \<Rightarrow>
                           (case Admit (he_gate e) r req cx (hs_gate st) of
                              (Inl err, g) \<Rightarrow> (handleAdmitError err, [], st\<lparr>hs_gate := g\<rparr>)
                            | (Inr d, g) \<Rightarrow> serve_native e r req d (st\<lparr>hs_gate := g\<rparr>))))))"

text \<open>\<^verbatim>\<open>awaitDrip\<close>: the result of the batch, or the error of the timeout (\<^const>\<open>None\<close> for no transaction hash).\<close>

definition awaitDrip :: "bool \<Rightarrow> nat \<Rightarrow> (unit, string) result \<Rightarrow> int \<Rightarrow> drip_table \<Rightarrow> drip_table" where
  "awaitDrip fault dripID res completedAt tbl =
     (case res of
        Inl _ \<Rightarrow> snd (UpdateDrip fault dripID StatusFailed '''' completedAt tbl)
      | Inr txHash \<Rightarrow> snd (UpdateDrip fault dripID StatusConfirmed txHash completedAt tbl))"

text \<open>The admission a request leads to: the snapshot and the context of the gate call, and the IBC drip if it is one.\<close>

definition ibc_context :: "chain_snapshot \<Rightarrow> ibc_drip_config \<Rightarrow> (chain_snapshot \<times> chain_context \<times> ibc_drip_config option) option" where
  "ibc_context snap d = (case buildChainContextIBC snap d of Inl _ \<Rightarrow> None | Inr cx \<Rightarrow> Some (snap, cx, Some d))"

definition pour_context :: "manager \<Rightarrow> pour_request \<Rightarrow> (chain_snapshot \<times> chain_context \<times> ibc_drip_config option) option" where
  "pour_context m req =
     (case GetActive m (pr_chain_id req) of
        None \<Rightarrow> None
      | Some snap \<Rightarrow>
          if \<not> is_ok (ValidateAddress (pr_address req) (ci_bech32_prefix (snp_info snap))) then None
          else if pr_denom req \<noteq> '''' then Option.bind (findIBCDrip (snp_ibc_drips snap) (pr_denom req)) (ibc_context snap)
          else if dp_anonymous (snp_drip snap) = '''' then (case snp_ibc_drips snap of [d] \<Rightarrow> ibc_context snap d | _ \<Rightarrow> None)
          else (case buildChainContext snap of Inl _ \<Rightarrow> None | Inr cx \<Rightarrow> Some (snap, cx, None)))"

definition serve_admitted ::
    "handler_env \<Rightarrow> http_request \<Rightarrow> pour_request \<Rightarrow> chain_snapshot \<Rightarrow> ibc_drip_config option \<Rightarrow> decision \<Rightarrow> handler_state \<Rightarrow> pour_outcome" where
  "serve_admitted e r req snap ibc d st =
     (case ibc of None \<Rightarrow> serve_native e r req d st | Some drip \<Rightarrow> pourIBC e r snap (pr_address req) d drip st)"

definition admit_and_serve ::
    "handler_env \<Rightarrow> http_request \<Rightarrow> pour_request \<Rightarrow> chain_snapshot \<Rightarrow> chain_context \<Rightarrow> ibc_drip_config option \<Rightarrow> handler_state \<Rightarrow> pour_outcome" where
  "admit_and_serve e r req snap cx ibc st =
     (case Admit (he_gate e) r req cx (hs_gate st) of
        (Inl err, g) \<Rightarrow> (handleAdmitError err, [], st\<lparr>hs_gate := g\<rparr>)
      | (Inr d, g) \<Rightarrow> serve_admitted e r req snap ibc d (st\<lparr>hs_gate := g\<rparr>))"

text \<open>A run of the faucet: requests, results that arrive, changes of the manager by refreshes and reloads, and of the API keys by the operator.\<close>

datatype handler_op =
    HPour handler_env http_request "pour_request option"
  | HAwait int bool nat "(unit, string) result"
  | HManager int manager
  | HKeys int key_table

fun handler_step :: "handler_op \<Rightarrow> handler_state \<Rightarrow> handler_state" where
  "handler_step (HPour e r body) st = snd (snd (Pour e r body st))"
| "handler_step (HAwait now fault dripID res) st = st\<lparr>hs_drips := awaitDrip fault dripID res now (hs_drips st)\<rparr>"
| "handler_step (HManager now m) st = st\<lparr>hs_manager := m\<rparr>"
| "handler_step (HKeys now keys) st = st\<lparr>hs_gate := (hs_gate st)\<lparr>gs_keys := keys\<rparr>\<rparr>"

fun handler_clock :: "handler_op \<Rightarrow> int" where
  "handler_clock (HPour e r body) = ge_now (he_gate e)"
| "handler_clock (HAwait now fault dripID res) = now"
| "handler_clock (HManager now m) = now"
| "handler_clock (HKeys now keys) = now"

text \<open>What a call pays to an address (by raw bytes) in a denomination, and what the calls of a step pay on chain \<^verbatim>\<open>c\<close> while its key
  algorithm is \<^verbatim>\<open>algo\<close>: a call of the pool or the broadcaster pays on its own chain, a transfer pays on the chain that was asked for.\<close>

definition call_amount :: "byte list \<Rightarrow> string \<Rightarrow> coin_call \<Rightarrow> int" where
  "call_amount raw denom call =
     (if DecodeAddressBytes (call_recipient call) = Ok raw
      then (\<Sum>x \<leftarrow> filter (\<lambda>x. coin_denom x = denom) (call_coins call). int (digits_val (coin_amount x))) else 0)"

fun call_chain :: "pour_request \<Rightarrow> coin_call \<Rightarrow> string" where
  "call_chain req (CallQueue c _) = c"
| "call_chain req (CallBroadcast c _) = c"
| "call_chain req (CallTransfer _ _) = pr_chain_id req"

fun handler_paid :: "string \<Rightarrow> byte list \<Rightarrow> string \<Rightarrow> string \<Rightarrow> handler_op \<Rightarrow> handler_state \<Rightarrow> int" where
  "handler_paid algo raw denom c (HPour e r (Some req)) st =
     (if map_option (\<lambda>s. ci_key_algo (snp_info s)) (GetActive (hs_manager st) c) = Some algo
      then \<Sum>call \<leftarrow> filter (\<lambda>call. call_chain req call = c) (fst (snd (Pour e r (Some req) st))). call_amount raw denom call else 0)"
| "handler_paid algo raw denom c _ st = 0"

fun handler_grant :: "rl_bucket \<Rightarrow> handler_op \<Rightarrow> handler_state \<Rightarrow> int" where
  "handler_grant b (HPour e r (Some req)) st =
     (case pour_context (hs_manager st) req of
        None \<Rightarrow> 0
      | Some (snap, cx, ibc) \<Rightarrow> gate_grant b (GateCall (he_gate e) r req cx) (hs_gate st))"
| "handler_grant b _ st = 0"

text \<open>A configured coin names a denomination; a configured maximum is at most \<^verbatim>\<open>cap\<close>.\<close>

definition pays_denom :: "string \<Rightarrow> string \<Rightarrow> bool" where
  "pays_denom s denom \<longleftrightarrow> (case ParseCoin s of Inl _ \<Rightarrow> False | Inr x \<Rightarrow> coin_denom x = denom)"

definition max_at_most :: "int \<Rightarrow> string \<Rightarrow> bool" where
  "max_at_most cap s \<longleftrightarrow>
     (case ParseCoin s of
        Inl _ \<Rightarrow> True
      | Inr x \<Rightarrow> (case set_string (coin_amount x) of None \<Rightarrow> True | Some m \<Rightarrow> m \<le> cap))"

text \<open>What is asked of the configuration of all chains: they are known by their own ids, the name of a key algorithm has no colon, and the
  daily maxima fit 64 bits.\<close>

definition snaps_ok :: "manager \<Rightarrow> bool" where
  "snaps_ok m \<longleftrightarrow>
     (\<forall>c snap. GetActive m c = Some snap \<longrightarrow>
        ci_chain_id (snp_info snap) = c \<and> CHR '':'' \<notin> set (ci_key_algo (snp_info snap)) \<and>
        max_at_most max_int64 (dp_max_per_address_per_day (snp_drip snap)) \<and>
        (\<forall>d \<in> set (snp_ibc_drips snap). max_at_most max_int64 (idc_max_per_address_per_day d)))"

text \<open>The maxima of chain \<^verbatim>\<open>c\<close> that stand over payments in \<^verbatim>\<open>denom\<close> are at most \<^verbatim>\<open>cap\<close>: that of the native drip when the anonymous or the signed drip is in
  it, and that of each IBC drip in it. An API key may override the drip of a chain with a coin of any denomination, and then the maximum of
  whatever drip was asked for stands over it: \<^verbatim>\<open>overrides\<close> says whether keys may do so in this denomination.\<close>

definition chain_max_ok :: "bool \<Rightarrow> int \<Rightarrow> string \<Rightarrow> string \<Rightarrow> manager \<Rightarrow> bool" where
  "chain_max_ok overrides cap c denom m \<longleftrightarrow>
     (\<forall>snap. GetActive m c = Some snap \<longrightarrow>
        (overrides \<or> pays_denom (dp_anonymous (snp_drip snap)) denom \<or> pays_denom (dp_signed (snp_drip snap)) denom \<longrightarrow>
           max_at_most cap (dp_max_per_address_per_day (snp_drip snap))) \<and>
        (\<forall>d \<in> set (snp_ibc_drips snap). overrides \<or> pays_denom (idc_anonymous d) denom \<longrightarrow> max_at_most cap (idc_max_per_address_per_day d)))"

definition key_pays :: "key_table \<Rightarrow> string \<Rightarrow> string \<Rightarrow> bool" where
  "key_pays keys c denom \<longleftrightarrow>
     (\<exists>row \<in> set keys. case kr_per_chain_drips row of
        Some (JObj drips) \<Rightarrow> (case drips c of None \<Rightarrow> False | Some s \<Rightarrow> pays_denom s denom)
      | _ \<Rightarrow> False)"

fun handler_valid :: "bool \<Rightarrow> int \<Rightarrow> string \<Rightarrow> string \<Rightarrow> handler_op \<Rightarrow> bool" where
  "handler_valid overrides cap c denom (HPour e r body) \<longleftrightarrow> sqlite_laws (ge_sqlite (he_gate e))"
| "handler_valid overrides cap c denom (HAwait _ _ _ _) \<longleftrightarrow> True"
| "handler_valid overrides cap c denom (HManager now m) \<longleftrightarrow> snaps_ok m \<and> chain_max_ok overrides cap c denom m"
| "handler_valid overrides cap c denom (HKeys now keys) \<longleftrightarrow> (key_pays keys c denom \<longrightarrow> overrides)"

definition handler_inv :: "bool \<Rightarrow> int \<Rightarrow> string \<Rightarrow> string \<Rightarrow> handler_state \<Rightarrow> bool" where
  "handler_inv overrides cap c denom st \<longleftrightarrow>
     gate_inv (hs_gate st) \<and> snaps_ok (hs_manager st) \<and> chain_max_ok overrides cap c denom (hs_manager st) \<and>
     (key_pays (gs_keys (hs_gate st)) c denom \<longrightarrow> overrides)"

text \<open>The calls a native drip may be paid with, and the one of an IBC drip: a transfer on the source chain through the channel selected there.\<close>

definition native_call :: "string \<Rightarrow> string \<Rightarrow> coin \<Rightarrow> coin_call \<Rightarrow> bool" where
  "native_call c address coin call \<longleftrightarrow>
     (\<exists>n. call = CallQueue c \<lparr>bq_id = n, bq_to_address = address, bq_coins = [coin]\<rparr>) \<or>
     call = CallBroadcast c \<lparr>sr_key_index = 0, sr_to_address = address, sr_coins = [coin]\<rparr>"

definition ibc_call :: "manager \<Rightarrow> chain_snapshot \<Rightarrow> ibc_drip_config \<Rightarrow> string \<Rightarrow> coin \<Rightarrow> coin_call \<Rightarrow> bool" where
  "ibc_call m snap drip address coin call \<longleftrightarrow>
     (\<exists>src ch q. GetActive m (idc_source_chain_id drip) = Some src \<and>
        fst (SelectChannel (ChannelsFor (mg_store m) (ci_chain_name (snp_info src))) (ci_chain_name (snp_info src)) (ci_chain_name (snp_info snap))) = Some ch \<and>
        call = CallTransfer (idc_source_chain_id drip) q \<and> tr_receiver_address q = address \<and> tr_token q = coin \<and>
        (tr_source_channel q, tr_source_port q) =
          (case ChannelFor ch (ci_chain_name (snp_info src)) of None \<Rightarrow> ('''', '''') | Some (channel, port, _) \<Rightarrow> (channel, port)))"

definition pays_for :: "manager \<Rightarrow> pour_request \<Rightarrow> chain_snapshot \<Rightarrow> ibc_drip_config option \<Rightarrow> coin \<Rightarrow> coin_call \<Rightarrow> bool" where
  "pays_for m req snap ibc coin call \<longleftrightarrow>
     (case ibc of
        None \<Rightarrow> native_call (pr_chain_id req) (pr_address req) coin call
      | Some drip \<Rightarrow> ibc_call m snap drip (pr_address req) coin call)"

text \<open>Which drip of the chain a request asks for, and the amounts and the maximum that the configuration sets for it.\<close>

definition asked_drip :: "chain_snapshot \<Rightarrow> pour_request \<Rightarrow> ibc_drip_config option \<Rightarrow> bool" where
  "asked_drip snap req ibc \<longleftrightarrow>
     (if pr_denom req \<noteq> '''' then \<exists>d \<in> set (snp_ibc_drips snap). ibc = Some d \<and> pays_denom (idc_anonymous d) (pr_denom req)
      else if dp_anonymous (snp_drip snap) = '''' then \<exists>d. snp_ibc_drips snap = [d] \<and> ibc = Some d
      else ibc = None)"

definition drip_configured :: "chain_snapshot \<Rightarrow> ibc_drip_config option \<Rightarrow> chain_context \<Rightarrow> bool" where
  "drip_configured snap ibc cx \<longleftrightarrow>
     cx_chain_id cx = ci_chain_id (snp_info snap) \<and> cx_key_algo cx = ci_key_algo (snp_info snap) \<and>
     (case ibc of
        None \<Rightarrow>
          ParseCoin (dp_anonymous (snp_drip snap)) = Ok (cx_drip_anonymous cx) \<and>
          ParseCoin (dp_max_per_address_per_day (snp_drip snap)) = Ok (cx_max_per_day cx) \<and>
          (if dp_signed (snp_drip snap) = '''' then cx_drip_signed cx = no_coin else ParseCoin (dp_signed (snp_drip snap)) = Ok (cx_drip_signed cx))
      | Some d \<Rightarrow>
          ParseCoin (idc_anonymous d) = Ok (cx_drip_anonymous cx) \<and> ParseCoin (idc_max_per_address_per_day d) = Ok (cx_max_per_day cx) \<and>
          cx_drip_signed cx = no_coin)"

definition placed :: "pour_request \<Rightarrow> chain_snapshot \<Rightarrow> ibc_drip_config option \<Rightarrow> coin \<Rightarrow> handler_state \<Rightarrow> pour_outcome \<Rightarrow> bool" where
  "placed req snap ibc coin st out \<longleftrightarrow>
     (case out of (resp, calls, st') \<Rightarrow>
        hs_gate st' = hs_gate st \<and> GetActive (hs_manager st') = GetActive (hs_manager st) \<and>
        (if calls = [] then rs_status resp = 503
         else (\<exists>call. calls = [call] \<and> pays_for (hs_manager st) req snap ibc coin call) \<and> rs_status resp \<in> {200, 202, 500, 502}))"

definition demo_chain :: "bool \<Rightarrow> chain" where
  "demo_chain suspended =
     \<lparr>ch_info = (demo_info ''osmosis-1'')\<lparr>ci_bech32_prefix := ''a'', ci_key_algo := ''secp256k1''\<rparr>,
      ch_drip = \<lparr>dp_anonymous = ''7uosmo'', dp_signed = '''', dp_max_per_address_per_day = ''10uosmo'', dp_memo = ''''\<rparr>,
      ch_client = True, ch_endpoint_pool = None, ch_pool = None, ch_holder_addr = ''addr'', ch_distributor_addrs = [],
      ch_refill_threshold = no_coin, ch_refill_interval = 0, ch_ibc_timeout = 0, ch_ibc_drips = [], ch_multi_disabled = False,
      ch_suspended = suspended, ch_suspend_reason = None, ch_send_fail_streak = 0, ch_multi_fail_streak = 0\<rparr>"

definition demo_state :: "bool \<Rightarrow> handler_state" where
  "demo_state suspended =
     \<lparr>hs_gate = sample_state,
      hs_manager = demo_manager\<lparr>mg_chains := [''osmosis-1'' \<mapsto> \<lparr>mc_chain = demo_chain suspended, mc_closed = False, mc_started = True\<rparr>]\<rparr>,
      hs_drips = []\<rparr>"

definition demo_henv :: "int \<Rightarrow> handler_env" where
  "demo_henv now =
     \<lparr>he_gate = sample_env False now, he_pourer = True, he_broadcasters = [''osmosis-1''],
      he_broadcast = (\<lambda>c req. Ok \<lparr>br_tx_hash = ''AB'', br_height = 1, br_gas_used = 2\<rparr>),
      he_transfer = (\<lambda>_. Err (plain_error '''')), he_record_fault = False, he_request_id = 0\<rparr>"

definition recorded_as :: "pour_request \<Rightarrow> coin \<Rightarrow> drip_table \<Rightarrow> drip_table \<Rightarrow> http_response \<Rightarrow> bool" where
  "recorded_as req coin tbl tbl' resp \<longleftrightarrow>
     (\<exists>row pr. tbl' = tbl @ [row] \<and> rs_body resp = BodyPour pr \<and> prs_drip_id pr = length tbl' \<and> prs_status pr = dr_status row \<and>
        prs_tx_hash pr = dr_tx_hash row \<and> dr_address row = pr_address req \<and> dr_chain_id row = pr_chain_id req \<and>
        dr_coins row = coin_text coin \<and> prs_amount pr = coin_text coin \<and>
        dr_status row = (if rs_status resp = 202 then StatusQueued else StatusConfirmed))"

definition audited :: "handler_env \<Rightarrow> pour_request \<Rightarrow> coin \<Rightarrow> handler_state \<Rightarrow> pour_outcome \<Rightarrow> bool" where
  "audited e req coin st out \<longleftrightarrow>
     (case out of (resp, calls, st') \<Rightarrow>
        if rs_status resp \<ge> 400 then hs_drips st' = hs_drips st
        else if he_record_fault e then hs_drips st' = hs_drips st \<and> (\<exists>pr. rs_body resp = BodyPour pr \<and> prs_drip_id pr = 0)
        else recorded_as req coin (hs_drips st) (hs_drips st') resp)"

subsection \<open>The shape of a request\<close>

lemma writeError_status [simp]: "rs_status (writeError n msg) = n" "rs_status (writeJSON n b) = n"
  by (simp_all add: writeError_def writeJSON_def)

lemma admitAndServeIBC_eq:
  "(ibc_context snap d = None \<and> (\<exists>resp. admitAndServeIBC e r req snap d st = (resp, [], st) \<and> 400 \<le> rs_status resp)) \<or>
   (\<exists>cx. ibc_context snap d = Some (snap, cx, Some d) \<and> admitAndServeIBC e r req snap d st = admit_and_serve e r req snap cx (Some d) st)"
  by (cases "buildChainContextIBC snap d")
    (auto simp: admitAndServeIBC_def ibc_context_def admit_and_serve_def serve_admitted_def split: prod.split sum.split)

lemma Pour_admission:
  "(Option.bind body (pour_context (hs_manager st)) = None \<and> (\<exists>resp. Pour e r body st = (resp, [], st) \<and> 400 \<le> rs_status resp)) \<or>
   (\<exists>req snap cx ibc. body = Some req \<and> pour_context (hs_manager st) req = Some (snap, cx, ibc) \<and>
      Pour e r body st = admit_and_serve e r req snap cx ibc st)"
proof (cases body)
  case None
  then show ?thesis by (simp add: Pour_def)
next
  case body: (Some req)
  show ?thesis
  proof (cases "GetActive (hs_manager st) (pr_chain_id req)")
    case None
    then show ?thesis using body by (simp add: Pour_def pour_context_def)
  next
    case snap: (Some snap)
    show ?thesis
    proof (cases "ValidateAddress (pr_address req) (ci_bech32_prefix (snp_info snap))")
      case (Inl err)
      then show ?thesis using body snap by (simp add: Pour_def pour_context_def is_ok_iff)
    next
      case (Inr u)
      note base = body snap Inr
      consider "pr_denom req \<noteq> ''''" | "pr_denom req = ''''" "dp_anonymous (snp_drip snap) = ''''"
        | "pr_denom req = ''''" "dp_anonymous (snp_drip snap) \<noteq> ''''" by blast
      then show ?thesis
      proof cases
        case 1
        then show ?thesis
          using base admitAndServeIBC_eq[of snap "the (findIBCDrip (snp_ibc_drips snap) (pr_denom req))" e r req st]
          by (cases "findIBCDrip (snp_ibc_drips snap) (pr_denom req)") (auto simp: Pour_def pour_context_def is_ok_iff)
      next
        case 2
        then show ?thesis using base admitAndServeIBC_eq[of snap "hd (snp_ibc_drips snap)" e r req st]
          by (auto simp: Pour_def pour_context_def is_ok_iff split: list.split)
      next
        case 3
        then show ?thesis using base
          by (cases "buildChainContext snap")
            (auto simp: Pour_def pour_context_def is_ok_iff admit_and_serve_def serve_admitted_def split: prod.split sum.split)
      qed
    qed
  qed
qed

lemma manager_Pour_GetActive: "GetActive (snd (manager_Pour c req m)) c' = GetActive m c'"
  by (auto simp: manager_Pour_def GetActive_def Chain_Pour_def snapshot_of_def split: option.split prod.split sum.split if_splits)

lemma log_drip_simps [simp]:
  "hs_gate (snd (log_drip e d st)) = hs_gate st" "hs_manager (snd (log_drip e d st)) = hs_manager st"
  by (simp_all add: log_drip_def split: prod.split sum.split)


lemma queue_coins_cases:
  "queue_coins c q st = (r, calls, st') \<Longrightarrow>
   hs_gate st' = hs_gate st \<and> hs_drips st' = hs_drips st \<and> GetActive (hs_manager st') = GetActive (hs_manager st) \<and>
   calls = (if is_ok r then [CallQueue c q] else [])"
  using manager_Pour_GetActive[of c q "hs_manager st"] by (auto simp: queue_coins_def fun_eq_iff split: prod.splits)

lemma placed_pool:
  assumes "tryPoolRoute e (pr_chain_id req) (pr_address req) coin ip mech now st = Some out"
  shows "placed req snap None coin st out"
proof -
  obtain r calls st1 where q: "queue_coins (pr_chain_id req) \<lparr>bq_id = he_request_id e, bq_to_address = pr_address req, bq_coins = [coin]\<rparr> st = (r, calls, st1)"
    by (metis prod_cases3)
  show ?thesis using assms queue_coins_cases[OF q] q
    by (cases r) (auto simp: tryPoolRoute_def placed_def pays_for_def native_call_def Let_def log_drip_def
        split: prod.splits sum.splits manager_error.splits chain_error.splits)
qed

lemma placed_sync: "placed req snap None coin st (pourSync e (pr_chain_id req) (pr_address req) coin ip mech now st)"
  by (auto simp: pourSync_def broadcast_coins_def placed_def pays_for_def native_call_def Let_def log_drip_def split: prod.splits sum.splits)

lemma placed_IBC: "placed req snap (Some drip) (dec_drip_coin d) st (pourIBC e r snap (pr_address req) d drip st)"
proof (cases "GetActive (hs_manager st) (idc_source_chain_id drip)")
  case None
  then show ?thesis by (simp add: pourIBC_def placed_def Let_def)
next
  case (Some src)
  show ?thesis
  proof (cases "fst (SelectChannel (ChannelsFor (mg_store (hs_manager st)) (ci_chain_name (snp_info src))) (ci_chain_name (snp_info src)) (ci_chain_name (snp_info snap)))")
    case None
    then show ?thesis using Some by (auto simp: pourIBC_def placed_def Let_def split: prod.splits option.splits)
  next
    case ch: (Some ch)
    obtain channel port where cp: "(case ChannelFor ch (ci_chain_name (snp_info src)) of None \<Rightarrow> ('''', '''') | Some (channel, port, _) \<Rightarrow> (channel, port)) = (channel, port)"
      by fastforce
    then show ?thesis using Some ch
      by (cases "transfer_coins e (hs_manager st) (idc_source_chain_id drip)
            \<lparr>tr_key_index = 0, tr_source_port = port, tr_source_channel = channel, tr_token = dec_drip_coin d, tr_receiver_address = pr_address req,
             tr_timeout_timestamp = to_uint64 (ge_now_ns (he_gate e) + snp_ibc_timeout snap), tr_memo = ''''\<rparr>")
        (auto simp: pourIBC_def placed_def pays_for_def ibc_call_def transfer_coins_def Let_def log_drip_def split: prod.splits sum.splits)
  qed
qed

lemma placed_serve: "placed req snap ibc (dec_drip_coin d) st (serve_admitted e r req snap ibc d st)"
  using placed_pool placed_sync placed_IBC[of req snap "the ibc" d st e r]
  by (auto simp: serve_admitted_def serve_native_def Let_def split: option.split)

text \<open>What the context of an admission holds, and for which drip it was built.\<close>

lemma ibc_context_Some: "ibc_context snap d = Some x \<longleftrightarrow> (\<exists>cx. x = (snap, cx, Some d) \<and> buildChainContextIBC snap d = Ok cx)"
  by (auto simp: ibc_context_def split: sum.splits)

lemma buildChainContextIBC_Ok: "buildChainContextIBC snap d = Ok cx \<Longrightarrow> drip_configured snap (Some d) cx"
  by (auto simp: buildChainContextIBC_def drip_configured_def split: sum.splits)

lemma buildChainContext_Ok: "buildChainContext snap = Ok cx \<Longrightarrow> drip_configured snap None cx"
  by (auto simp: buildChainContext_def drip_configured_def split: sum.splits if_splits)

lemma findIBCDrip_Some: "findIBCDrip ds denom = Some d \<Longrightarrow> d \<in> set ds \<and> pays_denom (idc_anonymous d) denom"
  by (auto simp: findIBCDrip_def find_Some_iff pays_denom_def)

lemma pour_context_cases:
  assumes "pour_context m req = Some (snap, cx, ibc)"
  shows "GetActive m (pr_chain_id req) = Some snap" "is_ok (ValidateAddress (pr_address req) (ci_bech32_prefix (snp_info snap)))"
    "asked_drip snap req ibc" "drip_configured snap ibc cx"
proof -
  have "GetActive m (pr_chain_id req) = Some snap \<and> is_ok (ValidateAddress (pr_address req) (ci_bech32_prefix (snp_info snap))) \<and>
    asked_drip snap req ibc \<and> drip_configured snap ibc cx"
    using assms
    by (auto simp: pour_context_def ibc_context_Some bind_eq_Some_conv asked_drip_def
        dest!: findIBCDrip_Some buildChainContext_Ok buildChainContextIBC_Ok split: option.splits if_splits sum.splits list.splits)
  then show "GetActive m (pr_chain_id req) = Some snap" "is_ok (ValidateAddress (pr_address req) (ci_bech32_prefix (snp_info snap)))"
    "asked_drip snap req ibc" "drip_configured snap ibc cx" by blast+
qed

lemma asked_drip_configured: "asked_drip snap req (Some d) \<Longrightarrow> d \<in> set (snp_ibc_drips snap)"
  by (auto simp: asked_drip_def split: if_splits)

lemma configured_digits:
  assumes "drip_configured snap ibc cx"
  shows "all_digits (coin_amount (cx_drip_anonymous cx))" "coin_amount (cx_drip_signed cx) = '''' \<or> all_digits (coin_amount (cx_drip_signed cx))"
proof -
  have d: "all_digits (coin_amount x)" if "ParseCoin t = Ok x" for t x using ParseCoin_coin_ok[OF that] by (simp add: coin_ok_def)
  show "all_digits (coin_amount (cx_drip_anonymous cx))" using assms d by (auto simp: drip_configured_def split: option.splits)
  show "coin_amount (cx_drip_signed cx) = '''' \<or> all_digits (coin_amount (cx_drip_signed cx))"
    using assms d by (auto simp: drip_configured_def no_coin_def split: option.splits if_splits)
qed

lemma pour_context_ids:
  assumes "pour_context m req = Some (snap, cx, ibc)" "snaps_ok m"
  shows "cx_chain_id cx = pr_chain_id req" "ci_chain_id (snp_info snap) = pr_chain_id req" "cx_key_algo cx = ci_key_algo (snp_info snap)"
    "CHR '':'' \<notin> set (cx_key_algo cx)"
  using pour_context_cases[OF assms(1)] assms(2) by (auto simp: snaps_ok_def drip_configured_def)

lemma pour_context_valid:
  assumes "pour_context m req = Some (snap, cx, ibc)" "snaps_ok m" "sqlite_laws (ge_sqlite (he_gate e))"
    and "\<And>n. set_string (coin_amount (cx_max_per_day cx)) = Some n \<Longrightarrow> n \<le> cap"
  shows "gate_valid cap (GateCall (he_gate e) r req cx)"
proof -
  note c = pour_context_cases[OF assms(1)]
  have "n \<le> max_int64" if "set_string (coin_amount (cx_max_per_day cx)) = Some n" for n
    using c asked_drip_configured[of snap req] assms(2) that
    by (cases ibc) (fastforce simp: snaps_ok_def drip_configured_def max_at_most_def)+
  then show ?thesis using configured_digits[OF c(4)] assms(3,4) by (auto split: option.splits)
qed

lemma Pour_step:
  obtains (refused) resp where "Pour e r body st = (resp, [], st)" "400 \<le> rs_status resp" "\<And>b. handler_grant b (HPour e r body) st = 0"
  | (denied) req snap cx ibc err g where "body = Some req" "pour_context (hs_manager st) req = Some (snap, cx, ibc)"
      "Admit (he_gate e) r req cx (hs_gate st) = (Err err, g)" "Pour e r body st = (handleAdmitError err, [], st\<lparr>hs_gate := g\<rparr>)"
  | (admitted) req snap cx ibc d g where "body = Some req" "pour_context (hs_manager st) req = Some (snap, cx, ibc)"
      "Admit (he_gate e) r req cx (hs_gate st) = (Ok d, g)"
      "placed req snap ibc (dec_drip_coin d) (st\<lparr>hs_gate := g\<rparr>) (Pour e r body st)"
proof -
  consider (a) resp where "Option.bind body (pour_context (hs_manager st)) = None" "Pour e r body st = (resp, [], st)" "400 \<le> rs_status resp"
    | (b) req snap cx ibc where "body = Some req" "pour_context (hs_manager st) req = Some (snap, cx, ibc)"
        "Pour e r body st = admit_and_serve e r req snap cx ibc st"
    using Pour_admission[of body st e r] by blast
  then show thesis
  proof cases
    case a
    then have "handler_grant b (HPour e r body) st = 0" for b by (cases body) auto
    with a refused show thesis by blast
  next
    case b
    show thesis
    proof (cases "Admit (he_gate e) r req cx (hs_gate st)")
      case (Pair x g)
      then show thesis using b denied admitted placed_serve by (cases x) (auto simp: admit_and_serve_def)
    qed
  qed
qed

lemma handler_grant_nonneg: "0 \<le> handler_grant b op st"
proof (cases "(b, op, st)" rule: handler_grant.cases)
  case (1 b e r req st)
  then show ?thesis using gate_grant_nonneg by (simp split: option.split del: gate_grant.simps)
qed auto

subsection \<open>The maximum that stands over a payment\<close>

lemma split_at_first: "x \<notin> set as \<Longrightarrow> x \<notin> set bs \<Longrightarrow> as @ x # as' = bs @ x # bs' \<Longrightarrow> as = bs \<and> as' = bs'"
proof (induction as arbitrary: bs)
  case Nil
  then show ?case by (cases bs) auto
next
  case (Cons a as)
  then show ?case by (cases bs) auto
qed

lemma hex_no_colon: "CHR '':'' \<notin> set (hex_encode bs)"
proof -
  have v: "hex_val (CHR '':'') = 0" by (simp add: hex_val_def is_digit_def code_of_def)
  have "hex_char d \<noteq> CHR '':''" if "d < 16" for d
  proof
    assume c: "hex_char d = CHR '':''"
    then have "d = 0" using hex_val_hex_char[OF that] v by simp
    with c show False by (simp add: hex_char_def char_of_def)
  qed
  then have "CHR '':'' \<noteq> hex_char d" if "d < 16" for d using that by metis
  moreover have "unat b div 16 < 16" "unat b mod 16 < 16" for b :: byte using unsigned_less[where 'a = nat, of b] by (simp_all add: less_mult_imp_div_less)
  ultimately show ?thesis by (simp add: hex_encode_def hex_of_byte_def)
qed

lemma scope_value_inject:
  assumes "CHR '':'' \<notin> set algo" "CHR '':'' \<notin> set algo'" "scope_value algo raw denom = scope_value algo' raw' denom'"
  shows "algo = algo' \<and> raw = raw' \<and> denom = denom'"
proof -
  have "algo @ CHR '':'' # hex_encode raw @ CHR '':'' # denom = algo' @ CHR '':'' # hex_encode raw' @ CHR '':'' # denom'"
    using assms(3) by (simp add: scope_value_def)
  from split_at_first[OF assms(1,2) this] have a: "algo = algo'" "hex_encode raw @ CHR '':'' # denom = hex_encode raw' @ CHR '':'' # denom'" by auto
  with split_at_first[OF hex_no_colon hex_no_colon a(2)] hex_encode_inject show ?thesis by blast
qed

lemma Authenticate_row:
  assumes "fst (Authenticate argon qf tf now secret tbl) = Ok key"
  shows "\<exists>row \<in> set tbl. key_of_row row = Ok key"
  using assms by (auto simp: Authenticate_def Let_def find_Some_iff intro!: bexI[OF _ nth_mem] split: if_splits option.splits)

lemma key_pays_Authenticate: "key_pays (snd (Authenticate argon qf tf now secret tbl)) c denom = key_pays tbl c denom"
proof -
  have "key_pays (map f tbl) c denom = key_pays tbl c denom" if "\<And>row. kr_per_chain_drips (f row) = kr_per_chain_drips row" for f
    by (simp add: key_pays_def that)
  then have "key_pays (touch_last_used tf now kid tbl) c denom = key_pays tbl c denom" for kid by (simp add: touch_last_used_def)
  then show ?thesis by (auto simp: Authenticate_def Let_def split: option.split)
qed

lemma admitAPIKey_keys:
  "gs_keys (snd (admitAPIKey e req cx bearer st)) =
   snd (Authenticate (ge_argon e) (ge_auth_query_fails e) (ge_auth_touch_fails e) (ge_now e) bearer (gs_keys st))"
proof -
  have "gs_keys st' = gs_keys s" if "gate_check_key e k c s = (x, st')" for k c s x st'
    using that by (auto simp: gate_check_key_def Let_def split: prod.splits)
  then show ?thesis by (auto simp: admitAPIKey_def Let_def split: prod.splits sum.splits)
qed

lemma key_pays_Admit: "key_pays (gs_keys (snd (Admit e r req cx st))) c denom = key_pays (gs_keys st) c denom"
proof -
  obtain ri st1 where i: "gate_check_ip e (extractIP (hr_remote_addr r)) (cx_chain_id cx) st = (ri, st1)" by fastforce
  have k: "gs_keys st1 = gs_keys st" using gate_check_ip_other(1)[of e "extractIP (hr_remote_addr r)" "cx_chain_id cx" st] i by simp
  have "gs_keys (snd (admitSigned e req sg cx st1)) = gs_keys st" "gs_keys (snd (admitPoW e req cx st1)) = gs_keys st"
    "gs_keys (snd (admitAnonymous e req cx st1)) = gs_keys st" for sg
    using k by (auto simp: admitSigned_def admitPoW_def admitAnonymous_def Let_def split: prod.splits sum.splits option.splits)
  then show ?thesis using i k key_pays_Authenticate
    by (auto simp: Admit_def admitAPIKey_keys split: sum.splits option.splits bool.splits)
qed

text \<open>A denomination is paid because the drip is in it or because an API key says so.\<close>

lemma key_drip_denom:
  assumes "fst (Authenticate argon qf tf now secret tbl) = Ok key" "coin_denom (key_drip key cx) = denom"
  shows "coin_denom (cx_drip_anonymous cx) = denom \<or> key_pays tbl (cx_chain_id cx) denom"
proof -
  obtain row where "row \<in> set tbl" "key_of_row row = Ok key" using Authenticate_row[OF assms(1)] by blast
  then show ?thesis using assms(2)
    by (fastforce simp: key_drip_def key_pays_def pays_denom_def DripsForChain_def key_of_row_def Let_def
        split: json_col.splits option.splits sum.splits if_splits)
qed

lemma decision_denom:
  assumes "fst (Admit e r req cx st) = Ok d" "coin_denom (dec_drip_coin d) = denom"
  shows "coin_denom (cx_drip_anonymous cx) = denom \<or> coin_amount (cx_drip_signed cx) \<noteq> '''' \<and> coin_denom (cx_drip_signed cx) = denom \<or>
    key_pays (gs_keys st) (cx_chain_id cx) denom"
  using Admit_evidence[OF assms(1)] assms(2) key_drip_denom
  by (fastforce simp: credential_ok_def signed_drip_def split: mechanism.splits if_splits)

lemma configured_max:
  assumes "GetActive m c = Some snap" "asked_drip snap req ibc" "drip_configured snap ibc cx" "chain_max_ok overrides cap c denom m"
    and "set_string (coin_amount (cx_max_per_day cx)) = Some n"
    and "overrides \<or> coin_denom (cx_drip_anonymous cx) = denom \<or> coin_amount (cx_drip_signed cx) \<noteq> '''' \<and> coin_denom (cx_drip_signed cx) = denom"
  shows "n \<le> cap"
proof (cases ibc)
  case None
  then have "overrides \<or> pays_denom (dp_anonymous (snp_drip snap)) denom \<or> pays_denom (dp_signed (snp_drip snap)) denom"
    using assms(3,6) by (auto simp: drip_configured_def pays_denom_def no_coin_def split: if_splits)
  then have "max_at_most cap (dp_max_per_address_per_day (snp_drip snap))" using assms(1,4) by (auto simp: chain_max_ok_def)
  then show ?thesis using assms(3,5) None by (simp add: drip_configured_def max_at_most_def)
next
  case (Some d)
  then have "d \<in> set (snp_ibc_drips snap)" "overrides \<or> pays_denom (idc_anonymous d) denom"
    using assms(2,3,6) asked_drip_configured by (auto simp: drip_configured_def pays_denom_def no_coin_def)
  then have "max_at_most cap (idc_max_per_address_per_day d)" using assms(1,4) by (auto simp: chain_max_ok_def)
  then show ?thesis using assms(3,5) Some by (simp add: drip_configured_def max_at_most_def)
qed
lemma snaps_cong:
  "GetActive m = GetActive m' \<Longrightarrow> snaps_ok m = snaps_ok m'"
  "GetActive m = GetActive m' \<Longrightarrow> chain_max_ok overrides cap c denom m = chain_max_ok overrides cap c denom m'"
  by (simp_all add: snaps_ok_def chain_max_ok_def)

text \<open>An admission keeps the books of the address: nothing is recorded but the grant, and the grant stays below the maximum of the chain.\<close>

lemma admission_limits:
  assumes inv: "handler_inv overrides cap c denom st" and sq: "sqlite_laws (ge_sqlite (he_gate e))"
    and cx: "pour_context (hs_manager st) req = Some (snap, cx, ibc)" and algo: "CHR '':'' \<notin> set algo"
    and b: "b = (''address'', scope_value algo raw denom, c)"
  shows "rl_inv (gs_limits (snd (Admit (he_gate e) r req cx (hs_gate st))))"
    and "recorded row_coins b (gs_limits (snd (Admit (he_gate e) r req cx (hs_gate st)))) from =
         recorded row_coins b (gs_limits (hs_gate st)) from +
           (if from \<le> ge_now (he_gate e) then gate_grant b (GateCall (he_gate e) r req cx) (hs_gate st) else 0)"
    and "gate_grant b (GateCall (he_gate e) r req cx) (hs_gate st) \<noteq> 0 \<Longrightarrow>
         recorded row_coins b (gs_limits (hs_gate st)) (ge_now (he_gate e) - addressWindow sdiv second) +
           gate_grant b (GateCall (he_gate e) r req cx) (hs_gate st) \<le> cap"
proof -
  have h: "gate_inv (hs_gate st)" "snaps_ok (hs_manager st)" "chain_max_ok overrides cap c denom (hs_manager st)"
    "key_pays (gs_keys (hs_gate st)) c denom \<Longrightarrow> overrides" using inv by (auto simp: handler_inv_def)
  have bf: "fst b = ''address''" by (simp add: b)
  obtain top where top: "\<And>n. set_string (coin_amount (cx_max_per_day cx)) = Some n \<Longrightarrow> n \<le> top" by (metis option.inject order_refl)
  note l = Admit_limits[OF h(1) pour_context_valid[OF cx h(2) sq top] bf, of r]
  show "rl_inv (gs_limits (snd (Admit (he_gate e) r req cx (hs_gate st))))" by (rule l(1))
  show "recorded row_coins b (gs_limits (snd (Admit (he_gate e) r req cx (hs_gate st)))) from =
         recorded row_coins b (gs_limits (hs_gate st)) from +
           (if from \<le> ge_now (he_gate e) then gate_grant b (GateCall (he_gate e) r req cx) (hs_gate st) else 0)" by (rule l(2))
  assume g: "gate_grant b (GateCall (he_gate e) r req cx) (hs_gate st) \<noteq> 0"
  then obtain d raw' where d: "fst (Admit (he_gate e) r req cx (hs_gate st)) = Ok d"
      "scope_value (cx_key_algo cx) raw' (coin_denom (dec_drip_coin d)) = scope_value algo raw denom" "cx_chain_id cx = c"
    by (auto simp: b address_op_def split: sum.splits if_splits)
  note ids = pour_context_ids[OF cx h(2)] and cases = pour_context_cases[OF cx]
  have "coin_denom (dec_drip_coin d) = denom" using scope_value_inject[OF ids(4) algo d(2)] by blast
  from decision_denom[OF d(1) this] h(4) d(3)
  have "overrides \<or> coin_denom (cx_drip_anonymous cx) = denom \<or> coin_amount (cx_drip_signed cx) \<noteq> '''' \<and> coin_denom (cx_drip_signed cx) = denom"
    by blast
  from configured_max[OF _ cases(3,4) h(3) _ this] cases(1) d(3) ids(1)
  have "n \<le> cap" if "set_string (coin_amount (cx_max_per_day cx)) = Some n" for n using that by simp
  from Admit_limits(3)[OF h(1) pour_context_valid[OF cx h(2) sq this] bf g]
  show "recorded row_coins b (gs_limits (hs_gate st)) (ge_now (he_gate e) - addressWindow sdiv second) +
           gate_grant b (GateCall (he_gate e) r req cx) (hs_gate st) \<le> cap" .
qed

lemma handler_step_limits:
  assumes inv: "handler_inv overrides cap c denom st" and valid: "handler_valid overrides cap c denom op" and algo: "CHR '':'' \<notin> set algo"
    and b: "b = (''address'', scope_value algo raw denom, c)"
  shows "handler_inv overrides cap c denom (handler_step op st)"
    and "recorded row_coins b (gs_limits (hs_gate (handler_step op st))) from =
         recorded row_coins b (gs_limits (hs_gate st)) from + (if from \<le> handler_clock op then handler_grant b op st else 0)"
    and "handler_grant b op st \<noteq> 0 \<Longrightarrow>
         recorded row_coins b (gs_limits (hs_gate st)) (handler_clock op - addressWindow sdiv second) + handler_grant b op st \<le> cap"
proof -
  note h = inv[unfolded handler_inv_def]
  have "handler_inv overrides cap c denom (handler_step op st) \<and>
    recorded row_coins b (gs_limits (hs_gate (handler_step op st))) from =
         recorded row_coins b (gs_limits (hs_gate st)) from + (if from \<le> handler_clock op then handler_grant b op st else 0) \<and>
    (handler_grant b op st \<noteq> 0 \<longrightarrow>
         recorded row_coins b (gs_limits (hs_gate st)) (handler_clock op - addressWindow sdiv second) + handler_grant b op st \<le> cap)"
  proof (cases op)
    case (HPour e r body)
    have sq: "sqlite_laws (ge_sqlite (he_gate e))" using valid HPour by simp
    show ?thesis
    proof (cases rule: Pour_step[of e r body st])
      case (refused resp)
      then show ?thesis using HPour inv by simp
    next
      case (denied req snap cx ibc err g)
      note l = admission_limits[OF inv sq denied(2) algo b, of r]
      show ?thesis using HPour denied l h key_pays_Admit[of "he_gate e" r req cx "hs_gate st" c denom]
        by (simp add: handler_inv_def gate_inv_def del: gate_grant.simps)
    next
      case (admitted req snap cx ibc d g)
      note l = admission_limits[OF inv sq admitted(2) algo b, of r]
      obtain resp calls st' where p: "Pour e r body st = (resp, calls, st')" by (metis prod.collapse)
      have s: "hs_gate st' = g" "GetActive (hs_manager st') = GetActive (hs_manager st)"
        using admitted(4) p by (simp_all add: placed_def)
      show ?thesis using HPour admitted(1-3) p s(1) l h snaps_cong[OF s(2)] key_pays_Admit[of "he_gate e" r req cx "hs_gate st" c denom]
        by (simp add: handler_inv_def gate_inv_def del: gate_grant.simps)
    qed
  qed (use inv valid in \<open>simp_all add: handler_inv_def gate_inv_def\<close>)
  then show "handler_inv overrides cap c denom (handler_step op st)"
    "recorded row_coins b (gs_limits (hs_gate (handler_step op st))) from =
         recorded row_coins b (gs_limits (hs_gate st)) from + (if from \<le> handler_clock op then handler_grant b op st else 0)"
    "handler_grant b op st \<noteq> 0 \<Longrightarrow>
         recorded row_coins b (gs_limits (hs_gate st)) (handler_clock op - addressWindow sdiv second) + handler_grant b op st \<le> cap"
    by blast+
qed

interpretation handler_cap: sliding_window handler_step "handler_grant (''address'', scope_value algo raw denom, c)" handler_clock
    "\<lambda>st. recorded row_coins (''address'', scope_value algo raw denom, c) (gs_limits (hs_gate st))"
    "\<lambda>st. CHR '':'' \<notin> set algo \<and> handler_inv overrides cap c denom st" "handler_valid overrides cap c denom"
    "addressWindow sdiv second" cap for algo raw denom c cap overrides
  by unfold_locales (use handler_step_limits[of overrides cap c denom _ _ algo _ raw] handler_grant_nonneg in auto)

text \<open>What a call pays is what was charged to the address.\<close>

lemma pays_for_amount:
  assumes "pays_for m req snap ibc coin call"
  shows "call_chain req call = pr_chain_id req"
    "call_amount raw denom call = (if DecodeAddressBytes (pr_address req) = Ok raw \<and> coin_denom coin = denom then int (digits_val (coin_amount coin)) else 0)"
  using assms by (auto simp: pays_for_def native_call_def ibc_call_def call_amount_def split: option.splits)

lemma handler_paid_le:
  assumes "handler_inv overrides cap c denom st"
  shows "handler_paid algo raw denom c op st \<le> handler_grant (''address'', scope_value algo raw denom, c) op st"
proof (cases "(algo, raw, denom, c, op, st)" rule: handler_paid.cases)
  case (1 algo' raw' denom' c' e r req st')
  then have op: "op = HPour e r (Some req)" by simp
  have m: "snaps_ok (hs_manager st)" using assms by (simp add: handler_inv_def)
  show ?thesis
  proof (cases rule: Pour_step[of e r "Some req" st])
    case (refused resp)
    then show ?thesis using op by simp
  next
    case (denied req' snap cx ibc err g)
    then show ?thesis using op handler_grant_nonneg[of _ op st] by simp
  next
    case (admitted req' snap cx ibc d g)
    note ids = pour_context_ids[OF admitted(2) m]
    have "GetActive (hs_manager st) (pr_chain_id req) = Some snap" using pour_context_cases[OF admitted(2)] admitted(1) by simp
    moreover obtain resp calls st'' where p: "Pour e r (Some req) st = (resp, calls, st'')" by (metis prod.collapse)
    moreover from this have "calls = [] \<or> (\<exists>call. calls = [call] \<and> pays_for (hs_manager st) req snap ibc (dec_drip_coin d) call)"
      using admitted(1,4) by (auto simp: placed_def split: if_splits)
    ultimately show ?thesis using op admitted(1-3) ids(1,3) pays_for_amount by (auto simp: address_op_def)
  qed
qed simp_all

lemma grants_le:
  assumes "handler_inv overrides cap c denom st" "list_all (handler_valid overrides cap c denom) ops" "CHR '':'' \<notin> set algo"
  shows "granted_within a t (grants handler_step (handler_paid algo raw denom c) handler_clock ops st)
    \<le> granted_within a t (grants handler_step (handler_grant (''address'', scope_value algo raw denom, c)) handler_clock ops st)"
  using assms(1,2)
proof (induction ops arbitrary: st)
  case (Cons op ops)
  have "handler_inv overrides cap c denom (handler_step op st)" using handler_step_limits(1)[of overrides cap c denom st op algo _ raw] Cons.prems assms(3) by simp
  from Cons.IH[OF this] handler_paid_le[of overrides cap c denom st algo raw op] Cons.prems show ?case by (simp add: granted_within_def)
qed (simp add: granted_within_def)


lemma demo_snaps: "snaps_ok (hs_manager (demo_state s))" "chain_max_ok False 10 ''osmosis-1'' ''uosmo'' (hs_manager (demo_state s))"
proof -
  have "max_at_most max_int64 ''10uosmo''" "max_at_most 10 ''10uosmo''" by code_simp+
  then show "snaps_ok (hs_manager (demo_state s))" "chain_max_ok False 10 ''osmosis-1'' ''uosmo'' (hs_manager (demo_state s))"
    by (auto simp: snaps_ok_def chain_max_ok_def GetActive_def demo_state_def demo_chain_def snapshot_of_def demo_info_def split: if_splits)
qed

lemma demo_pour:
  "case Pour (demo_henv 10) sample_http (Some sample_request) (demo_state False) of (resp, calls, _) \<Rightarrow>
     map call_coins calls = [[\<lparr>coin_denom = ''uosmo'', coin_amount = ''7''\<rparr>]] \<and> rs_status resp = 200 \<and>
     map (call_chain sample_request) calls = [''osmosis-1''] \<and> map (call_amount [1, 2] ''uosmo'') calls = [7]"
  by code_simp

lemma demo_algo: "map_option (\<lambda>s. ci_key_algo (snp_info s)) (GetActive (hs_manager (demo_state False)) ''osmosis-1'') = Some ''secp256k1''"
  by (simp add: GetActive_def demo_state_def demo_chain_def snapshot_of_def)


subsection \<open>Payments, responses and the audit log\<close>

lemmas audit_simps = audited_def recorded_as_def log_drip_def RecordDrip_def StatusQueued_def StatusConfirmed_def Let_def writeJSON_def writeError_def

lemma audited_pool:
  assumes "tryPoolRoute e (pr_chain_id req) (pr_address req) coin ip mech now st = Some out"
  shows "audited e req coin st out"
proof -
  obtain r calls st1 where q: "queue_coins (pr_chain_id req) \<lparr>bq_id = he_request_id e, bq_to_address = pr_address req, bq_coins = [coin]\<rparr> st = (r, calls, st1)"
    by (metis prod_cases3)
  show ?thesis using assms queue_coins_cases[OF q] q
    by (cases r) (auto simp: tryPoolRoute_def audit_simps split: prod.splits manager_error.splits chain_error.splits if_splits)
qed

lemma audited_sync: "audited e req coin st (pourSync e (pr_chain_id req) (pr_address req) coin ip mech now st)"
  by (auto simp: pourSync_def broadcast_coins_def audit_simps split: sum.splits)

lemma audited_IBC:
  assumes "ci_chain_id (snp_info snap) = pr_chain_id req"
  shows "audited e req (dec_drip_coin d) st (pourIBC e r snap (pr_address req) d drip st)"
  using assms by (auto simp: pourIBC_def transfer_coins_def audit_simps split: prod.splits sum.splits option.splits)

lemma audited_serve:
  assumes "ci_chain_id (snp_info snap) = pr_chain_id req"
  shows "audited e req (dec_drip_coin d) st (serve_admitted e r req snap ibc d st)"
  using audited_pool audited_sync audited_IBC[OF assms, of e d st r "the ibc"] assms
  by (auto simp: serve_admitted_def serve_native_def Let_def split: option.split)

lemma handleAdmitError_status: "rs_status (handleAdmitError err) \<in> {400, 401, 403, 429, 500}"
  by (simp add: handleAdmitError_def split: gate_error.split rl_error.split)

text \<open>C2: What a pour request does. Coins are handed over by at most one call per request, and only when the chain is active, the address is one of the
  chain and the gate admitted the request on valid evidence against the drip and the maximum that the configuration sets for the drip
  asked for. The request of that call names the requested address and exactly the decided coin, and goes to the pool or the
  broadcaster of the requested chain, or, for an IBC drip, to a transfer on its source chain through the channel selected to the
  requested chain. A success response means that such a call was made. If the database took the row, the audit log gained exactly the
  row the response reports; if recording the drip failed, the request is still answered with success, with drip id 0 and no row. Every other
  response leaves the log alone.\<close>

theorem Pour_correct:
  assumes "\<forall>c snap. GetActive (hs_manager st) c = Some snap \<longrightarrow> ci_chain_id (snp_info snap) = c" "Pour e r body st = (resp, calls, st')"
  shows "if calls = [] then 400 \<le> rs_status resp \<and> hs_drips st' = hs_drips st
         else \<exists>req snap ibc cx d call. body = Some req \<and> GetActive (hs_manager st) (pr_chain_id req) = Some snap \<and>
           is_ok (ValidateAddress (pr_address req) (ci_bech32_prefix (snp_info snap))) \<and> asked_drip snap req ibc \<and> drip_configured snap ibc cx \<and>
           fst (Admit (he_gate e) r req cx (hs_gate st)) = Ok d \<and>
           dec_mechanism d = chosen_mechanism (ge_cfg (he_gate e)) r req \<and> credential_ok (he_gate e) r req cx (hs_gate st) d \<and>
           calls = [call] \<and> pays_for (hs_manager st) req snap ibc (dec_drip_coin d) call \<and>
           (if rs_status resp \<ge> 400 then hs_drips st' = hs_drips st
            else if he_record_fault e then hs_drips st' = hs_drips st \<and> (\<exists>pr. rs_body resp = BodyPour pr \<and> prs_drip_id pr = 0)
            else recorded_as req (dec_drip_coin d) (hs_drips st) (hs_drips st') resp)"
proof (cases rule: Pour_step[of e r body st])
  case (refused resp)
  then show ?thesis using assms(2) by simp
next
  case (denied req snap cx ibc err g)
  then show ?thesis using assms(2) handleAdmitError_status[of err] by auto
next
  case (admitted req snap cx ibc d g)
  note c = pour_context_cases[OF admitted(2)]
  have id: "ci_chain_id (snp_info snap) = pr_chain_id req" using c(1) assms(1) by blast
  have f: "fst (Admit (he_gate e) r req cx (hs_gate st)) = Ok d" using admitted(3) by simp
  have "Pour e r body st = admit_and_serve e r req snap cx ibc st" using Pour_admission[of body st e r] admitted(1,2) by auto
  then have "audited e req (dec_drip_coin d) st (Pour e r body st)"
    using audited_serve[OF id, of e d "st\<lparr>hs_gate := g\<rparr>" r ibc] admitted(3) by (auto simp: admit_and_serve_def audited_def)
  then have a: "if rs_status resp \<ge> 400 then hs_drips st' = hs_drips st
      else if he_record_fault e then hs_drips st' = hs_drips st \<and> (\<exists>pr. rs_body resp = BodyPour pr \<and> prs_drip_id pr = 0)
      else recorded_as req (dec_drip_coin d) (hs_drips st) (hs_drips st') resp" using assms(2) by (simp add: audited_def)
  show ?thesis
  proof (cases "calls = []")
    case True
    then show ?thesis using admitted(4) a assms(2) by (simp add: placed_def)
  next
    case False
    then obtain call where "calls = [call]" "pays_for (hs_manager st) req snap ibc (dec_drip_coin d) call"
      using admitted(4) assms(2) by (auto simp: placed_def)
    then show ?thesis unfolding if_not_P[OF False] using admitted(1) c f a Admit_evidence[OF f] by blast
  qed
qed

theorem Pour_correct_witness:
  "\<exists>resp call st'. Pour (demo_henv 10) sample_http (Some sample_request) (demo_state False) = (resp, [call], st') \<and> rs_status resp = 200 \<and>
     native_call ''osmosis-1'' (pr_address sample_request) \<lparr>coin_denom = ''uosmo'', coin_amount = ''7''\<rparr> call \<and>
     recorded_as sample_request \<lparr>coin_denom = ''uosmo'', coin_amount = ''7''\<rparr> [] (hs_drips st') resp"
proof -
  obtain resp calls st' where p: "Pour (demo_henv 10) sample_http (Some sample_request) (demo_state False) = (resp, calls, st')" by (metis prod.collapse)
  have k: "map call_coins calls = [[\<lparr>coin_denom = ''uosmo'', coin_amount = ''7''\<rparr>]]" "rs_status resp = 200" using demo_pour p by simp_all
  have i: "\<forall>c snap. GetActive (hs_manager (demo_state False)) c = Some snap \<longrightarrow> ci_chain_id (snp_info snap) = c"
    using demo_snaps(1)[of False] by (simp add: snaps_ok_def)
  have e: "\<not> he_record_fault (demo_henv 10)" "calls \<noteq> []" "hs_drips (demo_state False) = []" "pr_chain_id sample_request = ''osmosis-1''"
    "snp_ibc_drips (the (GetActive (hs_manager (demo_state False)) ''osmosis-1'')) = []"
    using k by (auto simp: demo_henv_def demo_state_def sample_request_def GetActive_def demo_chain_def snapshot_of_def)
  from Pour_correct[OF i p, unfolded if_not_P[OF e(2)] option.inject] obtain req snap ibc call and d :: decision
    where r: "sample_request = req" and d0: "GetActive (hs_manager (demo_state False)) (pr_chain_id req) = Some snap" "asked_drip snap req ibc" "calls = [call]"
      "pays_for (hs_manager (demo_state False)) req snap ibc (dec_drip_coin d) call"
      "if 400 \<le> rs_status resp then hs_drips st' = hs_drips (demo_state False)
       else if he_record_fault (demo_henv 10) then hs_drips st' = hs_drips (demo_state False) \<and> (\<exists>pr. rs_body resp = BodyPour pr \<and> prs_drip_id pr = 0)
       else recorded_as req (dec_drip_coin d) (hs_drips (demo_state False)) (hs_drips st') resp" by blast
  note d = d0[folded r]
  have rec: "recorded_as sample_request (dec_drip_coin d) [] (hs_drips st') resp" using d(5) e(1,3) k(2) by simp
  have "snp_ibc_drips snap = []" using e(4,5) d(1) by simp
  then have n: "ibc = None" using d(2) by (auto simp: asked_drip_def split: if_splits)
  then have "native_call ''osmosis-1'' (pr_address sample_request) (dec_drip_coin d) call" using d(4) e(4) by (simp add: pays_for_def)
  moreover from this have "dec_drip_coin d = \<lparr>coin_denom = ''uosmo'', coin_amount = ''7''\<rparr>" using k(1) d(3) by (auto simp: native_call_def)
  ultimately show ?thesis using p d(3) rec k(2) by auto
qed

text \<open>A request to a suspended chain uses up the daily allowance of its address. The gate charges the address before the chain is
  asked, and nothing is refunded: an admitted request gets the status 503 and no coins, while the table of the limiter records the drip as
  spent in full.\<close>

theorem suspended_chain_charges:
  assumes "GetActive (hs_manager st) (pr_chain_id req) = Some snap" "pour_context (hs_manager st) req = Some (snap, cx, None)"
    and "mg_chains (hs_manager st) (pr_chain_id req) = Some c" "ch_suspended (mc_chain c)" "he_pourer e"
    and "gate_inv (hs_gate st)" "snaps_ok (hs_manager st)" "sqlite_laws (ge_sqlite (he_gate e))"
    and "fst (Admit (he_gate e) r req cx (hs_gate st)) = Ok d" "DecodeAddressBytes (pr_address req) = Ok raw"
    and "Pour e r (Some req) st = (resp, calls, st')" "from \<le> ge_now (he_gate e)"
    and "b = (''address'', scope_value (cx_key_algo cx) raw (coin_denom (dec_drip_coin d)), pr_chain_id req)"
  shows "rs_status resp = 503 \<and> calls = [] \<and>
    recorded row_coins b (gs_limits (hs_gate st')) from =
      recorded row_coins b (gs_limits (hs_gate st)) from + int (digits_val (coin_amount (dec_drip_coin d)))"
proof -
  obtain g where g: "Admit (he_gate e) r req cx (hs_gate st) = (Ok d, g)" using assms(9) by (metis prod.collapse)
  have m: "manager_Pour (pr_chain_id req) q (hs_manager st) = (Err (MgPour ErrChainSuspended), hs_manager st)" for q
    using assms(3,4) by (auto simp: manager_Pour_def Chain_Pour_def fun_upd_idem)
  have "Pour e r (Some req) st = admit_and_serve e r req snap cx None st"
    using Pour_admission[of "Some req" st e r] assms(2) by auto
  then have p: "resp = writeError 503 ''chain is suspended''" "calls = []" "st' = st\<lparr>hs_gate := g\<rparr>"
    using g m assms(5,11) by (auto simp: admit_and_serve_def serve_admitted_def serve_native_def tryPoolRoute_def queue_coins_def Let_def)
  obtain top where top: "\<And>n. set_string (coin_amount (cx_max_per_day cx)) = Some n \<Longrightarrow> n \<le> top" by (metis option.inject order_refl)
  note v = pour_context_valid[OF assms(2,7,8) top, of r] pour_context_ids[OF assms(2,7)]
  have "gate_grant b (GateCall (he_gate e) r req cx) (hs_gate st) = int (digits_val (coin_amount (dec_drip_coin d)))"
    using g assms(10,13) v(2) by (simp add: address_op_def)
  with Admit_limits(2)[OF assms(6) v(1), of b "from"] p g assms(12,13) show ?thesis by (simp del: gate_grant.simps)
qed


end
