(* ===== verification/Netip.thy ===== *)
theory Netip
  imports Prelude
begin

text \<open>
  What the sources use of Go's \<^verbatim>\<open>net\<close> package: \<^verbatim>\<open>ParseIP\<close>, \<^verbatim>\<open>ParseCIDR\<close> and \<^verbatim>\<open>IPNet.Contains\<close>, for IPv4, IPv6 and IPv4-mapped
  addresses. An address is its 16 bytes, with the number of bits of its family. The lemmas say what a network contains, bit by bit.
\<close>

unbundle bit_operations_syntax

fun split_on :: "char \<Rightarrow> string \<Rightarrow> string list" where
  "split_on c [] = [[]]"
| "split_on c (x # xs) =
     (if x = c then [] # split_on c xs
      else case split_on c xs of [] \<Rightarrow> [[x]] | f # fs \<Rightarrow> (x # f) # fs)"

definition octet :: "string \<Rightarrow> byte option" where
  "octet s =
     (if all_digits s \<and> digits_val s \<le> 255 \<and> (length s = 1 \<or> hd s \<noteq> CHR ''0'') then Some (of_nat (digits_val s)) else None)"

definition parse_ipv4 :: "string \<Rightarrow> byte list option" where
  "parse_ipv4 s = (let fs = split_on CHR ''.'' s in if length fs = 4 then those (map octet fs) else None)"

definition is_hex :: "char \<Rightarrow> bool" where
  "is_hex c \<longleftrightarrow> is_digit c \<or> (97 \<le> code_of c \<and> code_of c \<le> 102) \<or> (65 \<le> code_of c \<and> code_of c \<le> 70)"

definition hex_digit :: "char \<Rightarrow> nat" where
  "hex_digit c = (if is_digit c then code_of c - 48 else if 97 \<le> code_of c then code_of c - 87 else code_of c - 55)"

definition hex_num :: "string \<Rightarrow> nat" where "hex_num s = foldl (\<lambda>n c. 16 * n + hex_digit c) 0 s"

text \<open>The loop over at most eight groups: the bytes so far, and where the ellipsis was.\<close>

fun parse_groups :: "nat \<Rightarrow> string \<Rightarrow> byte list \<Rightarrow> nat option \<Rightarrow> (byte list \<times> nat option) option" where
  "parse_groups 0 s acc ell = (if s = [] then Some (acc, ell) else None)"
| "parse_groups (Suc n) s acc ell =
     (let h = takeWhile is_hex s; rest = drop (length h) s
      in if h = [] \<or> length h > 4 then None
         else if rest \<noteq> [] \<and> hd rest = CHR ''.'' then
           (if (ell = None \<and> length acc \<noteq> 12) \<or> length acc + 4 > 16 then None
            else map_option (\<lambda>b. (acc @ b, ell)) (parse_ipv4 s))
         else
           let acc' = acc @ [of_nat (hex_num h div 256), of_nat (hex_num h mod 256)]
           in if rest = [] then Some (acc', ell)
              else if hd rest \<noteq> CHR '':'' \<or> tl rest = [] then None
              else if hd (tl rest) = CHR '':'' then
                (if ell \<noteq> None then None
                 else if tl (tl rest) = [] then Some (acc', Some (length acc'))
                 else parse_groups n (tl (tl rest)) acc' (Some (length acc')))
              else parse_groups n (tl rest) acc' ell)"

definition expand_ellipsis :: "byte list \<times> nat option \<Rightarrow> byte list option" where
  "expand_ellipsis p =
     (case p of (acc, ell) \<Rightarrow>
        if length acc < 16
        then map_option (\<lambda>i. take i acc @ replicate (16 - length acc) 0 @ drop i acc) ell
        else if ell = None then Some acc else None)"

definition parse_ipv6 :: "string \<Rightarrow> byte list option" where
  "parse_ipv6 s =
     (if has_prefix s ''::'' then
        (if drop 2 s = [] then Some (replicate 16 0) else Option.bind (parse_groups 8 (drop 2 s) [] (Some 0)) expand_ellipsis)
      else Option.bind (parse_groups 8 s [] None) expand_ellipsis)"

definition v4_in_v6 :: "byte list" where "v4_in_v6 = replicate 10 0 @ [255, 255]"

text \<open>\<^verbatim>\<open>netip.ParseAddr\<close> without zones, which \<^verbatim>\<open>ParseIP\<close> and \<^verbatim>\<open>ParseCIDR\<close> refuse: the number of bits and the 16 bytes.\<close>

definition parse_addr :: "string \<Rightarrow> (nat \<times> byte list) option" where
  "parse_addr s =
     (if CHR ''%'' \<in> set s then None
      else case find (\<lambda>c. c = CHR ''.'' \<or> c = CHR '':'') s of
             None \<Rightarrow> None
           | Some c \<Rightarrow>
               if c = CHR ''.'' then map_option (\<lambda>b. (32, v4_in_v6 @ b)) (parse_ipv4 s)
               else map_option (\<lambda>b. (128, b)) (parse_ipv6 s))"

definition ParseIP :: "string \<Rightarrow> byte list option" where "ParseIP s = map_option snd (parse_addr s)"

definition to4 :: "byte list \<Rightarrow> byte list option" where
  "to4 ip = (if length ip = 4 then Some ip else if length ip = 16 \<and> take 12 ip = v4_in_v6 then Some (drop 12 ip) else None)"

fun cidr_mask :: "nat \<Rightarrow> nat \<Rightarrow> byte list" where
  "cidr_mask ones 0 = []"
| "cidr_mask ones (Suc l) = (if 8 \<le> ones then 255 # cidr_mask (ones - 8) l else NOT (drop_bit ones 255) # cidr_mask 0 l)"

definition and_bytes :: "byte list \<Rightarrow> byte list \<Rightarrow> byte list" where "and_bytes = map2 (AND)"

record ip_net =
  net_ip :: "byte list"
  net_mask :: "byte list"

definition ParseCIDR :: "string \<Rightarrow> ip_net option" where
  "ParseCIDR s =
     (case index_of CHR ''/'' s of
        None \<Rightarrow> None
      | Some i \<Rightarrow>
          (case parse_addr (take i s) of
             None \<Rightarrow> None
           | Some (bits, a) \<Rightarrow>
               let n = drop (i + 1) s; m = cidr_mask (digits_val n) (bits div 8)
               in if all_digits n \<and> digits_val n \<le> bits
                  then Some \<lparr>net_ip = and_bytes (if bits = 32 then drop 12 a else a) m, net_mask = m\<rparr> else None))"

definition network_mask :: "ip_net \<Rightarrow> byte list \<times> byte list" where
  "network_mask n =
     (let ip = (case to4 (net_ip n) of Some x \<Rightarrow> x | None \<Rightarrow> net_ip n); m = net_mask n
      in if length ip \<noteq> 4 \<and> length ip \<noteq> 16 then ([], [])
         else if length m = 4 then (if length ip \<noteq> 4 then ([], []) else (ip, m))
         else if length m = 16 then (ip, if length ip = 4 then drop 12 m else m) else ([], []))"

definition Contains :: "ip_net \<Rightarrow> byte list \<Rightarrow> bool" where
  "Contains n ip =
     (let (nn, m) = network_mask n; x = (case to4 ip of Some x \<Rightarrow> x | None \<Rightarrow> ip)
      in length x = length nn \<and> and_bytes nn m = and_bytes x m)"

text \<open>The bits of an address, from the most significant one.\<close>

definition bit_at :: "byte list \<Rightarrow> nat \<Rightarrow> bool" where "bit_at bs k \<longleftrightarrow> bit (bs ! (k div 8)) (7 - k mod 8)"

lemma length_cidr_mask [simp]: "length (cidr_mask n l) = l"
  by (induction n l rule: cidr_mask.induct) auto

lemma nth_cidr_mask: "i < l \<Longrightarrow> cidr_mask n l ! i = (if 8 * (i + 1) \<le> n then 255 else NOT (drop_bit (n - 8 * i) 255))"
proof (induction n l arbitrary: i rule: cidr_mask.induct)
  case (2 n l)
  show ?case
  proof (cases i)
    case (Suc j)
    then show ?thesis using "2.IH"(1)[of j] "2.IH"(2)[of j] "2.prems" by (auto simp: diff_diff_left algebra_simps)
  qed auto
qed simp

lemma bit_255: "bit (255 :: byte) j \<longleftrightarrow> j < 8"
proof -
  have "(255 :: byte) = - 1" by simp
  then have "bit (255 :: byte) j = bit (- 1 :: byte) j" by (rule arg_cong)
  then show ?thesis by (simp add: bit_minus_1_iff possible_bit_def del: bit_numeral_simps)
qed

lemma bit_not_drop: "j < 8 \<Longrightarrow> bit (NOT (drop_bit d 255) :: byte) j \<longleftrightarrow> 8 \<le> d + j"
  using bit_255[of "d + j"] by (auto simp: bit_not_iff bit_drop_bit_eq)

lemma bit_cidr_mask:
  assumes "k < 8 * l"
  shows "bit_at (cidr_mask n l) k \<longleftrightarrow> k < n"
proof (cases "8 * (k div 8 + 1) \<le> n")
  case True
  then have "bit_at (cidr_mask n l) k" using assms bit_255[of "7 - k mod 8"] by (simp add: bit_at_def nth_cidr_mask)
  moreover have "k < n" using True by presburger
  ultimately show ?thesis by simp
next
  case False
  then have "bit_at (cidr_mask n l) k \<longleftrightarrow> 8 \<le> n - 8 * (k div 8) + (7 - k mod 8)"
    using assms bit_not_drop[of "7 - k mod 8" "n - 8 * (k div 8)"] by (simp add: bit_at_def nth_cidr_mask)
  also have "\<dots> \<longleftrightarrow> k < n" by presburger
  finally show ?thesis .
qed

lemma byte_eq: "(a :: byte) = b \<longleftrightarrow> (\<forall>j < 8. bit a j = bit b j)"
proof
  assume "\<forall>j < 8. bit a j = bit b j"
  moreover have "\<not> bit a j \<and> \<not> bit b j" if "8 \<le> j" for j using that bit_imp_le_length[of a j] bit_imp_le_length[of b j] by auto
  ultimately show "a = b" by (intro bit_eqI) (metis linorder_not_le)
qed simp

lemma and_bytes_eq:
  assumes "length a = length m" "length x = length m"
  shows "and_bytes a m = and_bytes x m \<longleftrightarrow> (\<forall>k < 8 * length m. bit_at m k \<longrightarrow> bit_at a k = bit_at x k)"
proof -
  have "and_bytes a m = and_bytes x m \<longleftrightarrow> (\<forall>i < length m. \<forall>j < 8. bit (a ! i AND m ! i) j = bit (x ! i AND m ! i) j)"
    using assms by (simp add: and_bytes_def list_eq_iff_nth_eq) (simp add: byte_eq)
  also have "\<dots> \<longleftrightarrow> (\<forall>k < 8 * length m. bit_at m k \<longrightarrow> bit_at a k = bit_at x k)" (is "?l = ?r")
  proof
    assume l: ?l
    show ?r
    proof (intro allI impI)
      fix k assume k: "k < 8 * length m" "bit_at m k"
      then have "k div 8 < length m" "7 - k mod 8 < 8" by auto
      with l have "bit (a ! (k div 8) AND m ! (k div 8)) (7 - k mod 8) = bit (x ! (k div 8) AND m ! (k div 8)) (7 - k mod 8)" by blast
      with k(2) show "bit_at a k = bit_at x k" by (simp add: bit_at_def bit_and_iff)
    qed
  next
    assume r: ?r
    show ?l
    proof (intro allI impI)
      fix i j :: nat assume i: "i < length m" "j < 8"
      define k where "k = 8 * i + (7 - j)"
      have "k mod 8 = 7 - j" unfolding k_def mod_mult_self4 by simp
      moreover have "k < 8 * length m" "k div 8 = i" using i by (auto simp: k_def)
      ultimately have "k < 8 * length m" "k div 8 = i" "7 - k mod 8 = j" using i by simp_all
      with r[rule_format, of k] show "bit (a ! i AND m ! i) j = bit (x ! i AND m ! i) j"
        unfolding bit_at_def bit_and_iff by blast
    qed
  qed
  finally show ?thesis .
qed

lemma and_bytes_idem: "length a = length m \<Longrightarrow> and_bytes (and_bytes a m) m = and_bytes a m"
  by (simp add: and_bytes_def list_eq_iff_nth_eq and.assoc)

lemma length_and_bytes [simp]: "length (and_bytes a m) = min (length a) (length m)"
  by (simp add: and_bytes_def)

lemma masked_eq:
  assumes "length a = l" "length x = l"
  shows "and_bytes (and_bytes a (cidr_mask n l)) (cidr_mask n l) = and_bytes x (cidr_mask n l) \<longleftrightarrow>
    (\<forall>k < min n (8 * l). bit_at a k = bit_at x k)"
  using assms and_bytes_eq[of a "cidr_mask n l" x] bit_cidr_mask[of _ l n] by (auto simp: and_bytes_idem)

lemma parse_ipv4_length: "parse_ipv4 s = Some b \<Longrightarrow> length b = 4"
proof -
  have "those ys = Some b \<Longrightarrow> length b = length ys" for ys :: "byte option list" and b
    by (induction ys arbitrary: b) (auto split: option.splits)
  then show "parse_ipv4 s = Some b \<Longrightarrow> length b = 4" by (auto simp: parse_ipv4_def Let_def split: if_splits)
qed

text \<open>An IPv4 network contains exactly the IPv4 addresses, mapped ones included, that agree with it on the prefix.\<close>

lemma Contains_ipv4:
  assumes "ParseCIDR s = Some net" "index_of CHR ''/'' s = Some i" "parse_addr (take i s) = Some (32, v4_in_v6 @ a)" "length a = 4"
  shows "Contains net ip \<longleftrightarrow> (\<exists>x. to4 ip = Some x \<and> (\<forall>k < digits_val (drop (i + 1) s). bit_at a k = bit_at x k))"
proof -
  let ?n = "digits_val (drop (i + 1) s)"
  have n: "?n \<le> 32" "net = \<lparr>net_ip = and_bytes a (cidr_mask ?n 4), net_mask = cidr_mask ?n 4\<rparr>"
    using assms by (auto simp: ParseCIDR_def Let_def v4_in_v6_def split: if_splits)
  have "network_mask net = (and_bytes a (cidr_mask ?n 4), cidr_mask ?n 4)"
    using assms(4) by (simp add: n(2) network_mask_def to4_def Let_def)
  moreover have "(case to4 ip of Some x \<Rightarrow> x | None \<Rightarrow> ip) = x \<Longrightarrow> length x = 4 \<Longrightarrow> to4 ip = Some x" for x
    by (auto simp: to4_def split: if_splits)
  moreover have "to4 ip = Some x \<Longrightarrow> length x = 4" for x by (auto simp: to4_def split: if_splits)
  ultimately show ?thesis using masked_eq[OF assms(4), of _ ?n] n(1) assms(4) by (fastforce simp: Contains_def)
qed

lemma parse_groups_length:
  "parse_groups n s acc ell = Some (acc', ell') \<Longrightarrow> length acc + 2 * n \<le> 16 \<Longrightarrow> length acc' \<le> 16"
proof (induction n s acc ell rule: parse_groups.induct)
  case (2 n s acc ell)
  then show ?case
    by (auto simp: Let_def split: if_splits dest!: parse_ipv4_length)
qed (auto split: if_splits)

lemma expand_length: "expand_ellipsis (acc, ell) = Some b \<Longrightarrow> length acc \<le> 16 \<Longrightarrow> length b = 16"
  by (auto simp: expand_ellipsis_def split: if_splits)

lemma ParseIP_length: "ParseIP s = Some ip \<Longrightarrow> length ip = 16"
proof -
  have "length b = 16" if "parse_ipv6 s = Some b" for b
    using that parse_groups_length[of 8 _ "[]"] expand_length
    by (auto simp: parse_ipv6_def bind_eq_Some_conv split: if_splits)
  then show "ParseIP s = Some ip \<Longrightarrow> length ip = 16"
    by (auto simp: ParseIP_def parse_addr_def v4_in_v6_def dest: parse_ipv4_length split: if_splits option.splits)
qed

lemma to4_16:
  assumes "length ip = 16" "length y = 4"
  shows "to4 ip = Some y \<longleftrightarrow> ip = v4_in_v6 @ y"
proof
  assume "to4 ip = Some y"
  then have "take 12 ip = v4_in_v6" "drop 12 ip = y" using assms by (simp_all add: to4_def split: if_splits)
  then show "ip = v4_in_v6 @ y" by (metis append_take_drop_id)
qed (simp add: to4_def v4_in_v6_def assms)

end
