(* ===== verification/Admin.thy ===== *)
theory Admin
  imports Handlers Netip
begin

text \<open>
  \<^verbatim>\<open>internal/admin\<close> and \<^verbatim>\<open>internal/abuse/pow\<close>: the token store, the middleware of the admin routes, every admin handler, and the
  proof-of-work issuer, whose key is derived from the admin token. The state is the manager, the gas cache, the API keys, the token and
  its file. What a request meets (clocks, random bytes, database failures, the configuration file, the nodes) is in \<^verbatim>\<open>admin_env\<close>.

  The lemmas show that only requests with the token from an allowed address change anything, and what a rotation invalidates.
\<close>

definition tokenPrefix :: string where "tokenPrefix = ''pour_admin_''"
definition tokenBytes :: nat where "tokenBytes = 32"

datatype token_error = TokenRead | TokenRandom | TokenWrite

text \<open>\<^verbatim>\<open>os.ReadFile(TokenFile)\<close>: the data, no file, or another error.\<close>

datatype token_file = FileData string | FileAbsent | FileUnreadable

record token_io =
  ti_random :: "byte list option"   \<comment> \<open>the 32 bytes of \<^verbatim>\<open>rand.Read\<close>\<close>
  ti_failed_write :: "token_file option"   \<comment> \<open>what an \<^verbatim>\<open>os.WriteFile\<close> that fails leaves\<close>

definition generateToken :: "token_io \<Rightarrow> (token_error, string) result" where
  "generateToken io =
     (case ti_random io of None \<Rightarrow> Err TokenRandom | Some buf \<Rightarrow> Ok (tokenPrefix @ b64_encode RawURLEncoding buf))"

definition write_token :: "token_io \<Rightarrow> string \<Rightarrow> (token_error, unit) result \<times> token_file" where
  "write_token io tok = (case ti_failed_write io of Some f' \<Rightarrow> (Err TokenWrite, f') | None \<Rightarrow> (Ok (), FileData (tok @ [CHR 0x0A])))"

definition NewTokenStore :: "token_io \<Rightarrow> string \<Rightarrow> token_file \<Rightarrow> (token_error, string) result \<times> token_file" where
  "NewTokenStore io env f =
     (case f of
        FileData d \<Rightarrow> (Ok (trim_space d), f)
      | FileUnreadable \<Rightarrow> (Err TokenRead, f)
      | FileAbsent \<Rightarrow>
          if env \<noteq> '''' then (Ok env, f)
          else case generateToken io of
                 Inl e \<Rightarrow> (Err e, f)
               | Inr tok \<Rightarrow> (case write_token io tok of (Inl e, f') \<Rightarrow> (Err e, f') | (Inr _, f') \<Rightarrow> (Ok tok, f')))"

record token_store =
  ts_token :: string
  ts_file :: token_file

definition Rotate :: "token_io \<Rightarrow> token_store \<Rightarrow> (token_error, string) result \<times> token_store" where
  "Rotate io ts =
     (case generateToken io of
        Inl e \<Rightarrow> (Err e, ts)
      | Inr newToken \<Rightarrow>
          (case write_token io newToken of
             (Inl e, f) \<Rightarrow> (Err e, ts\<lparr>ts_file := f\<rparr>)
           | (Inr _, f) \<Rightarrow> (Ok newToken, ts\<lparr>ts_token := newToken, ts_file := f\<rparr>)))"

text \<open>\<^verbatim>\<open>sha256.Sum256\<close> is an argument.\<close>

definition HMACKey :: "(string \<Rightarrow> byte list) \<Rightarrow> token_store \<Rightarrow> byte list" where "HMACKey sha ts = sha (ts_token ts)"

text \<open>The Altcha library: creating a challenge (key, maximum, expiry in nanoseconds; the random salt is in the function), encoding it as
  JSON, and verifying a solution.\<close>

record 'c altcha =
  al_create :: "byte list \<Rightarrow> int \<Rightarrow> int \<Rightarrow> (unit, 'c) result"
  al_json :: "'c \<Rightarrow> string option"
  al_verify :: "string \<Rightarrow> byte list \<Rightarrow> (unit, bool) result"

datatype pow_error = PowCreate | PowMarshal | PowVerify

definition challengeTTL :: int where "challengeTTL = 10 * 60 * second"

definition NewChallenge :: "'c altcha \<Rightarrow> byte list \<Rightarrow> int \<Rightarrow> int \<Rightarrow> (pow_error, string) result" where
  "NewChallenge al key now d =
     (case al_create al key d (now + challengeTTL) of
        Inl _ \<Rightarrow> Err PowCreate
      | Inr ch \<Rightarrow> (case al_json al ch of None \<Rightarrow> Err PowMarshal | Some b \<Rightarrow> Ok b))"

definition pow_Verify :: "'c altcha \<Rightarrow> byte list \<Rightarrow> string \<Rightarrow> string \<Rightarrow> (pow_error, bool) result" where
  "pow_Verify al key challenge solution = (case al_verify al solution key of Inl _ \<Rightarrow> Err PowVerify | Inr ok \<Rightarrow> Ok ok)"

definition defaultAllowedCIDRs :: "string list" where "defaultAllowedCIDRs = [''127.0.0.1/32'', ''::1/128'']"

definition parseCIDRs :: "string list \<Rightarrow> ip_net list" where "parseCIDRs cidrs = List.map_filter ParseCIDR cidrs"

definition ipAllowed :: "string \<Rightarrow> ip_net list \<Rightarrow> bool" where
  "ipAllowed ip nets = (case ParseIP ip of None \<Rightarrow> False | Some parsed \<Rightarrow> list_ex (\<lambda>n. Contains n parsed) nets)"

definition admin_extractIP :: "string \<Rightarrow> string" where
  "admin_extractIP remoteAddr = (case split_host_port remoteAddr of None \<Rightarrow> remoteAddr | Some host \<Rightarrow> host)"

record accept_request =
  acr_chain_id :: string
  acr_field :: string

record refill_result =
  rfr_index :: nat
  rfr_ok :: bool
  rfr_error :: "refill_error option"

record distributor_json =
  dj_index :: nat
  dj_address :: string
  dj_balance :: string
  dj_queue_depth :: nat
  dj_status :: string

record refresh_response =
  rr_hot_reloaded :: nat
  rr_warned :: nat
  rr_frozen :: nat
  rr_removed :: nat

text \<open>A body that does not decode is \<^const>\<open>None\<close>; for a refill, no body decodes like an empty object.\<close>

datatype admin_request =
    RSnapshot | RPending | RAccept "accept_request option" | RRefresh | RReload
  | RDistributors string | RRefill string "nat option option" | RGasGet string | RGasReset string
  | RStatus string | RResume string | RCreateKey "create_params option" | RListKeys | RRevokeKey string | RRotate

datatype admin_body =
    ABError string | ABRegistry registry_error | ABManager manager_error | ABConfig config_error | ABGas gc_error | ABKey apikey_error
  | ABToken token_error | ABOk | ABInfos "chain_info list" | ABPending "pending_change list" | ABRefresh refresh_response
  | ABDistributors "distributor_json list" | ABRefill "refill_result list" | ABGasRow gas_row | ABStatus chain_status
  | ABCreated string string string | ABKeys "api_key list" | ABNewToken string

type_synonym admin_response = "nat \<times> admin_body"

record admin_env =
  ae_menv :: manager_env
  ae_round :: round
  ae_pending_order :: "(string \<times> field) list"
  ae_config :: "(config_error, chains_config) result"   \<comment> \<open>\<^verbatim>\<open>config.LoadChains(h.configPath)\<close>\<close>
  ae_balance :: "string \<Rightarrow> string \<Rightarrow> (tx_error, coin) result"
  ae_send :: "send_request \<Rightarrow> (tx_error, string) result"
  ae_junk :: "string \<Rightarrow> int"
  ae_gas_fault :: bool
  ae_argon :: argon
  ae_key_random :: "byte list option \<times> byte list option \<times> byte list option"
  ae_key_fault :: bool
  ae_now :: int
  ae_token_io :: token_io

record admin_state =
  as_manager :: manager
  as_gas :: gas_table
  as_keys :: key_table
  as_tokens :: "token_store option"

type_synonym admin_outcome = "admin_response \<times> send_request list \<times> admin_state"

definition field_of_name :: "string \<Rightarrow> field option" where
  "field_of_name s = find (\<lambda>f. field_name f = s) classifiableFields"

definition accept_field :: "string \<Rightarrow> string \<Rightarrow> registry_store \<Rightarrow> (registry_error, registry_store) result" where
  "accept_field chainID f s = (case field_of_name f of None \<Rightarrow> Err ErrPendingChange | Some g \<Rightarrow> Accept chainID g s)"

abbreviation set_store :: "registry_store \<Rightarrow> admin_state \<Rightarrow> admin_state" where
  "set_store s st \<equiv> st\<lparr>as_manager := (as_manager st)\<lparr>mg_store := s\<rparr>\<rparr>"

definition Snapshot :: "admin_env \<Rightarrow> admin_state \<Rightarrow> admin_outcome" where
  "Snapshot e st = ((200, ABInfos (List_chains (rd_store (ae_round e)) (mg_store (as_manager st)))), [], st)"

definition admin_Pending :: "admin_env \<Rightarrow> admin_state \<Rightarrow> admin_outcome" where
  "admin_Pending e st = ((200, ABPending (Pending (ae_pending_order e) (mg_store (as_manager st)))), [], st)"

text \<open>The loop that accepts the pending changes of a chain: the number accepted, or the error, with the store as far as it got.\<close>

fun accept_loop :: "string \<Rightarrow> pending_change list \<Rightarrow> nat \<Rightarrow> registry_store \<Rightarrow> (registry_error, nat) result \<times> registry_store" where
  "accept_loop chainID [] accepted s = (Ok accepted, s)"
| "accept_loop chainID (pc # pcs) accepted s =
     (if pc_chain_id pc \<noteq> chainID then accept_loop chainID pcs accepted s
      else case Accept (pc_chain_id pc) (pc_field pc) s of
             Inl err \<Rightarrow> (Err err, s)
           | Inr s' \<Rightarrow> accept_loop chainID pcs (accepted + 1) s')"

definition admin_Accept :: "admin_env \<Rightarrow> accept_request option \<Rightarrow> admin_state \<Rightarrow> admin_outcome" where
  "admin_Accept e body st =
     (case body of
        None \<Rightarrow> ((400, ABError ''invalid JSON''), [], st)
      | Some req \<Rightarrow>
          if acr_chain_id req = '''' then ((400, ABError ''chain_id is required''), [], st)
          else if acr_field req \<noteq> '''' then
            (case accept_field (acr_chain_id req) (acr_field req) (mg_store (as_manager st)) of
               Inl err \<Rightarrow> ((if err = ErrPendingChange \<or> err = ErrChainNotFound then 404 else 500, ABRegistry err), [], st)
             | Inr s \<Rightarrow> ((200, ABOk), [], set_store s st))
          else
            (case accept_loop (acr_chain_id req) (Pending (ae_pending_order e) (mg_store (as_manager st))) 0 (mg_store (as_manager st)) of
               (Inl err, s) \<Rightarrow> ((500, ABRegistry err), [], set_store s st)
             | (Inr accepted, s) \<Rightarrow>
                 if accepted = 0 then ((404, ABError ''no pending changes for chain''), [], set_store s st)
                 else ((200, ABOk), [], set_store s st)))"

definition admin_Refresh :: "admin_env \<Rightarrow> admin_state \<Rightarrow> admin_outcome" where
  "admin_Refresh e st =
     (case Refresh (ae_menv e) (ae_round e) (as_manager st) of
        (Inl err, m) \<Rightarrow> ((502, ABManager err), [], st\<lparr>as_manager := m\<rparr>)
      | (Inr cs0, m) \<Rightarrow>
          let n = (\<lambda>f. case cs0 of None \<Rightarrow> 0 | Some cs \<Rightarrow> f cs)
          in ((200, ABRefresh \<lparr>rr_hot_reloaded = n (\<lambda>c. length (cs_hot_reloaded c)), rr_warned = n (\<lambda>c. length (cs_warned c)),
                rr_frozen = n (\<lambda>c. length (cs_frozen c)), rr_removed = n (\<lambda>c. length (cs_removed c))\<rparr>), [], st\<lparr>as_manager := m\<rparr>))"

definition admin_Reload :: "admin_env \<Rightarrow> admin_state \<Rightarrow> admin_outcome" where
  "admin_Reload e st =
     (case ae_config e of
        Inl err \<Rightarrow> ((422, ABConfig err), [], st)
      | Inr cfg \<Rightarrow>
          (case Reload (ae_menv e) (ae_round e) cfg (as_manager st) of
             (Inl err, m) \<Rightarrow> ((500, ABManager err), [], st\<lparr>as_manager := m\<rparr>)
           | (Inr _, m) \<Rightarrow> ((200, ABOk), [], st\<lparr>as_manager := m\<rparr>)))"

definition distributorStatusString :: "dist_status \<Rightarrow> string" where
  "distributorStatusString s = (if s = StatusRecovering then ''recovering'' else ''healthy'')"

definition balance_text :: "admin_env \<Rightarrow> string \<Rightarrow> string \<Rightarrow> string option" where
  "balance_text e addr denom = (case ae_balance e addr denom of Inl _ \<Rightarrow> None | Inr c \<Rightarrow> Some (coin_amount c))"

text \<open>The handlers of a chain begin with the same lookup.\<close>

definition with_chain :: "string \<Rightarrow> admin_state \<Rightarrow> (managed \<Rightarrow> admin_outcome) \<Rightarrow> admin_outcome" where
  "with_chain chainID st k =
     (case GetChain (as_manager st) chainID of None \<Rightarrow> ((404, ABError ''chain not found''), [], st) | Some c \<Rightarrow> k c)"

definition DistributorList :: "admin_env \<Rightarrow> string \<Rightarrow> admin_state \<Rightarrow> admin_outcome" where
  "DistributorList e chainID st =
     with_chain chainID st (\<lambda>c.
       ((200, ABDistributors (map (\<lambda>s. \<lparr>dj_index = ds_key_index s, dj_address = ds_address s, dj_balance = ds_balance s,
           dj_queue_depth = ds_queue_depth s, dj_status = distributorStatusString (ds_status s)\<rparr>)
         (DistributorStates (balance_text e) (mc_chain c)))), [], st))"

definition refill_result_of :: "nat \<Rightarrow> (refill_error, unit) result \<Rightarrow> refill_result" where
  "refill_result_of i r =
     \<lparr>rfr_index = i, rfr_ok = is_ok r, rfr_error = (case r of Inl err \<Rightarrow> Some err | Inr _ \<Rightarrow> None)\<rparr>"

definition DistributorRefill :: "admin_env \<Rightarrow> string \<Rightarrow> nat option option \<Rightarrow> admin_state \<Rightarrow> admin_outcome" where
  "DistributorRefill e chainID body st =
     with_chain chainID st (\<lambda>c.
       let refill = RefillNow (ae_junk e) (ae_balance e) (ae_send e) (mc_chain c)
       in case body of
            None \<Rightarrow> ((400, ABError ''invalid JSON''), [], st)
          | Some (Some i) \<Rightarrow>
              (case refill i of (sent, r) \<Rightarrow> ((200, ABRefill [refill_result_of i r]), case_option [] (\<lambda>q. [q]) sent, st))
          | Some None \<Rightarrow>
              let results = map (\<lambda>s. (ds_key_index s, refill (ds_key_index s))) (DistributorStates (balance_text e) (mc_chain c))
              in ((200, ABRefill (map (\<lambda>(i, sent, r). refill_result_of i r) results)),
                  List.map_filter (\<lambda>(i, sent, r). sent) results, st))"

definition GasCacheGet :: "admin_env \<Rightarrow> string \<Rightarrow> admin_state \<Rightarrow> admin_outcome" where
  "GasCacheGet e chainID st =
     with_chain chainID st (\<lambda>_.
       case gc_Read (ae_gas_fault e) (as_gas st) chainID of
         Inl err \<Rightarrow> ((500, ABGas err), [], st)
       | Inr None \<Rightarrow> ((404, ABError ''no gas cache entry for chain''), [], st)
       | Inr (Some row) \<Rightarrow> ((200, ABGasRow row), [], st))"

definition GasCacheReset :: "admin_env \<Rightarrow> string \<Rightarrow> admin_state \<Rightarrow> admin_outcome" where
  "GasCacheReset e chainID st =
     with_chain chainID st (\<lambda>_.
       case gc_Reset (ae_gas_fault e) chainID (as_gas st) of
         (Some err, tbl) \<Rightarrow> ((500, ABGas err), [], st\<lparr>as_gas := tbl\<rparr>)
       | (None, tbl) \<Rightarrow> ((200, ABOk), [], st\<lparr>as_gas := tbl\<rparr>))"

definition ChainStatusGet :: "string \<Rightarrow> admin_state \<Rightarrow> admin_outcome" where
  "ChainStatusGet chainID st = with_chain chainID st (\<lambda>c. ((200, ABStatus (ChainStatus (mc_chain c))), [], st))"

definition ChainResume :: "string \<Rightarrow> admin_state \<Rightarrow> admin_outcome" where
  "ChainResume chainID st =
     with_chain chainID st (\<lambda>c.
       if \<not> cst_suspended (ChainStatus (mc_chain c)) then ((409, ABError ''chain is not suspended''), [], st)
       else ((200, ABOk), [], st\<lparr>as_manager := (as_manager st)\<lparr>mg_chains :=
               (mg_chains (as_manager st))(chainID \<mapsto> c\<lparr>mc_chain := Resume (mc_chain c)\<rparr>)\<rparr>\<rparr>))"

definition CreateAPIKey :: "admin_env \<Rightarrow> create_params option \<Rightarrow> admin_state \<Rightarrow> admin_outcome" where
  "CreateAPIKey e body st =
     (case body of
        None \<Rightarrow> ((400, ABError ''invalid JSON''), [], st)
      | Some p \<Rightarrow>
          if cp_chain_scope p = [] then ((400, ABError ''chain_scope is required''), [], st)
          else case ae_key_random e of (idRaw, kbody, salt) \<Rightarrow>
            (case Create (ae_argon e) idRaw kbody salt (ae_key_fault e) (ae_now e) p (as_keys st) of
               (Inl err, tbl) \<Rightarrow> ((500, ABKey err), [], st\<lparr>as_keys := tbl\<rparr>)
             | (Inr (kid, secret), tbl) \<Rightarrow> ((201, ABCreated kid secret (cp_label p)), [], st\<lparr>as_keys := tbl\<rparr>)))"

definition ListAPIKeys :: "admin_env \<Rightarrow> admin_state \<Rightarrow> admin_outcome" where
  "ListAPIKeys e st =
     (case List_keys (ae_key_fault e) (as_keys st) of
        Inl err \<Rightarrow> ((500, ABKey err), [], st)
      | Inr keys \<Rightarrow> ((200, ABKeys keys), [], st))"

definition RevokeAPIKey :: "admin_env \<Rightarrow> string \<Rightarrow> admin_state \<Rightarrow> admin_outcome" where
  "RevokeAPIKey e kid st =
     (case Revoke (ae_key_fault e) (ae_now e) kid (as_keys st) of
        (Inl err, tbl) \<Rightarrow> ((if err = ErrNotFound then (404, ABError ''key not found'') else (500, ABKey err)), [], st\<lparr>as_keys := tbl\<rparr>)
      | (Inr _, tbl) \<Rightarrow> ((200, ABOk), [], st\<lparr>as_keys := tbl\<rparr>))"

definition RotateAdmin :: "admin_env \<Rightarrow> admin_state \<Rightarrow> admin_outcome" where
  "RotateAdmin e st =
     (case as_tokens st of
        None \<Rightarrow> ((503, ABError ''token store not available''), [], st)
      | Some ts \<Rightarrow>
          (case Rotate (ae_token_io e) ts of
             (Inl err, ts') \<Rightarrow> ((500, ABToken err), [], st\<lparr>as_tokens := Some ts'\<rparr>)
           | (Inr newToken, ts') \<Rightarrow> ((200, ABNewToken newToken), [], st\<lparr>as_tokens := Some ts'\<rparr>)))"

fun admin_Router :: "admin_env \<Rightarrow> admin_request \<Rightarrow> admin_state \<Rightarrow> admin_outcome" where
  "admin_Router e RSnapshot st = Snapshot e st"
| "admin_Router e RPending st = admin_Pending e st"
| "admin_Router e (RAccept body) st = admin_Accept e body st"
| "admin_Router e RRefresh st = admin_Refresh e st"
| "admin_Router e RReload st = admin_Reload e st"
| "admin_Router e (RDistributors c) st = DistributorList e c st"
| "admin_Router e (RRefill c body) st = DistributorRefill e c body st"
| "admin_Router e (RGasGet c) st = GasCacheGet e c st"
| "admin_Router e (RGasReset c) st = GasCacheReset e c st"
| "admin_Router e (RStatus c) st = ChainStatusGet c st"
| "admin_Router e (RResume c) st = ChainResume c st"
| "admin_Router e (RCreateKey body) st = CreateAPIKey e body st"
| "admin_Router e RListKeys st = ListAPIKeys e st"
| "admin_Router e (RRevokeKey kid) st = RevokeAPIKey e kid st"
| "admin_Router e RRotate st = RotateAdmin e st"

text \<open>\<^verbatim>\<open>Middleware\<close> around a handler; \<^verbatim>\<open>cmd/pour\<close> gives both the same token store.\<close>

definition Middleware ::
    "string \<Rightarrow> string list \<Rightarrow> http_request \<Rightarrow> (admin_state \<Rightarrow> admin_outcome) \<Rightarrow> admin_state \<Rightarrow> admin_outcome" where
  "Middleware token allowedCIDRs r handle st =
     (let nets = parseCIDRs (if allowedCIDRs = [] then defaultAllowedCIDRs else allowedCIDRs);
          bearer = trim_prefix (hr_authorization r) ''Bearer ''
      in if \<not> ipAllowed (admin_extractIP (hr_remote_addr r)) nets then ((403, ABError ''IP not allowed''), [], st)
         else if bearer = '''' \<or> bearer \<noteq> token then ((401, ABError ''invalid or missing token''), [], st)
         else handle st)"

text \<open>The admin routes behind their middleware. The address of the request is the one it has there: the router as a whole, which rewrites it
  from the request's headers before (\<^verbatim>\<open>chimw.RealIP\<close>), is \<^verbatim>\<open>Server.serve\<close>.\<close>

definition admin_serve :: "admin_env \<Rightarrow> string list \<Rightarrow> http_request \<Rightarrow> admin_request \<Rightarrow> admin_state \<Rightarrow> admin_outcome" where
  "admin_serve e cidrs r q st =
     Middleware (case as_tokens st of None \<Rightarrow> '''' | Some ts \<Rightarrow> ts_token ts) cidrs r (admin_Router e q) st"

text \<open>The token a request is compared with, and whether it carries it.\<close>

definition current_token :: "admin_state \<Rightarrow> string" where
  "current_token st = (case as_tokens st of None \<Rightarrow> '''' | Some ts \<Rightarrow> ts_token ts)"

definition carries :: "http_request \<Rightarrow> string \<Rightarrow> bool" where
  "carries r tok \<longleftrightarrow> tok \<noteq> '''' \<and> trim_prefix (hr_authorization r) ''Bearer '' = tok"

definition allowed_from :: "string list \<Rightarrow> http_request \<Rightarrow> bool" where
  "allowed_from cidrs r \<longleftrightarrow>
     ipAllowed (admin_extractIP (hr_remote_addr r)) (parseCIDRs (if cidrs = [] then defaultAllowedCIDRs else cidrs))"

datatype admin_call = AdminCall admin_env http_request admin_request

fun admin_step :: "string list \<Rightarrow> admin_call \<Rightarrow> admin_state \<Rightarrow> admin_state" where
  "admin_step cidrs (AdminCall e r q) st = snd (snd (admin_serve e cidrs r q st))"

fun admin_status :: "string list \<Rightarrow> admin_call \<Rightarrow> admin_state \<Rightarrow> nat" where
  "admin_status cidrs (AdminCall e r q) st = fst (fst (admin_serve e cidrs r q st))"

fun admin_sends :: "string list \<Rightarrow> admin_call \<Rightarrow> admin_state \<Rightarrow> send_request list" where
  "admin_sends cidrs (AdminCall e r q) st = fst (snd (admin_serve e cidrs r q st))"

fun call_authorized :: "string list \<Rightarrow> string \<Rightarrow> admin_call \<Rightarrow> bool" where
  "call_authorized cidrs tok (AdminCall e r q) \<longleftrightarrow> allowed_from cidrs r \<and> carries r tok"

definition loopback :: "byte list set" where "loopback = {v4_in_v6 @ [127, 0, 0, 1], replicate 15 0 @ [1]}"

definition demo_ts :: token_store where "demo_ts = \<lparr>ts_token = ''pour_admin_old'', ts_file = FileAbsent\<rparr>"

definition demo_admin :: admin_state where
  "demo_admin = \<lparr>as_manager = hs_manager (demo_state True), as_gas = Map.empty, as_keys = [], as_tokens = Some demo_ts\<rparr>"

definition demo_admin_env :: admin_env where
  "demo_admin_env =
     \<lparr>ae_menv = demo_menv True, ae_round = demo_round, ae_pending_order = [], ae_config = Err CfgWindow,
      ae_balance = (\<lambda>_ _. Err (plain_error '''')), ae_send = (\<lambda>_. Err (plain_error '''')), ae_junk = (\<lambda>_. 0), ae_gas_fault = False,
      ae_argon = sample_argon, ae_key_random = (None, None, None), ae_key_fault = False, ae_now = 0,
      ae_token_io = \<lparr>ti_random = Some (replicate 32 7), ti_failed_write = None\<rparr>\<rparr>"

definition admin_http :: "string \<Rightarrow> string \<Rightarrow> http_request" where
  "admin_http addr auth = \<lparr>hr_remote_addr = addr, hr_authorization = auth\<rparr>"

definition demo_altcha :: "string altcha" where
  "demo_altcha = \<lparr>al_create = (\<lambda>k d x. Ok (hex_encode k)), al_json = Some, al_verify = (\<lambda>sol k. Ok (sol = hex_encode k))\<rparr>"

definition demo_sha :: "string \<Rightarrow> byte list" where "demo_sha s = map (\<lambda>c. of_nat (code_of c)) s"

definition keyed_pending :: "(string \<times> field \<rightharpoonup> pending_change) \<Rightarrow> bool" where
  "keyed_pending m \<longleftrightarrow> (\<forall>k pc. m k = Some pc \<longrightarrow> (pc_chain_id pc, pc_field pc) = k \<and> pc_field pc \<in> set freeze_fields)"

definition pending_wf :: "registry_store \<Rightarrow> bool" where "pending_wf s \<longleftrightarrow> keyed_pending (st_pending s)"

definition demo_frozen :: admin_state where
  "demo_frozen = demo_admin\<lparr>as_manager := (as_manager demo_admin)\<lparr>mg_store := fst (UpdateLive ex_dl [''hub-1''] [''hub-1''] 9 (ex_snap ''evil'') ex_store)\<rparr>\<rparr>"

subsection \<open>Who may change anything\<close>

lemma admin_serve_cases:
  "admin_serve e cidrs r q st =
     (if \<not> allowed_from cidrs r then ((403, ABError ''IP not allowed''), [], st)
      else if \<not> carries r (current_token st) then ((401, ABError ''invalid or missing token''), [], st)
      else admin_Router e q st)"
  by (auto simp: admin_serve_def Middleware_def allowed_from_def carries_def current_token_def Let_def)

lemma unauthorized_call:
  assumes "\<not> call_authorized cidrs (current_token st) call"
  shows "admin_step cidrs call st = st" "admin_sends cidrs call st = []" "admin_status cidrs call st \<in> {401, 403}"
  using assms by (cases call; simp add: admin_serve_cases)+

lemma loopback_v6: "parseCIDRs defaultAllowedCIDRs =
    [\<lparr>net_ip = [127, 0, 0, 1], net_mask = replicate 4 255\<rparr>, \<lparr>net_ip = replicate 15 0 @ [1], net_mask = replicate 16 255\<rparr>]"
  by code_simp

lemma and_bytes_255: "and_bytes x (replicate (length x) 255) = x"
proof -
  have "(b AND 255 :: byte) = b" for b :: byte
  proof -
    have "(255 :: byte) = - 1" by simp
    then show ?thesis by (metis and.right_neutral)
  qed
  then show ?thesis by (simp add: and_bytes_def list_eq_iff_nth_eq)
qed

lemma default_allowlist: "ipAllowed s (parseCIDRs defaultAllowedCIDRs) \<longleftrightarrow> (\<exists>ip \<in> loopback. ParseIP s = Some ip)"
proof (cases "ParseIP s")
  case (Some ip)
  note l = ParseIP_length[OF Some]
  have e: "and_bytes [127, 0, 0, 1] (replicate 4 255) = [127, 0, 0, 1]" "and_bytes (replicate 15 0 @ [1]) (replicate 16 255) = replicate 15 0 @ [1]"
    using and_bytes_255[of "[127, 0, 0, 1]"] and_bytes_255[of "replicate 15 0 @ [1]"] by (simp_all add: numeral_eq_Suc)
  have v4: "Contains \<lparr>net_ip = [127, 0, 0, 1], net_mask = replicate 4 255\<rparr> ip \<longleftrightarrow> ip = v4_in_v6 @ [127, 0, 0, 1]"
  proof -
    have "network_mask \<lparr>net_ip = [127, 0, 0, 1], net_mask = replicate 4 255\<rparr> = ([127, 0, 0, 1], replicate 4 255)" by code_simp
    moreover have "and_bytes x (replicate 4 255) = x" if "length x = 4" for x using and_bytes_255[of x] that by simp
    moreover have "length x = 4" if "to4 ip = Some x" for x using that l by (auto simp: to4_def split: if_splits)
    ultimately show ?thesis using l e(1) to4_16[OF l, of "[127, 0, 0, 1]"] by (cases "to4 ip") (auto simp: Contains_def)
  qed
  have v6: "Contains \<lparr>net_ip = replicate 15 0 @ [1], net_mask = replicate 16 255\<rparr> ip \<longleftrightarrow> ip = replicate 15 0 @ [1]"
  proof -
    have "network_mask \<lparr>net_ip = replicate 15 0 @ [1], net_mask = replicate 16 255\<rparr> = (replicate 15 0 @ [1], replicate 16 255)" by code_simp
    moreover have "and_bytes ip (replicate 16 255) = ip" using and_bytes_255[of ip] l by simp
    moreover have "to4 (replicate 15 0 @ [1]) = None" by code_simp
    ultimately show ?thesis using l e(2) by (auto simp: Contains_def to4_def split: option.split)
  qed
  show ?thesis using Some v4 v6 by (auto simp: ipAllowed_def loopback_v6 loopback_def)
qed (simp add: ipAllowed_def)

text \<open>C6: Only the operator changes anything. With the default allowlist, whatever requests anyone sends and however many, as long as no
  request carries the current token and comes from the loopback address, the manager, the gas cache, the API keys and the token stay as
  they are, no transaction is sent, and every request is answered with 401 or 403.\<close>

theorem admin_only_operator:
  assumes "\<forall>call \<in> set calls. case call of AdminCall e r q \<Rightarrow>
      \<not> (trim_prefix (hr_authorization r) ''Bearer '' = current_token st \<and> current_token st \<noteq> '''' \<and>
         (\<exists>ip \<in> loopback. ParseIP (admin_extractIP (hr_remote_addr r)) = Some ip))"
  shows "fold (admin_step []) calls st = st \<and> (\<forall>call \<in> set calls. admin_sends [] call st = [] \<and> admin_status [] call st \<in> {401, 403})"
proof -
  have u: "\<not> call_authorized [] (current_token st) call" if "call \<in> set calls" for call
    using assms that by (cases call) (fastforce simp: allowed_from_def carries_def default_allowlist)
  then have "fold (admin_step []) calls st = st" by (induction calls) (simp_all add: unauthorized_call)
  with u show ?thesis using unauthorized_call by blast
qed

theorem admin_only_operator_witness:
  "fold (admin_step []) [AdminCall demo_admin_env (admin_http ''10.0.0.1:80'' ''Bearer pour_admin_old'') (RResume ''osmosis-1''),
       AdminCall demo_admin_env (admin_http ''127.0.0.1:80'' ''Bearer guess'') RRotate] demo_admin = demo_admin \<and>
   admin_status [] (AdminCall demo_admin_env (admin_http ''[::1]:80'' ''Bearer pour_admin_old'') (RResume ''osmosis-1'')) demo_admin = 200"
proof -
  have ip: "ParseIP (admin_extractIP ''10.0.0.1:80'') = Some (v4_in_v6 @ [10, 0, 0, 1])" by code_simp
  have out: "v4_in_v6 @ [10, 0, 0, 1] \<notin> loopback" by code_simp
  have guess: "trim_prefix ''Bearer guess'' ''Bearer '' \<noteq> ''pour_admin_old''" by code_simp
  have tok: "current_token demo_admin = ''pour_admin_old''" by (simp add: current_token_def demo_admin_def demo_ts_def)
  have "fold (admin_step []) [AdminCall demo_admin_env (admin_http ''10.0.0.1:80'' ''Bearer pour_admin_old'') (RResume ''osmosis-1''),
       AdminCall demo_admin_env (admin_http ''127.0.0.1:80'' ''Bearer guess'') RRotate] demo_admin = demo_admin"
    by (rule conjunct1[OF admin_only_operator]) (use out guess in \<open>auto simp: tok admin_http_def ip\<close>)
  moreover have "admin_status [] (AdminCall demo_admin_env (admin_http ''[::1]:80'' ''Bearer pour_admin_old'') (RResume ''osmosis-1'')) demo_admin = 200"
    by code_simp
  ultimately show ?thesis by blast
qed

subsection \<open>Rotation\<close>

lemma b64_url_no_space: "list_all (\<lambda>c. \<not> is_space c) (b64_encode RawURLEncoding bs)"
proof -
  have "list_all (\<lambda>c. \<not> is_space c) (b64_alphabet RawURLEncoding)" by code_simp
  moreover have "length (b64_alphabet RawURLEncoding) = 64" by code_simp
  moreover have pad: "\<not> b64_padded RawURLEncoding" by code_simp
  ultimately have c: "\<not> is_space (b64_char RawURLEncoding d)" if "d < 64" for d
    using that by (simp add: b64_char_def list_all_iff)
  show ?thesis
    by (induction RawURLEncoding bs rule: b64_encode.induct) (simp_all add: c b64_sextets pad)
qed

lemma generateToken_trim:
  assumes "generateToken io = Ok tok"
  shows "trim_space (tok @ [CHR 0x0A]) = tok" "tok \<noteq> ''''"
proof -
  obtain bs where t: "tok = tokenPrefix @ b64_encode RawURLEncoding bs" using assms by (auto simp: generateToken_def split: option.splits)
  have "list_all (\<lambda>c. \<not> is_space c) tokenPrefix" by code_simp
  then have ns: "list_all (\<lambda>c. \<not> is_space c) tok" using b64_url_no_space[of bs] by (simp add: t)
  moreover have "tokenPrefix \<noteq> []" by (simp add: tokenPrefix_def)
  ultimately show ne: "tok \<noteq> ''''" by (simp add: t)
  have h: "\<not> is_space (hd tok)" "\<not> is_space (hd (rev tok))" and "is_space (CHR 0x0A)"
    using ns ne by (auto simp: list_all_iff hd_rev is_space_def code_of_def)
  moreover have "dropWhile is_space (tok @ [CHR 0x0A]) = tok @ [CHR 0x0A]" using h(1) ne by (cases tok) auto
  moreover have "dropWhile is_space (rev tok) = rev tok" using h(2) ne by (cases "rev tok") auto
  ultimately show "trim_space (tok @ [CHR 0x0A]) = tok" by (simp add: trim_space_def)
qed

lemma Rotate_Ok:
  assumes "Rotate io ts = (Ok tok, ts')"
  shows "ts_token ts' = tok" "ts_file ts' = FileData (tok @ [CHR 0x0A])" "generateToken io = Ok tok"
  using assms by (auto simp: Rotate_def write_token_def split: sum.splits option.splits)

lemma RotateAdmin_ok:
  assumes "RotateAdmin e st = ((200, ABNewToken tok), sent, st')"
  obtains ts ts' where "as_tokens st = Some ts" "Rotate (ae_token_io e) ts = (Ok tok, ts')" "st' = st\<lparr>as_tokens := Some ts'\<rparr>"
  using assms by (auto simp: RotateAdmin_def split: option.splits prod.splits sum.splits)

text \<open>C15: What a rotation of the admin token does. Once the handler has returned a new token, requests with any other token (the old
  one in particular) from an allowed address are refused, requests with the new one are served; a restart takes the new token whatever the
  environment variable says; and from then on proof-of-work challenges are created under the digest of the new token with the fixed
  lifetime, and a solution, also one of a challenge handed out before, is accepted exactly when Altcha verifies it under that digest.\<close>

theorem rotation_invalidates:
  assumes "RotateAdmin e st = ((200, ABNewToken tok), sent, st')"
  shows "\<exists>ts'. as_tokens st' = Some ts' \<and>
    (\<forall>e2 cidrs r q. allowed_from cidrs r \<longrightarrow>
       (if carries r tok then admin_serve e2 cidrs r q st' = admin_Router e2 q st'
        else admin_serve e2 cidrs r q st' = ((401, ABError ''invalid or missing token''), [], st'))) \<and>
    (\<forall>io env. NewTokenStore io env (ts_file ts') = (Ok tok, ts_file ts')) \<and>
    (\<forall>now d s. NewChallenge al (HMACKey sha ts') now d = Ok s \<longleftrightarrow>
       (\<exists>ch. al_create al (sha tok) d (now + 10 * 60 * 1000000000) = Ok ch \<and> al_json al ch = Some s)) \<and>
    (\<forall>ch sol. pow_Verify al (HMACKey sha ts') ch sol = Ok True \<longleftrightarrow> al_verify al sol (sha tok) = Ok True)"
proof -
  obtain ts ts' where r: "Rotate (ae_token_io e) ts = (Ok tok, ts')" "st' = st\<lparr>as_tokens := Some ts'\<rparr>"
    using RotateAdmin_ok[OF assms] by metis
  note t = Rotate_Ok[OF r(1)] and g = generateToken_trim[OF Rotate_Ok(3)[OF r(1)]]
  have "current_token st' = tok" using r(2) t(1) by (simp add: current_token_def)
  moreover have "NewTokenStore io env (ts_file ts') = (Ok tok, ts_file ts')" for io env using t(2) g by (simp add: NewTokenStore_def)
  moreover have "NewChallenge al (HMACKey sha ts') now d = Ok s \<longleftrightarrow>
      (\<exists>ch. al_create al (sha tok) d (now + 10 * 60 * 1000000000) = Ok ch \<and> al_json al ch = Some s)" for now d s
    using t(1) by (auto simp: NewChallenge_def HMACKey_def challengeTTL_def second_def split: sum.splits option.splits)
  moreover have "pow_Verify al (HMACKey sha ts') ch sol = Ok True \<longleftrightarrow> al_verify al sol (sha tok) = Ok True" for ch sol
    using t(1) by (auto simp: pow_Verify_def HMACKey_def split: sum.splits)
  ultimately show ?thesis using r(2) by (intro exI[of _ ts']) (simp add: admin_serve_cases)
qed

theorem rotation_invalidates_witness:
  "\<exists>tok st' ts'. RotateAdmin demo_admin_env demo_admin = ((200, ABNewToken tok), [], st') \<and> as_tokens st' = Some ts' \<and>
     admin_status [] (AdminCall demo_admin_env (admin_http ''127.0.0.1:80'' ''Bearer pour_admin_old'') RRotate) st' = 401 \<and>
     NewTokenStore (ae_token_io demo_admin_env) ''pour_admin_old'' (ts_file ts') = (Ok tok, ts_file ts') \<and>
     pow_Verify demo_altcha (HMACKey demo_sha demo_ts) '''' (hex_encode (HMACKey demo_sha demo_ts)) = Ok True \<and>
     pow_Verify demo_altcha (HMACKey demo_sha ts') '''' (hex_encode (HMACKey demo_sha demo_ts)) \<noteq> Ok True"
proof -
  define tok where "tok = tokenPrefix @ b64_encode RawURLEncoding (replicate 32 7)"
  have g: "generateToken (ae_token_io demo_admin_env) = Ok tok" by (simp add: generateToken_def demo_admin_env_def tok_def)
  define st' where "st' = demo_admin\<lparr>as_tokens := Some \<lparr>ts_token = tok, ts_file = FileData (tok @ [CHR 0x0A])\<rparr>\<rparr>"
  have r: "RotateAdmin demo_admin_env demo_admin = ((200, ABNewToken tok), [], st')"
    by (simp add: RotateAdmin_def Rotate_def g write_token_def demo_admin_def demo_ts_def st'_def) (simp add: demo_admin_env_def)
  have "demo_sha (tokenPrefix @ b64_encode RawURLEncoding (replicate 32 7)) \<noteq> demo_sha (ts_token demo_ts)" by code_simp
  then have n: "al_verify demo_altcha (hex_encode (HMACKey demo_sha demo_ts)) (demo_sha tok) \<noteq> Ok True"
    by (auto simp: demo_altcha_def HMACKey_def tok_def dest: hex_encode_inject)
  have l: "allowed_from [] (admin_http ''127.0.0.1:80'' ''Bearer pour_admin_old'')" by code_simp
  have "\<not> carries (admin_http ''127.0.0.1:80'' ''Bearer pour_admin_old'') (tokenPrefix @ b64_encode RawURLEncoding (replicate 32 7))" by code_simp
  then have c: "\<not> carries (admin_http ''127.0.0.1:80'' ''Bearer pour_admin_old'') tok" by (simp add: tok_def)
  have v: "pow_Verify demo_altcha (HMACKey demo_sha demo_ts) '''' (hex_encode (HMACKey demo_sha demo_ts)) = Ok True"
    by (simp add: pow_Verify_def demo_altcha_def)
  obtain ts' where t: "as_tokens st' = Some ts'" "NewTokenStore (ae_token_io demo_admin_env) ''pour_admin_old'' (ts_file ts') = (Ok tok, ts_file ts')"
    "admin_serve demo_admin_env [] (admin_http ''127.0.0.1:80'' ''Bearer pour_admin_old'') RRotate st' = ((401, ABError ''invalid or missing token''), [], st')"
    "pow_Verify demo_altcha (HMACKey demo_sha ts') '''' (hex_encode (HMACKey demo_sha demo_ts)) \<noteq> Ok True"
    using rotation_invalidates[OF r, of demo_altcha demo_sha] l c n by meson
  then show ?thesis using r v by (intro exI[of _ tok] exI[of _ st'] exI[of _ ts']) simp
qed

subsection \<open>Accepting registry changes\<close>

lemma pending_wfD:
  assumes "pending_wf s" "st_pending s k = Some pc"
  shows "(pc_chain_id pc, pc_field pc) = k" "pc_field pc \<in> set freeze_fields"
  using assms unfolding pending_wf_def keyed_pending_def by blast+

lemma keyed_upd: "keyed_pending m \<Longrightarrow> (\<And>pc. v = Some pc \<Longrightarrow> (pc_chain_id pc, pc_field pc) = k \<and> pc_field pc \<in> set freeze_fields) \<Longrightarrow> keyed_pending (m(k := v))"
  unfolding keyed_pending_def fun_upd_apply by metis

lemma freeze_classified: "f \<in> set classifiableFields \<Longrightarrow> classify f = FieldPolicyFreeze \<Longrightarrow> f \<in> set freeze_fields"
  by (auto simp: classifiableFields_def freeze_fields_def)

lemma update_field_wf:
  assumes "f \<in> set classifiableFields" "keyed_pending (ua_pending a)"
  shows "keyed_pending (ua_pending (update_field dl c old now f a))"
  using assms(2) freeze_classified[OF assms(1)]
  by (auto simp: update_field_def Let_def intro!: keyed_upd split: prod.split field_policy.split)

lemma update_fields_wf:
  "set fs \<subseteq> set classifiableFields \<Longrightarrow> keyed_pending (ua_pending a) \<Longrightarrow> keyed_pending (ua_pending (fold (update_field dl c old now) fs a))"
  by (induction fs arbitrary: a) (simp_all add: update_field_wf)

lemma update_chain_wf: "pending_wf (fst sc) \<Longrightarrow> pending_wf (fst (update_chain dl first now c sc))"
  by (cases sc) (simp add: update_chain_def applyChainUpdate_def pending_wf_def Let_def update_fields_wf split: option.split)

lemma UpdateLive_wf: "pending_wf s \<Longrightarrow> pending_wf (fst (UpdateLive dl ord1 ord2 now snap s))"
proof -
  assume "pending_wf s"
  then have wf: "pending_wf (s\<lparr>st_live := Some snap, st_ibc_channels := snap_ibc_channels snap\<rparr>)" by (simp add: pending_wf_def)
  have u: "pending_wf (fst (fold (update_chain dl first now) cs sc))" if "pending_wf (fst sc)" for cs sc first
    using that by (induction cs arbitrary: sc) (simp_all add: update_chain_wf)
  have d: "st_pending (fst (disable_missing snap c sc)) = st_pending (fst sc)" for c sc
    by (simp add: disable_missing_def split: prod.split option.split)
  have "pending_wf (fst (fold (disable_missing snap) cs sc))" if "pending_wf (fst sc)" for cs sc
    using that by (induction cs arbitrary: sc) (simp_all add: d pending_wf_def)
  then show "pending_wf (fst (UpdateLive dl ord1 ord2 now snap s))"
    unfolding UpdateLive_def Let_def using wf u by simp
qed

lemma Accept_Ok:
  assumes "st_pending s (c, f) = Some pc" "st_chains s c \<noteq> None" "f \<in> set freeze_fields"
  obtains s' where "Accept c f s = Ok s'" "st_pending s' = (st_pending s)((c, f) := None)" "st_chains s' c \<noteq> None"
proof -
  obtain i where i: "st_chains s c = Some i" using assms(2) by blast
  have "applyAcceptedField f (pc_new_value pc) i \<noteq> None" using assms(3) by (auto simp: freeze_fields_def)
  then obtain y where "applyAcceptedField f (pc_new_value pc) i = Some y" by blast
  with i assms(1) have "\<exists>s'. Accept c f s = Ok s' \<and> st_pending s' = (st_pending s)((c, f) := None) \<and> st_chains s' c \<noteq> None"
    by (simp add: Accept_def)
  with that show thesis by blast
qed

lemma Accept_wf: "Accept c f s = Ok s' \<Longrightarrow> pending_wf s \<Longrightarrow> pending_wf s'"
  by (auto simp: Accept_def pending_wf_def intro!: keyed_upd split: option.splits)

lemma accept_all_wf: "pending_wf s \<Longrightarrow> pending_wf (accept_all c fs s)"
  by (induction fs arbitrary: s) (auto simp: accept_all_def dest: Accept_wf split: sum.split)

lemma accept_loop_skip: "\<forall>pc \<in> set pcs. pc_chain_id pc \<noteq> c \<Longrightarrow> accept_loop c pcs n s = (Ok n, s)"
  by (induction pcs) auto

lemma accept_loop_all:
  assumes "pending_wf s" "st_chains s c \<noteq> None"
    and "\<forall>pc \<in> set pcs. pc_chain_id pc = c \<longrightarrow> st_pending s (c, pc_field pc) = Some pc"
    and "distinct (map pc_field (filter (\<lambda>pc. pc_chain_id pc = c) pcs))"
  shows "accept_loop c pcs n s =
    (Ok (n + length (filter (\<lambda>pc. pc_chain_id pc = c) pcs)), accept_all c (map pc_field (filter (\<lambda>pc. pc_chain_id pc = c) pcs)) s)"
  using assms
proof (induction pcs arbitrary: n s)
  case (Cons pc pcs)
  show ?case
  proof (cases "pc_chain_id pc = c")
    case True
    then have pend: "st_pending s (c, pc_field pc) = Some pc" using Cons.prems(3) by simp
    then have fz: "pc_field pc \<in> set freeze_fields" by (rule pending_wfD(2)[OF Cons.prems(1)])
    obtain s' where s': "Accept c (pc_field pc) s = Ok s'" "st_pending s' = (st_pending s)((c, pc_field pc) := None)" "st_chains s' c \<noteq> None"
      by (rule Accept_Ok[OF pend Cons.prems(2) fz])
    note wf = Accept_wf[OF s'(1) Cons.prems(1)]
    have rest: "\<forall>x \<in> set pcs. pc_chain_id x = c \<longrightarrow> st_pending s' (c, pc_field x) = Some x"
    proof (intro ballI impI)
      fix x assume x: "x \<in> set pcs" "pc_chain_id x = c"
      then have "pc_field x \<noteq> pc_field pc" using Cons.prems(4) True by (force simp: image_iff)
      moreover have "st_pending s (c, pc_field x) = Some x" using Cons.prems(3) x by simp
      ultimately show "st_pending s' (c, pc_field x) = Some x" by (simp add: s'(2))
    qed
    have dist: "distinct (map pc_field (filter (\<lambda>x. pc_chain_id x = c) pcs))" using Cons.prems(4) True by simp
    from Cons.IH[OF wf s'(3) rest dist, of "n + 1"] show ?thesis using True s'(1) by (simp add: accept_all_def)
  next
    case False
    with Cons.IH[OF Cons.prems(1,2)] Cons.prems(3,4) show ?thesis by simp
  qed
qed (simp add: accept_all_def)

lemma take_new_commute:
  assumes "f \<in> set freeze_fields" "g \<in> set freeze_fields"
  shows "take_new dl old new f \<circ> take_new dl old new g = take_new dl old new g \<circ> take_new dl old new f"
  using assms by (auto simp: freeze_fields_def fun_eq_iff take_new_simps)

lemma fold_take_new:
  assumes "distinct fs" "set fs \<subseteq> set freeze_fields" "\<forall>f \<in> set freeze_fields. field_changed dl old new f \<longrightarrow> f \<in> set fs"
  shows "fold (take_new dl old new) fs = fold (take_new dl old new) freeze_fields"
proof -
  have skip: "fold (take_new dl old new) gs = fold (take_new dl old new) (filter (\<lambda>f. f \<in> set fs) gs)" if "set gs \<subseteq> set freeze_fields" for gs
    using that assms(3) by (induction gs) (auto simp: take_new_def fun_eq_iff)
  have "distinct freeze_fields" by (simp add: freeze_fields_def)
  then have "mset fs = mset (filter (\<lambda>f. f \<in> set fs) freeze_fields)"
    using assms(1,2) by (intro set_eq_iff_mset_eq_distinct[THEN iffD1]) auto
  then have "fold (take_new dl old new) fs = fold (take_new dl old new) (filter (\<lambda>f. f \<in> set fs) freeze_fields)"
    by (rule fold_multiset_equiv[rotated]) (rule take_new_commute; use assms(2) in blast)
  then show ?thesis using skip[of freeze_fields] by simp
qed

lemma in_Pending: "pc \<in> set (Pending ord s) \<longleftrightarrow> (\<exists>k \<in> set ord. st_pending s k = Some pc)"
  by (force simp: Pending_def List.map_filter_def)

lemma Pending_fields_distinct:
  assumes "pending_wf s" "distinct ord"
  shows "distinct (map pc_field (filter (\<lambda>pc. pc_chain_id pc = c) (Pending ord s)))"
proof -
  let ?ps = "List.map_filter (st_pending s) ord"
  have "distinct (map (\<lambda>pc. (pc_chain_id pc, pc_field pc)) ?ps)"
    using assms(2)
  proof (induction ord)
    case (Cons k ord)
    note key = pending_wfD(1)[OF assms(1)]
    then have "(\<lambda>pc. (pc_chain_id pc, pc_field pc)) ` set (List.map_filter (st_pending s) ord) \<subseteq> set ord"
      by (force simp: List.map_filter_def)
    with Cons key show ?case
      by (auto simp: List.map_filter_simps split: option.split)
  qed simp
  moreover have "mset (Pending ord s) = mset ?ps" by (simp add: Pending_def)
  ultimately have "distinct (map (\<lambda>pc. (pc_chain_id pc, pc_field pc)) (Pending ord s))"
    by (metis mset_map mset_eq_imp_distinct_iff)
  then have "distinct (Pending ord s)" "inj_on (\<lambda>pc. (pc_chain_id pc, pc_field pc)) (set (Pending ord s))"
    by (simp_all add: distinct_map)
  then show ?thesis by (auto simp: distinct_map inj_on_def)
qed

text \<open>C36: Accepting a frozen update by its chain. When a live refresh froze changes of a known chain, the request that names only the chain
  is answered with 200 and the registry then holds exactly the information the snapshot and the overrides resolve to, with nothing
  pending for the chain; a second such request is answered with 404 and changes nothing.\<close>

theorem admin_accept_converges:
  assumes "st_live s \<noteq> None" "\<not> is_standalone s c" "st_chains s c = Some old" "snap_chains snap c = Some raw"
    and "distinct ord1" "c \<in> set ord1" "c \<noteq> ''''"
    and "mg_store (as_manager st) = fst (UpdateLive dl ord1 ord2 now snap s)" "pending_wf s"
    and "distinct (ae_pending_order e)" "\<forall>f \<in> set freeze_fields. (c, f) \<in> set (ae_pending_order e)"
    and "\<exists>f \<in> set freeze_fields. field_changed dl old (resolved dl s c raw) f"
  shows "\<exists>st' t. admin_Accept e (Some \<lparr>acr_chain_id = c, acr_field = ''''\<rparr>) st = ((200, ABOk), [], st') \<and>
    st_chains (mg_store (as_manager st')) c = Some ((resolved dl s c raw)\<lparr>ci_last_changed := t\<rparr>) \<and>
    (\<forall>f. st_pending (mg_store (as_manager st')) (c, f) = None) \<and>
    admin_Accept e (Some \<lparr>acr_chain_id = c, acr_field = ''''\<rparr>) st' = ((404, ABError ''no pending changes for chain''), [], st')"
proof -
  define u where "u = mg_store (as_manager st)"
  let ?new = "resolved dl s c raw" and ?pcs = "filter (\<lambda>pc. pc_chain_id pc = c) (Pending (ae_pending_order e) u)"
  let ?fs = "map pc_field ?pcs"
  note up = UpdateLive_chain[OF assms(1-6), where dl = dl and ?ord2.0 = ord2 and now = now, folded assms(8) u_def]
  have wf: "pending_wf u" unfolding u_def assms(8) by (rule UpdateLive_wf[OF assms(9)])
  obtain t where t: "st_chains u c = Some ((frozen_merge old ?new)\<lparr>ci_last_changed := t\<rparr>)" using up(1) by blast
  have fs: "f \<in> set ?fs \<longleftrightarrow> st_pending u (c, f) \<noteq> None" for f
  proof
    assume "f \<in> set ?fs"
    then obtain pc k where "pc_chain_id pc = c" "pc_field pc = f" "st_pending u k = Some pc" by (auto simp: in_Pending)
    with pending_wfD(1)[OF wf, of k pc] show "st_pending u (c, f) \<noteq> None" by auto
  next
    assume "st_pending u (c, f) \<noteq> None"
    then obtain pc where pc: "st_pending u (c, f) = Some pc" by blast
    then have "pc_chain_id pc = c" "pc_field pc = f" "(c, f) \<in> set (ae_pending_order e)"
      using pending_wfD[OF wf pc] assms(11) by auto
    with pc show "f \<in> set ?fs" by (force simp: in_Pending)
  qed
  have pend: "st_pending u (c, f) = pending_for dl c old ?new now f" if "f \<in> set freeze_fields" for f using up(2) that by blast
  have sub: "set ?fs \<subseteq> set freeze_fields" using pending_wfD(2)[OF wf] by (auto simp: in_Pending)
  have dist: "distinct ?fs" by (rule Pending_fields_distinct[OF wf assms(10)])
  have loop: "accept_loop c (Pending (ae_pending_order e) u) 0 u = (Ok (length ?pcs), accept_all c ?fs u)"
  proof -
    have "\<forall>pc \<in> set (Pending (ae_pending_order e) u). pc_chain_id pc = c \<longrightarrow> st_pending u (c, pc_field pc) = Some pc"
      using pending_wfD(1)[OF wf] by (fastforce simp: in_Pending)
    from accept_loop_all[OF wf _ this dist, of 0] t show ?thesis by simp
  qed
  note v = accept_all_view[OF t pend sub dist]
  have "fold (take_new dl old ?new) ?fs = fold (take_new dl old ?new) freeze_fields"
    using pend fs by (intro fold_take_new[OF dist sub]) (auto simp: pending_for_def)
  then have info: "st_chains (accept_all c ?fs u) c = Some (?new\<lparr>ci_last_changed := t\<rparr>)"
    using v sub by (auto simp: take_new_all)
  have none: "st_pending (accept_all c ?fs u) (c, f) = None" for f
  proof (cases "f \<in> set ?fs")
    case True
    then show ?thesis using v sub by (simp add: subset_iff)
  next
    case False
    then have "st_pending u (c, f) = None" using fs by blast
    then show ?thesis using v sub False by (simp add: subset_iff)
  qed
  have "?pcs \<noteq> []"
  proof -
    obtain f where "f \<in> set freeze_fields" "field_changed dl old ?new f" using assms(12) by blast
    then have "?fs \<noteq> []" using fs[of f] pend by (force simp: pending_for_def)
    then show ?thesis by simp
  qed
  then have r: "admin_Accept e (Some \<lparr>acr_chain_id = c, acr_field = ''''\<rparr>) st = ((200, ABOk), [], set_store (accept_all c ?fs u) st)"
    using loop assms(7) by (simp add: admin_Accept_def u_def)
  define st' where "st' = set_store (accept_all c ?fs u) st"
  have u': "mg_store (as_manager st') = accept_all c ?fs u" by (simp add: st'_def)
  have "accept_loop c (Pending (ae_pending_order e) (accept_all c ?fs u)) 0 (accept_all c ?fs u) = (Ok 0, accept_all c ?fs u)"
  proof -
    note wf' = accept_all_wf[OF wf, of c ?fs]
    have "pc_chain_id pc \<noteq> c" if "pc \<in> set (Pending (ae_pending_order e) (accept_all c ?fs u))" for pc
    proof
      assume c: "pc_chain_id pc = c"
      obtain k where k: "st_pending (accept_all c ?fs u) k = Some pc" using \<open>pc \<in> _\<close> unfolding in_Pending by blast
      then have "k = (c, pc_field pc)" using pending_wfD(1)[OF wf' k] c by simp
      with k none show False by simp
    qed
    then show ?thesis by (intro accept_loop_skip) blast
  qed
  then have again: "admin_Accept e (Some \<lparr>acr_chain_id = c, acr_field = ''''\<rparr>) st' = ((404, ABError ''no pending changes for chain''), [], set_store (accept_all c ?fs u) st')"
    using assms(7) by (simp add: admin_Accept_def u')
  have "set_store (accept_all c ?fs u) st' = st'" by (simp add: st'_def)
  with r info none again show ?thesis by (intro exI[of _ st'] exI[of _ t]) (simp add: u' st'_def[symmetric])
qed

theorem admin_accept_converges_witness:
  "\<exists>st' i. admin_Accept (demo_admin_env\<lparr>ae_pending_order := map (Pair ''hub-1'') freeze_fields\<rparr>) (Some \<lparr>acr_chain_id = ''hub-1'', acr_field = ''''\<rparr>) demo_frozen =
       ((200, ABOk), [], st') \<and> st_chains (mg_store (as_manager st')) ''hub-1'' = Some i \<and> ci_bech32_prefix i = ''evil''"
proof -
  have n: "pending_wf (New_store None)" by (simp add: pending_wf_def keyed_pending_def New_store_def)
  have w: "pending_wf ex_store" unfolding ex_store_def by (rule UpdateLive_wf[OF n])
  have m: "mg_store (as_manager demo_frozen) = fst (UpdateLive ex_dl [''hub-1''] [''hub-1''] 9 (ex_snap ''evil'') ex_store)"
    by (simp add: demo_frozen_def)
  let ?e = "demo_admin_env\<lparr>ae_pending_order := map (Pair ''hub-1'') freeze_fields\<rparr>"
  have o1: "distinct (ae_pending_order ?e)" "\<forall>f \<in> set freeze_fields. (''hub-1'', f) \<in> set (ae_pending_order ?e)"
    by (simp_all add: freeze_fields_def)
  have ch: "\<exists>f \<in> set freeze_fields. field_changed ex_dl (the (st_chains ex_store ''hub-1'')) (resolved ex_dl ex_store ''hub-1'' (ex_raw ''evil'')) f"
    using ex_changed by (intro bexI[of _ FieldBech32Prefix]) (simp_all add: freeze_fields_def ex_store_simps)
  show ?thesis
    using admin_accept_converges[OF ex_store_simps(1,2,4) ex_store_simps(5)[of "''evil''"] _ _ _ m w o1] ch
    by (fastforce simp: ex_store_simps resolved_def with_override_def rawToInfo_def ex_raw_def)
qed

end
