(* ===== verification/Server.thy ===== *)
theory Server
  imports Admin
begin

text \<open>
  \<^verbatim>\<open>internal/http/server.go\<close>, the read-only endpoints of \<^verbatim>\<open>internal/http/handlers\<close>, and the wiring of \<^verbatim>\<open>cmd/pour/main.go\<close>: what the
  daemon builds at startup from the configuration and the manager, and the router with its middleware. Timestamps in responses stay
  integers; \<^verbatim>\<open>chimw.RealIP\<close>, which rewrites the remote address from request headers, is an argument.

  The lemmas show what the startup wiring fixes once and for all, and whose address the limits and the allowlist see.
\<close>

definition buildBroadcasters :: "string list \<Rightarrow> manager \<Rightarrow> string list" where
  "buildBroadcasters order m = map (\<lambda>s. ci_chain_id (snp_info s)) (ListActive order m)"

definition buildLimiter :: "parse_duration \<Rightarrow> abuse_config \<Rightarrow> limiter" where
  "buildLimiter pd ab =
     (let window = (case WindowDuration pd (ac_ip_rate_limit ab) of Inl _ \<Rightarrow> 0 | Inr w \<Rightarrow> w);
          rpw = (if irl_requests_per_window (ac_ip_rate_limit ab) = 0 then DefaultRequestsPerWindow
                 else irl_requests_per_window (ac_ip_rate_limit ab))
      in New_limiter rpw window)"

record abuse_components =
  abc_pow_difficulty :: int
  abc_nonces :: nonce_store
  abc_predicates :: predicate_checker

text \<open>\<^verbatim>\<open>query\<close> is \<^verbatim>\<open>tx.Client.QueryBalance\<close> on the client of a chain. A chain that only receives IBC transfers has the nil client,
  on which the call panics; such calls are left out.\<close>

definition buildAbuseComponents ::
    "abuse_config \<Rightarrow> (string \<Rightarrow> balance_querier) \<Rightarrow> (string \<rightharpoonup> bool) \<Rightarrow> chain_snapshot list \<Rightarrow> abuse_components" where
  "buildAbuseComponents ab query rawClients snapshots =
     \<lparr>abc_pow_difficulty =
        (let d = apc_difficulty (ac_pow ab)
         in if d \<noteq> '''' then (case ParseDifficulty d of None \<Rightarrow> DifficultyMedium | Some parsed \<Rightarrow> parsed) else DifficultyMedium),
      abc_nonces = NewNonceStore (5 * 60 * second),
      abc_predicates =
        NewPredicateChecker (\<lambda>i. map_option (\<lambda>_. query i) (rawClients i))
          (fold (\<lambda>s m. m(ci_chain_id (snp_info s) \<mapsto> ci_bech32_prefix (snp_info s))) snapshots Map.empty)\<rparr>"

definition ipRateLimitWarnThreshold :: int where "ipRateLimitWarnThreshold = 10000"

definition signedDripRatioHigh :: "string \<Rightarrow> string \<Rightarrow> bool" where
  "signedDripRatioHigh signedCoin anonCoin =
     (if signedCoin = '''' \<or> anonCoin = '''' then False
      else case (ParseCoin signedCoin, ParseCoin anonCoin) of
             (Inr s, Inr a) \<Rightarrow>
               if coin_denom s \<noteq> coin_denom a then False
               else (case (set_string (coin_amount s), set_string (coin_amount a)) of
                       (Some sv, Some av) \<Rightarrow> if av \<le> 0 then False else sv > av * 100
                     | _ \<Rightarrow> False)
           | _ \<Rightarrow> False)"

datatype abuse_warning =
    WarnOpen | WarnIPRate int | WarnPredicateEnabled string | WarnSignedUnset string | WarnSignedRatio string

definition logAbuseWarnings :: "chains_config \<Rightarrow> abuse_warning list" where
  "logAbuseWarnings cfg =
     (let ab = cfg_abuse cfg; pc = asc_predicate_chain_id (ac_signature_challenge ab)
      in (if \<not> apc_enabled (ac_pow ab) \<and> \<not> ac_api_keys_enabled ab \<and> \<not> asc_enabled (ac_signature_challenge ab) then [WarnOpen] else []) @
         (if irl_requests_per_window (ac_ip_rate_limit ab) > ipRateLimitWarnThreshold
          then [WarnIPRate (irl_requests_per_window (ac_ip_rate_limit ab))] else []) @
         concat (map (\<lambda>ch.
           (if pc \<noteq> '''' \<and> cc_chain_id ch = pc \<and> IsEnabled ch then [WarnPredicateEnabled (cc_chain_id ch)] else []) @
           (if \<not> IsEnabled ch then []
            else (if asc_enabled (ac_signature_challenge ab) \<and> dc_signed (cc_drip ch) = '''' then [WarnSignedUnset (cc_chain_id ch)] else []) @
                 (if signedDripRatioHigh (dc_signed (cc_drip ch)) (dc_anonymous (cc_drip ch)) then [WarnSignedRatio (cc_chain_id ch)] else [])))
           (cfg_chains cfg)))"

record api_chain_info =
  aci_chain_id :: string
  aci_bech32_prefix :: string
  aci_drip_amount :: string

record ibc_drip_info =
  idi_source_chain_id :: string
  idi_denom :: string
  idi_drip_amount :: string

record ibc_channel_info =
  ici_peer_chain_name :: string
  ici_channel_id :: string
  ici_peer_channel_id :: string
  ici_port_id :: string
  ici_status :: string
  ici_preferred :: bool

record chain_detail =
  cdt_chain_id :: string
  cdt_chain_name :: string
  cdt_bech32_prefix :: string
  cdt_slip44 :: nat
  cdt_drip_amount :: string
  cdt_last_changed :: "int option"
  cdt_ibc_channels :: "ibc_channel_info list"
  cdt_ibc_drips :: "ibc_drip_info list"

record abuse_info =
  abi_pow_enabled :: bool
  abi_api_keys_enabled :: bool
  abi_signature_challenge_enabled :: bool

record info_response =
  ifr_version :: string
  ifr_registry_last_fetched :: "int option"
  ifr_registry_refresh_mode :: string
  ifr_pending_frozen_count :: nat
  ifr_ibc_channel_count :: nat
  ifr_abuse :: abuse_info

datatype api_body =
    ApiPour http_response | ApiError string | ApiChallenge string | ApiNonce string | ApiInfo info_response
  | ApiChains "api_chain_info list" | ApiDetail chain_detail | ApiHealth string

definition Chains :: "string list \<Rightarrow> manager \<Rightarrow> nat \<times> api_body" where
  "Chains order m =
     (200, ApiChains (map (\<lambda>snap. \<lparr>aci_chain_id = ci_chain_id (snp_info snap), aci_bech32_prefix = ci_bech32_prefix (snp_info snap),
        aci_drip_amount = dp_anonymous (snp_drip snap)\<rparr>) (ListActive order m)))"

definition ibcDripInfos :: "ibc_drip_config list \<Rightarrow> ibc_drip_info list" where
  "ibcDripInfos drips =
     map (\<lambda>d. \<lparr>idi_source_chain_id = idc_source_chain_id d,
                idi_denom = (case ParseCoin (idc_anonymous d) of Inl _ \<Rightarrow> '''' | Inr c \<Rightarrow> coin_denom c),
                idi_drip_amount = idc_anonymous d\<rparr>) drips"

definition channel_info :: "string \<Rightarrow> ibc_channel \<Rightarrow> ibc_channel_info" where
  "channel_info chainName ch =
     (let (channelID, portID, peerName) = (case ChannelFor ch chainName of None \<Rightarrow> ('''', '''', '''') | Some x \<Rightarrow> x);
          peerChannelID = (case ChannelFor ch peerName of None \<Rightarrow> '''' | Some (c, _, _) \<Rightarrow> c)
      in \<lparr>ici_peer_chain_name = peerName, ici_channel_id = channelID, ici_peer_channel_id = peerChannelID, ici_port_id = portID,
          ici_status = ic_status ch, ici_preferred = ic_preferred ch\<rparr>)"

text \<open>A zero \<^verbatim>\<open>LastChanged\<close> is the integer 0, shown as the empty text (\<^const>\<open>None\<close>).\<close>

definition ChainDetail :: "manager \<Rightarrow> string \<Rightarrow> nat \<times> api_body" where
  "ChainDetail m chainID =
     (case GetActive m chainID of
        None \<Rightarrow> (404, ApiError ''chain not found or not enabled'')
      | Some snap \<Rightarrow>
          let info = snp_info snap
          in (200, ApiDetail \<lparr>cdt_chain_id = ci_chain_id info, cdt_chain_name = ci_chain_name info, cdt_bech32_prefix = ci_bech32_prefix info,
                cdt_slip44 = ci_slip44 info, cdt_drip_amount = dp_anonymous (snp_drip snap),
                cdt_last_changed = (if ci_last_changed info = 0 then None else Some (ci_last_changed info)),
                cdt_ibc_channels = map (channel_info (ci_chain_name info)) (ChannelsFor (mg_store m) (ci_chain_name info)),
                cdt_ibc_drips = ibcDripInfos (snp_ibc_drips snap)\<rparr>))"

definition PowChallenge :: "abuse_config \<Rightarrow> (pow_error, string) result \<Rightarrow> nat \<times> api_body" where
  "PowChallenge ab challenge =
     (if \<not> apc_enabled (ac_pow ab) then (404, ApiError ''PoW not enabled'')
      else case challenge of Inl _ \<Rightarrow> (500, ApiError ''could not issue challenge'') | Inr c \<Rightarrow> (200, ApiChallenge c))"

text \<open>\<^verbatim>\<open>SignNonce\<close>, with the random bytes and the clocks of \<^const>\<open>Issue\<close>.\<close>

definition SignNonce :: "abuse_config \<Rightarrow> byte list option \<Rightarrow> int \<Rightarrow> int \<Rightarrow> gate_state \<Rightarrow> (nat \<times> api_body) \<times> gate_state" where
  "SignNonce ab rnd sweepNow now g =
     (if \<not> asc_enabled (ac_signature_challenge ab) then ((404, ApiError ''signed challenge not enabled''), g)
      else case Issue rnd sweepNow now (gs_nonces g) of
             (None, ns) \<Rightarrow> ((500, ApiError ''could not issue nonce''), g\<lparr>gs_nonces := ns\<rparr>)
           | (Some n, ns) \<Rightarrow> ((200, ApiNonce n), g\<lparr>gs_nonces := ns\<rparr>))"

definition Info :: "string \<Rightarrow> string \<Rightarrow> abuse_config \<Rightarrow> (string \<times> field) list \<Rightarrow> manager \<Rightarrow> nat \<times> api_body" where
  "Info version refreshMode ab order m =
     (200, ApiInfo \<lparr>ifr_version = version, ifr_registry_last_fetched = mg_last_fetched m, ifr_registry_refresh_mode = refreshMode,
        ifr_pending_frozen_count = PendingFrozenCount order m, ifr_ibc_channel_count = length (AllIBCChannels (mg_store m)),
        ifr_abuse = \<lparr>abi_pow_enabled = apc_enabled (ac_pow ab), abi_api_keys_enabled = ac_api_keys_enabled ab,
          abi_signature_challenge_enabled = asc_enabled (ac_signature_challenge ab)\<rparr>\<rparr>)"

definition Health :: "nat \<times> api_body" where "Health = (200, ApiHealth ''ok'')"

definition refresh_mode :: "int \<Rightarrow> string" where "refresh_mode refreshInterval = (if refreshInterval > 0 then ''live'' else ''manual'')"

text \<open>What arrives on the wire: the address of the peer and the headers that matter here.\<close>

record wire_request =
  wr_peer :: string
  wr_true_client_ip :: string
  wr_real_ip :: string
  wr_forwarded_for :: string
  wr_authorization :: string

type_synonym real_ip = "wire_request \<Rightarrow> string"

definition routed_request :: "real_ip \<Rightarrow> wire_request \<Rightarrow> http_request" where
  "routed_request realIP w = \<lparr>hr_remote_addr = realIP w, hr_authorization = wr_authorization w\<rparr>"

datatype api_request =
    GetHealth | GetInfo | GetChains | GetChainDetail string | GetChallenge | GetNonce | PostPour "pour_request option"
  | AdminRoute admin_request

text \<open>The state of the daemon: the handlers and the admin routes share the manager, the keys and the tokens.\<close>

record daemon =
  dm_handlers :: handler_state
  dm_gas :: gas_table
  dm_tokens :: "token_store option"

record server_env =
  sv_handler :: handler_env
  sv_admin :: admin_env
  sv_cidrs :: "string list"
  sv_version :: string
  sv_refresh_interval :: int
  sv_order :: "string list"
  sv_challenge :: "(pow_error, string) result"
  sv_random :: "byte list option"
  sv_real_ip :: real_ip

definition admin_view :: "daemon \<Rightarrow> admin_state" where
  "admin_view d = \<lparr>as_manager = hs_manager (dm_handlers d), as_gas = dm_gas d, as_keys = gs_keys (hs_gate (dm_handlers d)), as_tokens = dm_tokens d\<rparr>"

definition put_admin :: "admin_state \<Rightarrow> daemon \<Rightarrow> daemon" where
  "put_admin st d =
     d\<lparr>dm_handlers := (dm_handlers d)\<lparr>hs_manager := as_manager st, hs_gate := (hs_gate (dm_handlers d))\<lparr>gs_keys := as_keys st\<rparr>\<rparr>,
       dm_gas := as_gas st, dm_tokens := as_tokens st\<rparr>"

datatype server_response = RespApi "nat \<times> api_body" | RespAdmin admin_response

definition serve :: "server_env \<Rightarrow> wire_request \<Rightarrow> api_request \<Rightarrow> daemon \<Rightarrow> server_response \<times> coin_call list \<times> daemon" where
  "serve e w q d =
     (let r = routed_request (sv_real_ip e) w; h = dm_handlers d; ab = ge_cfg (he_gate (sv_handler e)); g = he_gate (sv_handler e)
      in case q of
           GetHealth \<Rightarrow> (RespApi Health, [], d)
         | GetInfo \<Rightarrow> (RespApi (Info (sv_version e) (refresh_mode (sv_refresh_interval e)) ab (ae_pending_order (sv_admin e)) (hs_manager h)), [], d)
         | GetChains \<Rightarrow> (RespApi (Chains (sv_order e) (hs_manager h)), [], d)
         | GetChainDetail c \<Rightarrow> (RespApi (ChainDetail (hs_manager h) c), [], d)
         | GetChallenge \<Rightarrow> (RespApi (PowChallenge ab (sv_challenge e)), [], d)
         | GetNonce \<Rightarrow>
             (case SignNonce ab (sv_random e) (ge_now_ns g) (ge_now_ns g) (hs_gate h) of
                (resp, gs) \<Rightarrow> (RespApi resp, [], d\<lparr>dm_handlers := h\<lparr>hs_gate := gs\<rparr>\<rparr>))
         | PostPour body \<Rightarrow>
             (case Pour (sv_handler e) r body h of (resp, ps, h') \<Rightarrow> (RespApi (rs_status resp, ApiPour resp), ps, d\<lparr>dm_handlers := h'\<rparr>))
         | AdminRoute a \<Rightarrow>
             (case admin_serve (sv_admin e) (sv_cidrs e) r a (admin_view d) of (resp, sent, st) \<Rightarrow> (RespAdmin resp, [], put_admin st d)))"

definition demo_real_ip :: real_ip where
  "demo_real_ip w =
     (let ip = (if wr_true_client_ip w \<noteq> '''' then wr_true_client_ip w else wr_real_ip w) in if ParseIP ip = None then wr_peer w else ip)"

definition demo_server :: server_env where
  "demo_server = \<lparr>sv_handler = demo_henv 10, sv_admin = demo_admin_env, sv_cidrs = [], sv_version = '''', sv_refresh_interval = 1, sv_order = [],
     sv_challenge = Err PowCreate, sv_random = None, sv_real_ip = demo_real_ip\<rparr>"

definition demo_daemon :: daemon where
  "demo_daemon = \<lparr>dm_handlers = demo_state True, dm_gas = Map.empty, dm_tokens = Some demo_ts\<rparr>"

definition spoofed :: wire_request where
  "spoofed = \<lparr>wr_peer = ''203.0.113.9:5'', wr_true_client_ip = '''', wr_real_ip = ''127.0.0.1'', wr_forwarded_for = '''',
     wr_authorization = ''Bearer pour_admin_old''\<rparr>"

subsection \<open>What startup fixes\<close>

lemma prefixes_of: "fold (\<lambda>s m. m(ci_chain_id (snp_info s) \<mapsto> ci_bech32_prefix (snp_info s))) snaps m0 i \<noteq> None \<longleftrightarrow>
    m0 i \<noteq> None \<or> (\<exists>s \<in> set snaps. ci_chain_id (snp_info s) = i)"
  by (induction snaps arbitrary: m0) auto

text \<open>A balance predicate on a chain that is not active refuses every signed request. The balance queriers are the clients of the chains
  active at startup. If the predicate chain is not among them, as the startup warning asks for, no request is admitted by signature,
  whatever the signer holds.\<close>

theorem disabled_predicate_chain_refuses:
  assumes "asc_require_predicate (ac_signature_challenge (ge_cfg e)) = PredicateHasBalance"
    and "asc_predicate_chain_id (ac_signature_challenge (ge_cfg e)) = pc" "pc \<noteq> ''''"
    and "ge_predicates e = abc_predicates (buildAbuseComponents (ge_cfg e) query (Clients m) (ListActive order m))"
    and "GetActive m pc = None" "chosen_mechanism (ge_cfg e) r req = MechanismSigned"
  shows "\<not> is_ok (fst (Admit e r req cx st))"
proof
  assume "is_ok (fst (Admit e r req cx st))"
  then obtain d where d: "fst (Admit e r req cx st) = Ok d" by (auto simp: is_ok_iff)
  from Admit_evidence[OF d] assms(6) obtain sg :: sig_credential where
    "Predicate_Check (ge_predicates e) (asc_require_predicate (ac_signature_challenge (ge_cfg e))) (predicate_chain e cx)
       (sc_address sg) (asc_predicate_min_amount (ac_signature_challenge (ge_cfg e))) = Ok ()"
    by (auto simp: credential_ok_def)
  moreover have "pc_clients (ge_predicates e) pc = None"
    using assms(4,5) by (simp add: buildAbuseComponents_def NewPredicateChecker_def Clients_def GetActive_def)
  moreover have "predicate_chain e cx = pc" using assms(2,3) by (simp add: predicate_chain_def Let_def)
  ultimately show False using assms(1) by (simp add: Predicate_Check_def checkBalance_def PredicateHasBalance_def PredicateNone_def)
qed

subsection \<open>Whose address the server sees\<close>

lemma no_colon_host: "CHR '':'' \<notin> set ip \<Longrightarrow> split_host_port ip = None"
proof -
  assume "CHR '':'' \<notin> set ip"
  then have "last_index_of CHR '':'' ip = None" by (simp only: last_index_of_None not_False_eq_True)
  then show ?thesis by (simp only: split_host_port_def option.case)
qed

text \<open>C37: The client chooses the address the server sees. With the middleware that takes the remote address from the header
  \<^verbatim>\<open>X-Real-IP\<close> in front of every route, a request from any peer that sets the header to the loopback address passes the default
  allowlist, so that the token alone protects the admin routes; and the address that the per-IP limit charges is the one in the header.\<close>

theorem client_chooses_address:
  assumes "\<forall>w. wr_true_client_ip w = '''' \<and> ParseIP (wr_real_ip w) \<noteq> None \<longrightarrow> sv_real_ip e w = wr_real_ip w"
    and "wr_true_client_ip w = ''''" "ParseIP (wr_real_ip w) \<noteq> None" "CHR '':'' \<notin> set (wr_real_ip w)"
  shows "extractIP (hr_remote_addr (routed_request (sv_real_ip e) w)) = wr_real_ip w \<and>
    (wr_real_ip w = ''127.0.0.1'' \<and> sv_cidrs e = [] \<longrightarrow>
       (\<forall>a d. serve e w (AdminRoute a) d =
          (if carries (routed_request (sv_real_ip e) w) (current_token (admin_view d))
           then (case admin_Router (sv_admin e) a (admin_view d) of (resp, sent, st) \<Rightarrow> (RespAdmin resp, [], put_admin st d))
           else (RespAdmin (401, ABError ''invalid or missing token''), [], put_admin (admin_view d) d))))"
proof -
  have r: "hr_remote_addr (routed_request (sv_real_ip e) w) = wr_real_ip w" using assms(1-3) by (simp add: routed_request_def)
  have "ipAllowed ''127.0.0.1'' (parseCIDRs defaultAllowedCIDRs)" by code_simp
  then have "allowed_from [] (routed_request (sv_real_ip e) w)" if "wr_real_ip w = ''127.0.0.1''"
    using r that no_colon_host[OF assms(4)] by (simp add: allowed_from_def admin_extractIP_def)
  then show ?thesis
    using r no_colon_host[OF assms(4)] by (auto simp: extractIP_def serve_def admin_serve_cases Let_def)
qed

theorem client_chooses_address_witness:
  "fst (serve demo_server spoofed (AdminRoute (RResume ''osmosis-1'')) demo_daemon) = RespAdmin (200, ABOk) \<and>
   extractIP (hr_remote_addr (routed_request (sv_real_ip demo_server) spoofed)) = ''127.0.0.1''"
proof -
  have l: "\<forall>w. wr_true_client_ip w = '''' \<and> ParseIP (wr_real_ip w) \<noteq> None \<longrightarrow> sv_real_ip demo_server w = wr_real_ip w"
    by (simp add: demo_server_def demo_real_ip_def Let_def)
  have s: "wr_true_client_ip spoofed = ''''" "ParseIP (wr_real_ip spoofed) \<noteq> None" "CHR '':'' \<notin> set (wr_real_ip spoofed)"
    "wr_real_ip spoofed = ''127.0.0.1''" "sv_cidrs demo_server = []" by code_simp+
  have c: "carries (routed_request (sv_real_ip demo_server) spoofed) (current_token (admin_view demo_daemon))" by code_simp
  have a: "fst (admin_Router (sv_admin demo_server) (RResume ''osmosis-1'') (admin_view demo_daemon)) = (200, ABOk)"
    by (simp add: ChainResume_def with_chain_def GetChain_def admin_view_def demo_daemon_def demo_state_def ChainStatus_def Handlers.demo_chain_def)
  show ?thesis using client_chooses_address[OF l s(1-3)] s(4,5) c a by (auto split: prod.splits)
qed

end
