(* ===== verification/Devnet.thy ===== *)
theory Devnet
  imports Server Client
begin

text \<open>
  \<^verbatim>\<open>internal/devnet\<close> and the automatic mode of \<^verbatim>\<open>cmd/pour/main.go\<close>: the faucet configures itself from the genesis file of a local chain,
  keeps its mnemonic in a file and has its address funded, or waits for it to be. The JSON reader, the BIP39 library and the key derivation
  are arguments; the transactions are those of the transaction client. The loop that waits may run forever, so it is a partial function.

  The lemmas show that the configuration it builds is one the configuration file could give, what is sent for self-funding, when the
  waiting ends, and what the fixed daily maximum does to a larger drip.
\<close>

datatype reserve_error = InvalidBalance | InvalidReserve | NotEnough

datatype devnet_error =
    DvHomeRequired | DvOpenGenesis | DvParseGenesis | DvNoChainID | DvNoDenom
  | DvHomeDir | DvReadMnemonic | DvEntropy | DvMnemonic | DvMkdir | DvWriteMnemonic
  | DvFunderClient tx_error | DvPourBalance tx_error | DvFunderAddress tx_error | DvFunderBalance tx_error | DvInsufficient reserve_error
  | DvBroadcast tx_error | DvNoClient string | DvPourAddress tx_error | DvNotActive string | DvContext tx_error

definition defaultBech32Prefix :: string where "defaultBech32Prefix = ''cosmos''"

record genesis_info =
  gi_chain_id :: string
  gi_bech32_prefix :: string
  gi_native_denom :: string
  gi_balances :: "string \<rightharpoonup> coin list"

text \<open>The decoded subset of \<^verbatim>\<open>genesis.json\<close>, and reading it.\<close>

record genesis_raw =
  gr_chain_id :: string
  gr_bond_denom :: string
  gr_balances :: "(string \<times> coin list) list"

datatype genesis_file = GenesisUnreadable | GenesisInvalid | Genesis genesis_raw

definition extractBech32Prefix :: "string \<Rightarrow> string" where
  "extractBech32Prefix addr =
     (let lower = to_lower (trim_space addr)
      in case last_index_of CHR ''1'' lower of None \<Rightarrow> '''' | Some sep \<Rightarrow> if sep < 1 then '''' else take sep lower)"

fun genesis_loop :: "(string \<times> coin list) list \<Rightarrow> genesis_info \<Rightarrow> genesis_info" where
  "genesis_loop [] info = info"
| "genesis_loop ((address, coins) # bs) info =
     (let info1 = info\<lparr>gi_balances := (gi_balances info)(address \<mapsto> coins)\<rparr>
      in genesis_loop bs (if gi_bech32_prefix info1 = '''' then info1\<lparr>gi_bech32_prefix := extractBech32Prefix address\<rparr> else info1))"

definition ParseGenesis :: "genesis_file \<Rightarrow> (devnet_error, genesis_info) result" where
  "ParseGenesis f =
     (case f of
        GenesisUnreadable \<Rightarrow> Err DvOpenGenesis
      | GenesisInvalid \<Rightarrow> Err DvParseGenesis
      | Genesis raw \<Rightarrow>
          if gr_chain_id raw = '''' then Err DvNoChainID
          else let info = genesis_loop (gr_balances raw)
                     \<lparr>gi_chain_id = gr_chain_id raw, gi_bech32_prefix = '''', gi_native_denom = gr_bond_denom raw, gi_balances = Map.empty\<rparr>
               in Ok (if gi_bech32_prefix info = '''' then info\<lparr>gi_bech32_prefix := defaultBech32Prefix\<rparr> else info))"

definition buildEndpoints :: "string \<Rightarrow> string \<Rightarrow> endpoints_config" where
  "buildEndpoints grpcAddr restAddr =
     \<lparr>ec_grpc = (if grpcAddr \<noteq> '''' then Some [grpcAddr] else None), ec_rpc = None,
      ec_rest = (if restAddr \<noteq> '''' then Some [restAddr] else None)\<rparr>"

text \<open>The fields the source leaves out have Go's zero values.\<close>

definition zero_abuse :: abuse_config where
  "zero_abuse =
     \<lparr>ac_pow = \<lparr>apc_enabled = False, apc_difficulty = ''''\<rparr>, ac_api_keys_enabled = False,
      ac_signature_challenge = \<lparr>asc_enabled = False, asc_require_predicate = '''', asc_predicate_chain_id = '''', asc_predicate_min_amount = ''''\<rparr>,
      ac_ip_rate_limit = \<lparr>irl_requests_per_window = 0, irl_window = ''''\<rparr>\<rparr>"

definition BuildConfig :: "genesis_info \<Rightarrow> string \<Rightarrow> string \<Rightarrow> string \<Rightarrow> (devnet_error, chains_config) result" where
  "BuildConfig info grpcAddr restAddr dripAmount0 =
     (if gi_native_denom info = '''' then Err DvNoDenom
      else let dripAmount = (if dripAmount0 = '''' then ''1000000'' @ gi_native_denom info else dripAmount0);
               maxDrip = ''10000000'' @ gi_native_denom info
           in Ok \<lparr>cfg_abuse = zero_abuse, cfg_allowed_cidrs = [], cfg_registry = \<lparr>rc_base_url = '''', rc_refresh_interval = ''''\<rparr>,
                  cfg_chains =
                    [\<lparr>cc_chain_id = gi_chain_id info, cc_standalone = True, cc_enabled = Some True, cc_chain_name = None, cc_network_type = None,
                      cc_key_algo = None, cc_bech32_prefix = Some (gi_bech32_prefix info), cc_slip44 = Some 118,
                      cc_endpoints = Some (buildEndpoints grpcAddr restAddr),
                      cc_fee_tokens = [\<lparr>ftc_denom = gi_native_denom info, ftc_low = None, ftc_average = Some ''0.025'', ftc_high = None\<rparr>],
                      cc_block_time = None,
                      cc_drip = \<lparr>dc_anonymous = dripAmount, dc_signed = '''', dc_max_per_address_per_day = maxDrip, dc_memo = ''''\<rparr>,
                      cc_distributors = 0, cc_batch_window = ''0s'', cc_max_recipients_per_batch = 0, cc_max_queue_depth = 0,
                      cc_refill_threshold = '''', cc_refill_interval = '''', cc_ibc = \<lparr>ibc_timeout = ''10m'', ibc_drips = []\<rparr>\<rparr>]\<rparr>)"

record mnemonic_io =
  mi_entropy :: "byte list option"
  mi_mnemonic :: "byte list \<Rightarrow> string option"     \<comment> \<open>\<^verbatim>\<open>bip39.NewMnemonic\<close>\<close>
  mi_mkdir_fails :: bool
  mi_failed_write :: "token_file option"

text \<open>The arguments of \<^verbatim>\<open>filepath.Join\<close>, if the home directory is known.\<close>

definition DefaultMnemonicPath :: "string option \<Rightarrow> (devnet_error, string list) result" where
  "DefaultMnemonicPath home = (case home of None \<Rightarrow> Err DvHomeDir | Some h \<Rightarrow> Ok [h, ''.pour'', ''auto-mnemonic''])"

definition LoadOrGenerate :: "mnemonic_io \<Rightarrow> token_file \<Rightarrow> (devnet_error, string) result \<times> token_file" where
  "LoadOrGenerate io f =
     (case f of
        FileData d \<Rightarrow> (Ok (trim_space d), f)
      | FileUnreadable \<Rightarrow> (Err DvReadMnemonic, f)
      | FileAbsent \<Rightarrow>
          (case mi_entropy io of
             None \<Rightarrow> (Err DvEntropy, f)
           | Some ent \<Rightarrow>
               (case mi_mnemonic io ent of
                  None \<Rightarrow> (Err DvMnemonic, f)
                | Some m \<Rightarrow>
                    if mi_mkdir_fails io then (Err DvMkdir, f)
                    else (case mi_failed_write io of
                            Some f' \<Rightarrow> (Err DvWriteMnemonic, f')
                          | None \<Rightarrow> (Ok m, FileData (m @ [CHR 0x0A]))))))"

text \<open>The flags of the automatic mode and what it reads; the function that yields the mnemonic reads the file again on each call.\<close>

record auto_cmd =
  au_home :: string
  au_grpc :: string
  au_rest :: string
  au_drip :: string
  au_fund_mnemonic :: string

definition mnemonicFn :: "mnemonic_io \<Rightarrow> token_file \<Rightarrow> string" where
  "mnemonicFn io f = (case fst (LoadOrGenerate io f) of Inl _ \<Rightarrow> '''' | Inr m \<Rightarrow> m)"

definition buildAutoConfig :: "genesis_file \<Rightarrow> string option \<Rightarrow> mnemonic_io \<Rightarrow> auto_cmd \<Rightarrow> token_file \<Rightarrow> (devnet_error, chains_config) result \<times> token_file" where
  "buildAutoConfig genesis userHome io c f =
     (if au_home c = '''' then (Err DvHomeRequired, f)
      else case ParseGenesis genesis of
             Inl err \<Rightarrow> (Err err, f)
           | Inr info \<Rightarrow>
               (case DefaultMnemonicPath userHome of
                  Inl err \<Rightarrow> (Err err, f)
                | Inr _ \<Rightarrow>
                    (case LoadOrGenerate io f of
                       (Inl err, f') \<Rightarrow> (Err err, f')
                     | (Inr _, f') \<Rightarrow> (BuildConfig info (au_grpc c) (au_rest c) (au_drip c), f'))))"

definition fundingPollInterval :: int where "fundingPollInterval = 2 * second"
definition txFeeReserve :: string where "txFeeReserve = ''100000''"

definition subtractReserve :: "string \<Rightarrow> string \<Rightarrow> (reserve_error, string) result" where
  "subtractReserve balance reserve =
     (case set_string balance of
        None \<Rightarrow> Err InvalidBalance
      | Some b \<Rightarrow>
          (case set_string reserve of
             None \<Rightarrow> Err InvalidReserve
           | Some r \<Rightarrow> if b - r \<le> 0 then Err NotEnough else Ok (show_int (b - r))))"

text \<open>What the temporary client of the funder sees: the keys of its mnemonic, the node's answers to the two balance queries and to the send.\<close>

record fund_env =
  fe_derive :: "nat \<Rightarrow> (tx_error, priv_key) result"
  fe_dial :: "string \<Rightarrow> tx_error option"
  fe_hash160 :: "byte list \<Rightarrow> byte list"
  fe_ctx :: send_ctx
  fe_rest :: "string \<Rightarrow> coin rest_reply"
  fe_grpc :: "string \<Rightarrow> coin option grpc_reply"
  fe_attempts :: "nat \<Rightarrow> attempt_env"

definition query_balance :: "fund_env \<Rightarrow> client \<Rightarrow> string \<Rightarrow> string \<Rightarrow> (tx_error, coin) result" where
  "query_balance e c addr denom = client_QueryBalance c addr denom (fe_rest e addr) (fe_grpc e addr)"

definition SelfFund :: "fund_env \<Rightarrow> chain_info \<Rightarrow> string \<Rightarrow> string \<Rightarrow> (devnet_error, unit) result \<times> attempt list" where
  "SelfFund e info pourAddr denom =
     (case tx_New (fe_derive e) (fe_dial e) info [0] None of
        Inl err \<Rightarrow> (Err (DvFunderClient err), [])
      | Inr funder \<Rightarrow>
          (case query_balance e funder pourAddr denom of
             Inl err \<Rightarrow> (Err (DvPourBalance err), [])
           | Inr bal \<Rightarrow>
               if coin_amount bal \<noteq> ''0'' then (Ok (), [])
               else (case AddressForKey (fe_hash160 e) funder 0 of
                       Inl err \<Rightarrow> (Err (DvFunderAddress err), [])
                     | Inr funderAddr \<Rightarrow>
                         (case query_balance e funder funderAddr denom of
                            Inl err \<Rightarrow> (Err (DvFunderBalance err), [])
                          | Inr funderBal \<Rightarrow>
                              (case subtractReserve (coin_amount funderBal) txFeeReserve of
                                 Inl err \<Rightarrow> (Err (DvInsufficient err), [])
                               | Inr sendAmt \<Rightarrow>
                                   (case BuildAndBroadcast (fe_hash160 e) (fe_ctx e)
                                           \<lparr>sr_key_index = 0, sr_to_address = pourAddr, sr_coins = [\<lparr>coin_denom = denom, coin_amount = sendAmt\<rparr>]\<rparr>
                                           (fe_attempts e) funder of
                                      (Inl err, as, _) \<Rightarrow> (Err (DvBroadcast err), as)
                                    | (Inr _, as, _) \<Rightarrow> (Ok (), as)))))))"

text \<open>
  Waiting for funds: \<^verbatim>\<open>query k\<close> is the answer to poll \<^verbatim>\<open>k\<close> and \<^verbatim>\<open>cancelled k\<close> the error of the context if it ends during the pause after it.
\<close>

definition devnetSleep :: "(nat \<Rightarrow> tx_error option) \<Rightarrow> nat \<Rightarrow> bool" where "devnetSleep cancelled k \<longleftrightarrow> cancelled k = None"

definition funded :: "(tx_error, coin) result \<Rightarrow> bool" where
  "funded r \<longleftrightarrow> (case r of Inl _ \<Rightarrow> False | Inr bal \<Rightarrow> coin_amount bal \<noteq> ''0'')"

partial_function (option) wait_funding ::
    "(nat \<Rightarrow> (tx_error, coin) result) \<Rightarrow> (nat \<Rightarrow> tx_error option) \<Rightarrow> nat \<Rightarrow> (devnet_error, unit) result option" where
  "wait_funding query cancelled k =
     (if funded (query k) then Some (Ok ())
      else if \<not> devnetSleep cancelled k then Some (Err (DvContext (the (cancelled k))))
      else wait_funding query cancelled (Suc k))"

definition WaitForFunding :: "(nat \<Rightarrow> (tx_error, coin) result) \<Rightarrow> (nat \<Rightarrow> tx_error option) \<Rightarrow> (devnet_error, unit) result option" where
  "WaitForFunding query cancelled = wait_funding query cancelled 0"

definition runAutoFunding ::
    "fund_env \<Rightarrow> (nat \<Rightarrow> tx_error option) \<Rightarrow> (string \<Rightarrow> string \<Rightarrow> nat \<Rightarrow> (tx_error, coin) result) \<Rightarrow> manager \<Rightarrow> (string \<rightharpoonup> client) \<Rightarrow> chain_config \<Rightarrow>
     string \<Rightarrow> (devnet_error, unit) result option \<times> attempt list" where
  "runAutoFunding e cancelled query mgr rawClients cfg fundMnemonic =
     (case cc_fee_tokens cfg of
        [] \<Rightarrow> (Some (Ok ()), [])
      | ft # _ \<Rightarrow>
          let denom = ftc_denom ft
          in case rawClients (cc_chain_id cfg) of
               None \<Rightarrow> (Some (Err (DvNoClient (cc_chain_id cfg))), [])
             | Some pourClient \<Rightarrow>
                 (case AddressForKey (fe_hash160 e) pourClient 0 of
                    Inl err \<Rightarrow> (Some (Err (DvPourAddress err)), [])
                  | Inr pourAddr \<Rightarrow>
                      if fundMnemonic \<noteq> '''' then
                        (case GetActive mgr (cc_chain_id cfg) of
                           None \<Rightarrow> (Some (Err (DvNotActive (cc_chain_id cfg))), [])
                         | Some snap \<Rightarrow> (case SelfFund e (snp_info snap) pourAddr denom of (r, as) \<Rightarrow> (Some r, as)))
                      else (WaitForFunding (query pourAddr denom) cancelled, [])))"

definition demo_genesis :: genesis_raw where
  "demo_genesis = \<lparr>gr_chain_id = ''dev-1'', gr_bond_denom = ''ustake'', gr_balances = [(''a1qypqvrg2cf'', [])]\<rparr>"

definition demo_durations :: parse_duration where
  "demo_durations s = (if s = ''0s'' then Some 0 else if s = ''10m'' then Some (600 * sec) else None)"

text \<open>The send of a self-funding run.\<close>

definition funding_request :: "string \<Rightarrow> string \<Rightarrow> int \<Rightarrow> send_request" where
  "funding_request pourAddr denom n = \<lparr>sr_key_index = 0, sr_to_address = pourAddr, sr_coins = [\<lparr>coin_denom = denom, coin_amount = show_int n\<rparr>]\<rparr>"

definition demo_fund :: fund_env where
  "demo_fund =
     \<lparr>fe_derive = (\<lambda>_. Ok \<lparr>pk_pub = [], pk_sign = (\<lambda>_. Ok [])\<rparr>), fe_dial = (\<lambda>_. None), fe_hash160 = (\<lambda>_. [1, 2]), fe_ctx = demo_ctx,
      fe_rest = (\<lambda>_. RestFails ''''), fe_grpc = (\<lambda>_. GrpcMessage (Some \<lparr>coin_denom = ''ustake'', coin_amount = ''5''\<rparr>)), fe_attempts = demo_env\<rparr>"

definition wait_ends :: "(nat \<Rightarrow> (tx_error, coin) result) \<Rightarrow> (nat \<Rightarrow> tx_error option) \<Rightarrow> nat \<Rightarrow> bool" where
  "wait_ends query cancelled n \<longleftrightarrow> funded (query n) \<or> \<not> devnetSleep cancelled n"

subsection \<open>From the genesis file to a configuration\<close>

lemma extractBech32Prefix_decode: "Bech32Decode addr = Ok (hrp, bs) \<Longrightarrow> extractBech32Prefix addr = hrp"
  by (auto simp: Bech32Decode_def extractBech32Prefix_def Let_def rbind_Ok_iff simp del: last_index_of_None split: option.splits if_splits)

lemma genesis_loop_keeps:
  "gi_chain_id (genesis_loop bs info) = gi_chain_id info \<and> gi_native_denom (genesis_loop bs info) = gi_native_denom info \<and>
   (gi_bech32_prefix info \<noteq> '''' \<longrightarrow> gi_bech32_prefix (genesis_loop bs info) = gi_bech32_prefix info)"
  by (induction bs info rule: genesis_loop.induct) (auto simp: Let_def)

lemma ParseGenesis_Ok:
  assumes "ParseGenesis f = Ok info"
  obtains raw where "f = Genesis raw" "gi_chain_id info = gr_chain_id raw" "gr_chain_id raw \<noteq> ''''" "gi_native_denom info = gr_bond_denom raw"
    "gi_bech32_prefix info \<noteq> ''''"
proof (cases f)
  case (Genesis raw)
  let ?g = "genesis_loop (gr_balances raw) \<lparr>gi_chain_id = gr_chain_id raw, gi_bech32_prefix = '''', gi_native_denom = gr_bond_denom raw, gi_balances = Map.empty\<rparr>"
  from assms Genesis have i: "gr_chain_id raw \<noteq> ''''"
      "info = (if gi_bech32_prefix ?g = '''' then ?g\<lparr>gi_bech32_prefix := defaultBech32Prefix\<rparr> else ?g)"
    by (auto simp: ParseGenesis_def Let_def split: if_splits)
  moreover have "gi_chain_id info = gr_chain_id raw \<and> gi_native_denom info = gr_bond_denom raw \<and> gi_bech32_prefix info \<noteq> ''''"
    using i(2) genesis_loop_keeps[of "gr_balances raw"] by (simp add: defaultBech32Prefix_def)
  ultimately show thesis using that[of raw] Genesis by blast
qed (use assms in \<open>simp_all add: ParseGenesis_def\<close>)

lemma genesis_prefix:
  assumes "ParseGenesis (Genesis raw) = Ok info" "gr_balances raw = (addr, cs) # bs" "Bech32Decode addr = Ok (hrp, data)"
  shows "gi_bech32_prefix info = hrp"
proof -
  have "hrp \<noteq> ''''" using assms(3) by (auto simp: Bech32Decode_def Let_def rbind_Ok_iff split: option.splits if_splits)
  with assms genesis_loop_keeps show ?thesis
    by (auto simp: ParseGenesis_def Let_def extractBech32Prefix_decode[OF assms(3)] split: if_splits)
qed

lemma BuildConfig_Ok:
  assumes "BuildConfig info grpc rest drip = Ok cfg"
  obtains c where "cfg_chains cfg = [c]" "cfg_abuse cfg = zero_abuse" "gi_native_denom info \<noteq> ''''" "cc_chain_id c = gi_chain_id info"
    "dc_anonymous (cc_drip c) = (if drip = '''' then ''1000000'' @ gi_native_denom info else drip)" "dc_signed (cc_drip c) = ''''"
    "dc_max_per_address_per_day (cc_drip c) = ''10000000'' @ gi_native_denom info"
  using assms by (auto simp: BuildConfig_def Let_def split: if_splits)

lemma ParseCoin_amount_denom: "all_digits a \<Longrightarrow> denom_ok d \<Longrightarrow> ParseCoin (a @ d) = Ok \<lparr>coin_denom = d, coin_amount = a\<rparr>"
  using ParseCoin_print[of "\<lparr>coin_denom = d, coin_amount = a\<rparr>"] by (simp add: coin_string_def)

text \<open>The automatic configuration is one that loads. For a readable genesis file with a proper bond denomination, an endpoint and a
  drip that is empty or parses, the automatic mode yields a configuration that the validation of configuration files accepts and
  leaves as it is, up to the defaults of the abuse settings: one enabled standalone chain with the chain id of the genesis file.\<close>

theorem auto_config_loads:
  assumes "ParseGenesis (Genesis raw) = Ok info" "denom_ok (gr_bond_denom raw)" "grpc \<noteq> '''' \<or> rest \<noteq> ''''"
    and "drip = '''' \<or> is_ok (ParseCoin drip)"
    and "pd ''0s'' = Some 0" "pd ''10m'' = Some (600 * sec)"
  shows "\<exists>cfg c. BuildConfig info grpc rest drip = Ok cfg \<and> cfg_chains cfg = [c] \<and> cc_chain_id c = gr_chain_id raw \<and> IsEnabled c \<and>
    BatchWindowDuration pd c = Ok 0 \<and>
    LoadChains pd cidr (Some cfg) = Ok (cfg\<lparr>cfg_abuse := setAbuseDefaults (cfg_abuse cfg)\<rparr>)"
proof -
  obtain raw' where "Genesis raw = Genesis raw'" and i: "gi_chain_id info = gr_chain_id raw'" "gr_chain_id raw' \<noteq> ''''"
    "gi_native_denom info = gr_bond_denom raw'" "gi_bech32_prefix info \<noteq> ''''"
    by (rule ParseGenesis_Ok[OF assms(1)])
  then have r: "raw' = raw" by simp
  let ?d = "gr_bond_denom raw" and ?amount = "if drip = '''' then ''1000000'' @ gr_bond_denom raw else drip"
  have "?d \<noteq> ''''" using assms(2) by (auto simp: denom_ok_def)
  then obtain cfg where cfg: "BuildConfig info grpc rest drip = Ok cfg" using i r by (simp add: BuildConfig_def Let_def)
  have dig: "all_digits ''1000000''" "all_digits ''10000000''" by code_simp+
  have p: "is_ok (ParseCoin ?amount)" "is_ok (ParseCoin (''10000000'' @ ?d))"
    using assms(2,4) ParseCoin_amount_denom[OF dig(1)] ParseCoin_amount_denom[OF dig(2)] by auto
  have a: "validateAbuseConfig (setAbuseDefaults zero_abuse) = Ok ()" "ac_ip_rate_limit (setAbuseDefaults zero_abuse) = ac_ip_rate_limit zero_abuse"
    by code_simp+
  have "LoadChains pd cidr (Some cfg) = Ok (cfg\<lparr>cfg_abuse := setAbuseDefaults (cfg_abuse cfg)\<rparr>)"
    using cfg p a i r assms(3,5,6) \<open>?d \<noteq> ''''\<close>
    by (auto simp: BuildConfig_def Let_def LoadChains_def WindowDuration_def RefreshDuration_def zero_abuse_def is_ok_iff setIBCDefaults_def
        validateChain_def positive_duration_def validateConcurrencyFields_def BatchWindowDuration_def validateStandalone_def
        buildEndpoints_def slice_def validateDripBlock_def validateIBCDripEntries_def IsEnabled_def validateIBCSources_def sec_def split: if_splits)
  moreover have "\<exists>c. cfg_chains cfg = [c] \<and> cc_chain_id c = gr_chain_id raw \<and> IsEnabled c \<and> BatchWindowDuration pd c = Ok 0"
    using cfg i r assms(5) by (auto simp: BuildConfig_def Let_def IsEnabled_def BatchWindowDuration_def split: if_splits)
  ultimately show ?thesis using cfg by blast
qed


subsection \<open>The mnemonic file\<close>

lemma LoadOrGenerate_stable:
  assumes "LoadOrGenerate io f = (Ok m, f')" "\<forall>ent w. mi_mnemonic io ent = Some w \<longrightarrow> trim_space (w @ [CHR 0x0A]) = w"
  shows "LoadOrGenerate io' f' = (Ok m, f') \<and> mnemonicFn io' f' = m"
  using assms by (auto simp: LoadOrGenerate_def mnemonicFn_def split: token_file.splits option.splits if_splits)

lemma auto_mnemonic_stable:
  assumes "buildAutoConfig genesis home io c f = (Ok cfg, f')" "\<forall>ent w. mi_mnemonic io ent = Some w \<longrightarrow> trim_space (w @ [CHR 0x0A]) = w"
  shows "\<exists>m. LoadOrGenerate io f = (Ok m, f') \<and> (\<forall>io'. mnemonicFn io' f' = m)"
proof -
  from assms(1) obtain m where "LoadOrGenerate io f = (Ok m, f')"
    by (auto simp: buildAutoConfig_def split: if_splits sum.splits prod.splits)
  with LoadOrGenerate_stable[OF this assms(2)] show ?thesis by blast
qed

subsection \<open>A drip above the fixed maximum\<close>

lemma anonymous_only:
  assumes "ge_cfg e = zero_abuse" "fst (Admit e r req cx st) = Ok d"
  shows "dec_drip_coin d = cx_drip_anonymous cx"
  using Admit_evidence[OF assms(2)] assms(1) by (auto simp: chosen_mechanism_def zero_abuse_def credential_ok_def)

lemma Admit_within_cap:
  assumes "gate_inv st" "gate_valid cap (GateCall e r req cx)" "fst (Admit e r req cx st) = Ok d"
  shows "digits_val (coin_amount (dec_drip_coin d)) = 0 \<or> int (digits_val (coin_amount (dec_drip_coin d))) \<le> cap"
proof -
  obtain tbl where "is_ok (fst (rl_exec (ge_sqlite e) (ge_limiter e) (address_op e req cx (dec_drip_coin d)) tbl))"
    using charged_Admit[of e req cx r st] assms(3) by (auto simp: charged_def)
  then obtain raw where "op_bucket (address_op e req cx (dec_drip_coin d)) = Some raw" "fst raw = ''address''"
    by (auto simp: address_op_def elim: CheckAddress_ok)
  with Admit_limits(3)[OF assms(1,2), of raw] recorded_coins_nonneg[of raw "gs_limits st" "ge_now e - addressWindow sdiv second"] assms(3)
  show ?thesis by (cases "digits_val (coin_amount (dec_drip_coin d)) = 0") auto
qed

text \<open>A drip above ten million base units is never served. In the automatic mode the daily maximum is ten million whatever drip the
  operator asks for, so that with a larger one no request of anyone is ever admitted.\<close>

theorem auto_drip_above_cap_refused:
  assumes "BuildConfig info grpc rest drip = Ok cfg" "denom_ok (gi_native_denom info)"
    and "ParseCoin drip = Ok c" "10000000 < digits_val (coin_amount c)"
    and "mg_drips m = buildDripMap cfg" "snp_drip snap = dripFor m (gi_chain_id info)" "buildChainContext snap = Ok cx"
    and "ge_cfg e = cfg_abuse cfg" "sqlite_laws (ge_sqlite e)" "gate_inv st"
  shows "\<not> is_ok (fst (Admit e r req cx st))"
proof
  assume "is_ok (fst (Admit e r req cx st))"
  then obtain d where d: "fst (Admit e r req cx st) = Ok d" by (auto simp: is_ok_iff)
  obtain cc where cc: "cfg_chains cfg = [cc]" "cfg_abuse cfg = zero_abuse" "cc_chain_id cc = gi_chain_id info"
      "dc_anonymous (cc_drip cc) = (if drip = '''' then ''1000000'' @ gi_native_denom info else drip)" "dc_signed (cc_drip cc) = ''''"
      "dc_max_per_address_per_day (cc_drip cc) = ''10000000'' @ gi_native_denom info"
    by (rule BuildConfig_Ok[OF assms(1)])
  have "drip \<noteq> ''''" using assms(3) by (auto simp: ParseCoin_def trim_space_def index_non_digit_def)
  have dig: "all_digits ''10000000''" by code_simp
  have val: "digits_val ''10000000'' = 10000000" by (simp add: digits_val_def digit_val_def code_of_def)
  have "dp_anonymous (snp_drip snap) = drip \<and> dp_signed (snp_drip snap) = '''' \<and> dp_max_per_address_per_day (snp_drip snap) = ''10000000'' @ gi_native_denom info"
    using assms(5,6) cc \<open>drip \<noteq> ''''\<close> by (simp add: dripFor_def buildDripMap_def)
  with assms(3,7) ParseCoin_amount_denom[OF dig assms(2)]
  have cx: "cx_drip_anonymous cx = c" "coin_amount (cx_max_per_day cx) = ''10000000''" "cx_drip_signed cx = no_coin"
    by (auto simp: buildChainContext_def)
  have "gate_valid 10000000 (GateCall e r req cx)"
    using cx assms(9) ParseCoin_coin_ok[OF assms(3)] dig val
    by (simp add: coin_ok_def no_coin_def set_string_digits)
  from Admit_within_cap[OF assms(10) this d] anonymous_only[OF _ d] cx(1) cc(2) assms(4,8)
  show False by simp
qed

subsection \<open>Funding\<close>

lemma subtractReserve_Ok:
  "subtractReserve balance txFeeReserve = Ok amt \<longleftrightarrow> (\<exists>b. set_string balance = Some b \<and> 100000 < b \<and> amt = show_int (b - 100000))"
proof -
  have "all_digits txFeeReserve" by code_simp
  moreover have "digits_val txFeeReserve = 100000" by (simp add: txFeeReserve_def digits_val_def digit_val_def code_of_def)
  ultimately have "set_string txFeeReserve = Some 100000" by (simp add: set_string_digits)
  then show ?thesis by (auto simp: subtractReserve_def split: option.splits)
qed

lemma BuildAndBroadcast_accepted:
  assumes "BuildAndBroadcast h sx req env c = (Inr b, as, c')"
  shows "as \<noteq> [] \<and> accepted (last as)"
proof -
  from assms obtain j where "doSend sx j env c = (Inr b, as, c')"
    by (auto simp: BuildAndBroadcast_def send_with_def split: option.splits sum.splits)
  from retry_loop_facts[OF this[unfolded doSend_def]] show ?thesis by (fastforce simp: attempt_ok_def split: sum.splits)
qed

lemma SelfFund_cases:
  assumes "SelfFund e info pourAddr denom = (r, as)"
  obtains (early) er where "r = Err er" "as = []"
    | (funded) funder bal where "tx_New (fe_derive e) (fe_dial e) info [0] None = Ok funder" "query_balance e funder pourAddr denom = Ok bal"
        "coin_amount bal \<noteq> ''0''" "r = Ok ()" "as = []"
    | (sent) funder addr bal funderBal b res c' where "tx_New (fe_derive e) (fe_dial e) info [0] None = Ok funder"
        "query_balance e funder pourAddr denom = Ok bal" "coin_amount bal = ''0''"
        "AddressForKey (fe_hash160 e) funder 0 = Ok addr" "query_balance e funder addr denom = Ok funderBal"
        "set_string (coin_amount funderBal) = Some b" "100000 < b"
        "BuildAndBroadcast (fe_hash160 e) (fe_ctx e) (funding_request pourAddr denom (b - 100000)) (fe_attempts e) funder = (res, as, c')"
        "r = (case res of Inl err \<Rightarrow> Err (DvBroadcast err) | Inr _ \<Rightarrow> Ok ())"
proof (cases "tx_New (fe_derive e) (fe_dial e) info [0] None")
  case f: (Inr funder)
  show thesis
  proof (cases "query_balance e funder pourAddr denom")
    case q: (Inr bal)
    show thesis
    proof (cases "coin_amount bal = ''0''")
      case zero: True
      show thesis
      proof (cases "AddressForKey (fe_hash160 e) funder 0")
        case a: (Inr addr)
        show thesis
        proof (cases "query_balance e funder addr denom")
          case q2: (Inr funderBal)
          show thesis
          proof (cases "subtractReserve (coin_amount funderBal) txFeeReserve")
            case s: (Inr amt)
            then obtain b where b: "set_string (coin_amount funderBal) = Some b" "100000 < b" "amt = show_int (b - 100000)"
              by (auto simp: subtractReserve_Ok)
            obtain res as' c' where bb: "BuildAndBroadcast (fe_hash160 e) (fe_ctx e) (funding_request pourAddr denom (b - 100000)) (fe_attempts e) funder = (res, as', c')"
              by (metis prod_cases3)
            have "(r, as) = ((case res of Inl err \<Rightarrow> Err (DvBroadcast err) | Inr _ \<Rightarrow> Ok ()), as')"
              using assms bb[unfolded funding_request_def] by (simp add: SelfFund_def f q zero a q2 s b(3) split: sum.splits)
            then show thesis using sent[OF f q zero a q2 b(1,2)] bb by simp
          qed (use assms early f q zero a q2 in \<open>auto simp: SelfFund_def\<close>)
        qed (use assms early f q zero a in \<open>auto simp: SelfFund_def\<close>)
      qed (use assms early f q zero in \<open>auto simp: SelfFund_def\<close>)
    qed (use assms funded[OF f q] f q in \<open>auto simp: SelfFund_def\<close>)
  qed (use assms early f in \<open>auto simp: SelfFund_def\<close>)
qed (use assms early in \<open>auto simp: SelfFund_def\<close>)

text \<open>What self-funding sends. It sends only when the node reports that the faucet holds nothing and that the funder holds more than the
  fee reserve, and then exactly the balance less the reserve, from the funder's own address to the faucet. It reports success only
  if the faucet held something already, with nothing sent, or if the node accepted the transaction.\<close>

theorem SelfFund_correct:
  assumes "SelfFund e info pourAddr denom = (r, as)"
  shows "(as \<noteq> [] \<longrightarrow>
      (\<exists>funder addr bal funderBal b res c'. tx_New (fe_derive e) (fe_dial e) info [0] None = Ok funder \<and>
         query_balance e funder pourAddr denom = Ok bal \<and> coin_amount bal = ''0'' \<and>
         AddressForKey (fe_hash160 e) funder 0 = Ok addr \<and> query_balance e funder addr denom = Ok funderBal \<and>
         set_string (coin_amount funderBal) = Some b \<and> 100000 < b \<and>
         BuildAndBroadcast (fe_hash160 e) (fe_ctx e) (funding_request pourAddr denom (b - 100000)) (fe_attempts e) funder = (res, as, c'))) \<and>
    (r = Ok () \<longrightarrow>
      (\<exists>funder bal. tx_New (fe_derive e) (fe_dial e) info [0] None = Ok funder \<and> query_balance e funder pourAddr denom = Ok bal \<and>
         (if coin_amount bal = ''0'' then as \<noteq> [] \<and> accepted (last as) else as = [])))"
  using assms
proof (rule SelfFund_cases)
  fix funder addr bal funderBal b res c'
  assume "tx_New (fe_derive e) (fe_dial e) info [0] None = Ok funder" "query_balance e funder pourAddr denom = Ok bal" "coin_amount bal = ''0''"
    "AddressForKey (fe_hash160 e) funder 0 = Ok addr" "query_balance e funder addr denom = Ok funderBal"
    "set_string (coin_amount funderBal) = Some b" "100000 < b"
    "BuildAndBroadcast (fe_hash160 e) (fe_ctx e) (funding_request pourAddr denom (b - 100000)) (fe_attempts e) funder = (res, as, c')"
    "r = (case res of Inl err \<Rightarrow> Err (DvBroadcast err) | Inr _ \<Rightarrow> Ok ())"
  with BuildAndBroadcast_accepted[of "fe_hash160 e" "fe_ctx e" "funding_request pourAddr denom (b - 100000)" "fe_attempts e" funder _ as c']
  show ?thesis by (auto split: sum.splits)
qed auto

subsection \<open>Waiting for funds\<close>

lemma wait_funding_skip:
  assumes "\<forall>i<n. \<not> wait_ends query cancelled (k + i)"
  shows "wait_funding query cancelled k = wait_funding query cancelled (k + n)"
  using assms
proof (induction n arbitrary: k)
  case (Suc n)
  have "\<not> wait_ends query cancelled k" using Suc.prems by (metis add_0_right zero_less_Suc)
  then have "wait_funding query cancelled k = wait_funding query cancelled (Suc k)"
    by (subst wait_funding.simps) (simp add: wait_ends_def)
  also have "\<dots> = wait_funding query cancelled (Suc k + n)" using Suc.prems by (intro Suc.IH) (metis Suc_mono add_Suc_shift)
  finally show ?case by simp
qed simp

lemma wait_funding_ends:
  assumes "wait_funding query cancelled k = Some r"
  shows "\<exists>n. wait_ends query cancelled n"
  by (rule wait_funding.raw_induct[where P = "\<lambda>q c k y. \<exists>n. wait_ends q c n", OF _ assms]) (auto simp: wait_ends_def split: if_splits)

text \<open>When the waiting for funds ends. The loop returns at the first poll that shows a balance or after which the context ends,
  with success in the first case and the error of the context in the second, and it runs forever exactly when there is no such poll.\<close>

theorem WaitForFunding_correct:
  "WaitForFunding query cancelled =
     (if \<exists>n. wait_ends query cancelled n
      then let n = (LEAST n. wait_ends query cancelled n)
           in Some (if funded (query n) then Ok () else Err (DvContext (the (cancelled n))))
      else None)"
proof (cases "\<exists>n. wait_ends query cancelled n")
  case True
  define n where "n = (LEAST n. wait_ends query cancelled n)"
  have n: "wait_ends query cancelled n" unfolding n_def using True by (rule LeastI_ex)
  have "\<not> wait_ends query cancelled i" if "i < n" for i using not_less_Least[OF that[unfolded n_def]] .
  then have "\<forall>i<n. \<not> wait_ends query cancelled (0 + i)" by simp
  from wait_funding_skip[OF this] have "WaitForFunding query cancelled = wait_funding query cancelled n" by (simp add: WaitForFunding_def)
  also have "\<dots> = Some (if funded (query n) then Ok () else Err (DvContext (the (cancelled n))))"
    using n by (subst wait_funding.simps) (auto simp: wait_ends_def)
  finally show ?thesis using True by (simp add: n_def Let_def)
next
  case False
  then show ?thesis using wait_funding_ends[of query cancelled 0] by (cases "WaitForFunding query cancelled") (auto simp: WaitForFunding_def)
qed

end
