(* ===== verification/Migrate.thy ===== *)
theory Migrate
  imports Registry
begin

text \<open>
  \<^verbatim>\<open>internal/store/sqlite.go\<close>: opening the database and applying the embedded migrations. What a migration script does to the schema is
  SQLite's, so \<^verbatim>\<open>apply\<close> is an argument (\<^const>\<open>None\<close> an error); every database call may fail, and a transaction that fails at any point,
  the commit included, leaves the database as it was.

  The lemmas show that, over any sequence of starts with any failures, the database holds the effect of a prefix of the migrations in the
  order of their names, each applied once and recorded.
\<close>

subsection \<open>The store\<close>

record 's database =
  db_schema :: 's
  db_applied :: "(string \<times> int) list option"   \<comment> \<open>\<^verbatim>\<open>schema_migrations\<close>, if the table exists\<close>

datatype open_error =
    StoreOpen string | StoreCreateTable | StoreReadDir
  | StoreCheck string | StoreReadFile string | StoreBegin string | StoreApply string | StoreRecord string | StoreCommit string

text \<open>Which calls fail, by migration.\<close>

record store_io =
  so_open_fails :: bool
  so_create_fails :: bool
  so_readdir_fails :: bool
  so_check_fails :: "string \<Rightarrow> bool"
  so_read_fails :: "string \<Rightarrow> bool"
  so_begin_fails :: "string \<Rightarrow> bool"
  so_exec_fails :: "string \<Rightarrow> bool"
  so_record_fails :: "string \<Rightarrow> bool"
  so_commit_fails :: "string \<Rightarrow> bool"
  so_now :: "string \<Rightarrow> int"

text \<open>The embedded directory: its entries with whether each is a directory, and the files.\<close>

record migration_fs =
  mf_entries :: "(string \<times> bool) list"
  mf_content :: "string \<Rightarrow> string"

definition dsnPragmas :: string where
  "dsnPragmas = ''_pragma=busy_timeout(5000)'' @ ''&_pragma=journal_mode(WAL)'' @ ''&_pragma=synchronous(NORMAL)'' @ ''&_pragma=foreign_keys(ON)''"

definition buildDSN :: "string \<Rightarrow> string" where
  "buildDSN path = (if path = '':memory:'' then ''file::memory:?mode=memory&'' @ dsnPragmas else ''file:'' @ path @ ''?'' @ dsnPragmas)"

definition isMigrationApplied :: "store_io \<Rightarrow> 's database \<Rightarrow> string \<Rightarrow> (open_error, bool) result" where
  "isMigrationApplied io db name =
     (if so_check_fails io name then Err (StoreCheck name)
      else case db_applied db of
             None \<Rightarrow> Err (StoreCheck name)
           | Some rows \<Rightarrow> Ok (length (filter (\<lambda>r. fst r = name) rows) > 0))"

text \<open>One transaction: the script, the row (the name is the primary key) and the commit.\<close>

definition apply_migration ::
    "(string \<Rightarrow> 's \<Rightarrow> 's option) \<Rightarrow> store_io \<Rightarrow> string \<Rightarrow> string \<Rightarrow> 's database \<Rightarrow> (open_error, unit) result \<times> 's database" where
  "apply_migration apply io name content db =
     (if so_begin_fails io name then (Err (StoreBegin name), db)
      else case (if so_exec_fails io name then None else apply content (db_schema db)) of
             None \<Rightarrow> (Err (StoreApply name), db)
           | Some s \<Rightarrow>
               (case db_applied db of
                  None \<Rightarrow> (Err (StoreRecord name), db)
                | Some rows \<Rightarrow>
                    if so_record_fails io name \<or> name \<in> fst ` set rows then (Err (StoreRecord name), db)
                    else if so_commit_fails io name then (Err (StoreCommit name), db)
                    else (Ok (), \<lparr>db_schema = s, db_applied = Some (rows @ [(name, so_now io name)])\<rparr>)))"

fun migrate_loop ::
    "(string \<Rightarrow> 's \<Rightarrow> 's option) \<Rightarrow> migration_fs \<Rightarrow> store_io \<Rightarrow> string list \<Rightarrow> 's database \<Rightarrow> (open_error, unit) result \<times> 's database" where
  "migrate_loop apply fs io [] db = (Ok (), db)"
| "migrate_loop apply fs io (name # names) db =
     (case isMigrationApplied io db name of
        Inl e \<Rightarrow> (Err e, db)
      | Inr True \<Rightarrow> migrate_loop apply fs io names db
      | Inr False \<Rightarrow>
          if so_read_fails io name then (Err (StoreReadFile name), db)
          else (case apply_migration apply io name (mf_content fs name) db of
                  (Inl e, db') \<Rightarrow> (Err e, db')
                | (Inr _, db') \<Rightarrow> migrate_loop apply fs io names db'))"

definition migration_names :: "migration_fs \<Rightarrow> string list" where
  "migration_names fs = sort (map fst (filter (\<lambda>e. \<not> snd e) (mf_entries fs)))"

definition migrate :: "(string \<Rightarrow> 's \<Rightarrow> 's option) \<Rightarrow> migration_fs \<Rightarrow> store_io \<Rightarrow> 's database \<Rightarrow> (open_error, unit) result \<times> 's database" where
  "migrate apply fs io db =
     (if so_readdir_fails io then (Err StoreReadDir, db) else migrate_loop apply fs io (migration_names fs) db)"

definition store_New ::
    "(string \<Rightarrow> 's \<Rightarrow> 's option) \<Rightarrow> migration_fs \<Rightarrow> store_io \<Rightarrow> string \<Rightarrow> 's database \<Rightarrow> (open_error, unit) result \<times> 's database" where
  "store_New apply fs io path db =
     (if so_open_fails io then (Err (StoreOpen path), db)
      else if so_create_fails io then (Err StoreCreateTable, db)
      else migrate apply fs io (db\<lparr>db_applied := Some (case db_applied db of None \<Rightarrow> [] | Some rows \<Rightarrow> rows)\<rparr>))"

text \<open>What the migrations do when they are applied one after the other, and a database that holds the first \<^verbatim>\<open>k\<close> of them.\<close>

fun apply_all :: "(string \<Rightarrow> 's \<Rightarrow> 's option) \<Rightarrow> string list \<Rightarrow> 's \<Rightarrow> 's option" where
  "apply_all apply [] s = Some s"
| "apply_all apply (c # cs) s = (case apply c s of None \<Rightarrow> None | Some s' \<Rightarrow> apply_all apply cs s')"

definition recorded_names :: "'s database \<Rightarrow> string list" where
  "recorded_names db = (case db_applied db of None \<Rightarrow> [] | Some rows \<Rightarrow> map fst rows)"

definition migrated :: "(string \<Rightarrow> 's \<Rightarrow> 's option) \<Rightarrow> migration_fs \<Rightarrow> 's \<Rightarrow> nat \<Rightarrow> 's database \<Rightarrow> bool" where
  "migrated apply fs s0 k db \<longleftrightarrow>
     k \<le> length (migration_names fs) \<and> recorded_names db = take k (migration_names fs) \<and>
     apply_all apply (map (mf_content fs) (take k (migration_names fs))) s0 = Some (db_schema db)"

definition no_faults :: "store_io \<Rightarrow> bool" where
  "no_faults io \<longleftrightarrow> \<not> so_open_fails io \<and> \<not> so_create_fails io \<and> \<not> so_readdir_fails io \<and> so_check_fails io = (\<lambda>_. False) \<and>
     so_read_fails io = (\<lambda>_. False) \<and> so_begin_fails io = (\<lambda>_. False) \<and> so_exec_fails io = (\<lambda>_. False) \<and>
     so_record_fails io = (\<lambda>_. False) \<and> so_commit_fails io = (\<lambda>_. False)"

definition starts :: "(string \<Rightarrow> 's \<Rightarrow> 's option) \<Rightarrow> migration_fs \<Rightarrow> string \<Rightarrow> store_io list \<Rightarrow> 's database \<Rightarrow> 's database" where
  "starts apply fs path ios db = fold (\<lambda>io db. snd (store_New apply fs io path db)) ios db"

definition demo_fs :: migration_fs where
  "demo_fs = \<lparr>mf_entries = [(''002_drips.sql'', False), (''old'', True), (''001_rate_limits.sql'', False)], mf_content = id\<rparr>"

definition append_script :: "string \<Rightarrow> string list \<Rightarrow> string list option" where
  "append_script c s = Some (s @ [c])"

definition faulty_io :: "string \<Rightarrow> store_io" where
  "faulty_io name = \<lparr>so_open_fails = False, so_create_fails = False, so_readdir_fails = False, so_check_fails = (\<lambda>_. False), so_read_fails = (\<lambda>_. False),
     so_begin_fails = (\<lambda>_. False), so_exec_fails = (\<lambda>_. False), so_record_fails = (\<lambda>n. n = name), so_commit_fails = (\<lambda>_. False), so_now = (\<lambda>_. 7)\<rparr>"

subsection \<open>A prefix of the migrations\<close>

lemma apply_all_snoc: "apply_all apply (cs @ [c]) s = (case apply_all apply cs s of None \<Rightarrow> None | Some s' \<Rightarrow> apply c s')"
  by (induction cs arbitrary: s) (auto split: option.splits)

lemma isMigrationApplied_iff:
  assumes "db_applied db = Some rows" "isMigrationApplied io db name = Ok b"
  shows "b \<longleftrightarrow> name \<in> set (recorded_names db)"
  using assms by (auto simp: isMigrationApplied_def recorded_names_def filter_empty_conv split: if_splits)

lemma apply_migration_Ok:
  assumes "apply_migration apply io name content db = (Ok u, db')"
  shows "\<exists>s. apply content (db_schema db) = Some s \<and> db_schema db' = s \<and> recorded_names db' = recorded_names db @ [name] \<and> db_applied db' \<noteq> None"
  using assms by (auto simp: apply_migration_def recorded_names_def split: if_splits option.splits)

lemma apply_migration_Err: "apply_migration apply io name content db = (Err e, db') \<Longrightarrow> db' = db"
  by (auto simp: apply_migration_def split: if_splits option.splits)

lemma migrated_step:
  assumes "migrated apply fs s0 k db" "k < length (migration_names fs)" "apply_migration apply io (migration_names fs ! k) (mf_content fs (migration_names fs ! k)) db = (Ok u, db')"
  shows "migrated apply fs s0 (Suc k) db'"
  using assms apply_migration_Ok[OF assms(3)] by (auto simp: migrated_def take_Suc_conv_app_nth apply_all_snoc)

lemma recorded_prefix:
  assumes "migrated apply fs s0 k db" "distinct (migration_names fs)" "i < length (migration_names fs)"
  shows "migration_names fs ! i \<in> set (recorded_names db) \<longleftrightarrow> i < k"
proof -
  let ?ns = "migration_names fs"
  have "?ns ! i \<in> set (take k ?ns) \<longleftrightarrow> (\<exists>j<k. j < length ?ns \<and> ?ns ! j = ?ns ! i)" by (auto simp: in_set_conv_nth)
  then show ?thesis using assms by (auto simp: migrated_def nth_eq_iff_index_eq)
qed

text \<open>The loop over the names from the \<^verbatim>\<open>i\<close>th on, with the first \<^verbatim>\<open>k\<close> already applied.\<close>

lemma migrate_loop_prefix:
  assumes "migrated apply fs s0 k db" "db_applied db \<noteq> None" "i \<le> k" "distinct (migration_names fs)"
    and "migrate_loop apply fs io (drop i (migration_names fs)) db = (r, db')"
  shows "db_applied db' \<noteq> None \<and> (\<exists>k'\<ge>k. migrated apply fs s0 k' db' \<and> (is_ok r \<longrightarrow> k' = length (migration_names fs)))"
  using assms(1-3,5)
proof (induction "length (migration_names fs) - i" arbitrary: i k db)
  case 0
  then show ?case by (auto simp: migrated_def)
next
  case (Suc n)
  let ?ns = "migration_names fs"
  have i: "i < length ?ns" using Suc.hyps(2) by simp
  then have d: "drop i ?ns = ?ns ! i # drop (Suc i) ?ns" by (simp add: Cons_nth_drop_Suc)
  have n: "n = length ?ns - Suc i" using Suc.hyps(2) by simp
  obtain rows where rows: "db_applied db = Some rows" using Suc.prems(2) by blast
  have mem: "?ns ! i \<in> set (recorded_names db) \<longleftrightarrow> i < k" by (rule recorded_prefix[OF Suc.prems(1) assms(4) i])
  show ?case
  proof (cases "isMigrationApplied io db (?ns ! i)")
    case (Inl e)
    then show ?thesis using Suc.prems by (auto simp: d)
  next
    case (Inr b)
    with isMigrationApplied_iff[OF rows] mem have b: "b \<longleftrightarrow> i < k" by blast
    show ?thesis
    proof (cases b)
      case True
      then show ?thesis using Suc.hyps(1)[OF n Suc.prems(1,2)] Suc.prems(4) Inr b by (simp add: d)
    next
      case False
      then have k: "k = i" using b Suc.prems(3) by simp
      show ?thesis
      proof (cases "so_read_fails io (?ns ! i) \<or> isl (fst (apply_migration apply io (?ns ! i) (mf_content fs (?ns ! i)) db))")
        case True
        then show ?thesis using Suc.prems Inr \<open>\<not> b\<close> by (auto simp: d isl_def dest!: apply_migration_Err split: prod.splits sum.splits if_splits)
      next
        case F: False
        then obtain u db1 where a: "apply_migration apply io (?ns ! i) (mf_content fs (?ns ! i)) db = (Ok u, db1)"
          by (cases "apply_migration apply io (?ns ! i) (mf_content fs (?ns ! i)) db"; cases "fst (apply_migration apply io (?ns ! i) (mf_content fs (?ns ! i)) db)")
            (auto simp: isl_def)
        have "migrated apply fs s0 (Suc k) db1" using migrated_step[OF Suc.prems(1)] a i k by simp
        moreover have "migrate_loop apply fs io (drop (Suc i) ?ns) db1 = (r, db')" using Suc.prems(4) Inr \<open>\<not> b\<close> F a by (simp add: d)
        ultimately have "db_applied db' \<noteq> None \<and> (\<exists>k'\<ge>Suc k. migrated apply fs s0 k' db' \<and> (is_ok r \<longrightarrow> k' = length ?ns))"
          using Suc.hyps(1)[OF n, of "Suc k" db1] apply_migration_Ok[OF a] k by blast
        then show ?thesis using Suc_leD by blast
      qed
    qed
  qed
qed

lemma migrated_create:
  "migrated apply fs s0 k db \<Longrightarrow> migrated apply fs s0 k (db\<lparr>db_applied := Some (case db_applied db of None \<Rightarrow> [] | Some rows \<Rightarrow> rows)\<rparr>)"
  by (simp add: migrated_def recorded_names_def split: option.splits)

lemma store_New_prefix:
  assumes "migrated apply fs s0 k db" "distinct (migration_names fs)" "store_New apply fs io path db = (r, db')"
  shows "\<exists>k'\<ge>k. migrated apply fs s0 k' db' \<and> (is_ok r \<longrightarrow> k' = length (migration_names fs))"
  using assms migrate_loop_prefix[OF migrated_create[OF assms(1)], where i = 0 and io = io and r = r and db' = db'] migrated_create[OF assms(1)]
  by (auto simp: store_New_def migrate_def split: if_splits)

lemma starts_prefix:
  assumes "distinct (migration_names fs)" "migrated apply fs s0 k db"
  shows "\<exists>k'\<ge>k. migrated apply fs s0 k' (starts apply fs path ios db)"
  using assms(2)
proof (induction ios arbitrary: k db)
  case (Cons io ios)
  obtain r db' where "store_New apply fs io path db = (r, db')" by fastforce
  from store_New_prefix[OF Cons.prems assms(1) this] obtain k1 where k1: "k \<le> k1" "migrated apply fs s0 k1 db'" by blast
  from Cons.IH[OF k1(2)] obtain k2 where "k1 \<le> k2" "migrated apply fs s0 k2 (starts apply fs path ios db')" by blast
  moreover have "starts apply fs path (io # ios) db = starts apply fs path ios db'"
    using \<open>store_New apply fs io path db = (r, db')\<close> by (simp add: starts_def)
  ultimately show ?case using k1(1) order_trans by auto
qed (auto simp: starts_def)

lemma apply_all_append: "apply_all apply (cs @ ds) s = Option.bind (apply_all apply cs s) (apply_all apply ds)"
  by (induction cs arbitrary: s) (auto split: option.splits)

lemma migrated_next:
  assumes "migrated apply fs s0 k db" "k < length (migration_names fs)" "apply_all apply (map (mf_content fs) (migration_names fs)) s0 \<noteq> None"
  shows "apply (mf_content fs (migration_names fs ! k)) (db_schema db) \<noteq> None"
proof -
  let ?c = "map (mf_content fs) (migration_names fs)"
  have "apply_all apply (take k ?c @ ?c ! k # drop (Suc k) ?c) s0 \<noteq> None" using assms(2,3) id_take_nth_drop[of k ?c] by simp
  then show ?thesis using assms(1,2) by (auto simp: migrated_def apply_all_append take_map split: option.splits)
qed

lemma migrate_loop_completes:
  assumes "no_faults io" "distinct (migration_names fs)" "apply_all apply (map (mf_content fs) (migration_names fs)) s0 \<noteq> None"
    and "migrated apply fs s0 k db" "db_applied db \<noteq> None" "i \<le> k"
  shows "is_ok (fst (migrate_loop apply fs io (drop i (migration_names fs)) db))"
  using assms(4-6)
proof (induction "length (migration_names fs) - i" arbitrary: i k db)
  case (Suc n)
  let ?ns = "migration_names fs"
  have i: "i < length ?ns" and n: "n = length ?ns - Suc i" using Suc.hyps(2) by simp_all
  then have d: "drop i ?ns = ?ns ! i # drop (Suc i) ?ns" by (simp add: Cons_nth_drop_Suc)
  obtain rows where rows: "db_applied db = Some rows" using Suc.prems(2) by blast
  obtain b where b: "isMigrationApplied io db (?ns ! i) = Ok b" using assms(1) rows by (simp add: isMigrationApplied_def no_faults_def)
  have mem: "b \<longleftrightarrow> i < k" using isMigrationApplied_iff[OF rows b] recorded_prefix[OF Suc.prems(1) assms(2) i] by blast
  show ?case
  proof (cases b)
    case True
    then show ?thesis using Suc.hyps(1)[OF n Suc.prems(1,2)] b mem by (simp add: d)
  next
    case False
    then have k: "k = i" using mem Suc.prems(3) by simp
    have "?ns ! i \<notin> fst ` set rows" using False isMigrationApplied_iff[OF rows b] rows by (simp add: recorded_names_def)
    then obtain u db1 where a: "apply_migration apply io (?ns ! i) (mf_content fs (?ns ! i)) db = (Ok u, db1)"
      using assms(1) rows migrated_next[OF Suc.prems(1) _ assms(3)] i k by (auto simp: apply_migration_def no_faults_def)
    have "is_ok (fst (migrate_loop apply fs io (drop (Suc i) ?ns) db1))"
      using Suc.hyps(1)[OF n, of "Suc k" db1] migrated_step[OF Suc.prems(1), of io u db1] a i k apply_migration_Ok[OF a] by simp
    then show ?thesis using False b a assms(1) by (simp add: d no_faults_def)
  qed
qed simp

text \<open>C38: The database is always a prefix of the migrations. However often the program starts and whatever fails each time, the database
  that began empty holds the effect of the first migrations in the order of their names, each applied and recorded once, and nothing
  else; another start never takes a migration back, success means that all of them are there, and a start without failures succeeds
  when the scripts can be applied one after the other.\<close>

theorem migrations_exactly_once:
  assumes "distinct (migration_names fs)"
  shows "\<exists>k. migrated apply fs s0 k (starts apply fs path ios \<lparr>db_schema = s0, db_applied = None\<rparr>) \<and>
    (\<forall>io. case store_New apply fs io path (starts apply fs path ios \<lparr>db_schema = s0, db_applied = None\<rparr>) of (r, db') \<Rightarrow>
       (\<exists>k'\<ge>k. migrated apply fs s0 k' db' \<and> (is_ok r \<longrightarrow> k' = length (migration_names fs))) \<and>
       (no_faults io \<and> apply_all apply (map (mf_content fs) (migration_names fs)) s0 \<noteq> None \<longrightarrow> is_ok r))"
proof -
  let ?db = "starts apply fs path ios \<lparr>db_schema = s0, db_applied = None\<rparr>"
  have "migrated apply fs s0 0 \<lparr>db_schema = s0, db_applied = None\<rparr>" by (simp add: migrated_def recorded_names_def)
  from starts_prefix[OF assms this] obtain k where k: "migrated apply fs s0 k ?db" by blast
  have "is_ok r" if "no_faults io" "apply_all apply (map (mf_content fs) (migration_names fs)) s0 \<noteq> None" "store_New apply fs io path ?db = (r, db')"
    for io r db'
    using migrate_loop_completes[OF that(1) assms that(2) migrated_create[OF k], of 0] that
    by (auto simp: store_New_def migrate_def no_faults_def split: if_splits)
  with k store_New_prefix[OF k assms] show ?thesis by (intro exI[of _ k]) (auto split: prod.splits)
qed

theorem migrations_exactly_once_witness:
  "let db = starts append_script demo_fs ''pour.db'' [faulty_io ''002_drips.sql''] \<lparr>db_schema = [], db_applied = None\<rparr>
   in db_schema db = [''001_rate_limits.sql''] \<and> (\<exists>k. migrated append_script demo_fs [] k db)"
proof -
  have d: "distinct (migration_names demo_fs)"
    "db_schema (starts append_script demo_fs ''pour.db'' [faulty_io ''002_drips.sql''] \<lparr>db_schema = [], db_applied = None\<rparr>) = [''001_rate_limits.sql'']"
    by code_simp+
  from migrations_exactly_once[OF d(1), of append_script "[]" "''pour.db''" "[faulty_io ''002_drips.sql'']"] d(2) show ?thesis
    by (auto simp: Let_def)
qed

end
