(* ===== verification/Cli.thy ===== *)
theory Cli
  imports Server Overrides Transport
begin

text \<open>
  The admin commands of \<^verbatim>\<open>cmd/pour\<close> (\<^verbatim>\<open>adminclient.go\<close>, \<^verbatim>\<open>admin.go\<close>, \<^verbatim>\<open>chains.go\<close>): how the client finds its address and token, how it reads the
  answers of the daemon, and what each command asks for and prints. A command takes the link to the daemon, a function from the
  authorization header and the request to the reply and the new state of the daemon, so that it can be run against the model of the
  admin API. Output is the list of strings written; the alignment by \<^verbatim>\<open>tabwriter\<close> and the flag parser are left out, and the printing of times,
  durations and JSON values is an argument.

  The lemmas show what happens to a client after the token was rotated, what an empty difference means and what it misses, and that
  accepting everything leaves nothing pending.
\<close>

subsection \<open>Text\<close>

definition nl :: string where "nl = [CHR 0x0A]"
definition tab :: string where "tab = [CHR 0x09]"

fun join :: "string \<Rightarrow> string list \<Rightarrow> string" where
  "join sep [] = ''''"
| "join sep [x] = x"
| "join sep (x # y # ys) = x @ sep @ join sep (y # ys)"

definition hex_digit :: "nat \<Rightarrow> char" where "hex_digit n = (if n < 10 then char_of (48 + n) else char_of (87 + n))"

text \<open>The verb \<^verbatim>\<open>%q\<close>, for text whose bytes above ASCII are printable.\<close>

definition quote_char :: "char \<Rightarrow> string" where
  "quote_char c =
     (if c = CHR 0x22 then [CHR 0x5C, CHR 0x22] else if c = CHR 0x5C then [CHR 0x5C, CHR 0x5C]
      else if c = CHR 0x07 then [CHR 0x5C, CHR ''a''] else if c = CHR 0x08 then [CHR 0x5C, CHR ''b'']
      else if c = CHR 0x0C then [CHR 0x5C, CHR ''f''] else if c = CHR 0x0A then [CHR 0x5C, CHR ''n'']
      else if c = CHR 0x0D then [CHR 0x5C, CHR ''r''] else if c = CHR 0x09 then [CHR 0x5C, CHR ''t'']
      else if c = CHR 0x0B then [CHR 0x5C, CHR ''v'']
      else if code_of c < 32 \<or> code_of c = 127 then [CHR 0x5C, CHR ''x'', hex_digit (code_of c div 16), hex_digit (code_of c mod 16)]
      else [c])"

definition go_quote :: "string \<Rightarrow> string" where "go_quote s = [CHR 0x22] @ concat (map quote_char s) @ [CHR 0x22]"

definition show_bool :: "bool \<Rightarrow> string" where "show_bool b = (if b then ''true'' else ''false'')"

record cli_format =
  cf_time :: "int \<Rightarrow> string"              \<comment> \<open>\<^verbatim>\<open>Format(time.RFC3339)\<close>\<close>
  cf_duration :: "int \<Rightarrow> string"          \<comment> \<open>\<^verbatim>\<open>Duration.String\<close>\<close>
  cf_json :: "field_value \<Rightarrow> string option"   \<comment> \<open>\<^verbatim>\<open>json.Marshal\<close>\<close>
  cf_value :: "field_value \<Rightarrow> string"          \<comment> \<open>the verb \<^verbatim>\<open>%v\<close>\<close>

subsection \<open>The client\<close>

datatype cli_error =
    CliNoToken | CliEmptyToken | CliBadRequest | CliUnreachable string | CliStatus nat | CliDecode | CliWrap string cli_error
  | CliAllWithChain | CliChainRequired | CliChainNotFound string | CliUnknownField string | CliPerChainDrip string | CliExpires
  | CliConfig config_error

definition adminURLDefault :: string where "adminURLDefault = ''http://localhost:8080''"

record admin_client =
  acl_base_url :: string
  acl_token :: string

definition newAdminClient :: "string \<Rightarrow> string \<Rightarrow> token_file \<Rightarrow> (cli_error, admin_client) result" where
  "newAdminClient envURL envToken file =
     (let baseURL = trim_right_slash (if envURL = '''' then adminURLDefault else envURL)
      in if envToken \<noteq> '''' then Ok \<lparr>acl_base_url = baseURL, acl_token = envToken\<rparr>
         else case file of
                FileData d \<Rightarrow>
                  let token = trim_space d
                  in if token = '''' then Err CliEmptyToken else Ok \<lparr>acl_base_url = baseURL, acl_token = token\<rparr>
              | _ \<Rightarrow> Err CliNoToken)"

definition bearer_header :: "admin_client \<Rightarrow> string" where "bearer_header c = ''Bearer '' @ acl_token c"

datatype http_reply = HttpBadRequest | HttpUnreachable | HttpReply nat admin_body

type_synonym 'd link = "string \<Rightarrow> admin_request \<Rightarrow> 'd \<Rightarrow> http_reply \<times> 'd"

text \<open>\<^verbatim>\<open>json.NewDecoder(resp.Body).Decode(dest)\<close>: the part of a body that has the shape of the destination.\<close>

type_synonym 'b decoder = "admin_body \<Rightarrow> 'b option"

definition read_reply :: "admin_client \<Rightarrow> (nat \<Rightarrow> bool) \<Rightarrow> 'b decoder \<Rightarrow> http_reply \<Rightarrow> (cli_error, 'b) result" where
  "read_reply c good dec r =
     (case r of
        HttpBadRequest \<Rightarrow> Err CliBadRequest
      | HttpUnreachable \<Rightarrow> Err (CliUnreachable (acl_base_url c))
      | HttpReply status body \<Rightarrow>
          if \<not> good status then Err (CliStatus status)
          else case dec body of None \<Rightarrow> Err CliDecode | Some x \<Rightarrow> Ok x)"

definition getJSON :: "'d link \<Rightarrow> admin_client \<Rightarrow> admin_request \<Rightarrow> 'b decoder \<Rightarrow> 'd \<Rightarrow> (cli_error, 'b) result \<times> 'd" where
  "getJSON lk c req dec d = (case lk (bearer_header c) req d of (r, d') \<Rightarrow> (read_reply c (\<lambda>n. n = 200) dec r, d'))"

definition postJSON :: "'d link \<Rightarrow> admin_client \<Rightarrow> admin_request \<Rightarrow> 'b decoder \<Rightarrow> 'd \<Rightarrow> (cli_error, 'b) result \<times> 'd" where
  "postJSON lk c req dec d = (case lk (bearer_header c) req d of (r, d') \<Rightarrow> (read_reply c (\<lambda>n. 200 \<le> n \<and> n < 300) dec r, d'))"

definition deleteJSON :: "'d link \<Rightarrow> admin_client \<Rightarrow> admin_request \<Rightarrow> 'd \<Rightarrow> (cli_error, unit) result \<times> 'd" where
  "deleteJSON lk c req d = (case lk (bearer_header c) req d of (r, d') \<Rightarrow> (read_reply c (\<lambda>n. 200 \<le> n \<and> n < 300) (\<lambda>_. Some ()) r, d'))"

text \<open>A command: the output, or the error, and the daemon afterwards. \<^verbatim>\<open>fmt.Errorf("op: %w", err)\<close> is \<^const>\<open>CliWrap\<close>.\<close>

type_synonym 'd outcome = "(cli_error, string list) result \<times> 'd"

definition after_call :: "string \<Rightarrow> (cli_error, 'b) result \<times> 'd \<Rightarrow> ('b \<Rightarrow> 'd \<Rightarrow> 'd outcome) \<Rightarrow> 'd outcome" where
  "after_call what r k = (case r of (Inl e, d) \<Rightarrow> (Err (CliWrap what e), d) | (Inr x, d) \<Rightarrow> k x d)"

record cli_env =
  ce_url :: string
  ce_token :: string
  ce_file :: token_file
  ce_fmt :: cli_format
  ce_decimal :: decimal_lib

definition with_client :: "cli_env \<Rightarrow> 'd \<Rightarrow> (admin_client \<Rightarrow> 'd outcome) \<Rightarrow> 'd outcome" where
  "with_client e d k = (case newAdminClient (ce_url e) (ce_token e) (ce_file e) of Inl err \<Rightarrow> (Err err, d) | Inr c \<Rightarrow> k c)"

subsection \<open>The registry snapshot\<close>

record chain_fee_token =
  cft_denom :: string
  cft_low :: string
  cft_average :: string
  cft_high :: string
  cft_display :: string
  cft_exponent :: nat

record snapshot_json =
  sj_chain_id :: string
  sj_chain_name :: string
  sj_network_type :: string
  sj_pretty_name :: string
  sj_bech32_prefix :: string
  sj_slip44 :: nat
  sj_key_algo :: string
  sj_endpoints :: endpoints
  sj_fee_tokens :: "chain_fee_token list"
  sj_block_time :: int
  sj_enabled :: bool
  sj_last_changed :: int
  sj_sources :: field_sources

text \<open>A chain as the daemon encodes it and the command decodes it; a decimal is encoded as its string.\<close>

definition snapshot_of_info :: "decimal_lib \<Rightarrow> chain_info \<Rightarrow> snapshot_json" where
  "snapshot_of_info dl i =
     \<lparr>sj_chain_id = ci_chain_id i, sj_chain_name = ci_chain_name i, sj_network_type = ci_network_type i, sj_pretty_name = ci_pretty_name i,
      sj_bech32_prefix = ci_bech32_prefix i, sj_slip44 = ci_slip44 i, sj_key_algo = ci_key_algo i, sj_endpoints = ci_endpoints i,
      sj_fee_tokens = map (\<lambda>ft. \<lparr>cft_denom = ft_denom ft, cft_low = dl_string dl (ft_low ft), cft_average = dl_string dl (ft_average ft),
                              cft_high = dl_string dl (ft_high ft), cft_display = ft_display ft, cft_exponent = ft_exponent ft\<rparr>) (ci_fee_tokens i),
      sj_block_time = ci_block_time i, sj_enabled = ci_enabled i, sj_last_changed = ci_last_changed i, sj_sources = ci_sources i\<rparr>"

definition decode_infos :: "decimal_lib \<Rightarrow> snapshot_json list decoder" where
  "decode_infos dl b = (case b of ABInfos is \<Rightarrow> Some (map (snapshot_of_info dl) is) | _ \<Rightarrow> None)"

definition decode_pending :: "pending_change list decoder" where
  "decode_pending b = (case b of ABPending pcs \<Rightarrow> Some pcs | _ \<Rightarrow> None)"

definition decode_ok :: "unit decoder" where "decode_ok b = (case b of ABOk \<Rightarrow> Some () | _ \<Rightarrow> None)"

definition list_line :: "cli_format \<Rightarrow> snapshot_json \<Rightarrow> string" where
  "list_line f s =
     (let lc = (if sj_last_changed s \<noteq> 0 then cf_time f (sj_last_changed s) else ''''); enabled = (if sj_enabled s then ''yes'' else ''no'')
      in join tab [sj_chain_id s, sj_chain_name s, sj_network_type s, sj_bech32_prefix s, enabled, lc] @ nl)"

definition ChainsList :: "cli_env \<Rightarrow> 'd link \<Rightarrow> 'd \<Rightarrow> 'd outcome" where
  "ChainsList e lk d =
     with_client e d (\<lambda>c. after_call ''snapshot: '' (getJSON lk c RSnapshot (decode_infos (ce_decimal e)) d)
       (\<lambda>snaps d'. (Ok ((join tab [''CHAIN_ID'', ''NAME'', ''TYPE'', ''BECH32'', ''ENABLED'', ''LAST_CHANGED''] @ nl) # map (list_line (ce_fmt e)) snaps), d')))"

subsection \<open>Differences\<close>

definition endpointURLs :: "endpoint list \<Rightarrow> string list" where "endpointURLs eps = map ept_url eps"

fun stringSliceEqual :: "string list \<Rightarrow> string list \<Rightarrow> bool" where
  "stringSliceEqual [] [] \<longleftrightarrow> True"
| "stringSliceEqual (x # xs) (y # ys) \<longleftrightarrow> x = y \<and> stringSliceEqual xs ys"
| "stringSliceEqual _ _ \<longleftrightarrow> False"

definition snapFeeToken :: "chain_fee_token list \<Rightarrow> string \<Rightarrow> chain_fee_token option" where
  "snapFeeToken fts denom = find (\<lambda>ft. cft_denom ft = denom) fts"

definition diff_line :: "string \<Rightarrow> string \<Rightarrow> string \<Rightarrow> string" where "diff_line name old new = ''  '' @ name @ '': '' @ old @ '' -> '' @ new"

text \<open>\<^verbatim>\<open>if cc.F != nil && *cc.F != snap.F\<close>.\<close>

definition diff_field :: "('a \<Rightarrow> string) \<Rightarrow> string \<Rightarrow> 'a option \<Rightarrow> 'a \<Rightarrow> string list" where
  "diff_field sh name v cur = (case v of None \<Rightarrow> [] | Some x \<Rightarrow> if x \<noteq> cur then [diff_line name (sh cur) (sh x)] else [])"

definition diffIdentityLines :: "parse_duration \<Rightarrow> cli_format \<Rightarrow> chain_config \<Rightarrow> snapshot_json \<Rightarrow> string list" where
  "diffIdentityLines pd f cc s =
     diff_field go_quote ''chain_name'' (cc_chain_name cc) (sj_chain_name s) @
     diff_field go_quote ''network_type'' (cc_network_type cc) (sj_network_type s) @
     diff_field go_quote ''key_algo'' (cc_key_algo cc) (sj_key_algo s) @
     diff_field go_quote ''bech32_prefix'' (cc_bech32_prefix cc) (sj_bech32_prefix s) @
     diff_field show_nat ''slip44'' (cc_slip44 cc) (sj_slip44 s) @
     diff_field (cf_duration f) ''block_time'' (map_option (\<lambda>t. case pd t of None \<Rightarrow> 0 | Some d \<Rightarrow> d) (cc_block_time cc)) (sj_block_time s)"

definition diff_endpoints :: "string \<Rightarrow> string list option \<Rightarrow> endpoint list \<Rightarrow> string list" where
  "diff_endpoints name v eps =
     (case v of
        None \<Rightarrow> []
      | Some urls \<Rightarrow>
          let cur = endpointURLs eps
          in if stringSliceEqual cur urls then [] else [diff_line name (''['' @ join '', '' cur @ '']'') (''['' @ join '', '' urls @ '']'')])"

definition diffEndpointLines :: "chain_config \<Rightarrow> snapshot_json \<Rightarrow> string list" where
  "diffEndpointLines cc s =
     (case cc_endpoints cc of
        None \<Rightarrow> []
      | Some e \<Rightarrow>
          diff_endpoints ''endpoints.grpc'' (ec_grpc e) (eps_grpc (sj_endpoints s)) @
          diff_endpoints ''endpoints.rpc'' (ec_rpc e) (eps_rpc (sj_endpoints s)) @
          diff_endpoints ''endpoints.rest'' (ec_rest e) (eps_rest (sj_endpoints s)))"

definition diff_fee_token :: "chain_fee_token list \<Rightarrow> fee_token_config \<Rightarrow> string list" where
  "diff_fee_token fts ft =
     (case snapFeeToken fts (ftc_denom ft) of
        None \<Rightarrow> []
      | Some s \<Rightarrow>
          let name = ''fee_tokens['' @ ftc_denom ft @ '']''
          in diff_field id (name @ ''.low_gas_price'') (ftc_low ft) (cft_low s) @
             diff_field id (name @ ''.average_gas_price'') (ftc_average ft) (cft_average s) @
             diff_field id (name @ ''.high_gas_price'') (ftc_high ft) (cft_high s))"

definition diffFeeTokenLines :: "chain_config \<Rightarrow> snapshot_json \<Rightarrow> string list" where
  "diffFeeTokenLines cc s = concat (map (diff_fee_token (sj_fee_tokens s)) (cc_fee_tokens cc))"

definition diffChainLines :: "parse_duration \<Rightarrow> cli_format \<Rightarrow> chain_config \<Rightarrow> snapshot_json \<Rightarrow> string list" where
  "diffChainLines pd f cc s =
     (if IsEnabled cc \<noteq> sj_enabled s then [diff_line ''enabled'' (show_bool (sj_enabled s)) (show_bool (IsEnabled cc))] else []) @
     diffIdentityLines pd f cc s @ diffEndpointLines cc s @ diffFeeTokenLines cc s"

text \<open>The snapshots by chain id, a later one replacing an earlier one, and the lines of one configured chain.\<close>

definition by_id :: "snapshot_json list \<Rightarrow> string \<rightharpoonup> snapshot_json" where
  "by_id snaps = fold (\<lambda>s m. m(sj_chain_id s \<mapsto> s)) snaps Map.empty"

definition diff_chain :: "parse_duration \<Rightarrow> cli_format \<Rightarrow> (string \<rightharpoonup> snapshot_json) \<Rightarrow> chain_config \<Rightarrow> string list" where
  "diff_chain pd f byID cc =
     (case byID (cc_chain_id cc) of
        None \<Rightarrow> [cc_chain_id cc @ '': not in daemon snapshot (new chain requires restart)'' @ nl]
      | Some s \<Rightarrow>
          (case diffChainLines pd f cc s of [] \<Rightarrow> [] | l # ls \<Rightarrow> (cc_chain_id cc @ '':'' @ nl) # map (\<lambda>x. x @ nl) (l # ls)))"

definition ChainsDiff :: "cli_env \<Rightarrow> parse_duration \<Rightarrow> (config_error, chains_config) result \<Rightarrow> 'd link \<Rightarrow> 'd \<Rightarrow> 'd outcome" where
  "ChainsDiff e pd loaded lk d =
     with_client e d (\<lambda>c. after_call ''snapshot: '' (getJSON lk c RSnapshot (decode_infos (ce_decimal e)) d)
       (\<lambda>snaps d'. case loaded of
          Inl err \<Rightarrow> (Err (CliConfig err), d')
        | Inr cfg \<Rightarrow>
            let lines = concat (map (diff_chain pd (ce_fmt e) (by_id snaps)) (cfg_chains cfg))
            in (Ok (if lines = [] then [''no changes'' @ nl] else lines), d')))"

subsection \<open>Pending changes\<close>

definition formatAny :: "cli_format \<Rightarrow> field_value option \<Rightarrow> string" where
  "formatAny f v =
     (case v of
        None \<Rightarrow> ''<nil>''
      | Some x \<Rightarrow>
          (case cf_json f x of
             None \<Rightarrow> cf_value f x
           | Some s \<Rightarrow>
               if length s \<ge> 2 \<and> hd s = CHR 0x22 \<and> last s = CHR 0x22 then butlast (tl s) else s))"

definition pending_line :: "cli_format \<Rightarrow> pending_change \<Rightarrow> string" where
  "pending_line f p =
     join tab [pc_chain_id p, field_name (pc_field p), formatAny f (Some (pc_old_value p)), formatAny f (Some (pc_new_value p)), cf_time f (pc_detected_at p)] @ nl"

definition ChainsPending :: "cli_env \<Rightarrow> 'd link \<Rightarrow> 'd \<Rightarrow> 'd outcome" where
  "ChainsPending e lk d =
     with_client e d (\<lambda>c. after_call ''pending: '' (getJSON lk c RPending decode_pending d)
       (\<lambda>pending d'. (Ok (if pending = [] then [''no pending changes'' @ nl]
          else (join tab [''CHAIN_ID'', ''FIELD'', ''OLD_VALUE'', ''NEW_VALUE'', ''DETECTED_AT''] @ nl) # map (pending_line (ce_fmt e)) pending), d')))"

text \<open>The chains of the pending changes in order of appearance.\<close>

fun unique_chains :: "string list \<Rightarrow> pending_change list \<Rightarrow> string list" where
  "unique_chains seen [] = []"
| "unique_chains seen (p # ps) =
     (if pc_chain_id p \<in> set seen then unique_chains seen ps else pc_chain_id p # unique_chains (pc_chain_id p # seen) ps)"

definition accept_body :: "string \<Rightarrow> string \<Rightarrow> admin_request" where
  "accept_body chain f = RAccept (Some \<lparr>acr_chain_id = chain, acr_field = f\<rparr>)"

fun accept_chains :: "'d link \<Rightarrow> admin_client \<Rightarrow> pending_change list \<Rightarrow> string list \<Rightarrow> nat \<Rightarrow> 'd \<Rightarrow> (cli_error, nat) result \<times> 'd" where
  "accept_chains lk c pending [] accepted d = (Ok accepted, d)"
| "accept_chains lk c pending (i # ids) accepted d =
     (case postJSON lk c (accept_body i '''') decode_ok d of
        (Inl err, d') \<Rightarrow> (Err (CliWrap (''accept '' @ i @ '': '') err), d')
      | (Inr _, d') \<Rightarrow> accept_chains lk c pending ids (accepted + length (filter (\<lambda>p. pc_chain_id p = i) pending)) d')"

definition acceptAll :: "'d link \<Rightarrow> admin_client \<Rightarrow> 'd \<Rightarrow> 'd outcome" where
  "acceptAll lk c d =
     after_call ''pending: '' (getJSON lk c RPending decode_pending d)
       (\<lambda>pending d1. if pending = [] then (Ok [''no pending changes'' @ nl], d1)
          else let chainIDs = unique_chains [] pending
               in case accept_chains lk c pending chainIDs 0 d1 of
                    (Inl err, d2) \<Rightarrow> (Err err, d2)
                  | (Inr accepted, d2) \<Rightarrow>
                      (Ok [''accepted '' @ show_nat accepted @ '' change(s) across '' @ show_nat (length chainIDs) @ '' chain(s)'' @ nl], d2))"

definition ChainsAccept :: "cli_env \<Rightarrow> bool \<Rightarrow> string \<Rightarrow> string \<Rightarrow> 'd link \<Rightarrow> 'd \<Rightarrow> 'd outcome" where
  "ChainsAccept e allChains chain f lk d =
     (if allChains \<and> chain \<noteq> '''' then (Err CliAllWithChain, d)
      else if \<not> allChains \<and> chain = '''' then (Err CliChainRequired, d)
      else with_client e d (\<lambda>c.
        if allChains then acceptAll lk c d
        else after_call ''accept: '' (postJSON lk c (accept_body chain f) decode_ok d)
               (\<lambda>_ d'. (Ok [if f \<noteq> '''' then ''accepted '' @ chain @ ''/'' @ f @ nl else ''accepted all pending changes for '' @ chain @ nl], d'))))"

subsection \<open>Pinning\<close>

definition endpointsSnippet :: "string \<Rightarrow> endpoint list \<Rightarrow> string" where
  "endpointsSnippet proto eps =
     ''endpoints:'' @ nl @ ''  '' @ proto @ '':'' @ nl @ concat (map (\<lambda>ep. ''    - '' @ ept_url ep @ nl) eps)"

definition price_of :: "string \<Rightarrow> chain_fee_token \<Rightarrow> string" where
  "price_of priceField ft =
     (if priceField = ''low_gas_price'' then cft_low ft
      else if priceField = ''average_gas_price'' then cft_average ft
      else if priceField = ''high_gas_price'' then cft_high ft else '''')"

definition feeTokenPriceSnippet :: "chain_fee_token list \<Rightarrow> string \<Rightarrow> string" where
  "feeTokenPriceSnippet fts priceField =
     (if fts = [] then ''fee_tokens: []'' @ nl
      else ''fee_tokens:'' @ nl @
           concat (map (\<lambda>ft. ''  - denom: '' @ cft_denom ft @ nl @ ''    '' @ priceField @ '': '' @ go_quote (price_of priceField ft) @ nl) fts))"

definition pinSnippet :: "cli_format \<Rightarrow> snapshot_json \<Rightarrow> string \<Rightarrow> (cli_error, string) result" where
  "pinSnippet f s fld =
     (let n = to_lower fld
      in if n \<in> {''chainname'', ''chain_name''} then Ok (''chain_name: '' @ go_quote (sj_chain_name s) @ nl)
         else if n \<in> {''networktype'', ''network_type''} then Ok (''network_type: '' @ go_quote (sj_network_type s) @ nl)
         else if n \<in> {''keyalgo'', ''key_algo''} then Ok (''key_algo: '' @ go_quote (sj_key_algo s) @ nl)
         else if n \<in> {''bech32prefix'', ''bech32_prefix''} then Ok (''bech32_prefix: '' @ go_quote (sj_bech32_prefix s) @ nl)
         else if n = ''slip44'' then Ok (''slip44: '' @ show_nat (sj_slip44 s) @ nl)
         else if n \<in> {''blocktime'', ''block_time''} then Ok (''block_time: '' @ go_quote (cf_duration f (sj_block_time s)) @ nl)
         else if n = ''endpoints.grpc'' then Ok (endpointsSnippet ''grpc'' (eps_grpc (sj_endpoints s)))
         else if n = ''endpoints.rpc'' then Ok (endpointsSnippet ''rpc'' (eps_rpc (sj_endpoints s)))
         else if n = ''endpoints.rest'' then Ok (endpointsSnippet ''rest'' (eps_rest (sj_endpoints s)))
         else if n \<in> {''feetokens.lowgasprice'', ''fee_tokens.low_gas_price''} then Ok (feeTokenPriceSnippet (sj_fee_tokens s) ''low_gas_price'')
         else if n \<in> {''feetokens.averagegasprice'', ''fee_tokens.average_gas_price''} then Ok (feeTokenPriceSnippet (sj_fee_tokens s) ''average_gas_price'')
         else if n \<in> {''feetokens.highgasprice'', ''fee_tokens.high_gas_price''} then Ok (feeTokenPriceSnippet (sj_fee_tokens s) ''high_gas_price'')
         else Err (CliUnknownField fld))"

definition ChainsPin :: "cli_env \<Rightarrow> string \<Rightarrow> string \<Rightarrow> 'd link \<Rightarrow> 'd \<Rightarrow> 'd outcome" where
  "ChainsPin e chain fld lk d =
     with_client e d (\<lambda>c. after_call ''snapshot: '' (getJSON lk c RSnapshot (decode_infos (ce_decimal e)) d)
       (\<lambda>snaps d'. case find (\<lambda>s. sj_chain_id s = chain) snaps of
          None \<Rightarrow> (Err (CliChainNotFound chain), d')
        | Some s \<Rightarrow>
            (case pinSnippet (ce_fmt e) s fld of
               Inl err \<Rightarrow> (Err err, d')
             | Inr snippet \<Rightarrow> (Ok [''# Add under the entry for chain_id: '' @ chain @ '' in chains.yml:'' @ nl, snippet], d'))))"

subsection \<open>Operations on the daemon\<close>

definition decode_refresh :: "refresh_response decoder" where "decode_refresh b = (case b of ABRefresh r \<Rightarrow> Some r | _ \<Rightarrow> None)"
definition decode_status :: "chain_status decoder" where "decode_status b = (case b of ABStatus s \<Rightarrow> Some s | _ \<Rightarrow> None)"
definition decode_created :: "(string \<times> string) decoder" where "decode_created b = (case b of ABCreated i secret label \<Rightarrow> Some (i, secret) | _ \<Rightarrow> None)"
definition decode_keys :: "api_key list decoder" where "decode_keys b = (case b of ABKeys ks \<Rightarrow> Some ks | _ \<Rightarrow> None)"
definition decode_token :: "string decoder" where "decode_token b = (case b of ABNewToken t \<Rightarrow> Some t | _ \<Rightarrow> None)"

definition ChainsRefresh :: "cli_env \<Rightarrow> 'd link \<Rightarrow> 'd \<Rightarrow> 'd outcome" where
  "ChainsRefresh e lk d =
     with_client e d (\<lambda>c. after_call ''refresh: '' (postJSON lk c RRefresh decode_refresh d)
       (\<lambda>r d'. (Ok [''hot-reloaded: '' @ show_nat (rr_hot_reloaded r) @ ''  warned: '' @ show_nat (rr_warned r) @ ''  frozen: '' @ show_nat (rr_frozen r) @
          ''  removed: '' @ show_nat (rr_removed r) @ nl], d')))"

definition ChainsReload :: "cli_env \<Rightarrow> 'd link \<Rightarrow> 'd \<Rightarrow> 'd outcome" where
  "ChainsReload e lk d = with_client e d (\<lambda>c. after_call ''reload: '' (postJSON lk c RReload decode_ok d) (\<lambda>_ d'. (Ok [''reloaded'' @ nl], d')))"

definition status_lines :: "chain_status \<Rightarrow> string list" where
  "status_lines s =
     (let suspended = (if cst_suspended s then ''true'' @ (if cst_suspend_reason s \<noteq> '''' then ''  ('' @ cst_suspend_reason s @ '')'' else '''') else ''false'')
      in [''suspended:'' @ tab @ suspended @ nl, ''multisend_disabled:'' @ tab @ show_bool (cst_multi_disabled s) @ nl,
          ''send_fail_streak:'' @ tab @ show_int (cst_send_fail_streak s) @ nl, ''multisend_fail_streak:'' @ tab @ show_int (cst_multi_fail_streak s) @ nl])"

definition ChainsStatus :: "cli_env \<Rightarrow> string \<Rightarrow> 'd link \<Rightarrow> 'd \<Rightarrow> 'd outcome" where
  "ChainsStatus e chain lk d =
     with_client e d (\<lambda>c. after_call ''status: '' (getJSON lk c (RStatus chain) decode_status d) (\<lambda>s d'. (Ok (status_lines s), d')))"

definition ChainsResume :: "cli_env \<Rightarrow> string \<Rightarrow> 'd link \<Rightarrow> 'd \<Rightarrow> 'd outcome" where
  "ChainsResume e chain lk d =
     with_client e d (\<lambda>c. after_call ''resume: '' (postJSON lk c (RResume chain) decode_ok d) (\<lambda>_ d'. (Ok [''resumed '' @ chain @ nl], d')))"

subsection \<open>API keys\<close>

text \<open>\<^verbatim>\<open>strings.Cut(entry, "=")\<close>, and the loop over the entries of \<^verbatim>\<open>--per-chain-drip\<close>.\<close>

definition str_cut :: "char \<Rightarrow> string \<Rightarrow> (string \<times> string) option" where
  "str_cut c s = (case index_of c s of None \<Rightarrow> None | Some i \<Rightarrow> Some (take i s, drop (Suc i) s))"

fun per_chain_drips :: "string list \<Rightarrow> (string \<rightharpoonup> string) \<Rightarrow> (cli_error, string \<rightharpoonup> string) result" where
  "per_chain_drips [] m = Ok m"
| "per_chain_drips (entry # es) m =
     (case str_cut CHR ''='' entry of
        None \<Rightarrow> Err (CliPerChainDrip entry)
      | Some (chainID, coin) \<Rightarrow>
          if chainID = '''' \<or> coin = '''' then Err (CliPerChainDrip entry) else per_chain_drips es (m(chainID \<mapsto> coin)))"

record create_key_cmd =
  ck_chain :: "string list"
  ck_label :: string
  ck_per_chain_drip :: "string list"
  ck_rate_limit :: int
  ck_expires :: string

text \<open>\<^verbatim>\<open>parse\<close> is \<^verbatim>\<open>time.Parse(time.RFC3339, -)\<close>.\<close>

definition create_body :: "(string \<Rightarrow> int option) \<Rightarrow> create_key_cmd \<Rightarrow> (cli_error, create_params) result" where
  "create_body parse k =
     rbind (if ck_per_chain_drip k = [] then Ok None else rbind (per_chain_drips (ck_per_chain_drip k) Map.empty) (\<lambda>m. Ok (Some m))) (\<lambda>drips.
     rbind (if ck_expires k = '''' then Ok None else case parse (ck_expires k) of None \<Rightarrow> Err CliExpires | Some t \<Rightarrow> Ok (Some t)) (\<lambda>expires.
       Ok \<lparr>cp_label = ck_label k, cp_chain_scope = ck_chain k, cp_per_chain_drips = drips, cp_rate_limit_per_hour = ck_rate_limit k, cp_expires_at = expires\<rparr>))"

definition APIKeysCreate :: "cli_env \<Rightarrow> (string \<Rightarrow> int option) \<Rightarrow> create_key_cmd \<Rightarrow> 'd link \<Rightarrow> 'd \<Rightarrow> 'd outcome" where
  "APIKeysCreate e parse k lk d =
     with_client e d (\<lambda>c. case create_body parse k of
        Inl err \<Rightarrow> (Err err, d)
      | Inr body \<Rightarrow>
          after_call ''create: '' (postJSON lk c (RCreateKey (Some body)) decode_created d)
            (\<lambda>r d'. (Ok [''id:     '' @ fst r @ nl @ ''secret: '' @ snd r @ nl @ nl @ ''WARNING: this secret will not be shown again. Store it now.'' @ nl], d')))"

text \<open>The chains of a key's overrides in order; \<^verbatim>\<open>keys\<close> lists the keys of the map in some order.\<close>

definition drips_text :: "string list \<Rightarrow> (string \<rightharpoonup> string) \<Rightarrow> string" where
  "drips_text keys m = join '','' (map (\<lambda>c. c @ ''='' @ (case m c of None \<Rightarrow> '''' | Some v \<Rightarrow> v)) (sort keys))"

definition key_line :: "cli_format \<Rightarrow> (api_key \<Rightarrow> string list) \<Rightarrow> api_key \<Rightarrow> string" where
  "key_line f keysOf k =
     (let perChainDrips = drips_text (keysOf k) (key_per_chain_drips k);
          rateLimit = (if key_rate_limit_per_hour k > 0 then show_int (key_rate_limit_per_hour k) @ ''/hr'' else ''unlimited'');
          expires = (case key_expires_at k of None \<Rightarrow> ''never'' | Some t \<Rightarrow> cf_time f t);
          lastUsed = (case key_last_used_at k of None \<Rightarrow> ''never'' | Some t \<Rightarrow> cf_time f t)
      in join tab [key_id k, key_label k, join '','' (key_chain_scope k), perChainDrips, rateLimit, expires, cf_time f (key_created_at k), lastUsed] @ nl)"

definition APIKeysList :: "cli_env \<Rightarrow> (api_key \<Rightarrow> string list) \<Rightarrow> 'd link \<Rightarrow> 'd \<Rightarrow> 'd outcome" where
  "APIKeysList e keysOf lk d =
     with_client e d (\<lambda>c. after_call ''list: '' (getJSON lk c RListKeys decode_keys d)
       (\<lambda>ks d'. (Ok ((join tab [''ID'', ''LABEL'', ''CHAINS'', ''PER_CHAIN_DRIPS'', ''RATE_LIMIT'', ''EXPIRES'', ''CREATED'', ''LAST_USED''] @ nl) #
          map (key_line (ce_fmt e) keysOf) ks), d')))"

definition APIKeysRevoke :: "cli_env \<Rightarrow> string \<Rightarrow> 'd link \<Rightarrow> 'd \<Rightarrow> 'd outcome" where
  "APIKeysRevoke e key lk d =
     with_client e d (\<lambda>c. after_call ''revoke: '' (deleteJSON lk c (RRevokeKey key) d)
       (\<lambda>_ d'. (Ok [''revoked '' @ key @ nl @ nl @ ''WARNING: this key is permanently deleted and cannot be restored.'' @ nl], d')))"

definition APIKeysRotate :: "cli_env \<Rightarrow> 'd link \<Rightarrow> 'd \<Rightarrow> 'd outcome" where
  "APIKeysRotate e lk d =
     with_client e d (\<lambda>c. after_call ''rotate: '' (postJSON lk c RRotate decode_token d)
       (\<lambda>t d'. (Ok [''token: '' @ t @ nl @ nl @
          ''WARNING: the previous admin token is now invalid. This token will not be shown again. Store it now.'' @ nl], d')))"

text \<open>\<^verbatim>\<open>pour chains validate\<close>.\<close>

definition ChainsValidate :: "decimal_lib \<Rightarrow> parse_duration \<Rightarrow> (config_error, chains_config) result \<Rightarrow> (cli_error, string list) result" where
  "ChainsValidate dl pd loaded =
     (case loaded of
        Inl err \<Rightarrow> Err (CliConfig err)
      | Inr cfg \<Rightarrow>
          (case ToOverrideSet pd cfg of
             Inl err \<Rightarrow> Err (CliWrap ''override set: '' (CliConfig err))
           | Inr _ \<Rightarrow>
               (case ToStandaloneInfos dl pd cfg of
                  Inl err \<Rightarrow> Err (CliWrap ''standalone chains: '' (CliConfig err))
                | Inr _ \<Rightarrow> Ok [''OK'' @ nl])))"

text \<open>The link over the network to the daemon of the admin API, from a given address.\<close>

definition daemon_link :: "admin_env \<Rightarrow> string list \<Rightarrow> string \<Rightarrow> admin_state link" where
  "daemon_link e cidrs remote auth req st =
     (case admin_serve e cidrs \<lparr>hr_remote_addr = remote, hr_authorization = auth\<rparr> req st of ((status, body), sent, st') \<Rightarrow> (HttpReply status body, st'))"

text \<open>A state in which every pending change can be accepted: it is keyed by its chain and field, the chain is known and has a name, and the
  listing shows it.\<close>

definition acceptable :: "admin_env \<Rightarrow> registry_store \<Rightarrow> bool" where
  "acceptable e s \<longleftrightarrow> pending_wf s \<and> distinct (ae_pending_order e) \<and>
     (\<forall>c f. st_pending s (c, f) \<noteq> None \<longrightarrow> c \<in> dom (st_chains s) \<and> c \<noteq> '''' \<and> (c, f) \<in> set (ae_pending_order e))"

definition demo_change :: pending_change where
  "demo_change = \<lparr>pc_chain_id = ''hub-1'', pc_field = FieldBech32Prefix, pc_old_value = FVString ''cosmos'', pc_new_value = FVString ''evil'', pc_detected_at = 9,
     pc_source = SourceLive\<rparr>"

definition demo_pending :: admin_state where
  "demo_pending = set_store (ex_store\<lparr>st_pending := [(''hub-1'', FieldBech32Prefix) \<mapsto> demo_change]\<rparr>) demo_admin"

text \<open>When a configuration file and the daemon agree on a chain: it is enabled in both or in neither, and every value the file sets is the
  daemon's. Prices are compared as they print, for the first fee token of that denomination, and only if there is one.\<close>

definition agrees :: "'a option \<Rightarrow> 'a \<Rightarrow> bool" where "agrees v cur \<longleftrightarrow> v \<in> {None, Some cur}"

definition file_agrees :: "decimal_lib \<Rightarrow> parse_duration \<Rightarrow> chain_config \<Rightarrow> chain_info \<Rightarrow> bool" where
  "file_agrees dl pd cc i \<longleftrightarrow>
     (cc_enabled cc = Some True \<longleftrightarrow> ci_enabled i) \<and>
     agrees (cc_chain_name cc) (ci_chain_name i) \<and> agrees (cc_network_type cc) (ci_network_type i) \<and> agrees (cc_key_algo cc) (ci_key_algo i) \<and>
     agrees (cc_bech32_prefix cc) (ci_bech32_prefix i) \<and> agrees (cc_slip44 cc) (ci_slip44 i) \<and>
     agrees (map_option pd (cc_block_time cc)) (Some (ci_block_time i)) \<and>
     agrees (Option.bind (cc_endpoints cc) ec_grpc) (map ept_url (eps_grpc (ci_endpoints i))) \<and>
     agrees (Option.bind (cc_endpoints cc) ec_rpc) (map ept_url (eps_rpc (ci_endpoints i))) \<and>
     agrees (Option.bind (cc_endpoints cc) ec_rest) (map ept_url (eps_rest (ci_endpoints i))) \<and>
     list_all (\<lambda>ft. case find (\<lambda>t. ft_denom t = ftc_denom ft) (ci_fee_tokens i) of
         None \<Rightarrow> True
       | Some t \<Rightarrow> agrees (ftc_low ft) (dl_string dl (ft_low t)) \<and> agrees (ftc_average ft) (dl_string dl (ft_average t)) \<and>
                  agrees (ftc_high ft) (dl_string dl (ft_high t))) (cc_fee_tokens cc)"

definition demo_format :: cli_format where
  "demo_format = \<lparr>cf_time = show_int, cf_duration = show_int, cf_json = (\<lambda>_. None), cf_value = (\<lambda>_. '''')\<rparr>"

definition hub_file :: "string option \<Rightarrow> chains_config" where
  "hub_file prefix = (sample_config ''hard'')\<lparr>cfg_chains := [sample_chain\<lparr>cc_chain_id := ''hub-1'', cc_enabled := Some False, cc_bech32_prefix := prefix\<rparr>]\<rparr>"

subsection \<open>After a rotation\<close>

lemma bearer_carries [simp]: "carries \<lparr>hr_remote_addr = remote, hr_authorization = bearer_header c\<rparr> tok \<longleftrightarrow> tok \<noteq> '''' \<and> acl_token c = tok"
  using trim_prefix_append[of "''Bearer ''" "acl_token c"] by (auto simp: carries_def bearer_header_def simp del: append.simps)

lemma daemon_link_cases:
  assumes "allowed_from cidrs \<lparr>hr_remote_addr = remote, hr_authorization = bearer_header c\<rparr>"
  shows "daemon_link e cidrs remote (bearer_header c) q st =
    (if current_token st = '''' \<or> acl_token c \<noteq> current_token st then (HttpReply 401 (ABError ''invalid or missing token''), st)
     else (case admin_Router e q st of ((status, body), sent, st') \<Rightarrow> (HttpReply status body, st')))"
  using assms by (auto simp: daemon_link_def admin_serve_cases split: prod.splits)

text \<open>A rotation locks out the operator who configured the token by the environment. The daemon takes its token from the file, the
  commands take theirs from the environment variable first. After a rotation every request of a command that runs with the variable
  set to another token than the new one is answered with 401 and changes nothing, although the file holds the new token, with which
  the commands work when the variable is not set.\<close>

theorem rotation_locks_out_env_client:
  assumes "RotateAdmin e st = ((200, ABNewToken tok), sent, st')" "as_tokens st = Some ts"
    and "envToken \<noteq> ''''" "envToken \<noteq> tok"
    and "allowed_from cidrs \<lparr>hr_remote_addr = remote, hr_authorization = ''''\<rparr>"
  shows "\<exists>ts' c c'. as_tokens st' = Some ts' \<and> newAdminClient url envToken (ts_file ts') = Ok c \<and> newAdminClient url '''' (ts_file ts') = Ok c' \<and>
    (\<forall>e2 q. daemon_link e2 cidrs remote (bearer_header c) q st' = (HttpReply 401 (ABError ''invalid or missing token''), st')) \<and>
    (\<forall>e2 q. daemon_link e2 cidrs remote (bearer_header c') q st' =
       (case admin_Router e2 q st' of ((status, body), _, st2) \<Rightarrow> (HttpReply status body, st2)))"
proof -
  obtain ts' where r: "Rotate (ae_token_io e) ts = (Ok tok, ts')" "st' = st\<lparr>as_tokens := Some ts'\<rparr>"
    using RotateAdmin_ok[OF assms(1)] assms(2) by (metis option.inject)
  note t = Rotate_Ok[OF r(1)] and g = generateToken_trim[OF Rotate_Ok(3)[OF r(1)]]
  let ?base = "trim_right_slash (if url = '''' then adminURLDefault else url)"
  define c where "c = \<lparr>acl_base_url = ?base, acl_token = envToken\<rparr>"
  define c' where "c' = \<lparr>acl_base_url = ?base, acl_token = tok\<rparr>"
  have cur: "current_token st' = tok" using r(2) t(1) by (simp add: current_token_def)
  have al: "allowed_from cidrs \<lparr>hr_remote_addr = remote, hr_authorization = bearer_header d\<rparr>" for d using assms(5) by (simp add: allowed_from_def)
  have "newAdminClient url envToken (ts_file ts') = Ok c" using assms(3) by (simp add: newAdminClient_def c_def)
  moreover have "newAdminClient url '''' (ts_file ts') = Ok c'" using t(2) g by (simp add: newAdminClient_def c'_def Let_def)
  moreover have "daemon_link e2 cidrs remote (bearer_header c) q st' = (HttpReply 401 (ABError ''invalid or missing token''), st')" for e2 q
    using assms(4) cur by (simp add: daemon_link_cases[OF al] c_def)
  moreover have "daemon_link e2 cidrs remote (bearer_header c') q st' = (case admin_Router e2 q st' of ((status, body), _, st2) \<Rightarrow> (HttpReply status body, st2))"
    for e2 q using cur g(2) by (simp add: daemon_link_cases[OF al] c'_def)
  ultimately show ?thesis using r(2) by auto
qed

subsection \<open>Accepting everything\<close>

lemma Accept_chains: "Accept c f s = Ok s' \<Longrightarrow> dom (st_chains s') = dom (st_chains s)"
  by (auto simp: Accept_def split: option.splits if_splits)

lemma accept_all_effect:
  assumes "pending_wf s" "c \<in> dom (st_chains s)" "distinct fs" "\<forall>f \<in> set fs. st_pending s (c, f) \<noteq> None"
  shows "st_pending (accept_all c fs s) = (\<lambda>k. if fst k = c \<and> snd k \<in> set fs then None else st_pending s k) \<and>
    dom (st_chains (accept_all c fs s)) = dom (st_chains s)"
  using assms
proof (induction fs arbitrary: s)
  case (Cons f fs)
  obtain pc where pc: "st_pending s (c, f) = Some pc" using Cons.prems(4) by auto
  obtain s' where s': "Accept c f s = Ok s'" "st_pending s' = (st_pending s)((c, f) := None)" "st_chains s' c \<noteq> None"
    using Accept_Ok[OF pc] pending_wfD[OF Cons.prems(1) pc] Cons.prems(2) by auto
  have "st_pending (accept_all c fs s') = (\<lambda>k. if fst k = c \<and> snd k \<in> set fs then None else st_pending s' k) \<and>
      dom (st_chains (accept_all c fs s')) = dom (st_chains s')"
  proof (rule Cons.IH[OF Accept_wf[OF s'(1) Cons.prems(1)]])
    show "\<forall>g \<in> set fs. st_pending s' (c, g) \<noteq> None"
    proof
      fix g assume "g \<in> set fs"
      moreover from this have "g \<noteq> f" using Cons.prems(3) by auto
      ultimately show "st_pending s' (c, g) \<noteq> None" using Cons.prems(4) by (simp add: s'(2))
    qed
  qed (use s'(3) Cons.prems(3) in auto)
  then show ?case using s' Accept_chains[OF s'(1)] by (auto simp: accept_all_def fun_eq_iff)
qed (simp add: accept_all_def)

text \<open>One request to accept by chain, against the daemon.\<close>

lemma admin_Accept_chain:
  assumes "pending_wf (mg_store (as_manager st))" "c \<in> dom (st_chains (mg_store (as_manager st)))" "c \<noteq> ''''"
    and "distinct (ae_pending_order e)" "\<forall>f. st_pending (mg_store (as_manager st)) (c, f) \<noteq> None \<longrightarrow> (c, f) \<in> set (ae_pending_order e)"
    and "st_pending (mg_store (as_manager st)) (c, f0) \<noteq> None"
  shows "\<exists>s'. admin_Accept e (Some \<lparr>acr_chain_id = c, acr_field = ''''\<rparr>) st = ((200, ABOk), [], set_store s' st) \<and> pending_wf s' \<and>
    st_pending s' = (\<lambda>k. if fst k = c then None else st_pending (mg_store (as_manager st)) k) \<and>
    dom (st_chains s') = dom (st_chains (mg_store (as_manager st)))"
proof -
  let ?s = "mg_store (as_manager st)" and ?pcs = "Pending (ae_pending_order e) (mg_store (as_manager st))"
  let ?mine = "filter (\<lambda>pc. pc_chain_id pc = c) ?pcs"
  let ?fs = "map pc_field ?mine"
  have p: "pc_chain_id pc = c \<longrightarrow> st_pending ?s (c, pc_field pc) = Some pc" if "pc \<in> set ?pcs" for pc
    using that pending_wfD(1)[OF assms(1)] by (auto simp: in_Pending)
  have fs: "f \<in> set ?fs \<longleftrightarrow> st_pending ?s (c, f) \<noteq> None" for f
  proof
    assume "f \<in> set ?fs" then show "st_pending ?s (c, f) \<noteq> None" using p by auto
  next
    assume "st_pending ?s (c, f) \<noteq> None"
    then obtain pc where pc: "st_pending ?s (c, f) = Some pc" by blast
    then have "pc \<in> set ?pcs" using assms(5) by (auto simp: in_Pending)
    with pc pending_wfD(1)[OF assms(1) pc] show "f \<in> set ?fs" by force
  qed
  have d: "distinct ?fs" by (rule Pending_fields_distinct[OF assms(1,4)])
  have ne: "?mine \<noteq> []" using fs[of f0] assms(6) by force
  have loop: "accept_loop c ?pcs 0 ?s = (Ok (length ?mine), accept_all c ?fs ?s)"
    using accept_loop_all[OF assms(1) _ _ d, of 0] assms(2) p by auto
  have eff: "st_pending (accept_all c ?fs ?s) = (\<lambda>k. if fst k = c \<and> snd k \<in> set ?fs then None else st_pending ?s k) \<and>
      dom (st_chains (accept_all c ?fs ?s)) = dom (st_chains ?s)"
    by (rule accept_all_effect[OF assms(1,2) d]) (use fs in blast)
  have "admin_Accept e (Some \<lparr>acr_chain_id = c, acr_field = ''''\<rparr>) st = ((200, ABOk), [], set_store (accept_all c ?fs ?s) st)"
    using assms(3) loop ne by (simp add: admin_Accept_def)
  moreover have "st_pending (accept_all c ?fs ?s) = (\<lambda>k. if fst k = c then None else st_pending ?s k)" using eff fs by (auto simp: fun_eq_iff)
  ultimately show ?thesis using eff accept_all_wf[OF assms(1)] by blast
qed

lemma unique_chains_set: "set (unique_chains seen ps) = pc_chain_id ` set ps - set seen"
  by (induction seen ps rule: unique_chains.induct) auto

lemma unique_chains_distinct: "distinct (unique_chains seen ps)"
  by (induction seen ps rule: unique_chains.induct) (auto simp: unique_chains_set)

lemma pending_chains:
  assumes "acceptable e s"
  shows "c \<in> pc_chain_id ` set (Pending (ae_pending_order e) s) \<longleftrightarrow> (\<exists>f. st_pending s (c, f) \<noteq> None)"
proof
  assume "c \<in> pc_chain_id ` set (Pending (ae_pending_order e) s)"
  then obtain k pc where "st_pending s k = Some pc" "c = pc_chain_id pc" by (auto simp: in_Pending)
  with pending_wfD(1)[of s k pc] assms show "\<exists>f. st_pending s (c, f) \<noteq> None" by (auto simp: acceptable_def)
next
  assume "\<exists>f. st_pending s (c, f) \<noteq> None"
  then obtain f pc where pc: "st_pending s (c, f) = Some pc" by blast
  then have "pc_chain_id pc = c" "(c, f) \<in> set (ae_pending_order e)" using pending_wfD(1)[of s "(c, f)" pc] assms by (auto simp: acceptable_def)
  with pc show "c \<in> pc_chain_id ` set (Pending (ae_pending_order e) s)" by (force simp: in_Pending)
qed

lemma accept_chains_clears:
  assumes "acceptable e (mg_store (as_manager st))" "distinct ids" "\<forall>c \<in> set ids. \<exists>f. st_pending (mg_store (as_manager st)) (c, f) \<noteq> None"
    and "\<And>q st. current_token st = current_token st0 \<Longrightarrow> lk (bearer_header cl) q st =
           (case admin_Router e q st of ((status, body), sent, st') \<Rightarrow> (HttpReply status body, st'))"
    and "current_token st = current_token st0"
  shows "\<exists>n s'. accept_chains lk cl pending ids k st = (Ok n, set_store s' st) \<and>
    st_pending s' = (\<lambda>x. if fst x \<in> set ids then None else st_pending (mg_store (as_manager st)) x)"
  using assms(1-3,5)
proof (induction ids arbitrary: k st)
  case Nil
  then show ?case by (intro exI[of _ k] exI[of _ "mg_store (as_manager st)"]) simp
next
  case (Cons c ids)
  let ?s = "mg_store (as_manager st)"
  obtain f0 where f0: "st_pending ?s (c, f0) \<noteq> None" using Cons.prems(3) by auto
  have acc: "pending_wf ?s" "c \<in> dom (st_chains ?s)" "c \<noteq> ''''" "distinct (ae_pending_order e)"
    "\<forall>f. st_pending ?s (c, f) \<noteq> None \<longrightarrow> (c, f) \<in> set (ae_pending_order e)"
    using Cons.prems(1) f0 unfolding acceptable_def by blast+
  obtain s1 where s1: "admin_Accept e (Some \<lparr>acr_chain_id = c, acr_field = ''''\<rparr>) st = ((200, ABOk), [], set_store s1 st)" "pending_wf s1"
      "st_pending s1 = (\<lambda>k. if fst k = c then None else st_pending ?s k)" "dom (st_chains s1) = dom (st_chains ?s)"
    using admin_Accept_chain[OF acc f0] by blast
  have post: "postJSON lk cl (accept_body c '''') decode_ok st = (Ok (), set_store s1 st)"
    using s1(1) assms(4)[OF Cons.prems(4)] by (simp add: postJSON_def accept_body_def read_reply_def decode_ok_def)
  have "acceptable e s1" using Cons.prems(1) s1 by (auto simp: acceptable_def)
  moreover have "\<forall>d \<in> set ids. \<exists>f. st_pending s1 (d, f) \<noteq> None" using Cons.prems(2,3) s1(3) by auto
  moreover have st1: "mg_store (as_manager (set_store s1 st)) = s1" "current_token (set_store s1 st) = current_token st0"
    using Cons.prems(4) by (simp_all add: current_token_def)
  ultimately obtain n s' where "accept_chains lk cl pending ids (k + length (filter (\<lambda>p. pc_chain_id p = c) pending)) (set_store s1 st) =
        (Ok n, set_store s' (set_store s1 st))" "st_pending s' = (\<lambda>x. if fst x \<in> set ids then None else st_pending s1 x)"
    using Cons.IH[of "set_store s1 st", unfolded st1] Cons.prems(2) by (meson distinct.simps(2))
  then show ?case using post s1(3) by (intro exI[of _ n] exI[of _ s']) (auto simp: fun_eq_iff)
qed

text \<open>C39: Accepting everything leaves nothing pending. Run with the current token from an allowed address against a daemon in which every
  pending change can be accepted, the command \<^verbatim>\<open>accept --all\<close> succeeds, afterwards no change of any chain is pending, and nothing but the
  registry store of the daemon has changed.\<close>

theorem accept_all_clears:
  assumes "acceptable e (mg_store (as_manager st))" "newAdminClient (ce_url ce) (ce_token ce) (ce_file ce) = Ok cl"
    and "acl_token cl = current_token st" "current_token st \<noteq> ''''"
    and "allowed_from cidrs \<lparr>hr_remote_addr = remote, hr_authorization = ''''\<rparr>"
  shows "\<exists>out s'. ChainsAccept ce True '''' '''' (daemon_link e cidrs remote) st = (Ok out, set_store s' st) \<and> (\<forall>k. st_pending s' k = None)"
proof -
  let ?lk = "daemon_link e cidrs remote" and ?s = "mg_store (as_manager st)"
  let ?ps = "Pending (ae_pending_order e) ?s"
  have al: "allowed_from cidrs \<lparr>hr_remote_addr = remote, hr_authorization = bearer_header c\<rparr>" for c using assms(5) by (simp add: allowed_from_def)
  have lk: "?lk (bearer_header cl) q st1 = (case admin_Router e q st1 of ((status, body), sent, st') \<Rightarrow> (HttpReply status body, st'))"
    if "current_token st1 = current_token st" for q st1
    using assms(3,4) that by (simp add: daemon_link_cases[OF al])
  have get: "getJSON ?lk cl RPending decode_pending st = (Ok ?ps, st)"
    by (simp add: getJSON_def lk admin_Pending_def read_reply_def decode_pending_def)
  have mem: "c \<in> pc_chain_id ` set ?ps \<longleftrightarrow> (\<exists>f. st_pending ?s (c, f) \<noteq> None)" for c by (rule pending_chains[OF assms(1)])
  show ?thesis
  proof (cases "?ps = []")
    case True
    then have "st_pending ?s k = None" for k using mem[of "fst k"] by (cases k) auto
    moreover have "\<exists>out. ChainsAccept ce True '''' '''' ?lk st = (Ok out, set_store ?s st)"
      using True get assms(2) by (simp add: ChainsAccept_def with_client_def acceptAll_def after_call_def)
    ultimately show ?thesis by blast
  next
    case False
    have "\<forall>c \<in> set (unique_chains [] ?ps). \<exists>f. st_pending ?s (c, f) \<noteq> None" using mem by (simp add: unique_chains_set)
    from accept_chains_clears[where lk = ?lk and cl = cl and ?st0.0 = st and pending = ?ps and k = 0, OF assms(1) unique_chains_distinct this lk refl]
    obtain n s' where run: "accept_chains ?lk cl ?ps (unique_chains [] ?ps) 0 st = (Ok n, set_store s' st)"
      "st_pending s' = (\<lambda>x. if fst x \<in> set (unique_chains [] ?ps) then None else st_pending ?s x)" by auto
    have "st_pending s' k = None" for k using run(2) mem[of "fst k"] by (cases k) (auto simp: unique_chains_set)
    moreover have "\<exists>out. ChainsAccept ce True '''' '''' ?lk st = (Ok out, set_store s' st)"
      using False get run(1) assms(2) by (simp add: ChainsAccept_def with_client_def acceptAll_def after_call_def Let_def)
    ultimately show ?thesis by blast
  qed
qed

theorem accept_all_clears_witness:
  "\<exists>out s'. ChainsAccept \<lparr>ce_url = '''', ce_token = ''pour_admin_old'', ce_file = FileAbsent, ce_fmt = undefined, ce_decimal = ex_dl\<rparr> True '''' ''''
     (daemon_link (demo_admin_env\<lparr>ae_pending_order := [(''hub-1'', FieldBech32Prefix)]\<rparr>) [] ''127.0.0.1:9'') demo_pending = (Ok out, set_store s' demo_pending) \<and>
     (\<forall>k. st_pending s' k = None)"
proof -
  let ?e = "demo_admin_env\<lparr>ae_pending_order := [(''hub-1'', FieldBech32Prefix)]\<rparr>"
  let ?ce = "\<lparr>ce_url = '''', ce_token = ''pour_admin_old'', ce_file = FileAbsent, ce_fmt = undefined, ce_decimal = ex_dl\<rparr>"
  have "acceptable ?e (mg_store (as_manager demo_pending))"
    using ex_store_simps(4)
    by (auto simp: acceptable_def demo_pending_def pending_wf_def keyed_pending_def demo_change_def freeze_fields_def split: if_splits)
  moreover have "newAdminClient (ce_url ?ce) (ce_token ?ce) (ce_file ?ce) = Ok \<lparr>acl_base_url = adminURLDefault, acl_token = ''pour_admin_old''\<rparr>"
    by code_simp
  moreover have "current_token demo_pending = ''pour_admin_old''" by (simp add: current_token_def demo_pending_def demo_admin_def demo_ts_def)
  moreover have "allowed_from [] \<lparr>hr_remote_addr = ''127.0.0.1:9'', hr_authorization = ''''\<rparr>" by code_simp
  ultimately show ?thesis using accept_all_clears[of ?e demo_pending ?ce "\<lparr>acl_base_url = adminURLDefault, acl_token = ''pour_admin_old''\<rparr>" "[]" "''127.0.0.1:9''"] by simp
qed

subsection \<open>What an empty difference means\<close>

lemma stringSliceEqual_eq [simp]: "stringSliceEqual xs ys \<longleftrightarrow> xs = ys"
  by (induction xs ys rule: stringSliceEqual.induct) auto

lemma diff_field_nil: "diff_field sh name v cur = [] \<longleftrightarrow> v = None \<or> v = Some cur"
  by (auto simp: diff_field_def split: option.splits)

lemma diff_endpoints_nil: "diff_endpoints name v eps = [] \<longleftrightarrow> v = None \<or> v = Some (map ept_url eps)"
  by (auto simp: diff_endpoints_def endpointURLs_def Let_def split: option.splits)

lemmas diff_nil = diff_field_nil diff_endpoints_nil

lemma find_map: "find P (map f xs) = map_option f (find (\<lambda>x. P (f x)) xs)"
  by (induction xs) auto

lemma diff_fee_token_nil:
  "diff_fee_token (sj_fee_tokens (snapshot_of_info dl i)) ft = [] \<longleftrightarrow>
   (case find (\<lambda>t. ft_denom t = ftc_denom ft) (ci_fee_tokens i) of
      None \<Rightarrow> True
    | Some t \<Rightarrow> agrees (ftc_low ft) (dl_string dl (ft_low t)) \<and> agrees (ftc_average ft) (dl_string dl (ft_average t)) \<and>
               agrees (ftc_high ft) (dl_string dl (ft_high t)))"
  by (cases "find (\<lambda>t. ft_denom t = ftc_denom ft) (ci_fee_tokens i)")
    (auto simp: diff_fee_token_def snapFeeToken_def snapshot_of_info_def find_map comp_def diff_nil agrees_def Let_def)

lemma diffChainLines_nil:
  assumes "\<And>t. cc_block_time cc = Some t \<Longrightarrow> pd t \<noteq> None"
  shows "diffChainLines pd f cc (snapshot_of_info dl i) = [] \<longleftrightarrow> file_agrees dl pd cc i"
proof -
  let ?s = "snapshot_of_info dl i"
  have "map_option (\<lambda>t. case pd t of None \<Rightarrow> 0 | Some d \<Rightarrow> d) (cc_block_time cc) \<in> {None, Some (ci_block_time i)} \<longleftrightarrow>
      agrees (map_option pd (cc_block_time cc)) (Some (ci_block_time i))"
    using assms by (cases "cc_block_time cc") (auto simp: agrees_def split: option.splits)
  then have id: "diffIdentityLines pd f cc ?s = [] \<longleftrightarrow>
      agrees (cc_chain_name cc) (ci_chain_name i) \<and> agrees (cc_network_type cc) (ci_network_type i) \<and> agrees (cc_key_algo cc) (ci_key_algo i) \<and>
      agrees (cc_bech32_prefix cc) (ci_bech32_prefix i) \<and> agrees (cc_slip44 cc) (ci_slip44 i) \<and>
      agrees (map_option pd (cc_block_time cc)) (Some (ci_block_time i))"
    by (simp add: diffIdentityLines_def diff_nil snapshot_of_info_def agrees_def)
  have ep: "diffEndpointLines cc ?s = [] \<longleftrightarrow>
      agrees (Option.bind (cc_endpoints cc) ec_grpc) (map ept_url (eps_grpc (ci_endpoints i))) \<and>
      agrees (Option.bind (cc_endpoints cc) ec_rpc) (map ept_url (eps_rpc (ci_endpoints i))) \<and>
      agrees (Option.bind (cc_endpoints cc) ec_rest) (map ept_url (eps_rest (ci_endpoints i)))"
    by (cases "cc_endpoints cc") (simp_all add: diffEndpointLines_def diff_nil snapshot_of_info_def agrees_def)
  have ft: "diffFeeTokenLines cc ?s = [] \<longleftrightarrow> list_all (\<lambda>ft. diff_fee_token (sj_fee_tokens ?s) ft = []) (cc_fee_tokens cc)"
    by (auto simp: diffFeeTokenLines_def list_all_iff)
  have en: "sj_enabled ?s = ci_enabled i" by (simp add: snapshot_of_info_def)
  show ?thesis
    unfolding file_agrees_def diffChainLines_def append_is_Nil_conv id ep ft diff_fee_token_nil en by (auto simp: IsEnabled_def)
qed

text \<open>The listing of the daemon, by chain id.\<close>

lemma by_id_store:
  assumes "\<And>j info. st_chains s j = Some info \<Longrightarrow> ci_chain_id info = j" "dom (st_chains s) \<subseteq> set order"
  shows "by_id (map (snapshot_of_info dl) (List_chains order s)) i = map_option (snapshot_of_info dl) (st_chains s i)"
proof -
  have f: "fold (\<lambda>s m. m(sj_chain_id s \<mapsto> s)) (map (snapshot_of_info dl) xs) m i =
      (case find (\<lambda>info. ci_chain_id info = i) (rev xs) of None \<Rightarrow> m i | Some info \<Rightarrow> Some (snapshot_of_info dl info))" for xs m
    by (induction xs rule: rev_induct) (auto simp: snapshot_of_info_def)
  have mem: "info \<in> set (rev (List_chains order s)) \<longleftrightarrow> (\<exists>j. st_chains s j = Some info)" for info
    using assms(2) by (force simp: List_chains_def List.map_filter_def)
  have "find (\<lambda>info. ci_chain_id info = i) (rev (List_chains order s)) = st_chains s i"
  proof (cases "find (\<lambda>info. ci_chain_id info = i) (rev (List_chains order s))")
    case None
    then have "st_chains s i \<noteq> Some info" for info using mem assms(1) by (auto simp: find_None_iff)
    then show ?thesis using None by (cases "st_chains s i") auto
  next
    case (Some info)
    then have "info \<in> set (rev (List_chains order s))" "ci_chain_id info = i" by (auto simp: find_Some_iff simp del: set_rev intro: nth_mem)
    then show ?thesis using Some mem assms(1) by fastforce
  qed
  then show ?thesis by (auto simp: by_id_def f split: option.split)
qed

lemma diff_chain_nil: "diff_chain pd f byID cc = [] \<longleftrightarrow> (\<exists>s. byID (cc_chain_id cc) = Some s \<and> diffChainLines pd f cc s = [])"
  by (auto simp: diff_chain_def split: option.split list.split)

lemma diff_lines_not_plain: "concat (map (diff_chain pd f byID) ccs) \<noteq> [''no changes'' @ nl]"
proof (induction ccs)
  case (Cons cc ccs)
  have "x @ '': not in daemon snapshot (new chain requires restart)'' @ nl \<noteq> ''no changes'' @ nl" for x
    by (rule notI, drule arg_cong[of _ _ length]) (simp add: nl_def)
  then show ?case using Cons by (auto simp: diff_chain_def split: option.split list.split)
qed simp

text \<open>C40: What the command \<^verbatim>\<open>diff\<close> reports. Run with the current token from an allowed address and a file that loads, against a daemon whose store is keyed
  by the chains' own ids and whose listing covers it, the command succeeds and changes nothing, and it prints only \<^verbatim>\<open>no changes\<close> exactly when the daemon
  has every chain of the file and agrees with the file on each: enabled in both or neither, and every identity field, block time, endpoint list (by URL)
  and, for the denominations the daemon knows, gas price (as printed) that the file sets is the daemon's.\<close>

theorem diff_no_changes:
  assumes "LoadChains pd parseCIDR file = Ok cfg" "newAdminClient (ce_url ce) (ce_token ce) (ce_file ce) = Ok cl"
    and "acl_token cl = current_token st" "current_token st \<noteq> ''''"
    and "allowed_from cidrs \<lparr>hr_remote_addr = remote, hr_authorization = ''''\<rparr>"
    and "\<forall>i info. st_chains (mg_store (as_manager st)) i = Some info \<longrightarrow> ci_chain_id info = i"
    and "dom (st_chains (mg_store (as_manager st))) \<subseteq> set (rd_store (ae_round e))"
  shows "\<exists>out. ChainsDiff ce pd (LoadChains pd parseCIDR file) (daemon_link e cidrs remote) st = (Ok out, st) \<and>
    (out = [''no changes'' @ nl] \<longleftrightarrow>
      (\<forall>cc \<in> set (cfg_chains cfg). \<exists>info. st_chains (mg_store (as_manager st)) (cc_chain_id cc) = Some info \<and> file_agrees (ce_decimal ce) pd cc info))"
proof -
  let ?s = "mg_store (as_manager st)" and ?lk = "daemon_link e cidrs remote"
  let ?snaps = "map (snapshot_of_info (ce_decimal ce)) (List_chains (rd_store (ae_round e)) ?s)"
  let ?diff = "diff_chain pd (ce_fmt ce) (by_id ?snaps)"
  have al: "allowed_from cidrs \<lparr>hr_remote_addr = remote, hr_authorization = bearer_header cl\<rparr>" using assms(5) by (simp add: allowed_from_def)
  have get: "getJSON ?lk cl RSnapshot (decode_infos (ce_decimal ce)) st = (Ok ?snaps, st)"
    using assms(3,4) by (simp add: getJSON_def daemon_link_cases[OF al] Snapshot_def read_reply_def decode_infos_def)
  have bt: "pd t \<noteq> None" if "cc \<in> set (cfg_chains cfg)" "cc_block_time cc = Some t" for cc t
    using LoadChains_chain_ok[OF assms(1) that(1)] that(2) by (cases "pd t") (auto simp: chain_ok_def durations_ok_def duration_at_def)
  have nil: "?diff cc = [] \<longleftrightarrow> (\<exists>info. st_chains ?s (cc_chain_id cc) = Some info \<and> file_agrees (ce_decimal ce) pd cc info)"
    if "cc \<in> set (cfg_chains cfg)" for cc
  proof -
    have id: "by_id ?snaps (cc_chain_id cc) = map_option (snapshot_of_info (ce_decimal ce)) (st_chains ?s (cc_chain_id cc))"
      using assms(6) by (intro by_id_store[OF _ assms(7)]) blast
    have "diffChainLines pd (ce_fmt ce) cc (snapshot_of_info (ce_decimal ce) i) = [] \<longleftrightarrow> file_agrees (ce_decimal ce) pd cc i" for i
      using bt[OF that] by (intro diffChainLines_nil) blast
    then show ?thesis unfolding diff_chain_nil id by auto
  qed
  let ?lines = "concat (map ?diff (cfg_chains cfg))"
  have "ChainsDiff ce pd (LoadChains pd parseCIDR file) ?lk st = (Ok (if ?lines = [] then [''no changes'' @ nl] else ?lines), st)"
    using get assms(1,2) by (simp add: ChainsDiff_def with_client_def after_call_def Let_def)
  moreover have "(if ?lines = [] then [''no changes'' @ nl] else ?lines) = [''no changes'' @ nl] \<longleftrightarrow> (\<forall>cc \<in> set (cfg_chains cfg). ?diff cc = [])"
    using diff_lines_not_plain[of pd "ce_fmt ce" "by_id ?snaps" "cfg_chains cfg"] by (simp only: split: if_split) auto
  ultimately show ?thesis using nil by (intro exI conjI) auto
qed

text \<open>What the difference misses. A file that no longer sets a field, with the chain enabled as before, has no difference to any state of the
  chain, although a reload gives the field back the value of the registry: it resolves the chain again from the registry with the
  overrides that are left.\<close>

theorem diff_misses_dropped_override:
  assumes "cc_chain_name cc = None" "cc_network_type cc = None" "cc_key_algo cc = None" "cc_bech32_prefix cc = None" "cc_slip44 cc = None"
    and "cc_block_time cc = None" "cc_endpoints cc = None" "cc_fee_tokens cc = []"
    and "cc_enabled cc = Some (ci_enabled base)" "old = with_override dl (Some [cc_chain_id cc \<mapsto> ov]) (cc_chain_id cc) SourceLive base"
    and "co_enabled ov = cc_enabled cc"
  shows "diffChainLines pd f cc (snapshot_of_info dl old) = [] \<and>
    with_override dl (Some [cc_chain_id cc \<mapsto> override_of cc None]) (cc_chain_id cc) SourceLive base = base\<lparr>ci_sources := setAll SourceLive\<rparr>"
proof -
  have "ci_enabled old = ci_enabled base"
    using applyOverride_configured[of ov base dl "setAll SourceLive"] assms(9-11)
    by (simp add: with_override_def configured_def split: prod.splits)
  then have "diffChainLines pd f cc (snapshot_of_info dl old) = []"
    using assms(1-9)
    by (cases "ci_enabled base") (simp_all add: diffChainLines_def diffIdentityLines_def diffEndpointLines_def diffFeeTokenLines_def snapshot_of_info_def diff_field_def IsEnabled_def)
  moreover have "applyOverride dl (override_of cc None) (base, setAll SourceLive) = (base, setAll SourceLive)"
    using assms(1-9) by (simp add: applyOverride_def override_of_def if_some_def applyEndpoints_def Let_def)
  ultimately show ?thesis by (simp add: with_override_def)
qed

theorem diff_no_changes_witness:
  "\<exists>out out'. ChainsDiff \<lparr>ce_url = '''', ce_token = ''pour_admin_old'', ce_file = FileAbsent, ce_fmt = demo_format, ce_decimal = ex_dl\<rparr> sample_duration
       (LoadChains sample_duration (\<lambda>_. True) (Some (hub_file (Some ''cosmos'')))) (daemon_link demo_admin_env [] ''127.0.0.1:9'') demo_pending
       = (Ok out, demo_pending) \<and> out = [''no changes'' @ nl] \<and>
     ChainsDiff \<lparr>ce_url = '''', ce_token = ''pour_admin_old'', ce_file = FileAbsent, ce_fmt = demo_format, ce_decimal = ex_dl\<rparr> sample_duration
       (LoadChains sample_duration (\<lambda>_. True) (Some (hub_file (Some ''evil'')))) (daemon_link demo_admin_env [] ''127.0.0.1:9'') demo_pending
       = (Ok out', demo_pending) \<and> out' \<noteq> [''no changes'' @ nl]"
proof -
  let ?e = "demo_admin_env" and ?st = "demo_pending"
  let ?ce = "\<lparr>ce_url = '''', ce_token = ''pour_admin_old'', ce_file = FileAbsent, ce_fmt = demo_format, ce_decimal = ex_dl\<rparr>"
  have c: "newAdminClient (ce_url ?ce) (ce_token ?ce) (ce_file ?ce) = Ok \<lparr>acl_base_url = adminURLDefault, acl_token = ''pour_admin_old''\<rparr>" by code_simp
  have t: "acl_token \<lparr>acl_base_url = adminURLDefault, acl_token = ''pour_admin_old''\<rparr> = current_token ?st" "current_token ?st \<noteq> ''''"
    by (simp_all add: current_token_def demo_pending_def demo_admin_def demo_ts_def)
  have al: "allowed_from [] \<lparr>hr_remote_addr = ''127.0.0.1:9'', hr_authorization = ''''\<rparr>" by code_simp
  have hub: "st_chains (mg_store (as_manager ?st)) = [''hub-1'' \<mapsto> (rawToInfo ex_dl (ex_raw ''cosmos''))\<lparr>ci_sources := setAll SourceLive, ci_last_changed := 5\<rparr>]"
    by (simp add: demo_pending_def ex_store_def UpdateLive_def New_store_def ex_snap_def update_chain_def disable_missing_def is_standalone_def
        resolveUnsafe_def with_override_def)
  have k: "\<forall>i info. st_chains (mg_store (as_manager ?st)) i = Some info \<longrightarrow> ci_chain_id info = i"
    "dom (st_chains (mg_store (as_manager ?st))) \<subseteq> set (rd_store (ae_round ?e))"
    by (auto simp: hub rawToInfo_def ex_raw_def demo_admin_env_def demo_round_def split: if_splits)
  have "case LoadChains sample_duration (\<lambda>_. True) (Some (hub_file (Some ''cosmos''))) of
      Inr cfg \<Rightarrow> cfg_chains cfg = cfg_chains (with_defaults (hub_file (Some ''cosmos''))) | _ \<Rightarrow> False" by code_simp
  then obtain cfg where l: "LoadChains sample_duration (\<lambda>_. True) (Some (hub_file (Some ''cosmos''))) = Ok cfg"
      "cfg_chains cfg = cfg_chains (with_defaults (hub_file (Some ''cosmos'')))" by (auto split: sum.splits)
  have "case LoadChains sample_duration (\<lambda>_. True) (Some (hub_file (Some ''evil''))) of
      Inr cfg \<Rightarrow> cfg_chains cfg = cfg_chains (with_defaults (hub_file (Some ''evil''))) | _ \<Rightarrow> False" by code_simp
  then obtain cfg' where l': "LoadChains sample_duration (\<lambda>_. True) (Some (hub_file (Some ''evil''))) = Ok cfg'"
      "cfg_chains cfg' = cfg_chains (with_defaults (hub_file (Some ''evil'')))" by (auto split: sum.splits)
  note chain = hub_file_def with_defaults_def sample_config_def sample_chain_def file_agrees_def agrees_def rawToInfo_def ex_raw_def
  obtain out where "ChainsDiff ?ce sample_duration (LoadChains sample_duration (\<lambda>_. True) (Some (hub_file (Some ''cosmos'')))) (daemon_link ?e [] ''127.0.0.1:9'') ?st
      = (Ok out, ?st)" "out = [''no changes'' @ nl]"
    using diff_no_changes[OF l(1) c t al k] unfolding l(2) hub by (auto simp: chain)
  moreover obtain out' where "ChainsDiff ?ce sample_duration (LoadChains sample_duration (\<lambda>_. True) (Some (hub_file (Some ''evil'')))) (daemon_link ?e [] ''127.0.0.1:9'') ?st
      = (Ok out', ?st)" "out' \<noteq> [''no changes'' @ nl]"
    using diff_no_changes[OF l'(1) c t al k] unfolding l'(2) hub by (auto simp: chain)
  ultimately show ?thesis by blast
qed

end
