(* ===== verification/Keys.thy ===== *)
theory Keys
  imports Client
begin

unbundle bit_operations_syntax

text \<open>
  The key derivation of \<^verbatim>\<open>internal/tx/internal/keys\<close> (\<^verbatim>\<open>DerivePrivKey\<close> and \<^verbatim>\<open>deriveChild\<close> of \<^verbatim>\<open>derive.go\<close>, the key types of
  \<^verbatim>\<open>secp256k1.go\<close>) and the reference it follows, the private derivation of BIP-32 along the BIP-44 path. The packages for BIP-39, HMAC, SHA-256
  and the curve are the record \<^verbatim>\<open>key_prims\<close>; what the code relies on of them is the locale \<^verbatim>\<open>key_laws\<close>. A scalar of the curve is an integer below
  its order.
\<close>

record key_prims =
  kp_valid :: "string \<Rightarrow> bool"
  kp_seed :: "string \<Rightarrow> byte list"
  kp_hmac :: "byte list \<Rightarrow> byte list \<Rightarrow> byte list"
  kp_set :: "byte list \<Rightarrow> int \<times> bool"
  kp_priv :: "byte list \<Rightarrow> int"
  kp_add :: "int \<Rightarrow> int \<Rightarrow> int"
  kp_bytes :: "int \<Rightarrow> byte list"
  kp_compressed :: "int \<Rightarrow> byte list"
  kp_sha256 :: "byte list \<Rightarrow> byte list"
  kp_sign_compact :: "int \<Rightarrow> byte list \<Rightarrow> byte list"

datatype key_error = InvalidMnemonic | CurveOverflow

definition bip32DataLen :: nat where "bip32DataLen = 37"
definition hardenedKeyStart :: "32 word" where "hardenedKeyStart = 0x80000000"

text \<open>\<^verbatim>\<open>copy(d[lo:hi], src)\<close> and \<^verbatim>\<open>binary.BigEndian.PutUint32\<close> on the slice from \<^verbatim>\<open>lo\<close>.\<close>

definition go_copy :: "byte list \<Rightarrow> nat \<Rightarrow> nat \<Rightarrow> byte list \<Rightarrow> byte list" where
  "go_copy d lo hi src = (let m = min (hi - lo) (length src) in take lo d @ take m src @ drop (lo + m) d)"

definition put_uint32 :: "byte list \<Rightarrow> nat \<Rightarrow> 32 word \<Rightarrow> byte list" where
  "put_uint32 d lo w =
     go_copy d lo (lo + 4) [ucast (drop_bit 24 w), ucast (drop_bit 16 w), ucast (drop_bit 8 w), ucast w]"

definition deriveChild ::
    "key_prims \<Rightarrow> byte list \<Rightarrow> byte list \<Rightarrow> 32 word \<Rightarrow> bool \<Rightarrow> (key_error, byte list \<times> byte list) result" where
  "deriveChild kp privBytes chainCode index hardened =
     (let data0 = replicate bip32DataLen 0;
          data = (if hardened then put_uint32 (go_copy data0 1 33 privBytes) 33 (index OR hardenedKeyStart)
                  else put_uint32 (go_copy data0 0 33 (kp_compressed kp (kp_priv kp privBytes))) 33 index);
          I = kp_hmac kp chainCode data;
          IL = take 32 I; IR = drop 32 I;
          (il, overflow) = kp_set kp IL
      in if overflow then Err CurveOverflow
         else let (parent, _) = kp_set kp privBytes
              in Ok (kp_bytes kp (kp_add kp il parent), IR))"

fun derive_steps ::
    "key_prims \<Rightarrow> (32 word \<times> bool) list \<Rightarrow> byte list \<Rightarrow> byte list \<Rightarrow> (key_error, byte list) result" where
  "derive_steps kp [] keyBytes chainCode = Ok keyBytes"
| "derive_steps kp ((index, hardened) # steps) keyBytes chainCode =
     (case deriveChild kp keyBytes chainCode index hardened of
        Inl e \<Rightarrow> Err e
      | Inr (k, c) \<Rightarrow> derive_steps kp steps k c)"

definition hd_steps :: "32 word \<Rightarrow> 32 word \<Rightarrow> (32 word \<times> bool) list" where
  "hd_steps slip44 index = [(44, True), (slip44, True), (0, True), (0, False), (index, False)]"

definition DerivePrivKey :: "key_prims \<Rightarrow> string \<Rightarrow> 32 word \<Rightarrow> 32 word \<Rightarrow> (key_error, int) result" where
  "DerivePrivKey kp mnemonic slip44 index =
     (if \<not> kp_valid kp mnemonic then Err InvalidMnemonic
      else let I = kp_hmac kp (map (\<lambda>c. of_nat (of_char c)) ''Bitcoin seed'') (kp_seed kp mnemonic)
           in case derive_steps kp (hd_steps slip44 index) (take 32 I) (drop 32 I) of
                Inl e \<Rightarrow> Err e
              | Inr keyBytes \<Rightarrow> Ok (kp_priv kp keyBytes))"

definition Sign :: "key_prims \<Rightarrow> int \<Rightarrow> byte list \<Rightarrow> byte list" where
  "Sign kp key msg = drop 1 (kp_sign_compact kp key (kp_sha256 kp msg))"

definition PubKey :: "key_prims \<Rightarrow> int \<Rightarrow> byte list" where
  "PubKey kp key = go_copy (replicate 33 0) 0 33 (kp_compressed kp key)"

fun key_error_text :: "key_error \<Rightarrow> string" where
  "key_error_text InvalidMnemonic = ''keys: invalid mnemonic''"
| "key_error_text CurveOverflow = ''keys: bip32 derive: IL >= curve order''"

text \<open>The derivation as the transaction client calls it, with the coin type of its chain.\<close>

definition derive_key :: "key_prims \<Rightarrow> string \<Rightarrow> chain_info \<Rightarrow> nat \<Rightarrow> (tx_error, priv_key) result" where
  "derive_key kp mnemonic ch index =
     (case DerivePrivKey kp mnemonic (of_nat (ci_slip44 ch)) (of_nat index) of
        Inl e \<Rightarrow> Err (plain_error (key_error_text e))
      | Inr k \<Rightarrow> Ok \<lparr>pk_pub = PubKey kp k, pk_sign = (\<lambda>msg. Ok (Sign kp k msg))\<rparr>)"

subsection \<open>The reference: BIP-32 and BIP-44\<close>

definition secp_order :: int where
  "secp_order = 0xFFFFFFFFFFFFFFFFFFFFFFFFFFFFFFFEBAAEDCE6AF48A03BBFD25E8CD0364141"

definition be_val :: "byte list \<Rightarrow> int" where "be_val bs = foldl (\<lambda>a b. a * 256 + uint b) 0 bs"

primrec be_bytes :: "nat \<Rightarrow> int \<Rightarrow> byte list" where
  "be_bytes 0 v = []"
| "be_bytes (Suc n) v = be_bytes n (v div 256) @ [word_of_int v]"

text \<open>The master key, and the private child of an extended key; \<^verbatim>\<open>None\<close> where the standard declares the key invalid.\<close>

definition bip32_master :: "key_prims \<Rightarrow> byte list \<Rightarrow> (int \<times> byte list) option" where
  "bip32_master kp seed =
     (let I = kp_hmac kp (map (\<lambda>c. of_nat (of_char c)) ''Bitcoin seed'') seed; k = be_val (take 32 I)
      in if k = 0 \<or> secp_order \<le> k then None else Some (k, drop 32 I))"

definition ckd_priv :: "key_prims \<Rightarrow> int \<times> byte list \<Rightarrow> int \<Rightarrow> (int \<times> byte list) option" where
  "ckd_priv kp x i =
     (let I = kp_hmac kp (snd x) ((if 2 ^ 31 \<le> i then 0 # be_bytes 32 (fst x) else kp_compressed kp (fst x)) @ be_bytes 4 i);
          il = be_val (take 32 I); k = (il + fst x) mod secp_order
      in if secp_order \<le> il \<or> k = 0 then None else Some (k, drop 32 I))"

fun ckd_path :: "key_prims \<Rightarrow> int list \<Rightarrow> int \<times> byte list \<Rightarrow> int option" where
  "ckd_path kp [] x = Some (fst x)"
| "ckd_path kp (i # is) x = (case ckd_priv kp x i of None \<Rightarrow> None | Some y \<Rightarrow> ckd_path kp is y)"

definition bip44_key :: "key_prims \<Rightarrow> string \<Rightarrow> int \<Rightarrow> int \<Rightarrow> int option" where
  "bip44_key kp mnemonic coin_type index =
     Option.bind (bip32_master kp (kp_seed kp mnemonic))
       (ckd_path kp [44 + 2 ^ 31, coin_type + 2 ^ 31, 2 ^ 31, 0, index])"

definition ref_prims :: key_prims where
  "ref_prims =
     \<lparr>kp_valid = (\<lambda>m. m \<noteq> []), kp_seed = map (\<lambda>c. of_nat (of_char c)), kp_hmac = (\<lambda>k m. replicate 31 0 @ [1] @ replicate 32 0),
      kp_set = (\<lambda>bs. (be_val (take 32 bs) mod secp_order, secp_order \<le> be_val (take 32 bs))),
      kp_priv = (\<lambda>bs. be_val (take 32 bs) mod secp_order), kp_add = (\<lambda>a b. (a + b) mod secp_order), kp_bytes = be_bytes 32,
      kp_compressed = (\<lambda>k. 2 # be_bytes 32 k), kp_sha256 = (\<lambda>m. replicate 32 0), kp_sign_compact = (\<lambda>k h. 27 # be_bytes 32 k @ h)\<rparr>"

definition key_info :: chain_info where
  "key_info = ex_info\<lparr>ci_endpoints := \<lparr>eps_grpc = [], eps_rpc = [], eps_rest = [\<lparr>ept_url = ''https://a'', ept_provider = ''''\<rparr>]\<rparr>\<rparr>"

subsection \<open>Big-endian numbers\<close>

lemma be_val_simps [simp]: "be_val [] = 0" "be_val (bs @ [b]) = be_val bs * 256 + uint b"
  by (simp_all add: be_val_def)

lemma length_be_bytes [simp]: "length (be_bytes n v) = n"
  by (induction n arbitrary: v) auto

lemma be_val_bounds: "0 \<le> be_val bs \<and> be_val bs < 256 ^ length bs"
proof (induction bs rule: rev_induct)
  case (snoc b bs)
  then show ?case using uint_lt2p[of b] uint_ge_0[of b] by auto
qed simp

lemma be_bytes_val: "be_bytes (length bs) (be_val bs) = bs"
proof (induction bs rule: rev_induct)
  case (snoc b bs)
  have "uint b < 256" using uint_lt2p[of b] by simp
  then have "(be_val bs * 256 + uint b) div 256 = be_val bs" by simp
  moreover have z: "(256 :: byte) = 0" by (simp add: word_uint_eq_iff)
  have "(word_of_int (be_val bs * 256 + uint b) :: byte) = b"
    by (simp only: of_int_add of_int_mult of_int_numeral z mult_zero_right add_0 word_of_int_uint)
  ultimately show ?case using snoc by simp
qed simp

lemma be_val_bytes: "be_val (be_bytes n v) = v mod 256 ^ n"
proof (induction n arbitrary: v)
  case (Suc n)
  have "uint (word_of_int v :: byte) = v mod 256" by (simp add: uint_word_of_int)
  then show ?case using Suc zmod_zmult2_eq[of "256 ^ n" v 256] by simp
qed simp

lemma ucast_drop_bit: "(ucast (drop_bit n w) :: byte) = word_of_int (uint (w :: 32 word) div 2 ^ n)"
proof -
  have "uint w div 2 ^ n = uint (drop_bit n w)" using uint_lt2p[of w]
    by (simp add: unsigned_drop_bit_eq take_bit_int_eq_self flip: drop_bit_eq_div)
  then show ?thesis by (simp only: ucast_eq)
qed

lemma put_bytes: "[ucast (drop_bit 24 w), ucast (drop_bit 16 w), ucast (drop_bit 8 w), ucast w] = be_bytes 4 (uint (w :: 32 word))"
proof -
  have 4: "(4 :: nat) = Suc (Suc (Suc (Suc 0)))" by simp
  show ?thesis
    using ucast_drop_bit[of 24 w] ucast_drop_bit[of 16 w] ucast_drop_bit[of 8 w] ucast_drop_bit[of 0 w]
    unfolding 4 by (simp add: zdiv_zmult2_eq[symmetric])
qed

lemma put_uint32_end:
  assumes "length d = 37"
  shows "put_uint32 d 33 w = take 33 d @ be_bytes 4 (uint w)"
  using assms by (simp add: put_uint32_def put_bytes go_copy_def)

lemma uint_hardened:
  assumes "uint i < 2 ^ 31"
  shows "uint (i OR hardenedKeyStart) = uint i + 2 ^ 31"
proof -
  have "\<not> bit (uint i) 31" using assms by (metis (no_types, lifting) bit_iff_odd div_pos_pos_trivial even_zero uint_ge_0)
  then have "uint i AND 2 ^ 31 = 0" by (simp only: and_exp_eq_0_iff_not_bit not_False_eq_True)
  then have "uint i OR 2 ^ 31 = uint i + 2 ^ 31" using plus_and_or[of "uint i" "2 ^ 31"] by simp
  then show ?thesis by (simp add: hardenedKeyStart_def unsigned_or_eq)
qed


subsection \<open>The derivation follows the standard\<close>

locale key_laws =
  fixes kp :: key_prims
  assumes hmac_length: "length (kp_hmac kp k m) = 64"
    and set_value: "length bs = 32 \<Longrightarrow> kp_set kp bs = (be_val bs mod secp_order, secp_order \<le> be_val bs)"
    and priv_value: "length bs = 32 \<Longrightarrow> kp_priv kp bs = be_val bs mod secp_order"
    and add_value: "\<lbrakk>0 \<le> a; a < secp_order; 0 \<le> b; b < secp_order\<rbrakk> \<Longrightarrow> kp_add kp a b = (a + b) mod secp_order"
    and bytes_value: "\<lbrakk>0 \<le> a; a < secp_order\<rbrakk> \<Longrightarrow> kp_bytes kp a = be_bytes 32 a"
    and compressed_length: "length (kp_compressed kp a) = 33"
begin

lemma deriveChild_spec:
  assumes "length bs = 32" "be_val bs = k" "k < secp_order" "uint i < 2 ^ 31"
    and "ckd_priv kp (k, c) (if hardened then uint i + 2 ^ 31 else uint i) = Some (k', c')"
  shows "deriveChild kp bs c i hardened = Ok (be_bytes 32 k', c') \<and> 0 < k' \<and> k' < secp_order"
proof -
  have k: "0 \<le> k" "bs = be_bytes 32 k" "be_val bs mod secp_order = k"
    using assms(1-3) be_val_bounds[of bs] be_bytes_val[of bs] by auto
  define I where "I = kp_hmac kp c ((if hardened then 0 # bs else kp_compressed kp k) @ be_bytes 4 (if hardened then uint i + 2 ^ 31 else uint i))"
  have data: "(if hardened then put_uint32 (go_copy (replicate bip32DataLen 0) 1 33 bs) 33 (i OR hardenedKeyStart)
       else put_uint32 (go_copy (replicate bip32DataLen 0) 0 33 (kp_compressed kp (kp_priv kp bs))) 33 i) =
     (if hardened then 0 # bs else kp_compressed kp k) @ be_bytes 4 (if hardened then uint i + 2 ^ 31 else uint i)"
    using assms(1) uint_hardened[OF assms(4)] priv_value[OF assms(1)] compressed_length[of k] k(3)
    by (simp add: put_uint32_end go_copy_def bip32DataLen_def)
  have spec: "be_val (take 32 I) < secp_order" "k' = (be_val (take 32 I) + k) mod secp_order" "k' \<noteq> 0" "c' = drop 32 I"
    using assms(4,5) k(2) by (auto simp: ckd_priv_def I_def Let_def split: if_splits)
  have "length (take 32 I) = 32" by (simp add: I_def hmac_length)
  note IL = set_value[OF this] be_val_bounds[of "take 32 I"]
  have k': "0 \<le> k'" "k' < secp_order" using spec(2) by (simp_all add: secp_order_def)
  have "deriveChild kp bs c i hardened = Ok (be_bytes 32 k', c')"
    using IL spec k k' set_value[OF assms(1)] add_value[of "be_val (take 32 I)" k] bytes_value[OF k'] assms(3)
    unfolding deriveChild_def Let_def data I_def[symmetric] by simp
  then show ?thesis using k' spec(3) by simp
qed

lemma derive_steps_spec:
  assumes "length bs = 32" "be_val bs = k" "k < secp_order" "\<forall>(i, _) \<in> set steps. uint i < 2 ^ 31"
    and "ckd_path kp (map (\<lambda>(i, hardened). if hardened then uint i + 2 ^ 31 else uint i) steps) (k, c) = Some k'"
  shows "derive_steps kp steps bs c = Ok (be_bytes 32 k') \<and> k' < secp_order \<and> 0 \<le> k'"
  using assms
proof (induction steps arbitrary: bs k c)
  case Nil
  then show ?case using be_bytes_val[of bs] be_val_bounds[of bs] by auto
next
  case (Cons s steps)
  obtain i hardened where s: "s = (i, hardened)" by fastforce
  obtain k1 c1 where ckd: "ckd_priv kp (k, c) (if hardened then uint i + 2 ^ 31 else uint i) = Some (k1, c1)"
    and rest: "ckd_path kp (map (\<lambda>(i, hardened). if hardened then uint i + 2 ^ 31 else uint i) steps) (k1, c1) = Some k'"
    using Cons.prems(5) by (auto simp: s split: option.splits)
  have step: "deriveChild kp bs c i hardened = Ok (be_bytes 32 k1, c1)" "0 < k1" "k1 < secp_order"
    using deriveChild_spec[OF Cons.prems(1-3) _ ckd] Cons.prems(4) by (auto simp: s)
  have "be_val (be_bytes 32 k1) = k1" using step(2,3) by (simp add: be_val_bytes secp_order_def)
  then show ?case using Cons.IH[of "be_bytes 32 k1" k1 c1] rest step Cons.prems(4) by (auto simp: s)
qed

lemma DerivePrivKey_spec:
  assumes "kp_valid kp mnemonic" "uint slip44 < 2 ^ 31" "uint index < 2 ^ 31"
    and "bip44_key kp mnemonic (uint slip44) (uint index) = Some k"
  shows "DerivePrivKey kp mnemonic slip44 index = Ok k"
proof -
  define I where "I = kp_hmac kp (map (\<lambda>c. of_nat (of_char c)) ''Bitcoin seed'') (kp_seed kp mnemonic)"
  have m: "be_val (take 32 I) < secp_order"
    and path: "ckd_path kp [44 + 2 ^ 31, uint slip44 + 2 ^ 31, 2 ^ 31, 0, uint index] (be_val (take 32 I), drop 32 I) = Some k"
    using assms(4) by (auto simp: bip44_key_def bip32_master_def I_def Let_def bind_eq_Some_conv split: if_splits)
  have "length (take 32 I) = 32" by (simp add: I_def hmac_length)
  from derive_steps_spec[OF this refl m, of "hd_steps slip44 index" "drop 32 I" k]
  have d: "derive_steps kp (hd_steps slip44 index) (take 32 I) (drop 32 I) = Ok (be_bytes 32 k)" "0 \<le> k" "k < secp_order"
    using assms(2,3) path by (auto simp: hd_steps_def)
  then have "kp_priv kp (be_bytes 32 k) = k" by (simp add: priv_value be_val_bytes secp_order_def)
  then show ?thesis using d assms(1) by (simp add: DerivePrivKey_def I_def)
qed

end

interpretation ref_keys: key_laws ref_prims
  by unfold_locales (auto simp: ref_prims_def)

text \<open>The top bit of the coin type is ignored: it is already set for a hardened step.\<close>

lemma derive_steps_high_bit:
  "derive_steps kp (xs @ (i OR hardenedKeyStart, True) # ys) b c = derive_steps kp (xs @ (i, True) # ys) b c"
  by (induction xs arbitrary: b c) (auto simp: deriveChild_def or.assoc split: sum.splits)

lemma coin_type_high_bit:
  "DerivePrivKey kp mnemonic (slip44 OR hardenedKeyStart) index = DerivePrivKey kp mnemonic slip44 index"
  using derive_steps_high_bit[of kp "[(44, True)]" slip44] by (simp add: DerivePrivKey_def hd_steps_def)

lemma derive_keys_get:
  assumes "derive_keys derive is keys = Ok keys'" "i \<in> set is"
  shows "\<exists>k. derive i = Ok k \<and> keys' i = Some k"
proof -
  have other: "j \<notin> set is' \<Longrightarrow> derive_keys derive is' ks = Ok ks' \<Longrightarrow> ks' j = ks j" for j is' ks ks'
    by (induction is' arbitrary: ks) (auto split: sum.splits)
  show ?thesis using assms
  proof (induction "is" arbitrary: keys)
    case (Cons j js)
    then obtain x where x: "derive j = Ok x" "derive_keys derive js (keys(j \<mapsto> x)) = Ok keys'" by (auto split: sum.splits)
    then show ?case using Cons other[OF _ x(2), of i] by (cases "i \<in> set js") auto
  qed simp
qed

lemma tx_New_keys:
  assumes "tx_New derive dial ch is pool = Ok c"
  shows "derive_keys derive is Map.empty = Ok (cl_keys c) \<and> cl_chain c = ch"
  using assms by (auto simp: tx_New_def Let_def split: if_splits sum.splits option.splits)

text \<open>C18: Whatever distributor key a transaction client was opened with, when the BIP-44 key \<^verbatim>\<open>m/44'/coin'/0'/0/index\<close> of the mnemonic exists
  (in the sense of BIP-32, for a coin type and index below \<^verbatim>\<open>2^31\<close>) then the client signs with exactly that key and pays from its address: the bech32
  form of the hash of its compressed public key under the prefix of the chain.\<close>

theorem client_uses_bip44_key:
  assumes "key_laws kp" "kp_valid kp mnemonic" "ci_slip44 ch < 2 ^ 31" "i < 2 ^ 31" "i \<in> set indices"
    and "tx_New (derive_key kp mnemonic ch) dial ch indices pool = Ok c"
    and "bip44_key kp mnemonic (int (ci_slip44 ch)) (int i) = Some k"
  shows "\<exists>pk. cl_keys c i = Some pk \<and> pk_pub pk = kp_compressed kp k \<and>
     (\<forall>msg. pk_sign pk msg = Ok (drop 1 (kp_sign_compact kp k (kp_sha256 kp msg)))) \<and>
     AddressForKey hash160 c i =
       (case keys_AddressFromBytes (hash160 (kp_compressed kp k)) (ci_bech32_prefix ch) of
          Inl e \<Rightarrow> Err (plain_error ''bech32'') | Inr a \<Rightarrow> Ok a)"
proof -
  have u: "uint (of_nat (ci_slip44 ch) :: 32 word) = int (ci_slip44 ch)" "uint (of_nat i :: 32 word) = int i"
    using assms(3,4) by (simp_all add: uint_word_of_int_eq unsigned_of_nat take_bit_nat_eq_self)
  have "DerivePrivKey kp mnemonic (of_nat (ci_slip44 ch)) (of_nat i) = Ok k"
    using key_laws.DerivePrivKey_spec[OF assms(1,2)] assms(3,4,7) u by simp
  moreover have "PubKey kp k = kp_compressed kp k" using key_laws.compressed_length[OF assms(1)] by (simp add: PubKey_def go_copy_def)
  moreover obtain pk where "derive_key kp mnemonic ch i = Ok pk" "cl_keys c i = Some pk"
    using derive_keys_get assms(5) tx_New_keys[OF assms(6)] by blast
  ultimately show ?thesis using tx_New_keys[OF assms(6)]
    by (auto simp: derive_key_def Sign_def AddressForKey_def keys_AddressFromPubKey_def)
qed

theorem client_uses_bip44_key_witness:
  "\<exists>c pk. tx_New (derive_key ref_prims ''seed'' key_info) (\<lambda>_. None) key_info [0, 1] None = Ok c \<and> cl_keys c 1 = Some pk \<and>
     pk_pub pk = 2 # be_bytes 32 6"
proof -
  have "is_ok (tx_New (derive_key ref_prims ''seed'' key_info) (\<lambda>_. None) key_info [0, 1] None)" by code_simp
  then obtain c where c: "tx_New (derive_key ref_prims ''seed'' key_info) (\<lambda>_. None) key_info [0, 1] None = Ok c" by (auto simp: is_ok_iff)
  have b: "bip44_key ref_prims ''seed'' (int (ci_slip44 key_info)) (int 1) = Some 6" by code_simp
  have "kp_valid ref_prims ''seed''" "ci_slip44 key_info < 2 ^ 31" by (simp_all add: ref_prims_def key_info_def ex_info_def)
  from client_uses_bip44_key[OF ref_keys.key_laws_axioms this _ _ c b] show ?thesis using c by (auto simp: ref_prims_def)
qed

end
