(* ===== verification/Startup.thy ===== *)
theory Startup
  imports Devnet Migrate
begin

text \<open>
  \<^verbatim>\<open>ServeCmd.Run\<close> of \<^verbatim>\<open>cmd/pour/main.go\<close>: how the daemon starts. The configuration comes from the file or, in the automatic mode, from the
  genesis file; then the database is opened and migrated, the manager built and started, the automatic mode funded, and the admin
  token loaded, in this order, each step ending the program with its error. What is on disk (mnemonic file, token file, database) is the record
  \<^verbatim>\<open>disk\<close>; the network, the environment variables and the random sources are the record \<^verbatim>\<open>startup_env\<close>. Waiting for funds may go on forever, so the
  result is optional. The lemmas show what holds when the server begins to listen, and that a restart yields the same daemon.
\<close>

record serve_cmd =
  sc_log_level :: string
  sc_db_path :: string
  sc_auto :: bool
  sc_flags :: auto_cmd

text \<open>\<^verbatim>\<open>slog.Level.UnmarshalText\<close>: a name in any case, with an optional offset.\<close>

definition log_level :: "string \<Rightarrow> int option" where
  "log_level s =
     (let name = takeWhile (\<lambda>c. c \<noteq> CHR ''+'' \<and> c \<noteq> CHR ''-'') s; off = drop (length name) s;
          base = (if to_lower name = ''debug'' then Some (- 4) else if to_lower name = ''info'' then Some 0
                  else if to_lower name = ''warn'' then Some 4 else if to_lower name = ''error'' then Some 8 else None)
      in case (if off = '''' then Some 0 else parse_int64 off) of
           None \<Rightarrow> None
         | Some n \<Rightarrow> map_option (\<lambda>b. b + n) base)"

record 's startup_env =
  su_mnemonic_var :: string
  su_token_var :: string
  su_config :: "chains_config option"
  su_cidr :: "string \<Rightarrow> bool"
  su_genesis :: genesis_file
  su_home :: "string option"
  su_mnemonic_io :: mnemonic_io
  su_apply :: "string \<Rightarrow> 's \<Rightarrow> 's option"
  su_fs :: migration_fs
  su_store_io :: store_io
  su_dl :: decimal_lib
  su_duration :: parse_duration
  su_manager :: "string \<Rightarrow> manager_env"   \<comment> \<open>by mnemonic\<close>
  su_round :: round
  su_clients :: "manager \<Rightarrow> string \<rightharpoonup> client"
  su_fund :: fund_env
  su_cancelled :: "nat \<Rightarrow> tx_error option"
  su_balance :: "string \<Rightarrow> string \<Rightarrow> nat \<Rightarrow> (tx_error, coin) result"
  su_query :: "string \<Rightarrow> balance_querier"
  su_order :: "string list"
  su_token_io :: token_io

record 's disk =
  dk_mnemonic :: token_file
  dk_token :: token_file
  dk_db :: "'s database"

datatype startup_error =
    SuLogLevel string | SuNoMnemonic | SuAuto devnet_error | SuConfig config_error | SuStore open_error | SuManager manager_error
  | SuFunding devnet_error | SuToken token_error

text \<open>What the server is built from. \<^verbatim>\<open>rn_watched\<close> is the chain the devnet watcher polls.\<close>

record running =
  rn_config :: chains_config
  rn_mnemonic :: string
  rn_warnings :: "abuse_warning list"
  rn_floor :: "string \<Rightarrow> string option"
  rn_refresh :: int
  rn_manager :: manager
  rn_watched :: "string option"
  rn_broadcasters :: "string list"
  rn_token :: string
  rn_abuse :: abuse_components
  rn_limiter :: limiter

definition run_config :: "'s startup_env \<Rightarrow> serve_cmd \<Rightarrow> 's disk \<Rightarrow> (startup_error, chains_config \<times> string) result \<times> 's disk" where
  "run_config e c w =
     (if sc_auto c then
        (case buildAutoConfig (su_genesis e) (su_home e) (su_mnemonic_io e) (sc_flags c) (dk_mnemonic w) of
           (Inl err, f) \<Rightarrow> (Err (SuAuto err), w\<lparr>dk_mnemonic := f\<rparr>)
         | (Inr cfg, f) \<Rightarrow> (Ok (cfg, mnemonicFn (su_mnemonic_io e) f), w\<lparr>dk_mnemonic := f\<rparr>))
      else if su_mnemonic_var e = '''' then (Err SuNoMnemonic, w)
      else case LoadChains (su_duration e) (su_cidr e) (su_config e) of
             Inl err \<Rightarrow> (Err (SuConfig err), w)
           | Inr cfg \<Rightarrow> (Ok (cfg, su_mnemonic_var e), w))"

definition run_open ::
    "'s startup_env \<Rightarrow> serve_cmd \<Rightarrow> chains_config \<Rightarrow> string \<Rightarrow> 's disk \<Rightarrow>
     (startup_error, (string \<Rightarrow> string option) \<times> int \<times> manager) result \<times> 's disk" where
  "run_open e c cfg mnemonic w =
     (case store_New (su_apply e) (su_fs e) (su_store_io e) (sc_db_path c) (dk_db w) of
        (Inl err, db) \<Rightarrow> (Err (SuStore err), w\<lparr>dk_db := db\<rparr>)
      | (Inr _, db) \<Rightarrow>
          (case lowGasPriceFn (su_dl e) (su_duration e) cfg of
             Inl err \<Rightarrow> (Err (SuConfig err), w\<lparr>dk_db := db\<rparr>)
           | Inr lgpFn \<Rightarrow>
               (case RefreshDuration (su_duration e) (cfg_registry cfg) of
                  Inl err \<Rightarrow> (Err (SuConfig err), w\<lparr>dk_db := db\<rparr>)
                | Inr refreshInterval \<Rightarrow>
                    (case manager_New (su_manager e mnemonic) (su_round e) cfg of
                       Inl err \<Rightarrow> (Err (SuManager err), w\<lparr>dk_db := db\<rparr>)
                     | Inr mgr \<Rightarrow> (Ok (lgpFn, refreshInterval, manager_Start mgr), w\<lparr>dk_db := db\<rparr>)))))"

definition run_fund :: "'s startup_env \<Rightarrow> serve_cmd \<Rightarrow> chains_config \<Rightarrow> manager \<Rightarrow> (devnet_error, unit) result option \<times> attempt list" where
  "run_fund e c cfg mgr =
     (case cfg_chains cfg of
        [] \<Rightarrow> (Some (Ok ()), [])
      | ch # _ \<Rightarrow>
          if sc_auto c then runAutoFunding (su_fund e) (su_cancelled e) (su_balance e) mgr (su_clients e mgr) ch (au_fund_mnemonic (sc_flags c))
          else (Some (Ok ()), []))"

definition wire ::
    "'s startup_env \<Rightarrow> serve_cmd \<Rightarrow> chains_config \<Rightarrow> string \<Rightarrow> (string \<Rightarrow> string option) \<Rightarrow> int \<Rightarrow> manager \<Rightarrow> string \<Rightarrow> running" where
  "wire e c cfg mnemonic lgpFn refreshInterval mgr tok =
     \<lparr>rn_config = cfg, rn_mnemonic = mnemonic, rn_warnings = logAbuseWarnings cfg, rn_floor = lgpFn, rn_refresh = refreshInterval, rn_manager = mgr,
      rn_watched = (case cfg_chains cfg of [] \<Rightarrow> None | ch # _ \<Rightarrow> if sc_auto c then Some (cc_chain_id ch) else None),
      rn_broadcasters = buildBroadcasters (su_order e) mgr, rn_token = tok,
      rn_abuse = buildAbuseComponents (cfg_abuse cfg) (su_query e) (Clients mgr) (ListActive (su_order e) mgr),
      rn_limiter = buildLimiter (su_duration e) (cfg_abuse cfg)\<rparr>"

definition Run :: "'s startup_env \<Rightarrow> serve_cmd \<Rightarrow> 's disk \<Rightarrow> (startup_error, running) result option \<times> attempt list \<times> 's disk" where
  "Run e c w =
     (if log_level (sc_log_level c) = None then (Some (Err (SuLogLevel (sc_log_level c))), [], w)
      else case run_config e c w of
             (Inl err, w1) \<Rightarrow> (Some (Err err), [], w1)
           | (Inr (cfg, mnemonic), w1) \<Rightarrow>
               (case run_open e c cfg mnemonic w1 of
                  (Inl err, w2) \<Rightarrow> (Some (Err err), [], w2)
                | (Inr (lgpFn, refreshInterval, mgr), w2) \<Rightarrow>
                    (case run_fund e c cfg mgr of
                       (None, sent) \<Rightarrow> (None, sent, w2)
                     | (Some (Inl err), sent) \<Rightarrow> (Some (Err (SuFunding err)), sent, w2)
                     | (Some (Inr _), sent) \<Rightarrow>
                         (case NewTokenStore (su_token_io e) (su_token_var e) (dk_token w2) of
                            (Inl err, f) \<Rightarrow> (Some (Err (SuToken err)), sent, w2\<lparr>dk_token := f\<rparr>)
                          | (Inr tok, f) \<Rightarrow> (Some (Ok (wire e c cfg mnemonic lgpFn refreshInterval mgr tok)), sent, w2\<lparr>dk_token := f\<rparr>)))))"

definition start_env :: "string list startup_env" where
  "start_env =
     \<lparr>su_mnemonic_var = '''', su_token_var = '''', su_config = None, su_cidr = (\<lambda>_. True), su_genesis = Genesis demo_genesis, su_home = Some ''/root'',
      su_mnemonic_io = \<lparr>mi_entropy = Some [1], mi_mnemonic = (\<lambda>_. Some ''abandon''), mi_mkdir_fails = False, mi_failed_write = None\<rparr>,
      su_apply = append_script, su_fs = demo_fs, su_store_io = faulty_io '''', su_dl = decimal_lib.truncate ref_decimal, su_duration = demo_durations,
      su_manager = (\<lambda>_. \<lparr>me_dl = decimal_lib.truncate ref_decimal, me_duration = demo_durations, me_tx_new = (\<lambda>_ _. None),
        me_address = (\<lambda>_ _. Ok ''addr''), me_http = ex_http, me_now = 0\<rparr>),
      su_round = \<lparr>rd_store = [''dev-1''], rd_snapshot = [], rd_enabled = [''dev-1''], rd_arrivals = [], rd_pairs = []\<rparr>,
      su_clients = (\<lambda>_. [''dev-1'' \<mapsto> demo_client\<lparr>cl_keys := [0 \<mapsto> \<lparr>pk_pub = [], pk_sign = (\<lambda>_. Ok [])\<rparr>]\<rparr>]), su_fund = demo_fund,
      su_cancelled = (\<lambda>_. None), su_balance = (\<lambda>_ denom n. Ok \<lparr>coin_denom = denom, coin_amount = (if n = 0 then ''0'' else ''5'')\<rparr>),
      su_query = (\<lambda>_ _ _. None), su_order = [''dev-1''], su_token_io = \<lparr>ti_random = Some [1, 2, 3], ti_failed_write = None\<rparr>\<rparr>"

definition start_cmd :: serve_cmd where
  "start_cmd = \<lparr>sc_log_level = ''INFO+2'', sc_db_path = ''pour.db'', sc_auto = True,
     sc_flags = \<lparr>au_home = ''/root'', au_grpc = ''localhost:9090'', au_rest = '''', au_drip = ''7ustake'', au_fund_mnemonic = ''''\<rparr>\<rparr>"

definition empty_disk :: "string list disk" where
  "empty_disk = \<lparr>dk_mnemonic = FileAbsent, dk_token = FileAbsent, dk_db = \<lparr>db_schema = [], db_applied = None\<rparr>\<rparr>"


subsection \<open>Secrets and schema are made once\<close>

lemma migrate_loop_done:
  assumes "no_faults io" "db_applied db \<noteq> None" "set names \<subseteq> set (recorded_names db)"
  shows "migrate_loop apply fs io names db = (Ok (), db)"
  using assms(3)
proof (induction names)
  case (Cons n ns)
  obtain rows where "db_applied db = Some rows" using assms(2) by blast
  then have "isMigrationApplied io db n = Ok True"
    using assms(1) Cons.prems by (auto simp: isMigrationApplied_def no_faults_def recorded_names_def filter_empty_conv)
  then show ?case using Cons by simp
qed simp

lemma store_New_again:
  assumes "migrated apply fs s0 (length (migration_names fs)) db" "db_applied db \<noteq> None" "no_faults io"
  shows "store_New apply fs io path db = (Ok (), db)"
proof -
  have "db\<lparr>db_applied := Some (case db_applied db of None \<Rightarrow> [] | Some rows \<Rightarrow> rows)\<rparr> = db" using assms(2) by auto
  then show ?thesis
    using migrate_loop_done[OF assms(3,2), of "migration_names fs"] assms(1,3)
    by (simp add: store_New_def migrate_def no_faults_def migrated_def)
qed

lemma store_New_complete:
  assumes "migrated apply fs s0 k db" "distinct (migration_names fs)" "store_New apply fs io path db = (Ok u, db')"
  shows "migrated apply fs s0 (length (migration_names fs)) db' \<and> db_applied db' \<noteq> None"
proof -
  let ?db = "db\<lparr>db_applied := Some (case db_applied db of None \<Rightarrow> [] | Some rows \<Rightarrow> rows)\<rparr>"
  have l: "migrate_loop apply fs io (drop 0 (migration_names fs)) ?db = (Ok u, db')"
    using assms(3) by (auto simp: store_New_def migrate_def split: if_splits)
  then show ?thesis using migrate_loop_prefix[OF migrated_create[OF assms(1)] _ _ assms(2) l] by auto
qed

lemma NewTokenStore_again:
  assumes "NewTokenStore io var f = (Ok tok, f')"
  shows "NewTokenStore io' var f' = (Ok tok, f')"
  using assms generateToken_trim(1)[of io tok]
  by (auto simp: NewTokenStore_def write_token_def split: token_file.splits if_splits sum.splits option.splits)

lemma LoadOrGenerate_again:
  assumes "LoadOrGenerate io f = (Ok m, f')"
  shows "\<exists>d. f' = FileData d"
  using assms by (auto simp: LoadOrGenerate_def split: token_file.splits option.splits if_splits)

lemma buildAutoConfig_again:
  assumes "buildAutoConfig g h io c f = (Ok cfg, f')"
  shows "buildAutoConfig g h io' c f' = (Ok cfg, f') \<and> mnemonicFn io' f' = mnemonicFn io f'"
proof -
  obtain info p m where b: "au_home c \<noteq> ''''" "ParseGenesis g = Ok info" "DefaultMnemonicPath h = Ok p" "LoadOrGenerate io f = (Ok m, f')"
      "BuildConfig info (au_grpc c) (au_rest c) (au_drip c) = Ok cfg"
    using assms by (auto simp: buildAutoConfig_def split: if_splits sum.splits prod.splits)
  then obtain d where "f' = FileData d" using LoadOrGenerate_again by blast
  then show ?thesis using b by (simp add: buildAutoConfig_def LoadOrGenerate_def mnemonicFn_def)
qed

lemma Run_Ok:
  assumes "Run e c w = (Some (Ok s), sent, w')"
  obtains cfg mn w1 lgp r m w2 u tok f where "log_level (sc_log_level c) \<noteq> None" "run_config e c w = (Ok (cfg, mn), w1)"
    "run_open e c cfg mn w1 = (Ok (lgp, r, m), w2)" "run_fund e c cfg m = (Some (Ok u), sent)"
    "NewTokenStore (su_token_io e) (su_token_var e) (dk_token w2) = (Ok tok, f)" "w' = w2\<lparr>dk_token := f\<rparr>" "s = wire e c cfg mn lgp r m tok"
proof -
  obtain cfg mn w1 where a: "log_level (sc_log_level c) \<noteq> None" "run_config e c w = (Ok (cfg, mn), w1)"
    using assms by (auto simp: Run_def split: if_splits sum.splits prod.splits)
  obtain lgp r m w2 where b: "run_open e c cfg mn w1 = (Ok (lgp, r, m), w2)"
    using assms a by (auto simp: Run_def split: sum.splits prod.splits)
  obtain u where d: "run_fund e c cfg m = (Some (Ok u), sent)"
    using assms a b by (auto simp: Run_def split: sum.splits prod.splits option.splits)
  obtain tok f where t: "NewTokenStore (su_token_io e) (su_token_var e) (dk_token w2) = (Ok tok, f)"
    using assms a b d by (auto simp: Run_def split: sum.splits prod.splits)
  show thesis by (rule that[OF a b d t]) (use assms a b d t in \<open>auto simp: Run_def\<close>)
qed

lemma run_open_Ok:
  assumes "run_open e c cfg mn w1 = (Ok (lgp, r, m), w2)"
  obtains u db m0 where "store_New (su_apply e) (su_fs e) (su_store_io e) (sc_db_path c) (dk_db w1) = (Ok u, db)" "w2 = w1\<lparr>dk_db := db\<rparr>"
    "lowGasPriceFn (su_dl e) (su_duration e) cfg = Ok lgp" "RefreshDuration (su_duration e) (cfg_registry cfg) = Ok r"
    "manager_New (su_manager e mn) (su_round e) cfg = Ok m0" "m = manager_Start m0"
  using assms by (auto simp: run_open_def split: sum.splits prod.splits)

lemma run_config_Ok:
  assumes "run_config e c w = (Ok (cfg, mn), w1)"
  shows "w1 = w\<lparr>dk_mnemonic := dk_mnemonic w1\<rparr>"
    and "\<And>w'. dk_mnemonic w' = dk_mnemonic w1 \<Longrightarrow> run_config (e\<lparr>su_mnemonic_io := mi, su_token_io := ti, su_store_io := so\<rparr>) c w' = (Ok (cfg, mn), w')"
proof -
  show "w1 = w\<lparr>dk_mnemonic := dk_mnemonic w1\<rparr>" using assms by (auto simp: run_config_def split: if_splits sum.splits prod.splits)
  fix w' :: "'a disk" assume d: "dk_mnemonic w' = dk_mnemonic w1"
  show "run_config (e\<lparr>su_mnemonic_io := mi, su_token_io := ti, su_store_io := so\<rparr>) c w' = (Ok (cfg, mn), w')"
  proof (cases "sc_auto c")
    case True
    then obtain f where b: "buildAutoConfig (su_genesis e) (su_home e) (su_mnemonic_io e) (sc_flags c) (dk_mnemonic w) = (Ok cfg, f)"
        "mn = mnemonicFn (su_mnemonic_io e) f" "dk_mnemonic w1 = f"
      using assms by (auto simp: run_config_def split: sum.splits prod.splits)
    from buildAutoConfig_again[OF b(1), of mi] b(2,3) d True show ?thesis by (simp add: run_config_def)
  next
    case False
    then show ?thesis using assms by (auto simp: run_config_def split: if_splits sum.splits)
  qed
qed

text \<open>C17: A restart yields the same daemon. After a start that reached the point of listening, a second start finds the schema complete and
  the mnemonic and the admin token on disk: whatever its random sources give, it uses the same mnemonic, token, configuration, chains and
  limits, applies no migration and writes nothing, as long as the database works and configuration and network answer as before.\<close>

theorem restart_same_daemon:
  assumes "distinct (migration_names (su_fs e))" "migrated (su_apply e) (su_fs e) s0 k (dk_db w)"
    and "Run e c w = (Some (Ok s), sent, w')" "no_faults so"
  shows "Run (e\<lparr>su_mnemonic_io := mi, su_token_io := ti, su_store_io := so\<rparr>) c w' = (Some (Ok s), sent, w')"
proof -
  let ?e = "e\<lparr>su_mnemonic_io := mi, su_token_io := ti, su_store_io := so\<rparr>"
  obtain cfg mn w1 lgp r m w2 u tok f where 1: "log_level (sc_log_level c) \<noteq> None" "run_config e c w = (Ok (cfg, mn), w1)"
    "run_open e c cfg mn w1 = (Ok (lgp, r, m), w2)" "run_fund e c cfg m = (Some (Ok u), sent)"
    "NewTokenStore (su_token_io e) (su_token_var e) (dk_token w2) = (Ok tok, f)" "w' = w2\<lparr>dk_token := f\<rparr>" "s = wire e c cfg mn lgp r m tok"
    by (rule Run_Ok[OF assms(3)])
  obtain u' db m0 where 2: "store_New (su_apply e) (su_fs e) (su_store_io e) (sc_db_path c) (dk_db w1) = (Ok u', db)" "w2 = w1\<lparr>dk_db := db\<rparr>"
    "lowGasPriceFn (su_dl e) (su_duration e) cfg = Ok lgp" "RefreshDuration (su_duration e) (cfg_registry cfg) = Ok r"
    "manager_New (su_manager e mn) (su_round e) cfg = Ok m0" "m = manager_Start m0"
    by (rule run_open_Ok[OF 1(3)])
  have w': "dk_mnemonic w' = dk_mnemonic w1" "dk_db w' = db" "dk_token w' = f" using 1(6) 2(2) by simp_all
  have "dk_db w1 = dk_db w" using run_config_Ok(1)[OF 1(2)] by (metis disk.select_convs(3) disk.surjective disk.update_convs(1))
  then have "store_New (su_apply e) (su_fs e) so (sc_db_path c) db = (Ok (), db)"
    using store_New_complete[OF assms(2,1)] 2(1) store_New_again[OF _ _ assms(4)] by metis
  then have "run_open ?e c cfg mn w' = (Ok (lgp, r, m), w')" using 2 w' by (simp add: run_open_def)
  moreover have "run_fund ?e c cfg m = (Some (Ok u), sent)" using 1(4) by (cases "cfg_chains cfg") (simp_all add: run_fund_def split: if_splits)
  moreover have "NewTokenStore ti (su_token_var e) (dk_token w') = (Ok tok, f)" using NewTokenStore_again[OF 1(5)] w' by simp
  ultimately show ?thesis using 1(1,7) run_config_Ok(2)[OF 1(2) w'(1)] w'(3) by (simp add: Run_def wire_def)
qed


subsection \<open>What holds when the server begins to listen\<close>

lemma reconcile_loop_fresh:
  assumes "mg_chains m = (\<lambda>_. None)" "reconcile_loop env enabled ids m active = (Ok u, m')"
  shows "mg_chains m' i = (case (if i \<in> set ids then enabled i else None) of None \<Rightarrow> active i
      | Some info \<Rightarrow> Some \<lparr>mc_chain = projr (build_chain env m i info), mc_closed = False, mc_started = mg_started m\<rparr>)"
    and "\<lbrakk>i \<in> set ids; enabled i = Some info\<rbrakk> \<Longrightarrow> is_ok (build_chain env m i info)"
proof -
  have "mg_chains m' i = (case (if i \<in> set ids then enabled i else None) of None \<Rightarrow> active i
      | Some info \<Rightarrow> Some \<lparr>mc_chain = projr (build_chain env m i info), mc_closed = False, mc_started = mg_started m\<rparr>) \<and>
    (\<forall>info. i \<in> set ids \<and> enabled i = Some info \<longrightarrow> is_ok (build_chain env m i info))"
    using assms(2)
  proof (induction ids arbitrary: active)
    case (Cons x ids)
    then show ?case using assms(1) by (auto simp: is_ok_iff split: option.splits sum.splits if_splits)
  qed auto
  then show "mg_chains m' i = (case (if i \<in> set ids then enabled i else None) of None \<Rightarrow> active i
      | Some info \<Rightarrow> Some \<lparr>mc_chain = projr (build_chain env m i info), mc_closed = False, mc_started = mg_started m\<rparr>)"
    "\<lbrakk>i \<in> set ids; enabled i = Some info\<rbrakk> \<Longrightarrow> is_ok (build_chain env m i info)" by blast+
qed

lemma manager_New_chains:
  assumes "manager_New env rd cfg = Ok m" "set (rd_enabled rd) = dom (enabled_infos (rd_store rd) (mg_store m))"
  shows "dom (mg_chains m) = dom (enabled_infos (rd_store rd) (mg_store m)) \<and>
    (\<forall>i c. mg_chains m i = Some c \<longrightarrow> enabled_infos (rd_store rd) (mg_store m) i = Some (ch_info (mc_chain c)) \<and> \<not> mc_closed c \<and>
       \<not> ch_suspended (mc_chain c) \<and> ch_drip (mc_chain c) = (case buildDripMap cfg i of None \<Rightarrow> zero_drip | Some d \<Rightarrow> d))"
proof -
  obtain m1 where m1: "reconcile env rd m1 = (Ok (), m)" "mg_chains m1 = Map.empty" "mg_drips m1 = buildDripMap cfg"
    using assms(1) by (auto simp: manager_New_def Let_def split: sum.splits if_splits prod.splits)
  let ?en = "enabled_infos (rd_store rd) (mg_store m1)" let ?m = "close_disabled ?en m1"
  have st: "mg_store m1 = mg_store m" using reconcile_frame(2)[of env rd m1] m1(1) by simp
  have loop: "reconcile_loop env ?en (rd_enabled rd) ?m Map.empty = (Ok (), m)" using m1(1) by (simp add: reconcile_def Let_def)
  have e: "mg_chains ?m = (\<lambda>_. None)" using m1(2) by (simp add: close_disabled_def)
  have ch: "mg_chains m i = (case ?en i of None \<Rightarrow> None
      | Some info \<Rightarrow> Some \<lparr>mc_chain = projr (build_chain env m1 i info), mc_closed = False, mc_started = mg_started m1\<rparr>)" for i
    using reconcile_loop_fresh(1)[OF e loop, of i] assms(2) by (auto simp: st split: option.splits)
  have b: "\<not> ch_suspended (projr (build_chain env m1 i info)) \<and> ch_info (projr (build_chain env m1 i info)) = info \<and>
      ch_drip (projr (build_chain env m1 i info)) = dripFor m1 i" if en: "?en i = Some info" for i info
  proof -
    have "i \<in> set (rd_enabled rd)" using assms(2) en by (auto simp: st)
    then obtain c where "build_chain env m1 i info = Ok c" using reconcile_loop_fresh(2)[OF e loop _ en] by (auto simp: is_ok_iff)
    then show ?thesis using newChain_unsuspended by (auto simp: build_chain_def)
  qed
  have "dom (mg_chains m) = dom ?en" using ch by (auto simp: dom_def split: option.splits)
  then show ?thesis using ch b m1(3) by (auto simp: st dripFor_def split: option.splits)
qed

lemma manager_New_chain:
  assumes "manager_New env rd cfg = Ok m" "orders_fit rd (mg_store m)"
  shows "(mg_chains m i \<noteq> None \<longleftrightarrow> (\<exists>info. st_chains (mg_store m) i = Some info \<and> ci_enabled info)) \<and>
    (\<forall>c. mg_chains m i = Some c \<longrightarrow> st_chains (mg_store m) i = Some (ch_info (mc_chain c)) \<and> \<not> mc_closed c \<and>
       \<not> ch_suspended (mc_chain c) \<and> ch_drip (mc_chain c) = (case buildDripMap cfg i of None \<Rightarrow> zero_drip | Some d \<Rightarrow> d))"
proof -
  note f = orders_fit_enabled[OF assms(2)]
  note c = manager_New_chains[OF assms(1) f(2)]
  have e: "enabled_infos (rd_store rd) (mg_store m) i = Some info \<longleftrightarrow> st_chains (mg_store m) i = Some info \<and> ci_enabled info" for info
    by (auto simp: f(1) split: option.splits if_splits)
  have "mg_chains m i \<noteq> None \<longleftrightarrow> i \<in> dom (enabled_infos (rd_store rd) (mg_store m))" using c by blast
  then have "mg_chains m i \<noteq> None \<longleftrightarrow> (\<exists>info. st_chains (mg_store m) i = Some info \<and> ci_enabled info)" using e by (simp add: dom_def)
  then show ?thesis using c e by blast
qed

text \<open>Without registry chains the store of a new manager holds the standalone chains, each under its own id.\<close>

lemma resolveStandalone_id: "ci_chain_id (resolveStandalone dl s base) = ci_chain_id base"
proof -
  have "ci_chain_id (fst (applyOverride dl ov (base, src))) = ci_chain_id base" for ov src
    using applyOverride_configured[of ov base dl src] by (simp add: configured_def)
  then show ?thesis by (auto simp: resolveStandalone_def with_override_def split: option.split prod.split) (metis fst_conv)
qed

lemma AddStandalone_keyed:
  assumes "\<And>i info. st_chains s i = Some info \<Longrightarrow> ci_chain_id info = i \<and> i \<in> D"
  shows "st_chains (AddStandalone dl now infos s) i = Some info \<Longrightarrow> ci_chain_id info = i \<and> i \<in> D \<union> ci_chain_id ` set infos"
  using assms
proof (induction infos arbitrary: s D)
  case (Cons x xs)
  let ?r = "(resolveStandalone dl s x)\<lparr>ci_last_changed := now\<rparr>"
  let ?s = "s\<lparr>st_standalone_base := (st_standalone_base s)(ci_chain_id x \<mapsto> x\<lparr>ci_fee_tokens := ci_fee_tokens ?r\<rparr>),
    st_chains := (st_chains s)(ci_chain_id x \<mapsto> ?r), st_fee_shared := insert (ci_chain_id x) (st_fee_shared s)\<rparr>"
  have "ci_chain_id inf = j \<and> j \<in> insert (ci_chain_id x) D" if "st_chains ?s j = Some inf" for j inf
    using that Cons.prems(2) by (auto simp: resolveStandalone_id split: if_splits)
  from Cons.IH[of ?s "insert (ci_chain_id x) D", OF _ this] Cons.prems(1) show ?case by (simp add: Let_def)
qed simp

lemma manager_New_standalone_keyed:
  assumes "manager_New env rd cfg = Ok m" "EnabledRegistryChainIDs cfg = []" "st_chains (mg_store m) i = Some info"
  shows "ci_chain_id info = i \<and> i \<in> cc_chain_id ` set (cfg_chains cfg)"
proof -
  obtain ov infos where o: "ToStandaloneInfos (me_dl env) (me_duration env) cfg = Ok infos"
      "mg_store m = AddStandalone (me_dl env) (me_now env) infos (New_store (Some ov))"
    using assms(1,2) reconcile_frame(2)[of env rd]
    by (auto simp: manager_New_def Let_def split: sum.splits prod.splits) (metis manager.select_convs(1) snd_conv)
  have "ci_chain_id info = i \<and> i \<in> {} \<union> ci_chain_id ` set infos"
    by (rule AddStandalone_keyed[OF _ assms(3)[unfolded o(2)]]) (simp add: New_store_def)
  moreover have "ci_chain_id ` set infos \<subseteq> cc_chain_id ` set (cfg_chains cfg)"
    using arg_cong[OF standalone_loop_ids[OF o(1)[unfolded ToStandaloneInfos_def]], of set] by auto
  ultimately show ?thesis by blast
qed



declare wait_funding.simps [code]

lemma start_runs:
  "case fst (Run start_env start_cmd empty_disk) of
     Some (Inr s) \<Rightarrow> rn_token s = ''pour_admin_AQID'' \<and>
       map cc_chain_id (cfg_chains (rn_config s)) = [''dev-1''] \<and> EnabledRegistryChainIDs (rn_config s) = [] \<and>
       (case st_chains (mg_store (rn_manager s)) ''dev-1'' of None \<Rightarrow> False | Some info \<Rightarrow> ci_enabled info)
   | _ \<Rightarrow> False"
  by code_simp

lemma start_facts:
  obtains s sent w' where "Run start_env start_cmd empty_disk = (Some (Ok s), sent, w')" "rn_token s = ''pour_admin_AQID''"
    "orders_fit (su_round start_env) (mg_store (rn_manager s))" "\<forall>i. (\<exists>info. st_chains (mg_store (rn_manager s)) i = Some info \<and> ci_enabled info) \<longleftrightarrow> i = ''dev-1''"
    "distinct (migration_names (su_fs start_env))" "migrated (su_apply start_env) (su_fs start_env) [] 0 (dk_db empty_disk)"
proof -
  obtain r sent w' where r: "Run start_env start_cmd empty_disk = (r, sent, w')" by (metis prod_cases3)
  with start_runs obtain s info where s: "r = Some (Ok s)" "rn_token s = ''pour_admin_AQID''" "map cc_chain_id (cfg_chains (rn_config s)) = [''dev-1'']"
      "EnabledRegistryChainIDs (rn_config s) = []" and i: "st_chains (mg_store (rn_manager s)) ''dev-1'' = Some info" "ci_enabled info"
    by (auto split: option.splits sum.splits)
  obtain cfg mn w1 lgp rf m w2 u tok f where 1: "run_open start_env start_cmd cfg mn w1 = (Ok (lgp, rf, m), w2)" "s = wire start_env start_cmd cfg mn lgp rf m tok"
    by (rule Run_Ok[OF r[unfolded s(1)]])
  obtain m0 where 2: "manager_New (su_manager start_env mn) (su_round start_env) cfg = Ok m0" "m = manager_Start m0"
    by (rule run_open_Ok[OF 1(1)])
  have st: "mg_store (rn_manager s) = mg_store m0" "rn_config s = cfg" using 1(2) 2(2) by (simp_all add: wire_def manager_Start_def)
  have k: "ci_chain_id info = j \<and> j = ''dev-1''" if "st_chains (mg_store (rn_manager s)) j = Some info" for j info
    using manager_New_standalone_keyed[OF 2(1), of j info] that s(3,4) by (cases "cfg_chains cfg") (auto simp: st)
  have en: "(\<exists>info. st_chains (mg_store (rn_manager s)) j = Some info \<and> ci_enabled info) \<longleftrightarrow> j = ''dev-1''" for j using k i by blast
  have "rd_store (su_round start_env) = [''dev-1'']" "rd_enabled (su_round start_env) = [''dev-1'']" by (simp_all add: start_env_def)
  then have "orders_fit (su_round start_env) (mg_store (rn_manager s))" using k en by (auto simp: orders_fit_def)
  moreover have "distinct (migration_names (su_fs start_env))" by code_simp
  moreover have "migrated (su_apply start_env) (su_fs start_env) [] 0 (dk_db empty_disk)" by (simp add: migrated_def recorded_names_def empty_disk_def)
  ultimately show thesis using that[of s sent w'] en r s(1,2) by blast
qed

theorem restart_same_daemon_witness:
  "\<exists>s sent w'. Run start_env start_cmd empty_disk = (Some (Ok s), sent, w') \<and> rn_token s = ''pour_admin_AQID'' \<and>
     Run (start_env\<lparr>su_mnemonic_io := (su_mnemonic_io start_env)\<lparr>mi_mnemonic := \<lambda>_. Some ''zoo''\<rparr>,
       su_token_io := \<lparr>ti_random = Some [9], ti_failed_write = None\<rparr>, su_store_io := (faulty_io '''')\<lparr>so_record_fails := \<lambda>_. False\<rparr>\<rparr>) start_cmd w' = (Some (Ok s), sent, w')"
proof -
  obtain s sent w' where s: "Run start_env start_cmd empty_disk = (Some (Ok s), sent, w')" "rn_token s = ''pour_admin_AQID''"
    "distinct (migration_names (su_fs start_env))" "migrated (su_apply start_env) (su_fs start_env) [] 0 (dk_db empty_disk)"
    by (rule start_facts)
  have "no_faults ((faulty_io '''')\<lparr>so_record_fails := \<lambda>_. False\<rparr>)" by (simp add: no_faults_def faulty_io_def)
  from restart_same_daemon[OF s(3,4,1) this] s show ?thesis by blast
qed


end
