(* ===== verification/Flush.thy ===== *)
theory Flush
  imports Chain Client
begin

text \<open>
  A batch flush of \<^verbatim>\<open>internal/chain/chain.go\<close> carried out by the transaction client of \<^verbatim>\<open>internal/tx/client.go\<close>: the steps of \<^verbatim>\<open>makeFlushFn\<close> with the
  client's own answers, which in turn come from the nodes (\<^verbatim>\<open>env k\<close> holds what the nodes answer during the \<^verbatim>\<open>k\<close>-th call). Every call is
  logged with its result and its attempts. What was paid is read from the transactions that were sent: the chain decodes the body of a signed
  transaction into messages (\<^verbatim>\<open>read_body\<close>, an argument, which reads back what the protobuf codec wrote), and a message pays its recipients.
  Whether a transaction took effect is known to the chain only, so this (\<^verbatim>\<open>landed\<close>) is an argument too. The lemmas compare the payments,
  recipient by recipient and coin by coin, with what the requests were told.
\<close>

subsection \<open>The flush and the client together\<close>

record send_log =
  sl_call :: client_call
  sl_result :: "(tx_error, broadcast_result) result"
  sl_attempts :: "attempt list"

definition client_does ::
    "(byte list \<Rightarrow> byte list) \<Rightarrow> send_ctx \<Rightarrow> client_call \<Rightarrow> (nat \<Rightarrow> attempt_env) \<Rightarrow> client \<Rightarrow>
     (tx_error, broadcast_result) result \<times> attempt list \<times> client" where
  "client_does hash160 sx call env cl =
     (case call of
        CallMulti q \<Rightarrow> BuildAndBroadcastMulti hash160 sx q env cl
      | CallSend q \<Rightarrow> BuildAndBroadcast hash160 sx q env cl)"

text \<open>The call that the next step makes, if any: it does not depend on the answer.\<close>

definition flush_call :: "chain \<Rightarrow> flush \<Rightarrow> client_call option" where
  "flush_call c f = fst (snd (snd (flush_step (Err (sentinel ErrChainUnreachable)) c f)))"

fun flush_on ::
    "nat \<Rightarrow> (byte list \<Rightarrow> byte list) \<Rightarrow> send_ctx \<Rightarrow> (nat \<Rightarrow> nat \<Rightarrow> attempt_env) \<Rightarrow> nat \<Rightarrow> chain \<Rightarrow> client \<Rightarrow> flush \<Rightarrow>
     chain \<times> client \<times> flush \<times> send_log list \<times> delivery list" where
  "flush_on 0 hash160 sx env k c cl f = (c, cl, f, [], [])"
| "flush_on (Suc n) hash160 sx env k c cl f =
     (case flush_call c f of
        None \<Rightarrow>
          (case flush_step (Err (sentinel ErrChainUnreachable)) c f of (c1, f1, _, ds) \<Rightarrow>
             (case flush_on n hash160 sx env k c1 cl f1 of (c2, cl2, f2, sl, ds') \<Rightarrow> (c2, cl2, f2, sl, ds @ ds')))
      | Some call \<Rightarrow>
          (case client_does hash160 sx call (env k) cl of (r, as, cl1) \<Rightarrow>
             (case flush_step (map_sum id br_tx_hash r) c f of (c1, f1, _, ds) \<Rightarrow>
                (case flush_on n hash160 sx env (Suc k) c1 cl1 f1 of
                   (c2, cl2, f2, sl, ds') \<Rightarrow> (c2, cl2, f2, \<lparr>sl_call = call, sl_result = r, sl_attempts = as\<rparr> # sl, ds @ ds')))))"

text \<open>What a message pays, to whom; the transactions an attempt sent, and the payments of a log: those of the attempts that took effect.\<close>

fun msg_payments :: "pb_msg \<Rightarrow> (string \<times> coins) list" where
  "msg_payments (MsgSend _ dst cs) = [(dst, cs)]"
| "msg_payments (MsgMultiSend _ _ outs) = map (\<lambda>out. (so_to_address out, so_coins out)) outs"
| "msg_payments (MsgTransfer _ _ token _ receiver _ _) = [(receiver, [token])]"

fun txs_in :: "tx_event list \<Rightarrow> pb_tx_raw list" where
  "txs_in [] = []"
| "txs_in (EvSent raw _ # evs) = raw # txs_in evs"
| "txs_in (_ # evs) = txs_in evs"

definition txs_sent :: "attempt \<Rightarrow> pb_tx_raw list" where "txs_sent a = txs_in (at_events a)"

definition attempt_payments :: "(byte list \<Rightarrow> pb_msg list) \<Rightarrow> attempt \<Rightarrow> (string \<times> coins) list" where
  "attempt_payments read_body a = concat (map (\<lambda>raw. concat (map msg_payments (read_body (ptr_body raw)))) (txs_sent a))"

definition chain_payments :: "(byte list \<Rightarrow> pb_msg list) \<Rightarrow> (attempt \<Rightarrow> bool) \<Rightarrow> send_log list \<Rightarrow> (string \<times> coins) list" where
  "chain_payments read_body landed sl = concat (map (attempt_payments read_body) (filter landed (concat (map sl_attempts sl))))"

text \<open>What the requests asked for, and the part of it that was answered with a transaction hash.\<close>

definition asked :: "batch_request list \<Rightarrow> (string \<times> coins) list" where
  "asked reqs = map (\<lambda>r. (bq_to_address r, bq_coins r)) reqs"

definition reported :: "batch_request list \<Rightarrow> delivery list \<Rightarrow> (string \<times> coins) list" where
  "reported reqs ds = asked (map fst (filter (\<lambda>(_, d). is_ok (snd d)) (zip reqs ds)))"

text \<open>The chain reads a transaction body of one message as the message that was marshalled: protobuf decoding undoes encoding.\<close>

fun msg_type_url :: "pb_msg \<Rightarrow> string" where
  "msg_type_url (MsgSend _ _ _) = ''/cosmos.bank.v1beta1.MsgSend''"
| "msg_type_url (MsgMultiSend _ _ _) = ''/cosmos.bank.v1beta1.MsgMultiSend''"
| "msg_type_url (MsgTransfer _ _ _ _ _ _ _) = ''/ibc.applications.transfer.v1.MsgTransfer''"

definition reads_back :: "pb_codec \<Rightarrow> (byte list \<Rightarrow> pb_msg list) \<Rightarrow> bool" where
  "reads_back pc read_body \<longleftrightarrow>
     (\<forall>m b body. pc_msg pc m = Some b \<longrightarrow> pc_body pc [(msg_type_url m, b)] = Some body \<longrightarrow> read_body body = [m])"

definition call_payments :: "client_call \<Rightarrow> (string \<times> coins) list" where
  "call_payments call =
     (case call of
        CallMulti q \<Rightarrow> map (\<lambda>out. (so_to_address out, so_coins out)) (bsr_outputs q)
      | CallSend q \<Rightarrow> [(sr_to_address q, sr_coins q)])"

definition answers_ok :: "(attempt \<Rightarrow> bool) \<Rightarrow> send_log list \<Rightarrow> bool" where
  "answers_ok landed sl \<longleftrightarrow> list_all (\<lambda>s. list_all (\<lambda>a. landed a \<longleftrightarrow> is_ok (at_result a)) (sl_attempts s)) sl"

text \<open>A codec of messages for which the law holds: strings and lists are preceded by their length in unary.\<close>

definition put_len :: "nat \<Rightarrow> byte list" where "put_len n = replicate n 1 @ [0]"

fun get_len :: "byte list \<Rightarrow> nat \<times> byte list" where
  "get_len [] = (0, [])"
| "get_len (b # bs) = (if b = 0 then (0, bs) else case get_len bs of (n, r) \<Rightarrow> (Suc n, r))"

definition put_list :: "('a \<Rightarrow> byte list) \<Rightarrow> 'a list \<Rightarrow> byte list" where
  "put_list put xs = put_len (length xs) @ concat (map put xs)"

fun get_times :: "(byte list \<Rightarrow> 'a \<times> byte list) \<Rightarrow> nat \<Rightarrow> byte list \<Rightarrow> 'a list \<times> byte list" where
  "get_times get 0 bs = ([], bs)"
| "get_times get (Suc n) bs = (case get bs of (x, r) \<Rightarrow> case get_times get n r of (xs, r') \<Rightarrow> (x # xs, r'))"

definition get_list :: "(byte list \<Rightarrow> 'a \<times> byte list) \<Rightarrow> byte list \<Rightarrow> 'a list \<times> byte list" where
  "get_list get bs = (case get_len bs of (n, r) \<Rightarrow> get_times get n r)"

definition get_byte :: "byte list \<Rightarrow> byte \<times> byte list" where "get_byte bs = (case bs of [] \<Rightarrow> (0, []) | b # r \<Rightarrow> (b, r))"

definition get_pair :: "(byte list \<Rightarrow> 'a \<times> byte list) \<Rightarrow> (byte list \<Rightarrow> 'b \<times> byte list) \<Rightarrow> byte list \<Rightarrow> ('a \<times> 'b) \<times> byte list" where
  "get_pair get1 get2 bs = (case get1 bs of (x, r) \<Rightarrow> case get2 r of (y, r') \<Rightarrow> ((x, y), r'))"

definition put_str :: "string \<Rightarrow> byte list" where "put_str s = put_list (\<lambda>c. [of_nat (code_of c)]) s"

definition get_str :: "byte list \<Rightarrow> string \<times> byte list" where
  "get_str bs = (case get_list get_byte bs of (xs, r) \<Rightarrow> (map (\<lambda>b. char_of (unat b)) xs, r))"

definition put_coin :: "coin \<Rightarrow> byte list" where "put_coin c = put_str (coin_denom c) @ put_str (coin_amount c)"

definition get_coin :: "byte list \<Rightarrow> coin \<times> byte list" where
  "get_coin bs = (case get_pair get_str get_str bs of ((d, a), r) \<Rightarrow> (\<lparr>coin_denom = d, coin_amount = a\<rparr>, r))"

definition put_output :: "send_output \<Rightarrow> byte list" where "put_output out = put_str (so_to_address out) @ put_list put_coin (so_coins out)"

definition get_output :: "byte list \<Rightarrow> send_output \<times> byte list" where
  "get_output bs = (case get_pair get_str (get_list get_coin) bs of ((a, cs), r) \<Rightarrow> (\<lparr>so_to_address = a, so_coins = cs\<rparr>, r))"

fun put_msg :: "pb_msg \<Rightarrow> byte list" where
  "put_msg (MsgSend src dst cs) = 0 # put_str src @ put_str dst @ put_list put_coin cs"
| "put_msg (MsgMultiSend src cs outs) = 1 # put_str src @ put_list put_coin cs @ put_list put_output outs"
| "put_msg (MsgTransfer port channel token src receiver timeout memo) =
     2 # put_coin token @ put_list put_str [port, channel, src, receiver, show_int timeout, memo]"

definition get_msg :: "byte list \<Rightarrow> pb_msg" where
  "get_msg bs =
     (case get_byte bs of (t, r) \<Rightarrow>
        if t = 0 then (case fst (get_pair get_str (get_pair get_str (get_list get_coin)) r) of (src, dst, cs) \<Rightarrow> MsgSend src dst cs)
        else if t = 1
        then (case fst (get_pair get_str (get_pair (get_list get_coin) (get_list get_output)) r) of (src, cs, outs) \<Rightarrow> MsgMultiSend src cs outs)
        else (case fst (get_pair get_coin (get_list get_str) r) of (token, ss) \<Rightarrow>
                MsgTransfer (ss ! 0) (ss ! 1) token (ss ! 2) (ss ! 3) (case_option 0 id (set_string (ss ! 4))) (ss ! 5)))"

definition put_any :: "pb_any \<Rightarrow> byte list" where "put_any a = put_str (fst a) @ put_list (\<lambda>b. [b]) (snd a)"

definition read_anys :: "byte list \<Rightarrow> pb_msg list" where
  "read_anys bs = map (\<lambda>a. get_msg (snd a)) (fst (get_list (get_pair get_str (get_list get_byte)) bs))"

definition unary_ctx :: send_ctx where
  "unary_ctx = demo_ctx\<lparr>sx_codec := (sx_codec demo_ctx)\<lparr>pc_msg := (\<lambda>m. Some (put_msg m)), pc_body := (\<lambda>as. Some (put_list put_any as))\<rparr>\<rparr>"

definition limited_rest :: "bool \<Rightarrow> rest_node" where
  "limited_rest limited =
     \<lparr>rn_account = RestReply 200 '''' (Some \<lparr>rba_address = ''a'', rba_number = ''1'', rba_sequence = ''2'', ra_base = None\<rparr>), rn_simulate = RestReply 200 '''' (Some ''7''),
      rn_broadcast = RestReply 200 '''' (Some \<lparr>rbb_error = None, rbb_tx = Some (0, ''AB'', '''')\<rparr>),
      rn_poll = (\<lambda>_. if limited then RestReply 429 ''slow down'' None
        else RestReply 200 '''' (Some \<lparr>rtx_code = 0, rtx_hash = ''AB'', rtx_height = ''7'', rtx_gas_used = ''9'', rtx_raw_log = ''''\<rparr>)), rn_wait = demo_wait\<rparr>"

definition limited_env :: "nat \<Rightarrow> nat \<Rightarrow> attempt_env" where
  "limited_env k _ = (demo_env 0)\<lparr>ae_rest := limited_rest (k = 0)\<rparr>"

definition rest_client :: client where
  "rest_client = demo_client\<lparr>cl_active := ''https://a'', cl_using_rest := True, cl_rest_pool := Some (NewEndpointPool [''https://a'']),
     cl_keys := [1 \<mapsto> \<lparr>pk_pub = [], pk_sign = (\<lambda>_. Ok [])\<rparr>]\<rparr>"

definition pair_flush :: flush where
  "pair_flush = \<lparr>fl_key = 1, fl_reqs = [(sample_req 0)\<lparr>bq_to_address := ''a'', bq_coins := [\<lparr>coin_denom = ''u'', coin_amount = ''7''\<rparr>]\<rparr>,
     (sample_req 1)\<lparr>bq_to_address := ''b'', bq_coins := [\<lparr>coin_denom = ''u'', coin_amount = ''5''\<rparr>]\<rparr>], fl_pc = FlushStart\<rparr>"


definition batch_chain :: chain where
  "batch_chain = \<lparr>ch_info = ex_info, ch_drip = \<lparr>dp_anonymous = ''7uosmo'', dp_signed = '''', dp_max_per_address_per_day = ''10uosmo'', dp_memo = ''''\<rparr>,
     ch_client = True, ch_endpoint_pool = None, ch_pool = Some (demo_pool []), ch_holder_addr = ''addr'', ch_distributor_addrs = [''addr1''],
     ch_refill_threshold = \<lparr>coin_denom = ''uosmo'', coin_amount = ''70''\<rparr>, ch_refill_interval = 0, ch_ibc_timeout = 0, ch_ibc_drips = [], ch_multi_disabled = False,
     ch_suspended = False, ch_suspend_reason = None, ch_send_fail_streak = 0, ch_multi_fail_streak = 0\<rparr>"

definition demo_hash160 :: "byte list \<Rightarrow> byte list" where "demo_hash160 _ = [1, 2]"

subsection \<open>What a send shows\<close>

lemma confirmed_once:
  assumes "client_does hash160 sx call env cl = (r, as, cl')"
  shows "length (filter (\<lambda>a. is_ok (at_result a)) as) = (if is_ok r then 1 else 0)"
proof -
  have "length (filter (\<lambda>a. is_ok (at_result a)) as) = (if is_ok r then 1 else 0)" if "doSend sx j env cl = (r, as, cl')" for j
  proof -
    note f = retry_loop_facts[OF that[unfolded doSend_def]]
    then have "as = butlast as @ [last as]" by simp
    moreover have "filter (\<lambda>a. is_ok (at_result a)) (butlast as) = []" using f by (fastforce simp: filter_empty_conv is_ok_iff)
    moreover have "is_ok (at_result (last as)) \<longleftrightarrow> is_ok r" using f by (auto simp: is_ok_iff)
    ultimately show ?thesis by (metis (no_types, lifting) append_Nil filter.simps filter_append length_Cons list.size(3) One_nat_def)
  qed
  then show ?thesis using assms
    by (auto simp: client_does_def BuildAndBroadcast_def BuildAndBroadcastMulti_def send_with_def split: client_call.splits if_splits option.splits sum.splits)
qed

lemma flush_on_done: "fl_pc f = FlushDone \<Longrightarrow> flush_on n hash160 sx env k c cl f = (c, cl, f, [], [])"
  by (induction n arbitrary: k) (simp_all add: flush_call_def flush_step_done)

lemma flush_on_logged:
  assumes "flush_on n hash160 sx env k c cl f = (c', cl', f', sl, ds)" "s \<in> set sl"
  shows "\<exists>env cl1 cl2. client_does hash160 sx (sl_call s) env cl1 = (sl_result s, sl_attempts s, cl2)"
  using assms
  by (induction n arbitrary: k c cl f sl ds) (fastforce split: option.splits prod.splits)+

subsection \<open>What the transactions sent pay\<close>

lemma no_txs_in_records [simp]: "txs_in (recordFailure sx t e) = []" "txs_in (recordSuccess sx t g n est) = []"
  by (simp_all add: recordFailure_def recordSuccess_def)

lemma sent_in_txs: "EvSent raw x \<in> set evs \<Longrightarrow> txs_in evs \<noteq> []"
  by (induction evs rule: txs_in.induct) auto

text \<open>An attempt sends at most one transaction, and its body is that of the job's messages.\<close>

lemma attemptSend_sent:
  "txs_sent (attemptSend sx c j e) = [] \<or>
   (\<exists>raw. txs_sent (attemptSend sx c j e) = [raw] \<and> pc_body (sx_codec sx) (sj_msgs j) = Some (ptr_body raw))"
proof -
  let ?t = "active_calls c (sj_address j) e"
  obtain est where est: "estimateFee (sx_dec sx) (sx_junk sx) (cl_chain c) (if sx_has_cache sx then ae_cached e else None) (ae_marshalled e)
      (tc_simulate ?t) (sj_outputs j) = est" by blast
  show ?thesis
  proof (cases "\<exists>x acc raw bs. est = Inr x \<and> tc_account ?t = Inr acc \<and>
      buildTxRaw (sx_codec sx) (pk_sign (sj_key j)) (pk_pub (sj_key j)) acc (sj_msgs j) x (ci_chain_id (cl_chain c)) = Inr raw \<and>
      pc_tx_raw (sx_codec sx) raw = Some bs")
    case True
    then obtain x acc raw bs where h: "est = Inr x" "tc_account ?t = Inr acc"
      "buildTxRaw (sx_codec sx) (pk_sign (sj_key j)) (pk_pub (sj_key j)) acc (sj_msgs j) x (ci_chain_id (cl_chain c)) = Inr raw"
      "pc_tx_raw (sx_codec sx) raw = Some bs" by blast
    have "txs_sent (attemptSend sx c j e) = [raw]" unfolding txs_sent_def attemptSend_def attempt_pipeline_def Let_def est using h
      by (cases "tc_broadcast ?t"; cases "tc_confirm ?t") simp_all
    then show ?thesis using buildTxRaw_signs[OF h(3)] by simp
  next
    case False
    then show ?thesis unfolding txs_sent_def attemptSend_def attempt_pipeline_def Let_def est
      by (cases est; cases "tc_account ?t") (auto split: fee_error.splits sum.splits option.splits)
  qed
qed

lemma failover_attempts:
  "failover_loop n sx j env k c = (r, as, c') \<Longrightarrow> a \<in> set as \<Longrightarrow> \<exists>c e. a = attemptSend sx c j e"
  by (induction n arbitrary: k c r as c') (fastforce simp: Let_def split: sum.splits if_splits prod.splits option.splits)+

lemma retry_attempts:
  "retry_loop n sx j env k c = (r, as, c') \<Longrightarrow> a \<in> set as \<Longrightarrow> \<exists>c e. a = attemptSend sx c j e"
proof (induction n arbitrary: k c r as c' rule: less_induct)
  case (less n)
  obtain r1 as1 c1 where f: "failover_loop 2 sx j env k c = (r1, as1, c1)" by (metis prod_cases3)
  from retry_round[OF less.prems(1) f] show ?case
    using less.IH less.prems(2) failover_attempts[OF f] by (metis Un_iff lessI set_append)
qed

text \<open>A call of the client hands over to the chain the payments it was asked for, or nothing.\<close>

lemma client_does_send:
  assumes "client_does hash160 sx call env cl = (r, as, cl')" "as \<noteq> []"
  obtains j m b where "doSend sx j env cl = (r, as, cl')" "sj_msgs j = [(msg_type_url m, b)]" "pc_msg (sx_codec sx) m = Some b"
    "msg_payments m = call_payments call"
proof (cases call)
  case (CallMulti q)
  obtain j src input b where "doSend sx j env cl = (r, as, cl')" "pc_msg (sx_codec sx) (MsgMultiSend src input (bsr_outputs q)) = Some b"
      "sj_msgs j = [(msg_type_url (MsgMultiSend src input (bsr_outputs q)), b)]"
    using assms CallMulti
    by (fastforce simp: client_does_def BuildAndBroadcastMulti_def send_with_def buildMsgMultiSend_def multi_send_msg_def rbind_Ok_iff
        split: if_splits option.splits sum.splits)
  then show thesis using CallMulti by (intro that[of j "MsgMultiSend src input (bsr_outputs q)" b]) (simp_all add: call_payments_def)
next
  case (CallSend q)
  obtain j src b where "doSend sx j env cl = (r, as, cl')" "pc_msg (sx_codec sx) (MsgSend src (sr_to_address q) (sr_coins q)) = Some b"
      "sj_msgs j = [(msg_type_url (MsgSend src (sr_to_address q) (sr_coins q)), b)]"
    using assms CallSend
    by (fastforce simp: client_does_def BuildAndBroadcast_def send_with_def buildMsgSend_def split: option.splits sum.splits)
  then show thesis using CallSend by (intro that[of j "MsgSend src (sr_to_address q) (sr_coins q)" b]) (simp_all add: call_payments_def)
qed

lemma client_does_sent:
  assumes "client_does hash160 sx call env cl = (r, as, cl')" "a \<in> set as" "reads_back (sx_codec sx) read_body"
  shows "attempt_payments read_body a = (if txs_sent a = [] then [] else call_payments call)"
proof -
  have "as \<noteq> []" using assms(2) by auto
  then obtain j m b where j: "doSend sx j env cl = (r, as, cl')" "sj_msgs j = [(msg_type_url m, b)]" "pc_msg (sx_codec sx) m = Some b"
      "msg_payments m = call_payments call" using client_does_send[OF assms(1)] by metis
  then obtain c e where "a = attemptSend sx c j e" using retry_attempts[OF j(1)[unfolded doSend_def] assms(2)] by blast
  with attemptSend_sent[of sx c j e] j(2-4) assms(3) show ?thesis
    by (auto simp: attempt_payments_def reads_back_def)
qed

lemma confirmed_sent:
  assumes "client_does hash160 sx call env cl = (r, as, cl')" "a \<in> set as" "is_ok (at_result a)"
  shows "txs_sent a \<noteq> []"
proof -
  have "as \<noteq> []" using assms(2) by auto
  then obtain j where "doSend sx j env cl = (r, as, cl')" using client_does_send[OF assms(1)] by metis
  from retry_loop_facts[OF this[unfolded doSend_def]] have "attempt_ok a" using assms(2) by blast
  then obtain raw h where "EvSent raw (Inr h) \<in> set (at_events a)" using assms(3) by (auto simp: attempt_ok_def is_ok_iff accepted_iff)
  then show ?thesis by (simp add: txs_sent_def sent_in_txs)
qed

text \<open>A call all of whose effective transactions were confirmed pays what it was asked for exactly when it succeeds.\<close>

lemma confirmed_payments:
  assumes "client_does hash160 sx call env cl = (r, as, cl')" "reads_back (sx_codec sx) read_body"
    and "\<forall>a \<in> set as. landed a \<longleftrightarrow> is_ok (at_result a)"
  shows "concat (map (attempt_payments read_body) (filter landed as)) = (if is_ok r then call_payments call else [])"
proof -
  have f: "filter landed as = filter (\<lambda>a. is_ok (at_result a)) as" using assms(3) by (intro filter_cong) auto
  show ?thesis
  proof (cases "is_ok r")
    case True
    then obtain a where a: "filter landed as = [a]" using confirmed_once[OF assms(1)] unfolding f by (auto simp: length_Suc_conv)
    then have "a \<in> set as" "is_ok (at_result a)" using f by (auto dest!: arg_cong[where f = set])
    then show ?thesis using a True client_does_sent[OF assms(1) _ assms(2)] confirmed_sent[OF assms(1)] by simp
  next
    case False
    then show ?thesis using confirmed_once[OF assms(1)] unfolding f by simp
  qed
qed

lemma chain_payments_simps [simp]:
  "chain_payments read_body landed [] = []"
  "chain_payments read_body landed (s # sl) =
     concat (map (attempt_payments read_body) (filter landed (sl_attempts s))) @ chain_payments read_body landed sl"
  by (simp_all add: chain_payments_def)

lemma reported_simps [simp]:
  "reported [] ds = []"
  "reported (r # rs) (d # ds) = (if is_ok (snd d) then [(bq_to_address r, bq_coins r)] else []) @ reported rs ds"
  by (simp_all add: reported_def asked_def)

lemma reported_all: "length ds = length reqs \<Longrightarrow> \<forall>d \<in> set ds. is_ok (snd d) \<Longrightarrow> reported reqs ds = asked reqs"
  by (induction ds reqs rule: list_induct2) (simp_all add: asked_def)

lemma reported_none: "\<forall>d \<in> set ds. \<not> is_ok (snd d) \<Longrightarrow> reported reqs ds = []"
  by (auto simp: reported_def asked_def filter_empty_conv dest: set_zip_rightD)

lemma multi_call_payments [simp]: "call_payments (multi_call f) = asked (fl_reqs f)"
  by (simp add: call_payments_def multi_call_def flush_outputs_def asked_def)

subsection \<open>What was paid and what was reported\<close>

lemma flush_on_split:
  assumes "fl_pc f = FlushSplit att healthy i" "i \<le> length (fl_reqs f)" "n > length (fl_reqs f) - i"
    and "flush_on n hash160 sx env k c cl f = (c', cl', f', sl, ds)" "reads_back (sx_codec sx) read_body"
    and "\<forall>s \<in> set sl. \<forall>a \<in> set (sl_attempts s). landed a \<longleftrightarrow> is_ok (at_result a)"
  shows "fl_pc f' = FlushDone \<and> map fst ds = map bq_id (drop i (fl_reqs f)) \<and>
    chain_payments read_body landed sl = reported (drop i (fl_reqs f)) ds"
  using assms(1-4,6)
proof (induction n arbitrary: k c cl f i sl ds)
  case (Suc n)
  let ?rs = "fl_reqs f"
  show ?case
  proof (cases "i < length ?rs")
    case False
    then show ?thesis using Suc.prems by (auto simp: flush_call_def flush_step_def flush_on_done)
  next
    case True
    obtain q where call: "flush_call c f = Some (CallSend q)" "call_payments (CallSend q) = [(bq_to_address (?rs ! i), bq_coins (?rs ! i))]"
      using True Suc.prems(1) by (simp add: flush_call_def flush_step_def call_payments_def Let_def)
    obtain r as cl1 where r: "client_does hash160 sx (CallSend q) (env k) cl = (r, as, cl1)" by (metis prod_cases3)
    let ?s = "\<lparr>sl_call = CallSend q, sl_result = r, sl_attempts = as\<rparr>"
    have drop: "drop i ?rs = ?rs ! i # drop (Suc i) ?rs" using True by (simp add: Cons_nth_drop_Suc)
    note paid = confirmed_payments[OF r assms(5), of landed, unfolded call(2)]
    show ?thesis
    proof (cases r)
      case (Inl e)
      have "sl = [?s]" "f' = f\<lparr>fl_pc := FlushDone\<rparr>" "ds = sendErrAll (drop i ?rs) (FlushTx e)"
        using Suc.prems(1,4) True call(1) r Inl by (auto simp: flush_step_def Let_def flush_on_done)
      then show ?thesis using paid Suc.prems(5) Inl reported_none[of ds] by (auto simp: sendErrAll_def comp_def)
    next
      case (Inr b)
      let ?f = "f\<lparr>fl_pc := FlushSplit att healthy (Suc i)\<rparr>"
      obtain sl2 ds2 where rest: "flush_on n hash160 sx env (Suc k) c cl1 ?f = (c', cl', f', sl2, ds2)" "sl = ?s # sl2"
          "ds = (bq_id (?rs ! i), Ok (br_tx_hash b)) # ds2"
        using Suc.prems(1,4) True call(1) r Inr by (auto simp: flush_step_def Let_def split: prod.splits)
      from Suc.IH[OF _ _ _ rest(1), of "Suc i"] True Suc.prems(3,5) rest(2)
      show ?thesis using paid Suc.prems(5) Inr rest(2,3) drop by auto
    qed
  qed
qed simp

lemma flush_on_multi:
  assumes "fl_pc f = FlushMulti second" "n > length (fl_reqs f) + (if second then 1 else 2)"
    and "flush_on n hash160 sx env k c cl f = (c', cl', f', sl, ds)" "reads_back (sx_codec sx) read_body"
    and "\<forall>s \<in> set sl. \<forall>a \<in> set (sl_attempts s). landed a \<longleftrightarrow> is_ok (at_result a)"
  shows "fl_pc f' = FlushDone \<and> map fst ds = map bq_id (fl_reqs f) \<and> chain_payments read_body landed sl = reported (fl_reqs f) ds"
  using assms(1-3,5)
proof (induction n arbitrary: second k c cl f sl ds)
  case (Suc n)
  have call: "flush_call c f = Some (multi_call f)" using Suc.prems(1) by (simp add: flush_call_def flush_step_def multi_call_def Let_def)
  obtain r as cl1 where r: "client_does hash160 sx (multi_call f) (env k) cl = (r, as, cl1)" by (metis prod_cases3)
  let ?s = "\<lparr>sl_call = multi_call f, sl_result = r, sl_attempts = as\<rparr>"
  note paid = confirmed_payments[OF r assms(4), of landed]
  show ?case
  proof (cases r)
    case (Inr b)
    then have "sl = [?s]" "fl_pc f' = FlushDone" "ds = map (\<lambda>r. (bq_id r, Ok (br_tx_hash b))) (fl_reqs f)"
      using Suc.prems(1,3) call r by (auto simp: flush_step_def Let_def flush_on_done)
    then show ?thesis using paid Suc.prems(4) Inr by (simp add: comp_def reported_all)
  next
    case (Inl e)
    obtain pc sl2 where rest: "flush_on n hash160 sx env (Suc k) c cl1 (f\<lparr>fl_pc := pc\<rparr>) = (c', cl', f', sl2, ds)" "sl = ?s # sl2"
        "pc = FlushMulti True \<and> \<not> second \<or> pc = enter_split c True"
      using Suc.prems(1,3) call r Inl by (auto simp: flush_step_def Let_def split: prod.splits if_splits)
    have "chain_payments read_body landed sl = chain_payments read_body landed sl2" using paid Suc.prems(4) Inl rest(2) by simp
    moreover have "fl_pc f' = FlushDone \<and> map fst ds = map bq_id (fl_reqs f) \<and> chain_payments read_body landed sl2 = reported (fl_reqs f) ds"
    proof (cases "pc = FlushMulti True")
      case True
      then show ?thesis using Suc.IH[OF _ _ rest(1), of True] rest(2,3) Suc.prems(2,4) by (auto simp: enter_split_def)
    next
      case False
      then show ?thesis
        using flush_on_split[OF _ _ _ rest(1) assms(4), of True _ 0 landed] rest(2,3) Suc.prems(2,4) by (auto simp: enter_split_def split: if_splits)
    qed
    ultimately show ?thesis by simp
  qed
qed simp

text \<open>C3: A flush pays exactly what it reports. Assume that every transaction that took effect on the chain was confirmed to the client, that every
  confirmed one took effect, and that the chain decodes a transaction body into the message that was marshalled. Then, whatever the nodes answer and
  however often the client retries, changes endpoints or the flush falls back to single sends, the flush ends, every request is answered once, in
  order, and the payments that the transactions in effect make, recipient by recipient and with their coins, are exactly those of the
  requests answered with a transaction hash: each of these is paid once, the others not at all, and nobody else is paid.\<close>

theorem flush_pays_what_it_reports:
  assumes "fl_pc f = FlushStart" "flush_on (length (fl_reqs f) + 4) hash160 sx env 0 c cl f = (c', cl', f', sl, ds)"
    and "reads_back (sx_codec sx) read_body"
    and "\<forall>s \<in> set sl. \<forall>a \<in> set (sl_attempts s). landed a \<longleftrightarrow> is_ok (at_result a)"
  shows "fl_pc f' = FlushDone \<and> map fst ds = map bq_id (fl_reqs f) \<and>
    chain_payments read_body landed sl =
      map (\<lambda>(r, _). (bq_to_address r, bq_coins r)) (filter (\<lambda>(_, d). is_ok (snd d)) (zip (fl_reqs f) ds))"
proof -
  obtain n where n: "n = length (fl_reqs f) + 3" and run: "flush_on (Suc n) hash160 sx env 0 c cl f = (c', cl', f', sl, ds)"
    using assms(2) by (metis add_Suc_right eval_nat_numeral(2) numeral_3_eq_3 semiring_norm(26) semiring_norm(27))
  have call: "flush_call c f = None" using assms(1) by (simp add: flush_call_def flush_step_def)
  have "fl_pc f' = FlushDone \<and> map fst ds = map bq_id (fl_reqs f) \<and> chain_payments read_body landed sl = reported (fl_reqs f) ds"
  proof (cases "ch_suspended c")
    case True
    then have "sl = []" "fl_pc f' = FlushDone" "ds = sendErrAll (fl_reqs f) FlushSuspended"
      using assms(1) run call by (auto simp: flush_step_def flush_on_done)
    then show ?thesis using reported_none[of ds] by (auto simp: sendErrAll_def comp_def)
  next
    case False
    let ?f = "f\<lparr>fl_pc := if ch_multi_disabled c then enter_split c False else FlushMulti False\<rparr>"
    have r: "flush_on n hash160 sx env 0 c cl ?f = (c', cl', f', sl, ds)"
      using False assms(1) run call by (auto simp: flush_step_def split: prod.splits)
    show ?thesis
      using flush_on_multi[where second = False, OF _ _ r assms(3,4)] flush_on_split[where i = 0 and att = False, OF _ _ _ r assms(3,4)]
      by (cases "ch_multi_disabled c") (simp_all add: n enter_split_def)
  qed
  then show ?thesis by (simp add: reported_def asked_def case_prod_unfold comp_def)
qed

text \<open>C19: A batch whose confirmation is refused is paid twice. One transaction of the multi-send of a batch takes effect on the chain, but the client
  reports an error that is neither a sequence mismatch nor an insufficient fee: the polling request was answered with a status other than
  200, 404 or a server error, as by a node that limits the request rate, or was not understood. Then the flush sends every request again;
  if all of these single sends are confirmed, so that every request is answered with success, then the transactions in effect pay the
  whole batch twice, every recipient with the coins asked for.\<close>

theorem refused_confirmation_pays_twice:
  assumes "fl_pc f = FlushStart" "\<not> ch_suspended c" "\<not> ch_multi_disabled c"
    and "client_does hash160 sx (multi_call f) (env 0) cl = (Err e, as, cl1)" "\<not> IsSequenceMismatch e" "\<not> IsInsufficientFee e"
    and "filter landed as = [a]" "txs_sent a \<noteq> []"
    and "flush_on (length (fl_reqs f) + 4) hash160 sx env 0 c cl f = (c', cl', f', sl, ds)" "reads_back (sx_codec sx) read_body"
    and "\<forall>d \<in> set ds. is_ok (snd d)" "\<forall>s \<in> set (tl sl). \<forall>a \<in> set (sl_attempts s). landed a \<longleftrightarrow> is_ok (at_result a)"
  shows "chain_payments read_body landed sl =
    map (\<lambda>r. (bq_to_address r, bq_coins r)) (fl_reqs f) @ map (\<lambda>r. (bq_to_address r, bq_coins r)) (fl_reqs f)"
proof -
  let ?s = "\<lparr>sl_call = multi_call f, sl_result = Err e, sl_attempts = as\<rparr>" and ?n = "length (fl_reqs f) + 2"
  let ?f1 = "f\<lparr>fl_pc := FlushMulti False\<rparr>" and ?f2 = "f\<lparr>fl_pc := enter_split c True\<rparr>"
  have "flush_on (Suc (Suc ?n)) hash160 sx env 0 c cl f = (c', cl', f', sl, ds)" using assms(9) by (simp add: numeral_eq_Suc)
  then have "flush_on (Suc ?n) hash160 sx env 0 c cl ?f1 = (c', cl', f', sl, ds)"
    using assms(1-3) by (auto simp: flush_step_def flush_call_def simp del: flush_on.simps(2)[of "Suc _"] split: prod.splits)
  moreover have "flush_call c ?f1 = Some (multi_call f)" by (simp add: flush_call_def flush_step_def multi_call_def Let_def)
  ultimately obtain sl2 where rest: "flush_on ?n hash160 sx env (Suc 0) c cl1 ?f2 = (c', cl', f', sl2, ds)" "sl = ?s # sl2"
    using assms(4-6) by (auto simp: flush_step_def Let_def split: prod.splits)
  have "map fst ds = map bq_id (fl_reqs f)" "chain_payments read_body landed sl2 = reported (fl_reqs f) ds"
    using flush_on_split[OF _ _ _ rest(1) assms(10), of True _ 0 landed] assms(12) rest(2) by (auto simp: enter_split_def)
  moreover from this(1) have "length ds = length (fl_reqs f)" by (metis length_map)
  ultimately have "chain_payments read_body landed sl2 = asked (fl_reqs f)" using reported_all assms(11) by simp
  moreover have "a \<in> set as" using assms(7) by (metis filter_is_subset list.set_intros(1) subset_iff)
  then have "attempt_payments read_body a = asked (fl_reqs f)" using client_does_sent[OF assms(4) _ assms(10)] assms(8) by simp
  ultimately show ?thesis using assms(7) rest(2) by (simp add: asked_def)
qed

subsection \<open>A codec that reads back\<close>

lemma get_put_len [simp]: "get_len (put_len n @ r) = (n, r)"
  by (induction n) (simp_all add: put_len_def)

lemma get_put_list:
  assumes "\<And>x r. get (put x @ r) = (f x, r)"
  shows "get_list get (put_list put xs @ r) = (map f xs, r)"
proof -
  have "get_times get (length xs) (concat (map put xs) @ r) = (map f xs, r)" by (induction xs) (simp_all add: assms)
  then show ?thesis by (simp add: get_list_def put_list_def)
qed

lemma get_put_str [simp]: "get_str (put_str s @ r) = (s, r)"
proof -
  have "get_list get_byte (put_str s @ r) = (map (\<lambda>c. of_nat (code_of c)) s, r)"
    unfolding put_str_def by (rule get_put_list) (simp add: get_byte_def)
  moreover have "char_of (unat (word_of_nat (code_of c) :: byte)) = c" for c
    by (simp add: code_of_def unat_of_nat)
  ultimately show ?thesis by (simp add: get_str_def comp_def)
qed

lemma get_put_coin [simp]: "get_coin (put_coin c @ r) = (c, r)"
  by (simp add: get_coin_def put_coin_def get_pair_def)

lemma get_put_coins [simp]: "get_list get_coin (put_list put_coin cs @ r) = (cs, r)"
  using get_put_list[of get_coin put_coin "\<lambda>x. x"] by simp

lemma get_put_outputs [simp]: "get_list get_output (put_list put_output outs @ r) = (outs, r)"
  using get_put_list[of get_output put_output "\<lambda>x. x"] by (simp add: get_output_def put_output_def get_pair_def)

lemma get_put_strs [simp]: "get_list get_str (put_list put_str ss @ r) = (ss, r)"
  using get_put_list[of get_str put_str "\<lambda>x. x"] by simp

lemma get_put_msg: "get_msg (put_msg m) = m"
  using get_put_coins[of _ "[]"] get_put_outputs[of _ "[]"] get_put_strs[of _ "[]"]
  by (cases m) (simp_all add: get_msg_def get_byte_def get_pair_def)

lemma get_put_any: "get_pair get_str (get_list get_byte) (put_any a @ r) = (a, r)"
proof -
  have "get_list get_byte (put_list (\<lambda>b. [b]) bs @ r) = (bs, r)" for bs
    using get_put_list[of get_byte "\<lambda>b. [b]" "\<lambda>x. x"] by (simp add: get_byte_def)
  then show ?thesis by (simp add: put_any_def get_pair_def)
qed

lemma unary_reads_back: "reads_back (sx_codec unary_ctx) read_anys"
proof -
  have "get_list (get_pair get_str (get_list get_byte)) (put_list put_any as) = (as, [])" for as
    using get_put_list[of "get_pair get_str (get_list get_byte)" put_any "\<lambda>x. x" as "[]"] get_put_any by simp
  then show ?thesis by (auto simp: reads_back_def unary_ctx_def read_anys_def get_put_msg)
qed

lemma limited_multi:
  "case client_does demo_hash160 unary_ctx (multi_call pair_flush) (limited_env 0) rest_client of
     (Inl e, as, _) \<Rightarrow> \<not> IsSequenceMismatch e \<and> \<not> IsInsufficientFee e \<and> map accepted as = [True]
   | _ \<Rightarrow> False"
  by code_simp

lemma limited_run:
  "case flush_on 6 demo_hash160 unary_ctx limited_env 0 batch_chain rest_client pair_flush of (_, _, _, sl, ds) \<Rightarrow>
     list_all (\<lambda>d. is_ok (snd d)) ds \<and> length ds = 2 \<and> answers_ok accepted (tl sl)"
  by code_simp

lemma unlimited_run:
  "case flush_on 6 demo_hash160 unary_ctx (limited_env \<circ> Suc) 0 batch_chain rest_client pair_flush of (_, _, _, sl, ds) \<Rightarrow>
     list_all (\<lambda>d. is_ok (snd d)) ds \<and> length ds = 2 \<and> answers_ok accepted sl"
  by code_simp

lemma accepted_sent: "accepted a \<Longrightarrow> txs_sent a \<noteq> []"
  by (auto simp: accepted_iff txs_sent_def dest: sent_in_txs)

theorem flush_pays_what_it_reports_witness:
  "case flush_on 6 demo_hash160 unary_ctx (limited_env \<circ> Suc) 0 batch_chain rest_client pair_flush of (_, _, _, sl, _) \<Rightarrow>
     chain_payments read_anys accepted sl = asked (fl_reqs pair_flush)"
proof -
  obtain c' cl' f' sl ds where r: "flush_on 6 demo_hash160 unary_ctx (limited_env \<circ> Suc) 0 batch_chain rest_client pair_flush = (c', cl', f', sl, ds)"
    by (metis prod_cases5)
  have u: "list_all (\<lambda>d. is_ok (snd d)) ds" "length ds = 2" "answers_ok accepted sl" using unlimited_run unfolding r by simp_all
  have p: "fl_pc pair_flush = FlushStart" "length (fl_reqs pair_flush) + 4 = 6" "length (fl_reqs pair_flush) = 2" by (simp_all add: pair_flush_def)
  have a: "\<forall>s \<in> set sl. \<forall>a \<in> set (sl_attempts s). accepted a \<longleftrightarrow> is_ok (at_result a)" using u(3) by (simp add: answers_ok_def list_all_iff)
  have "reported (fl_reqs pair_flush) ds = asked (fl_reqs pair_flush)" using u(1,2) p(3) by (intro reported_all) (simp_all add: list_all_iff)
  then show ?thesis using flush_pays_what_it_reports[OF p(1) r[folded p(2)] unary_reads_back a] unfolding r
    by (simp add: reported_def asked_def case_prod_unfold comp_def)
qed

theorem refused_confirmation_pays_twice_witness:
  "case flush_on 6 demo_hash160 unary_ctx limited_env 0 batch_chain rest_client pair_flush of (_, _, _, sl, ds) \<Rightarrow>
     chain_payments read_anys accepted sl = asked (fl_reqs pair_flush) @ asked (fl_reqs pair_flush) \<and> list_all (\<lambda>d. is_ok (snd d)) ds"
proof -
  obtain c' cl' f' sl ds where r: "flush_on 6 demo_hash160 unary_ctx limited_env 0 batch_chain rest_client pair_flush = (c', cl', f', sl, ds)"
    by (metis prod_cases5)
  have u: "list_all (\<lambda>d. is_ok (snd d)) ds" "answers_ok accepted (tl sl)" using limited_run unfolding r by simp_all
  have p: "fl_pc pair_flush = FlushStart" "length (fl_reqs pair_flush) + 4 = 6" by (simp_all add: pair_flush_def)
  have a: "\<forall>s \<in> set (tl sl). \<forall>a \<in> set (sl_attempts s). accepted a \<longleftrightarrow> is_ok (at_result a)" using u(2) by (simp add: answers_ok_def list_all_iff)
  obtain e as cl1 where m: "client_does demo_hash160 unary_ctx (multi_call pair_flush) (limited_env 0) rest_client = (Err e, as, cl1)"
      "\<not> IsSequenceMismatch e" "\<not> IsInsufficientFee e" "map accepted as = [True]"
    using limited_multi by (auto split: prod.splits sum.splits)
  then obtain a1 where t: "filter accepted as = [a1]" "txs_sent a1 \<noteq> []" by (cases as) (auto dest: accepted_sent)
  have c: "\<not> ch_suspended batch_chain" "\<not> ch_multi_disabled batch_chain" by (simp_all add: batch_chain_def)
  have d: "\<forall>d \<in> set ds. is_ok (snd d)" using u(1) by (simp add: list_all_iff)
  from refused_confirmation_pays_twice[OF p(1) c m(1-3) t r[folded p(2)] unary_reads_back d a] show ?thesis
    using u(1) unfolding r by (simp add: asked_def)
qed

end
