(* ===== verification/Httplog.thy ===== *)
theory Httplog
  imports Ibc
begin

text \<open>
  The request logger of \<^verbatim>\<open>internal/http/middleware/logger.go\<close>, the life of the HTTP server (\<^verbatim>\<open>Server.Start\<close> of \<^verbatim>\<open>internal/http/server.go\<close>), and
  the denomination of \<^verbatim>\<open>internal/ibc/denom.go\<close>. A handler is the calls it makes on its response writer and whether it panics; the wrapped
  writer of \<^verbatim>\<open>net/http\<close> takes the status of the first \<^verbatim>\<open>WriteHeader\<close>, or 200 at the first \<^verbatim>\<open>Write\<close>. The lemmas show that the status logged is
  the one the client gets.
\<close>

datatype writer_call = WriteHeader nat | Write "byte list"

record response_writer =
  rw_status :: nat
  rw_written :: bool
  rw_forwarded :: "writer_call list"

definition forward :: "writer_call \<Rightarrow> response_writer \<Rightarrow> response_writer" where
  "forward w rw = rw\<lparr>rw_forwarded := rw_forwarded rw @ [w]\<rparr>"

definition rw_WriteHeader :: "nat \<Rightarrow> response_writer \<Rightarrow> response_writer" where
  "rw_WriteHeader status rw =
     (if \<not> rw_written rw then forward (WriteHeader status) (rw\<lparr>rw_status := status, rw_written := True\<rparr>) else rw)"

definition rw_Write :: "byte list \<Rightarrow> response_writer \<Rightarrow> response_writer" where
  "rw_Write b rw = forward (Write b) (if \<not> rw_written rw then rw_WriteHeader 200 rw else rw)"

definition rw_call :: "writer_call \<Rightarrow> response_writer \<Rightarrow> response_writer" where
  "rw_call w = (case w of WriteHeader s \<Rightarrow> rw_WriteHeader s | Write b \<Rightarrow> rw_Write b)"

text \<open>The calls that reach the wrapped writer, and the status logged; a panic of the handler passes by the logger.\<close>

definition Logger :: "writer_call list \<Rightarrow> bool \<Rightarrow> writer_call list \<times> nat option" where
  "Logger calls panics =
     (let wrapped = fold rw_call calls \<lparr>rw_status = 200, rw_written = False, rw_forwarded = []\<rparr>
      in (rw_forwarded wrapped, if panics then None else Some (rw_status wrapped)))"

text \<open>What the client of \<^verbatim>\<open>net/http\<close> gets.\<close>

fun client_status :: "writer_call list \<Rightarrow> nat" where
  "client_status [] = 200"
| "client_status (WriteHeader s # _) = s"
| "client_status (Write _ # _) = 200"

definition client_body :: "writer_call list \<Rightarrow> byte list" where
  "client_body ws = concat (map (\<lambda>w. case w of Write b \<Rightarrow> b | WriteHeader _ \<Rightarrow> []) ws)"

datatype serve_event = ServeEnded "string option" | ContextDone "string option"
datatype serve_error = ServeFailed string | ShutdownFailed string

text \<open>\<^verbatim>\<open>ServeEnded\<close> is the error channel: an error of \<^verbatim>\<open>ListenAndServe\<close>, or its closing; \<^verbatim>\<open>ContextDone\<close> carries the error of the shutdown.\<close>

definition server_Start :: "serve_event \<Rightarrow> (serve_error, unit) result" where
  "server_Start ev =
     (case ev of
        ServeEnded (Some e) \<Rightarrow> Err (ServeFailed e)
      | ServeEnded None \<Rightarrow> Ok ()
      | ContextDone (Some e) \<Rightarrow> Err (ShutdownFailed e)
      | ContextDone None \<Rightarrow> Ok ())"

definition upper_hex :: "byte list \<Rightarrow> string" where
  "upper_hex bs = concat (map (\<lambda>b. [''0123456789ABCDEF'' ! (unat b div 16), ''0123456789ABCDEF'' ! (unat b mod 16)]) bs)"

definition Denom :: "(byte list \<Rightarrow> byte list) \<Rightarrow> string \<Rightarrow> string \<Rightarrow> string \<Rightarrow> string" where
  "Denom sha256 port channel baseDenom =
     ''ibc/'' @ upper_hex (sha256 (map (\<lambda>c. of_nat (of_char c)) (port @ ''/'' @ channel @ ''/'' @ baseDenom)))"

subsection \<open>The status logged is the status sent\<close>

definition rw_inv :: "writer_call list \<Rightarrow> response_writer \<Rightarrow> bool" where
  "rw_inv calls rw \<longleftrightarrow>
     client_status calls = client_status (rw_forwarded rw) \<and> client_body calls = client_body (rw_forwarded rw) \<and>
     rw_status rw = client_status calls \<and> (rw_written rw \<longleftrightarrow> calls \<noteq> []) \<and> (rw_written rw \<longleftrightarrow> rw_forwarded rw \<noteq> [])"

lemma client_status_append: "xs \<noteq> [] \<Longrightarrow> client_status (xs @ ys) = client_status xs"
  by (cases xs rule: client_status.cases) auto

lemma client_body_append [simp]: "client_body (xs @ ys) = client_body xs @ client_body ys"
  by (simp add: client_body_def)

lemma rw_inv_call:
  assumes "rw_inv calls rw"
  shows "rw_inv (calls @ [w]) (rw_call w rw)"
  using assms
  by (cases w) (auto simp: rw_inv_def rw_call_def rw_WriteHeader_def rw_Write_def forward_def client_status_append client_body_def)

lemma rw_inv_calls: "rw_inv calls (fold rw_call calls \<lparr>rw_status = 200, rw_written = False, rw_forwarded = []\<rparr>)"
proof (induction calls rule: rev_induct)
  case Nil
  then show ?case by (simp add: rw_inv_def)
next
  case (snoc w ws)
  then show ?case using rw_inv_call by simp
qed

theorem Logger_transparent:
  "case Logger calls False of (forwarded, logged) \<Rightarrow>
     logged = Some (client_status forwarded) \<and> client_status forwarded = client_status calls \<and> client_body forwarded = client_body calls"
  using rw_inv_calls[of calls] by (simp add: Logger_def Let_def rw_inv_def)

text \<open>The denomination has 68 characters when the hash has 32 bytes, and two hops have the same one only if the hashes agree.\<close>

lemma upper_hex_inj:
  assumes "upper_hex xs = upper_hex ys"
  shows "xs = ys"
proof -
  have d: "''0123456789ABCDEF'' ! i = ''0123456789ABCDEF'' ! j \<longleftrightarrow> i = j" if "i < 16" "j < 16" for i j
    using that by (intro nth_eq_iff_index_eq) simp_all
  have b: "unat x div 16 < 16" "unat x mod 16 < 16" for x :: byte using unsigned_less[where 'a = nat, of x] by auto
  have e: "x = y" if "unat x div 16 = unat y div 16" "unat x mod 16 = unat y mod 16" for x y :: byte
    using that by (metis div_mult_mod_eq word_unat_eq_iff)
  show ?thesis using assms
  proof (induction xs arbitrary: ys)
    case Nil
    then show ?case by (cases ys) (simp_all add: upper_hex_def)
  next
    case (Cons x xs)
    then obtain y zs where ys: "ys = y # zs" by (cases ys) (simp_all add: upper_hex_def)
    then show ?case using Cons d[OF b(1) b(1), of x y] d[OF b(2) b(2), of x y] e[of x y] by (auto simp: upper_hex_def)
  qed
qed

lemma Denom_determines_hash:
  assumes "Denom sha256 p c d = Denom sha256 p' c' d'"
  shows "sha256 (map (\<lambda>c. of_nat (of_char c)) (p @ ''/'' @ c @ ''/'' @ d)) = sha256 (map (\<lambda>c. of_nat (of_char c)) (p' @ ''/'' @ c' @ ''/'' @ d'))"
  using assms upper_hex_inj by (simp add: Denom_def)

end
