(* ===== verification/Spec2Isabelle.thy ===== *)
theory Spec2Isabelle
  imports Bech32 Coins Ratelimit Nonce Signed Apikey Config Gate Batch Registry Ibc Overrides Txerr Endpoint Chain Transport Fee Msgs Client Gascache Manager Handlers Netip Admin Server Devnet Migrate Cli Keys Startup Flush Httplog
begin

text \<open>
  A verification of \<^verbatim>\<open>pour\<close>, a token faucet for Cosmos chains written in Go.

  \<^bold>\<open>The program.\<close> One daemon serves many chains. A client posts an address and a chain (\<^verbatim>\<open>internal/http\<close>); the abuse gate
  (\<^verbatim>\<open>internal/abuse\<close>) admits the request by API key, signed challenge, proof of work or anonymously, within a per-IP limit and a daily maximum per
  address; the request is then paid, either at once or through the queue of a distributor account (\<^verbatim>\<open>internal/batch\<close>, \<^verbatim>\<open>internal/chain\<close>), by the
  transaction client (\<^verbatim>\<open>internal/tx\<close>), and written to the audit log (\<^verbatim>\<open>internal/store\<close>). What is known of a chain comes from the chain registry
  (\<^verbatim>\<open>pkg/chainregistry\<close>), from the configuration file (\<^verbatim>\<open>internal/config\<close>) and from what an operator accepted (\<^verbatim>\<open>internal/admin\<close>, \<^verbatim>\<open>cmd/pour\<close>).

  \<^bold>\<open>Conventions.\<close> Every definition translates the code named at its theory. Errors are values of a result type (\<^verbatim>\<open>Inl\<close> the error, written \<^verbatim>\<open>Err\<close> and
  \<^verbatim>\<open>Ok\<close>); state is a record that operations return updated; SQL tables are lists of rows or maps; every database, file or random call may
  fail, by an argument that says which do; the clock is an argument; where Go iterates over a map, or goroutines arrive in some order, the
  order is an argument, and theorems hold for all of them. Where a theorem needs such an order to be one of the map at hand, this is a hypothesis
  (\<^verbatim>\<open>orders_fit\<close>). Strings are lists of 8-bit characters, the bytes of Go's strings; comparing without regard to case (\<^verbatim>\<open>strings.EqualFold\<close>) and ranging over a
  string decode them as UTF-8, while lower-casing and trimming treat ASCII only. Integers are \<^verbatim>\<open>int\<close> with the wrap-around
  written out where the code can reach it (\<^verbatim>\<open>to_int64\<close>), or words (bech32, base64, IP addresses, key derivation).
  Code outside the repository is an argument: argon2, SHA-256, RIPEMD-160, HMAC, secp256k1, BIP-39, Altcha, the decimal and protobuf packages,
  SQLite's conversions, YAML and duration parsing, the nodes and the registry's HTTP server. What the code relies on of them is a locale
  (\<^verbatim>\<open>sqlite_laws\<close>, \<^verbatim>\<open>decimal_laws\<close>, \<^verbatim>\<open>decimal_order\<close>, \<^verbatim>\<open>key_laws\<close>), each interpreted on a concrete instance.

  \<^bold>\<open>Values.\<close>
  \<^item> \<^verbatim>\<open>Prelude\<close>: results, Go's \<^verbatim>\<open>strings\<close>, \<^verbatim>\<open>strconv\<close>, \<^verbatim>\<open>math/big\<close> and \<^verbatim>\<open>encoding/hex\<close>. \<^verbatim>\<open>Base64\<close>, \<^verbatim>\<open>Netip\<close>: \<^verbatim>\<open>encoding/base64\<close>, and addresses and
    networks of \<^verbatim>\<open>net\<close>.
  \<^item> \<^verbatim>\<open>Bech32\<close>: the codec of \<^verbatim>\<open>tx/internal/keys/derive.go\<close> and \<^verbatim>\<open>tx/address.go\<close>: encoding and decoding are inverse, and nothing but the canonical form
    decodes. \<^verbatim>\<open>Keys\<close>: the derivation of private keys is that of BIP-32 along the BIP-44 path, wherever the standard defines it.
  \<^item> \<^verbatim>\<open>Coins\<close>: \<^verbatim>\<open>tx/types.go\<close> and the coin parser, with their round trip.

  \<^bold>\<open>The abuse gate.\<close>
  \<^item> \<^verbatim>\<open>Ratelimit\<close>: \<^verbatim>\<open>ratelimit.go\<close>. Its locale \<^verbatim>\<open>sliding_window\<close> turns a bound on one check into a bound on every window of a run, and is
    interpreted for addresses, IPs, keys, the gate and the handlers. The SQL table refines a log of the admissions.
  \<^item> \<^verbatim>\<open>Nonce\<close>, \<^verbatim>\<open>Signed\<close>, \<^verbatim>\<open>Apikey\<close>: \<^verbatim>\<open>signed/nonce.go\<close>, \<^verbatim>\<open>predicate.go\<close>, \<^verbatim>\<open>verifier.go\<close>, \<^verbatim>\<open>apikey/store.go\<close>. A nonce is used once, a signature binds an ASCII address
    and the challenge, a key is authenticated by its issued secret or a collision with it only, and never after its revocation.
  \<^item> \<^verbatim>\<open>Gate\<close>: \<^verbatim>\<open>gate.go\<close>: an admission rests on the evidence of the mechanism that the priority rule selects; a signed request is not replayed.

  \<^bold>\<open>Configuration and registry.\<close>
  \<^item> \<^verbatim>\<open>Config\<close>, \<^verbatim>\<open>Overrides\<close>: \<^verbatim>\<open>config/chains.go\<close>: defaults and validation: exactly the configurations that meet a field-by-field specification load; conversion to overrides.
  \<^item> \<^verbatim>\<open>Registry\<close>, \<^verbatim>\<open>Ibc\<close>: \<^verbatim>\<open>pkg/chainregistry\<close>: field policy, overrides, resolution, the store with live updates and acceptance, channel
    selection and the concurrent fetch. Identity fields freeze; the result of a fetch does not depend on arrival order.

  \<^bold>\<open>Chains and transactions.\<close>
  \<^item> \<^verbatim>\<open>Batch\<close>, \<^verbatim>\<open>Chain\<close>: \<^verbatim>\<open>batch/window.go\<close>, \<^verbatim>\<open>pool.go\<close>, \<^verbatim>\<open>chain/chain.go\<close>, \<^verbatim>\<open>refill.go\<close>. Queues implement the locale \<^verbatim>\<open>bounded_fifo\<close>; a running chain is
    a step relation over requests, batches and flushes in flight, in which every accepted request gets exactly one result.
  \<^item> \<^verbatim>\<open>Txerr\<close>, \<^verbatim>\<open>Endpoint\<close>, \<^verbatim>\<open>Transport\<close>, \<^verbatim>\<open>Fee\<close>, \<^verbatim>\<open>Msgs\<close>, \<^verbatim>\<open>Client\<close>: \<^verbatim>\<open>internal/tx\<close>. Endpoint pools implement \<^verbatim>\<open>health_pool\<close>, the REST and gRPC transports
    implement \<^verbatim>\<open>transport_contract\<close>, on which the retry loops rest: a send ends after at most eight attempts and does not pay twice on its own account.
  \<^item> \<^verbatim>\<open>Flush\<close>: the flush carried out by the client. Payments are read from the transactions sent, through the reader of the protobuf codec: who is paid
    what agrees with what is reported when exactly the confirmed transactions take effect, and a batch is paid twice when its confirmation is refused.
  \<^item> \<^verbatim>\<open>Gascache\<close>, \<^verbatim>\<open>Manager\<close>: \<^verbatim>\<open>internal/gascache\<close>, \<^verbatim>\<open>chain/manager.go\<close>, \<^verbatim>\<open>devnet_watcher.go\<close>: averages, trust and decay; reconciliation of the
    active chains with the registry store, refresh, reload and the watcher.

  \<^bold>\<open>The daemon and its tools.\<close>
  \<^item> \<^verbatim>\<open>Handlers\<close>: \<^verbatim>\<open>http/handlers/pour.go\<close> and \<^verbatim>\<open>store/drips.go\<close>: the whole request, from body to audit log: what the calls
    that move coins ask for, and the daily maximum of each chain and denomination over any run.
  \<^item> \<^verbatim>\<open>Admin\<close>, \<^verbatim>\<open>Server\<close>, \<^verbatim>\<open>Httplog\<close>: \<^verbatim>\<open>internal/admin\<close>, \<^verbatim>\<open>abuse/pow\<close>, \<^verbatim>\<open>http/server.go\<close>, \<^verbatim>\<open>middleware/logger.go\<close>, \<^verbatim>\<open>internal/ibc\<close>: token store, allowlist,
    all admin handlers, router, read-only endpoints, logger.
  \<^item> \<^verbatim>\<open>Devnet\<close>, \<^verbatim>\<open>Migrate\<close>, \<^verbatim>\<open>Startup\<close>: \<^verbatim>\<open>internal/devnet\<close>, \<^verbatim>\<open>store/sqlite.go\<close>, \<^verbatim>\<open>cmd/pour/main.go\<close>: automatic mode, migrations, and \<^verbatim>\<open>ServeCmd.Run\<close>: what
    holds when the server begins to listen, and that a restart yields the same daemon.
  \<^item> \<^verbatim>\<open>Cli\<close>: \<^verbatim>\<open>cmd/pour/admin.go\<close>, \<^verbatim>\<open>adminclient.go\<close>, \<^verbatim>\<open>chains.go\<close>: every admin command against the admin API; when \<^verbatim>\<open>diff\<close> reports
    no changes, and that accepting everything leaves nothing pending.

  \<^bold>\<open>Bounds.\<close> The confirmation loop is given 17 iterations: it polls every two seconds for thirty seconds. A flush is run for four steps more than
  its batch has requests, which the flush theorems show to be enough. A send has at most four rounds of two attempts, as in the code. Waiting
  for funds may never end; it is a partial function whose divergence is characterised. Everything else is total.

  \<^bold>\<open>Not modelled.\<close> Prometheus metrics and log lines, which nothing reads back; the embedded web UI; the flag parser and command tree of kong and the
  alignment of printed tables; the version and key generation commands, which print what a library returns; the tickers and goroutines that
  repeat an operation (one pass of each is modelled, and its interleavings where they matter); context deadlines other than as errors
  of calls; generated protobuf code; the end-to-end harness and the fake chain servers, which are test code.
\<close>

end
